(* ===== verification/Prelude.thy ===== *)
theory Prelude
  imports Main "HOL-Library.Word"
begin

unbundle bit_operations_syntax

text \<open>
  What every component shares: the machine types of include/type.h, the rounding macros, the
  error codes of include/error.h, the result type of code that may leave the normal control
  flow (a panic, an exception return, a loop without end), and the rewrite rules about them.
\<close>

section \<open>Machine types\<close>

type_synonym u8 = "8 word"
type_synonym u16 = "16 word"
type_synonym u32 = "32 word"
type_synonym u64 = "64 word"

text \<open>Collections that the component theories extend and use with \<open>simp add:\<close>.\<close>

named_theorems outcome_simps "reductions of the control-flow results"
named_theorems field_simps_os "reads of an updated kernel object"
named_theorems word_page_simps "page arithmetic on 64-bit words"

section \<open>Error codes (include/error.h)\<close>

text \<open>The C code returns these negated, as an \<open>int\<close>.\<close>

abbreviation (input) E_UNSPECIFIED :: int where "E_UNSPECIFIED \<equiv> 1"
abbreviation (input) E_BAD_ENV :: int where "E_BAD_ENV \<equiv> 2"
abbreviation (input) E_INVAL :: int where "E_INVAL \<equiv> 3"
abbreviation (input) E_NO_MEM :: int where "E_NO_MEM \<equiv> 4"
abbreviation (input) E_NO_FREE_ENV :: int where "E_NO_FREE_ENV \<equiv> 5"
abbreviation (input) E_IPC_NOT_RECV :: int where "E_IPC_NOT_RECV \<equiv> 6"
abbreviation (input) E_NO_DISK :: int where "E_NO_DISK \<equiv> 7"
abbreviation (input) E_MAX_OPEN :: int where "E_MAX_OPEN \<equiv> 8"
abbreviation (input) E_NOT_FOUND :: int where "E_NOT_FOUND \<equiv> 9"
abbreviation (input) E_BAD_PATH :: int where "E_BAD_PATH \<equiv> 10"
abbreviation (input) E_FILE_EXISTS :: int where "E_FILE_EXISTS \<equiv> 11"
abbreviation (input) E_NOT_EXEC :: int where "E_NOT_EXEC \<equiv> 12"

section \<open>Rounding (include/type.h)\<close>

text \<open>\<open>ROUND(a, n)\<close> and \<open>ROUNDDOWN(a, n)\<close>, at the width the macros cast to.\<close>

definition ROUND :: "u64 \<Rightarrow> u64 \<Rightarrow> u64" where
  "ROUND a n = (a + n - 1) AND NOT (n - 1)"

definition ROUNDDOWN :: "u64 \<Rightarrow> u64 \<Rightarrow> u64" where
  "ROUNDDOWN a n = a AND NOT (n - 1)"

lemma mask12: "(4095 :: u64) = mask 12"
  by (simp add: mask_eq_exp_minus_1)

lemma AND_NOT_mask: "a AND NOT (mask n) = push_bit n (drop_bit n (a :: 'a :: len word))"
  by (rule bit_word_eqI) (auto simp: bit_simps)

lemma unat_AND_NOT_mask:
  "unat (a AND NOT (mask n) :: 'a :: len word) = unat a div 2 ^ n * 2 ^ n"
proof -
  have "unat (a AND NOT (mask n)) = take_bit LENGTH('a) (push_bit n (drop_bit n (unat a)))"
    by (simp add: AND_NOT_mask unat_drop_bit_eq unsigned_push_bit_eq)
  also have "drop_bit n (unat a) * 2 ^ n \<le> unat a"
    by (simp add: drop_bit_eq_div)
  then have "push_bit n (drop_bit n (unat a)) < 2 ^ LENGTH('a)"
    by (metis order_le_less_trans push_bit_eq_mult unsigned_less)
  then have "take_bit LENGTH('a) (push_bit n (drop_bit n (unat a))) = push_bit n (drop_bit n (unat a))"
    by (simp add: take_bit_nat_eq_self_iff)
  finally show ?thesis by (simp add: push_bit_eq_mult drop_bit_eq_div)
qed

lemma unat_ROUNDDOWN [word_page_simps]:
  "unat (ROUNDDOWN a 4096) = unat a div 4096 * 4096"
  using unat_AND_NOT_mask [of a 12] by (simp add: ROUNDDOWN_def mask12)

lemma unat_ROUND [word_page_simps]:
  assumes "unat a + 4095 < 2 ^ 64"
  shows "unat (ROUND a 4096) = (unat a + 4095) div 4096 * 4096"
proof -
  have "unat (a + 4095) = unat a + 4095"
    using assms by (subst unat_add_lem [THEN iffD1]) simp_all
  then show ?thesis
    using unat_AND_NOT_mask [of "a + 4095" 12] by (simp add: ROUND_def mask12 add.commute)
qed

lemma unat_plus_one [word_page_simps]: "w \<noteq> -1 \<Longrightarrow> unat (w + 1) = unat w + 1"
  for w :: "'a :: len word"
  by (metis Suc_eq_plus1 add.commute eq_neg_iff_add_eq_0 unatSuc)

lemma plus_one_gt_0 [word_page_simps]: "w \<noteq> -1 \<Longrightarrow> w + 1 > (0 :: 'a :: len word)"
  by (metis eq_neg_iff_add_eq_0 word_gt_0)

section \<open>Control flow\<close>

text \<open>
  The result of a step of kernel or server code. \<open>Ret\<close> returns to the caller with a value;
  \<open>Eret\<close> is the exception return at the end of \<open>env_run\<close>, after which the caller's code is
  never resumed; \<open>Panic\<close> is \<open>panic\<close> or \<open>user_panic\<close>, which print and loop; \<open>Hang\<close> is any other
  loop that never ends.
\<close>

datatype ('a, 's) outcome =
    Ret 'a 's
  | Eret 's
  | Panic string 's
  | Hang

fun obind :: "('a, 's) outcome \<Rightarrow> ('a \<Rightarrow> 's \<Rightarrow> ('b, 's) outcome) \<Rightarrow> ('b, 's) outcome" where
  "obind (Ret a s) f = f a s"
| "obind (Eret s) f = Eret s"
| "obind (Panic m s) f = Panic m s"
| "obind Hang f = Hang"

text \<open>A partial function that does not return is a hang.\<close>

definition of_opt :: "('a, 's) outcome option \<Rightarrow> ('a, 's) outcome" where
  "of_opt r = (case r of None \<Rightarrow> Hang | Some x \<Rightarrow> x)"

lemma of_opt_simps [simp, outcome_simps]:
  "of_opt None = Hang"
  "of_opt (Some x) = x"
  by (simp_all add: of_opt_def)

lemma obind_Ret_iff [outcome_simps]:
  "obind m f = Ret b s' \<longleftrightarrow> (\<exists>a s. m = Ret a s \<and> f a s = Ret b s')"
  by (cases m) auto

lemma obind_Eret_iff [outcome_simps]:
  "obind m f = Eret s' \<longleftrightarrow> m = Eret s' \<or> (\<exists>a s. m = Ret a s \<and> f a s = Eret s')"
  by (cases m) auto

text \<open>An invariant of the state whenever a step comes back; after a panic nothing runs any more.\<close>

fun out_inv :: "('s \<Rightarrow> bool) \<Rightarrow> ('a, 's) outcome \<Rightarrow> bool" where
  "out_inv P (Ret a s) = P s"
| "out_inv P (Eret s) = P s"
| "out_inv P (Panic m s) = True"
| "out_inv P Hang = True"

lemma out_inv_obind:
  assumes "out_inv P m" and "\<And>a s. m = Ret a s \<Longrightarrow> P s \<Longrightarrow> out_inv P (f a s)"
  shows "out_inv P (obind m f)"
  using assms by (cases m) auto

text \<open>A loop over a list of numbers, and the rule for an invariant over the numbers it has seen.\<close>

fun each :: "nat list \<Rightarrow> (nat \<Rightarrow> 's \<Rightarrow> (unit, 's) outcome) \<Rightarrow> 's \<Rightarrow> (unit, 's) outcome" where
  "each [] f s = Ret () s"
| "each (i # is) f s = obind (f i s) (\<lambda>_ s. each is f s)"

lemma each_inv:
  assumes "each is f s = Ret () s'" and "I {} s"
    and "\<And>i D t t'. I D t \<Longrightarrow> i \<in> set is \<Longrightarrow> f i t = Ret () t' \<Longrightarrow> I (insert i D) t'"
  shows "I (set is) s'"
proof -
  have "I (D \<union> set is) s'" if "each is f s = Ret () s'" "I D s"
      "\<And>i D t t'. I D t \<Longrightarrow> i \<in> set is \<Longrightarrow> f i t = Ret () t' \<Longrightarrow> I (insert i D) t'" for D s
    using that
  proof (induction "is" arbitrary: D s)
    case (Cons i "is")
    obtain t where t: "f i s = Ret () t" "each is f t = Ret () s'"
      using Cons.prems(1) by (auto simp: obind_Ret_iff)
    have "I (insert i D) t" using Cons.prems(2,3) t(1) by simp
    then have "I (insert i D \<union> set is) s'" using Cons.prems(3) t(2) by (intro Cons.IH) auto
    then show ?case by simp
  qed simp
  from this [of s "{}"] show ?thesis using assms by simp
qed

section \<open>Lists\<close>

lemma find_Some_first:
  "List.find P xs = Some x \<Longrightarrow>
    \<exists>ys zs. xs = ys @ x # zs \<and> P x \<and> (\<forall>y \<in> set ys. \<not> P y)"
proof (induction xs)
  case Nil
  then show ?case by simp
next
  case (Cons a xs)
  show ?case
  proof (cases "P a")
    case True
    with Cons.prems show ?thesis by (intro exI [of _ "[]"] exI [of _ xs]) simp
  next
    case False
    with Cons obtain ys zs where "xs = ys @ x # zs" "P x" "\<forall>y \<in> set ys. \<not> P y"
      by auto
    with False show ?thesis by (intro exI [of _ "a # ys"] exI [of _ zs]) simp
  qed
qed

lemma find_upt_least:
  assumes "List.find P [0..<n] = Some j"
  shows "j < n" and "P j" and "\<And>i. i < j \<Longrightarrow> \<not> P i"
proof -
  obtain ys zs where eq: "[0..<n] = ys @ j # zs" and P: "P j" and ys: "\<forall>y \<in> set ys. \<not> P y"
    using find_Some_first [OF assms] by blast
  have "j \<in> set [0..<n]" unfolding eq by simp
  then show "j < n" by simp
  show "P j" by (rule P)
  have j: "j = length ys"
    using eq nth_upt [of 0 "length ys" n] arg_cong [OF eq, of length]
    by (metis add.left_neutral less_add_Suc1 length_append length_Cons length_upt
        minus_nat.diff_0 nth_append_length add_Suc_right)
  have "ys = [0..<j]"
    using arg_cong [OF eq, of "take (length ys)"] \<open>j < n\<close> j by (simp add: take_upt)
  then show "\<not> P i" if "i < j" for i using ys that by simp
qed

end
