(* ===== verification/Pmap.thy ===== *)
theory Pmap
  imports Prelude
begin

text \<open>
  Physical page management and page tables: mm/pmap.c with the macros of include/mmu.h and
  include/pmap.h. A kernel pointer into physical memory is the number of its physical page and
  an index of one of the page's 512 words, since the code only ever forms such pointers as
  \<open>KADDR(PTE_ADDR(e)) + index\<close>; \<open>struct Page *\<close> is the index into \<open>Kern_pages\<close>, which is the
  page number. The TLB is not part of the state: \<open>tlb_invalidate\<close> has no counterpart.
\<close>

section \<open>Page table entries (include/mmu.h)\<close>

abbreviation (input) VALID :: u64 where "VALID \<equiv> 0x1"
abbreviation (input) TABLE :: u64 where "TABLE \<equiv> 0x2"
abbreviation (input) ACCESSED :: u64 where "ACCESSED \<equiv> 0x400"
abbreviation (input) OUTER_SHARABLE :: u64 where "OUTER_SHARABLE \<equiv> 0x200"
abbreviation (input) INNER_SHARABLE :: u64 where "INNER_SHARABLE \<equiv> 0x300"
abbreviation (input) NORMAL_MEMORY :: u64 where "NORMAL_MEMORY \<equiv> 0x0"
abbreviation (input) DEVICE_MEMORY :: u64 where "DEVICE_MEMORY \<equiv> 0x4"
abbreviation (input) PTE_USER :: u64 where "PTE_USER \<equiv> 0x40"
abbreviation (input) PTE_RW :: u64 where "PTE_RW \<equiv> 0x0"
abbreviation (input) PTE_RO :: u64 where "PTE_RO \<equiv> 0x80"
abbreviation (input) UXN :: u64 where "UXN \<equiv> 0x40000000000000"
abbreviation (input) PTE_LIBRARY :: u64 where "PTE_LIBRARY \<equiv> 0x80000000000000"

abbreviation (input) KERNBASE :: u64 where "KERNBASE \<equiv> 0xffffff8000000000"
abbreviation (input) UVPT :: u64 where "UVPT \<equiv> 0x4000000000"
abbreviation (input) USTACKTOP :: u64 where "USTACKTOP \<equiv> 0x3efff000"
abbreviation (input) UXSTACKTOP :: u64 where "UXSTACKTOP \<equiv> 0x7f00000000"
abbreviation (input) BY2PG :: u64 where "BY2PG \<equiv> 4096"

definition GET_L1_INDEX :: "u64 \<Rightarrow> nat" where
  "GET_L1_INDEX x = unat (drop_bit 30 x AND 0x1ff)"

definition GET_L2_INDEX :: "u64 \<Rightarrow> nat" where
  "GET_L2_INDEX x = unat (drop_bit 21 x AND 0x1ff)"

definition GET_L3_INDEX :: "u64 \<Rightarrow> nat" where
  "GET_L3_INDEX x = unat (drop_bit 12 x AND 0x1ff)"

definition PTE_ADDR :: "u64 \<Rightarrow> u64" where
  "PTE_ADDR pte = pte AND 0x3ffff000"

definition GET_PTE_PERM :: "u64 \<Rightarrow> u64" where
  "GET_PTE_PERM x = x XOR PTE_ADDR x"

definition VADDR :: "u64 \<Rightarrow> u64" where
  "VADDR va = va AND 0x7fffffffff"

text \<open>\<open>KADDR(PTE_ADDR(e))\<close>, as the number of the page it points into.\<close>

definition pte_page :: "u64 \<Rightarrow> nat" where
  "pte_page e = unat (PTE_ADDR e) div 4096"

text \<open>\<open>pa2page\<close> truncates to 32 bits, not to the address field.\<close>

definition pa2page :: "u64 \<Rightarrow> nat" where
  "pa2page x = unat (drop_bit 12 (ucast x :: u32))"

section \<open>State\<close>

text \<open>
  \<open>Kern_vis\<close> is the allocation bitmap, 64 pages per word; \<open>page_pa\<close> and \<open>page_ref\<close> are the
  fields of \<open>Kern_pages[i]\<close>; \<open>ram p k\<close> is word \<open>k\<close> of physical page \<open>p\<close>.
\<close>

record pmem =
  Kern_vis :: "nat \<Rightarrow> u64"
  page_pa :: "nat \<Rightarrow> u64"
  page_ref :: "nat \<Rightarrow> u32"
  ram :: "nat \<Rightarrow> nat \<Rightarrow> u64"

type_synonym ploc = "nat \<times> nat"

definition rd :: "ploc \<Rightarrow> 'a pmem_scheme \<Rightarrow> u64" where
  "rd l s = ram s (fst l) (snd l)"

definition wr :: "ploc \<Rightarrow> u64 \<Rightarrow> 'a pmem_scheme \<Rightarrow> 'a pmem_scheme" where
  "wr l v s = s\<lparr>ram := (ram s)(fst l := (ram s (fst l))(snd l := v))\<rparr>"

definition set_ref :: "nat \<Rightarrow> u32 \<Rightarrow> 'a pmem_scheme \<Rightarrow> 'a pmem_scheme" where
  "set_ref p r s = s\<lparr>page_ref := (page_ref s)(p := r)\<rparr>"

section \<open>Allocating and freeing pages\<close>

text \<open>
  \<open>1 << j\<close> in \<open>page_alloc\<close> shifts an \<open>int\<close> and is then widened to 64 bits: bit 31 is the sign
  bit and is copied upwards. For \<open>j >= 32\<close> C leaves the shift undefined; the AArch64 shift
  instruction the code compiles to takes the amount modulo 32.
\<close>

definition int_shl1 :: "nat \<Rightarrow> u64" where
  "int_shl1 j = scast (push_bit (j mod 32) (1 :: u32))"

fun vis_scan :: "(nat \<Rightarrow> u64) \<Rightarrow> nat list \<Rightarrow> (nat \<times> nat) option" where
  "vis_scan v [] = None"
| "vis_scan v (i # is) =
    (if v i \<noteq> -1 then
       (case List.find (\<lambda>j. v i AND int_shl1 j = 0) [0..<64] of
          Some j \<Rightarrow> Some (i, j)
        | None \<Rightarrow> vis_scan v is)
     else vis_scan v is)"

text \<open>\<open>None\<close> is the return value -1; \<open>bzero\<close> clears the page through its kernel address.\<close>

definition page_alloc :: "'a pmem_scheme \<Rightarrow> nat option \<times> 'a pmem_scheme" where
  "page_alloc s =
    (case vis_scan (Kern_vis s) [0..<4096] of
       None \<Rightarrow> (None, s)
     | Some (i, j) \<Rightarrow>
         (let p = i * 64 + j;
              s1 = s\<lparr>ram := (ram s)(p := (\<lambda>_. 0))\<rparr>
          in (Some p, s1\<lparr>Kern_vis := (Kern_vis s1)(i := Kern_vis s1 i OR int_shl1 j)\<rparr>)))"

text \<open>\<open>ref\<close> is unsigned, so the panic after the two tests is unreachable.\<close>

definition page_free :: "nat \<Rightarrow> 'a pmem_scheme \<Rightarrow> 'a pmem_scheme" where
  "page_free pp s =
    (if page_ref s pp > 0 then s
     else s\<lparr>Kern_vis := (Kern_vis s)
              (pp div 64 := Kern_vis s (pp div 64) AND NOT (push_bit (pp mod 64) 1))\<rparr>)"

definition page_decref :: "nat \<Rightarrow> 'a pmem_scheme \<Rightarrow> 'a pmem_scheme" where
  "page_decref pp s = page_free pp (set_ref pp (page_ref s pp - 1) s)"

section \<open>Walking the page tables\<close>

text \<open>
  The result of \<open>pgdir_walk\<close>: return value -1, return value 0 with \<open>*ppte = 0\<close>, or return value
  0 with a pointer to the entry.
\<close>

datatype walk = WFail | WNull | WPte ploc

text \<open>One iteration of the loop, from the address of the entry of this level.\<close>

definition walk_level ::
    "ploc \<Rightarrow> u64 \<Rightarrow> bool \<Rightarrow> 'a pmem_scheme \<Rightarrow> (walk + nat) \<times> 'a pmem_scheme" where
  "walk_level addr va create s =
    (if rd addr s AND VALID = 0 then
       (if create then
          (case page_alloc s of
             (None, s1) \<Rightarrow> (Inl WFail, s1)
           | (Some pp, s1) \<Rightarrow>
               (let s2 = wr addr (page_pa s1 pp) s1;
                    s3 = (if va < KERNBASE then wr addr (rd addr s2 OR PTE_USER) s2 else s2);
                    s4 = set_ref pp (page_ref s3 pp + 1) s3
                in (Inr (pte_page (rd addr s4)), s4)))
        else (Inl WNull, s))
     else (Inr (pte_page (rd addr s)), s))"

definition pgdir_walk ::
    "nat \<Rightarrow> u64 \<Rightarrow> bool \<Rightarrow> 'a pmem_scheme \<Rightarrow> walk \<times> 'a pmem_scheme" where
  "pgdir_walk pgdir va create s =
    (case walk_level (pgdir, GET_L1_INDEX va) va create s of
       (Inl r, s1) \<Rightarrow> (r, s1)
     | (Inr t1, s1) \<Rightarrow>
         (case walk_level (t1, GET_L2_INDEX va) va create s1 of
            (Inl r, s2) \<Rightarrow> (r, s2)
          | (Inr t2, s2) \<Rightarrow> (WPte (t2, GET_L3_INDEX va), s2)))"

section \<open>Mapping and unmapping\<close>

definition page_lookup :: "nat \<Rightarrow> u64 \<Rightarrow> 'a pmem_scheme \<Rightarrow> (nat \<times> ploc) option" where
  "page_lookup pgdir va s =
    (case fst (pgdir_walk pgdir va False s) of
       WPte pte \<Rightarrow>
         (if rd pte s AND VALID = 0 then None else Some (pa2page (rd pte s), pte))
     | _ \<Rightarrow> None)"

definition page_remove :: "nat \<Rightarrow> u64 \<Rightarrow> 'a pmem_scheme \<Rightarrow> 'a pmem_scheme" where
  "page_remove pgdir va s =
    (case page_lookup pgdir va s of
       None \<Rightarrow> s
     | Some (ppage, pte) \<Rightarrow>
         (let s1 = set_ref ppage (page_ref s ppage - 1) s;
              s2 = page_free ppage s1
          in wr pte 0 s2))"

definition page_insert ::
    "nat \<Rightarrow> nat \<Rightarrow> u64 \<Rightarrow> u64 \<Rightarrow> 'a pmem_scheme \<Rightarrow> int \<times> 'a pmem_scheme" where
  "page_insert pgdir pp va perm s =
    (let PERM = perm OR VALID;
         fresh = (\<lambda>s0.
           (case pgdir_walk pgdir va True s0 of
              (WPte pte, s1) \<Rightarrow>
                (let s2 = wr pte (page_pa s1 pp OR PERM) s1
                 in (0, set_ref pp (page_ref s2 pp + 1) s2))
            | (_, s1) \<Rightarrow> (-1, s1)))
     in case fst (pgdir_walk pgdir va False s) of
          WPte pte \<Rightarrow>
            (if rd pte s AND VALID \<noteq> 0 then
               (if pa2page (rd pte s) \<noteq> pp then fresh (page_remove pgdir va s)
                else (0, wr pte (page_pa s pp OR PERM) s))
             else fresh s)
        | _ \<Rightarrow> fresh s)"

section \<open>Page faults\<close>

text \<open>
  \<open>page_out\<close> walks the tables of the faulting address and gives every missing level a fresh page,
  the mapped page included; at the last level an entry that user mode may not use counts as
  missing. \<open>updir\<close> and \<open>kpdir\<close> are \<open>User_pgdir\<close> and \<open>Kern_pgdir\<close>. When no page is left the
  reference count is incremented through an uninitialised pointer before the panic; the panic
  is what is modelled.
\<close>

definition page_out_level ::
    "u64 \<Rightarrow> bool \<Rightarrow> ploc \<Rightarrow> 'a pmem_scheme \<Rightarrow> (nat, 'a pmem_scheme) outcome" where
  "page_out_level va l3 addr s =
    (if rd addr s AND VALID = 0 \<or> l3 \<and> va < KERNBASE \<and> rd addr s AND PTE_USER = 0 then
       (case page_alloc s of
          (None, s1) \<Rightarrow> Panic ''page_out error: no free page'' s1
        | (Some pp, s1) \<Rightarrow>
            (let s2 = set_ref pp (page_ref s1 pp + 1) s1;
                 perm = (if va < KERNBASE then PTE_USER else 0);
                 s3 = wr addr (page_pa s2 pp OR TABLE OR VALID OR perm) s2
             in Ret (pte_page (rd addr s3)) s3))
     else Ret (pte_page (rd addr s)) s)"

definition page_out ::
    "nat \<Rightarrow> nat \<Rightarrow> u64 \<Rightarrow> 'a pmem_scheme \<Rightarrow> (unit, 'a pmem_scheme) outcome" where
  "page_out updir kpdir va s =
    (if VADDR va < BY2PG then Panic ''^^^^^^^^^TOO LOW^^^^^^^^'' s
     else
       (let pgdir = (if va AND push_bit 39 1 \<noteq> 0 then kpdir else updir)
        in obind (page_out_level va False (pgdir, GET_L1_INDEX va) s)
             (\<lambda>t1 s1. obind (page_out_level va False (t1, GET_L2_INDEX va) s1)
             (\<lambda>t2 s2. obind (page_out_level va True (t2, GET_L3_INDEX va) s2)
             (\<lambda>_ s3. Ret () s3)))))"

section \<open>Reading and writing the state\<close>

lemma wr_wr [simp, field_simps_os]: "wr l v (wr l v' s) = wr l v s"
  by (cases l) (simp add: wr_def)

lemma wr_set_ref: "wr l v (set_ref p r s) = set_ref p r (wr l v s)"
  by (simp add: wr_def set_ref_def)

lemma rd_wr [simp, field_simps_os]: "rd l (wr l' v s) = (if l = l' then v else rd l s)"
  by (cases l; cases l') (auto simp: rd_def wr_def)

lemma rd_set_ref [simp, field_simps_os]: "rd l (set_ref p r s) = rd l s"
  by (simp add: rd_def set_ref_def)

lemma page_ref_updates [simp, field_simps_os]:
  "page_ref (wr l v s) = page_ref s"
  "page_ref (set_ref p r s) = (page_ref s)(p := r)"
  by (simp_all add: wr_def set_ref_def)

lemma page_pa_updates [simp, field_simps_os]:
  "page_pa (wr l v s) = page_pa s"
  "page_pa (set_ref p r s) = page_pa s"
  "page_pa (page_free p s) = page_pa s"
  by (simp_all add: wr_def set_ref_def page_free_def)

lemma Kern_vis_updates [simp, field_simps_os]:
  "Kern_vis (wr l v s) = Kern_vis s"
  "Kern_vis (set_ref p r s) = Kern_vis s"
  by (simp_all add: wr_def set_ref_def)

lemma page_free_fields [simp, field_simps_os]:
  "ram (page_free p s) = ram s"
  "page_ref (page_free p s) = page_ref s"
  "rd l (page_free p s) = rd l s"
  by (simp_all add: page_free_def rd_def)

lemma index_bounds [simp, intro]:
  "GET_L1_INDEX va < 512" "GET_L2_INDEX va < 512" "GET_L3_INDEX va < 512"
proof -
  have "unat (x AND 0x1ff) < 512" for x :: u64
    using word_and_le1 [of x "0x1ff"] by (simp add: word_le_nat_alt)
  then show "GET_L1_INDEX va < 512" "GET_L2_INDEX va < 512" "GET_L3_INDEX va < 512"
    by (simp_all add: GET_L1_INDEX_def GET_L2_INDEX_def GET_L3_INDEX_def)
qed

section \<open>The allocator\<close>

definition page_used :: "'a pmem_scheme \<Rightarrow> nat \<Rightarrow> bool" where
  "page_used s p \<longleftrightarrow> bit (Kern_vis s (p div 64)) (p mod 64)"

lemma bit_int_shl1:
  "bit (int_shl1 j) n \<longleftrightarrow> n < 64 \<and> (n = j mod 32 \<or> j mod 32 = 31 \<and> 31 \<le> n)"
  by (auto simp: int_shl1_def bit_simps)

lemma and_int_shl1_eq_0:
  "v AND int_shl1 j = 0 \<longleftrightarrow>
     (if j mod 32 = 31 then \<forall>n. 31 \<le> n \<longrightarrow> \<not> bit v n else \<not> bit v (j mod 32))"
proof -
  have L: "n < 64" if "bit v n" for n
    using bit_imp_le_length [OF that] by simp
  have "v AND int_shl1 j = 0 \<longleftrightarrow> (\<forall>n. \<not> (bit v n \<and> bit (int_shl1 j) n))"
    using L by (auto simp: bit_eq_iff bit_and_iff)
  also have "\<dots> \<longleftrightarrow> (if j mod 32 = 31 then \<forall>n. 31 \<le> n \<longrightarrow> \<not> bit v n else \<not> bit v (j mod 32))"
    using L by (auto simp: bit_int_shl1)
  finally show ?thesis .
qed

lemma int_shl1_mod: "int_shl1 (j mod 32) = int_shl1 j"
  by (simp add: int_shl1_def)

text \<open>A slot is usable if its bit is clear and, for slot 31, all the bits above it too.\<close>

definition slot_free :: "u64 \<Rightarrow> nat \<Rightarrow> bool" where
  "slot_free v j \<longleftrightarrow> j < 32 \<and> v AND int_shl1 j = 0"

lemma find_slot:
  "(case List.find (\<lambda>j. v AND int_shl1 j = 0) [0..<64] of
      Some j \<Rightarrow> slot_free v j
    | None \<Rightarrow> \<forall>j. \<not> slot_free v j)"
proof (cases "List.find (\<lambda>j. v AND int_shl1 j = 0) [0..<64]")
  case None
  then have "\<forall>x<64. v AND int_shl1 x \<noteq> 0" by (simp add: find_None_iff)
  with None show ?thesis by (auto simp: slot_free_def)
next
  case (Some j)
  note first = find_upt_least [OF Some]
  have "j mod 32 = j"
  proof (rule ccontr)
    assume "j mod 32 \<noteq> j"
    then have "j mod 32 < j" using mod_less_eq_dividend [of j 32] by linarith
    with first(3) [of "j mod 32"] first(2) show False by (simp add: int_shl1_mod)
  qed
  then have "j < 32" using mod_less_divisor [of 32 j] by linarith
  with first(2) Some show ?thesis by (simp add: slot_free_def)
qed

lemma slot_free_not_full: "slot_free v j \<Longrightarrow> v \<noteq> -1"
  by (auto simp: slot_free_def and_int_shl1_eq_0 split: if_splits)

lemma vis_scan_Some:
  "vis_scan v is = Some (i, j) \<Longrightarrow> i \<in> set is \<and> slot_free (v i) j"
proof (induction "is")
  case Nil
  then show ?case by simp
next
  case (Cons a "is")
  then show ?case
    using find_slot [of "v a"] by (auto split: if_splits option.splits)
qed

lemma vis_scan_None:
  "vis_scan v is = None \<longleftrightarrow> (\<forall>i \<in> set is. \<forall>j. \<not> slot_free (v i) j)"
proof (induction "is")
  case Nil
  then show ?case by simp
next
  case (Cons a "is")
  then show ?case
    using find_slot [of "v a"] slot_free_not_full [of "v a"]
    by (auto split: if_splits option.splits)
qed

lemma page_alloc_SomeD:
  assumes "page_alloc s = (Some p, s')"
  shows "p < 4096 * 64" and "p mod 64 < 32" and "slot_free (Kern_vis s (p div 64)) (p mod 64)"
    and "s' = s\<lparr>ram := (ram s)(p := (\<lambda>_. 0)),
        Kern_vis := (Kern_vis s)(p div 64 := Kern_vis s (p div 64) OR int_shl1 (p mod 64))\<rparr>"
proof -
  obtain i j where sc: "vis_scan (Kern_vis s) [0..<4096] = Some (i, j)"
    and p: "p = i * 64 + j"
    and s': "s' = s\<lparr>ram := (ram s)(p := (\<lambda>_. 0)),
        Kern_vis := (Kern_vis s)(i := Kern_vis s i OR int_shl1 j)\<rparr>"
    using assms by (auto simp: page_alloc_def Let_def split: option.splits)
  from vis_scan_Some [OF sc] have i: "i < 4096" and sl: "slot_free (Kern_vis s i) j"
    by auto
  then have j: "j < 32" by (simp add: slot_free_def)
  with p have ij: "p div 64 = i" "p mod 64 = j" by auto
  show "p < 4096 * 64" using i j p by linarith
  show "p mod 64 < 32" using ij j by simp
  show "slot_free (Kern_vis s (p div 64)) (p mod 64)" using ij sl by simp
  show "s' = s\<lparr>ram := (ram s)(p := (\<lambda>_. 0)),
        Kern_vis := (Kern_vis s)(p div 64 := Kern_vis s (p div 64) OR int_shl1 (p mod 64))\<rparr>"
    using ij s' by simp
qed

lemma page_alloc_None:
  "page_alloc s = (None, s') \<longleftrightarrow> s' = s \<and> (\<forall>i < 4096. \<forall>j. \<not> slot_free (Kern_vis s i) j)"
  using vis_scan_None [of "Kern_vis s" "[0..<4096]"]
  by (auto simp: page_alloc_def Let_def atLeast0LessThan split: option.splits prod.splits)

text \<open>What a caller may rely on, with the effect on every other page.\<close>

lemma page_alloc_fresh:
  assumes "page_alloc s = (Some p, s')"
  shows "p < 2 ^ 18" "\<not> page_used s p" "page_used s' p"
    "page_used s q \<Longrightarrow> page_used s' q"
    "ram s' p = (\<lambda>_. 0)" "q \<noteq> p \<Longrightarrow> ram s' q = ram s q"
    "page_ref s' = page_ref s" "page_pa s' = page_pa s"
proof -
  note D = page_alloc_SomeD [OF assms]
  show "p < 2 ^ 18" using D(1) by simp
  show "\<not> page_used s p"
    using D(2,3) by (auto simp: page_used_def slot_free_def and_int_shl1_eq_0 split: if_splits)
  show "page_used s' p"
    using D(2) by (auto simp: D(4) page_used_def bit_or_iff bit_int_shl1)
  show "page_used s q \<Longrightarrow> page_used s' q"
    by (auto simp: D(4) page_used_def bit_or_iff)
  show "ram s' p = (\<lambda>_. 0)" "q \<noteq> p \<Longrightarrow> ram s' q = ram s q"
    "page_ref s' = page_ref s" "page_pa s' = page_pa s"
    by (simp_all add: D(4))
qed

lemma page_used_updates [simp, field_simps_os]:
  "page_used (wr l v s) q = page_used s q"
  "page_used (set_ref p r s) q = page_used s q"
  by (simp_all add: page_used_def)

lemma page_used_page_free:
  "page_used (page_free p s) q \<longleftrightarrow> page_used s q \<and> (q = p \<longrightarrow> page_ref s p > 0)"
proof (cases "page_ref s p > 0")
  case True
  then show ?thesis by (simp add: page_free_def)
next
  case False
  have "q div 64 = p div 64 \<Longrightarrow> q mod 64 = p mod 64 \<longleftrightarrow> q = p"
    by (metis div_mult_mod_eq)
  then show ?thesis
    using False by (auto simp: page_free_def page_used_def bit_simps)
qed

end
