(* ===== verification/AddrSpace.thy ===== *)
theory AddrSpace
  imports Pmap
begin

text \<open>
  The address spaces that the page tables of mm/pmap.c describe. The tables of an address space
  are the nodes of a tree under its page directory; a well-formed set of address spaces shares no
  table page, and every operation of pmap.c is an operation on the maps from virtual pages to
  entries that the trees represent.
\<close>

section \<open>Trees of tables\<close>

text \<open>
  \<open>node s d is\<close> is the page reached from directory \<open>d\<close> by the indices \<open>is\<close>: the directory itself
  for the empty path, a second-level table for one index, a third-level table for two, and a
  mapped page for three.
\<close>

fun node :: "'a pmem_scheme \<Rightarrow> nat \<Rightarrow> nat list \<Rightarrow> nat option" where
  "node s d [] = Some d"
| "node s d (i # is) =
    (if rd (d, i) s AND VALID = 0 then None else node s (pte_page (rd (d, i) s)) is)"

text \<open>
  Entry 256 of every directory is the self map at UVPT, which points back to the directory; the
  tree is what the other entries reach.
\<close>

definition self_index :: nat where
  "self_index = GET_L1_INDEX UVPT"

lemma self_index_eq: "self_index = 256"
  by (simp add: self_index_def GET_L1_INDEX_def drop_bit_eq_div)

definition table_path :: "nat list \<Rightarrow> bool" where
  "table_path is \<longleftrightarrow>
     length is \<le> 2 \<and> (\<forall>i \<in> set is. i < 512) \<and> (is \<noteq> [] \<longrightarrow> hd is \<noteq> self_index)"

definition leaf_path :: "nat list \<Rightarrow> bool" where
  "leaf_path is \<longleftrightarrow> length is = 3 \<and> (\<forall>i \<in> set is. i < 512) \<and> hd is \<noteq> self_index"

definition is_table :: "'a pmem_scheme \<Rightarrow> nat set \<Rightarrow> nat \<Rightarrow> bool" where
  "is_table s D t \<longleftrightarrow> (\<exists>d \<in> D. \<exists>is. table_path is \<and> node s d is = Some t)"

definition mappings :: "'a pmem_scheme \<Rightarrow> nat set \<Rightarrow> nat \<Rightarrow> (nat \<times> nat list) set" where
  "mappings s D p = {(d, is). d \<in> D \<and> leaf_path is \<and> node s d is = Some p}"

text \<open>The entry that a leaf path ends at.\<close>

definition leaf_entry :: "'a pmem_scheme \<Rightarrow> nat \<Rightarrow> nat list \<Rightarrow> u64 option" where
  "leaf_entry s d is =
    (case node s d (butlast is) of
       None \<Rightarrow> None
     | Some t \<Rightarrow>
         (let e = rd (t, last is) s in if e AND VALID = 0 then None else Some e))"

text \<open>
  The invariant of a set \<open>D\<close> of address spaces: no table is shared or used twice, no table is
  mapped as a page, tables are referenced, a referenced page is allocated, a page has at least as
  many references as mappings, and entries stay inside the 1 GB of physical memory.
\<close>

definition wf_spaces :: "'a pmem_scheme \<Rightarrow> nat set \<Rightarrow> bool" where
  "wf_spaces s D \<longleftrightarrow> finite D \<and>
     (\<forall>d \<in> D. \<forall>d' \<in> D. \<forall>is js t. table_path is \<longrightarrow> table_path js \<longrightarrow>
        node s d is = Some t \<longrightarrow> node s d' js = Some t \<longrightarrow> d = d' \<and> is = js) \<and>
     (\<forall>d \<in> D. \<forall>is t. leaf_path is \<longrightarrow> node s d is = Some t \<longrightarrow> \<not> is_table s D t) \<and>
     (\<forall>t. is_table s D t \<longrightarrow> page_ref s t > 0) \<and>
     (\<forall>p. page_ref s p > 0 \<longrightarrow> page_used s p) \<and>
     (\<forall>p. card (mappings s D p) \<le> unat (page_ref s p)) \<and>
     (\<forall>d \<in> D. \<forall>is e. leaf_path is \<longrightarrow> leaf_entry s d is = Some e \<longrightarrow> pa2page e = pte_page e)"

text \<open>The page descriptors as \<open>init_boot_pt\<close> sets them up: \<open>pages[p].pa\<close> encodes page \<open>p\<close>.\<close>

definition pa_ok :: "'a pmem_scheme \<Rightarrow> bool" where
  "pa_ok s \<longleftrightarrow> (\<forall>p < 2 ^ 18. pte_page (page_pa s p) = p \<and> pa2page (page_pa s p) = p \<and>
     page_pa s p AND VALID \<noteq> 0)"

text \<open>The address space of directory \<open>d\<close>: the entry that maps the page of \<open>va\<close>, if any.\<close>

definition vpath :: "u64 \<Rightarrow> nat list" where
  "vpath va = [GET_L1_INDEX va, GET_L2_INDEX va, GET_L3_INDEX va]"

definition vmap :: "'a pmem_scheme \<Rightarrow> nat \<Rightarrow> u64 \<Rightarrow> u64 option" where
  "vmap s d va = leaf_entry s d (vpath va)"

definition user_va :: "u64 \<Rightarrow> bool" where
  "user_va va \<longleftrightarrow> GET_L1_INDEX va \<noteq> self_index"

lemma node_append:
  "node s d (is @ js) = (case node s d is of None \<Rightarrow> None | Some t \<Rightarrow> node s t js)"
  by (induction "is" arbitrary: d) auto

lemma node_cong:
  assumes "\<And>js j ks t. is = js @ j # ks \<Longrightarrow> node s d js = Some t \<Longrightarrow> rd (t, j) s' = rd (t, j) s"
  shows "node s' d is = node s d is"
  using assms
proof (induction "is" arbitrary: d)
  case Nil
  then show ?case by simp
next
  case (Cons i "is")
  have r: "rd (d, i) s' = rd (d, i) s"
    using Cons.prems [of "[]" i "is" d] by simp
  show ?case
  proof (cases "rd (d, i) s AND VALID = 0")
    case True
    then show ?thesis using r by simp
  next
    case False
    have "node s' (pte_page (rd (d, i) s)) is = node s (pte_page (rd (d, i) s)) is"
      using Cons.prems [of "i # js" j ks t for js j ks t] False
      by (intro Cons.IH) auto
    then show ?thesis using r False by simp
  qed
qed

lemma node_leaf_entry:
  "is \<noteq> [] \<Longrightarrow> node s d is = map_option pte_page (leaf_entry s d is)"
  using node_append [of s d "butlast is" "[last is]"]
  by (auto simp: leaf_entry_def Let_def split: option.splits)

lemma node_leaf: "leaf_path is \<Longrightarrow> node s d is = map_option pte_page (leaf_entry s d is)"
  by (rule node_leaf_entry) (auto simp: leaf_path_def)

section \<open>Lookups\<close>

lemma pgdir_walk_lookup:
  "pgdir_walk d va False s =
    (case node s d [GET_L1_INDEX va, GET_L2_INDEX va] of
       None \<Rightarrow> WNull
     | Some t \<Rightarrow> WPte (t, GET_L3_INDEX va), s)"
  by (simp add: pgdir_walk_def walk_level_def)

lemma vmap_unfold:
  "vmap s d va =
    (case node s d [GET_L1_INDEX va, GET_L2_INDEX va] of
       None \<Rightarrow> None
     | Some t \<Rightarrow>
         (let e = rd (t, GET_L3_INDEX va) s in if e AND VALID = 0 then None else Some e))"
  by (simp add: vmap_def leaf_entry_def vpath_def)

lemma page_lookup_loc:
  "page_lookup d va s = Some (p, pte) \<longleftrightarrow>
     (\<exists>t. node s d [GET_L1_INDEX va, GET_L2_INDEX va] = Some t \<and> pte = (t, GET_L3_INDEX va) \<and>
        rd pte s AND VALID \<noteq> 0 \<and> p = pa2page (rd pte s))"
  by (auto simp: page_lookup_def pgdir_walk_lookup split: option.splits)

lemma page_lookup_vmap:
  "map_option fst (page_lookup d va s) = map_option pa2page (vmap s d va)"
  by (auto simp: page_lookup_def pgdir_walk_lookup vmap_unfold Let_def split: option.splits)

lemma vpath_leaf [simp]: "user_va va \<Longrightarrow> leaf_path (vpath va)"
  by (auto simp: leaf_path_def vpath_def user_va_def)

lemma vpath_table [simp]: "user_va va \<Longrightarrow> table_path [GET_L1_INDEX va, GET_L2_INDEX va]"
  "user_va va \<Longrightarrow> table_path [GET_L1_INDEX va]" "table_path []"
  by (auto simp: table_path_def user_va_def)

lemma leaf_path_cases:
  assumes "leaf_path is"
  obtains i j k where "is = [i, j, k]" and "table_path [i, j]" and "table_path [i]"
    and "i < 512" "j < 512" "k < 512" "i \<noteq> self_index"
  using assms
  by (cases "is"; cases "tl is"; cases "tl (tl is)"; force simp: leaf_path_def table_path_def)

lemma finite_mappings: "finite D \<Longrightarrow> finite (mappings s D p)"
proof (rule finite_subset)
  assume "finite D"
  then show "finite (D \<times> {is. set is \<subseteq> {..<512::nat} \<and> length is = 3})"
    by (intro finite_cartesian_product finite_lists_length_eq) auto
  show "mappings s D p \<subseteq> D \<times> {is. set is \<subseteq> {..<512} \<and> length is = 3}"
    by (auto simp: mappings_def leaf_path_def)
qed

section \<open>Consequences of the invariant\<close>

lemma wf_finite: "wf_spaces s D \<Longrightarrow> finite D"
  by (simp add: wf_spaces_def)

lemma wf_inj:
  "wf_spaces s D \<Longrightarrow> d \<in> D \<Longrightarrow> d' \<in> D \<Longrightarrow> table_path is \<Longrightarrow> table_path js \<Longrightarrow>
   node s d is = Some t \<Longrightarrow> node s d' js = Some t \<Longrightarrow> d = d' \<and> is = js"
  by (simp add: wf_spaces_def)

lemma wf_leaf_not_table:
  "wf_spaces s D \<Longrightarrow> d \<in> D \<Longrightarrow> leaf_path is \<Longrightarrow> node s d is = Some t \<Longrightarrow> \<not> is_table s D t"
  by (simp add: wf_spaces_def)

lemma wf_table_ref: "wf_spaces s D \<Longrightarrow> is_table s D t \<Longrightarrow> page_ref s t > 0"
  by (simp add: wf_spaces_def)

lemma wf_ref_used: "wf_spaces s D \<Longrightarrow> page_ref s p > 0 \<Longrightarrow> page_used s p"
  by (simp add: wf_spaces_def)

lemma wf_card: "wf_spaces s D \<Longrightarrow> card (mappings s D p) \<le> unat (page_ref s p)"
  by (simp add: wf_spaces_def)

lemma wf_entry:
  "wf_spaces s D \<Longrightarrow> d \<in> D \<Longrightarrow> leaf_path is \<Longrightarrow> leaf_entry s d is = Some e \<Longrightarrow>
   pa2page e = pte_page e"
  by (simp add: wf_spaces_def)

lemma wf_mapped_ref:
  assumes "wf_spaces s D" "d \<in> D" "leaf_path is" "node s d is = Some p"
  shows "page_ref s p > 0"
proof -
  have "mappings s D p \<noteq> {}" using assms by (auto simp: mappings_def)
  then have "card (mappings s D p) > 0"
    using finite_mappings [OF wf_finite [OF assms(1)]] by (simp add: card_gt_0_iff)
  then have "unat (page_ref s p) > 0" using wf_card [OF assms(1), of p] by linarith
  then show ?thesis by (simp add: word_less_nat_alt)
qed

section \<open>Writing an entry of a third-level table\<close>

lemma table_path_prefix:
  "table_path (as @ a # ks) \<Longrightarrow> table_path as \<and> length as \<le> 1"
  "leaf_path (as @ a # ks) \<Longrightarrow> table_path as"
  by (auto simp: table_path_def leaf_path_def hd_append split: if_splits)

lemma leaf_path_butlast: "leaf_path js \<Longrightarrow> table_path (butlast js) \<and> length (butlast js) = 2"
  by (erule leaf_path_cases) simp

lemma leaf_write_nodes:
  assumes wf: "wf_spaces s D" and d: "d \<in> D" and tp: "table_path [i, j]"
    and t: "node s d [i, j] = Some t"
    and rds: "\<And>l. l \<noteq> (t, k) \<Longrightarrow> rd l s' = rd l s"
    and d': "d' \<in> D" and js: "table_path js"
  shows "node s' d' js = node s d' js"
proof (rule node_cong)
  fix as a ks u
  assume eq: "js = as @ a # ks" and u: "node s d' as = Some u"
  have as: "table_path as" "length as \<le> 1" using table_path_prefix js eq by auto
  have "u \<noteq> t"
    using wf_inj [OF wf d' d as(1) tp, of u] u t as(2) by auto
  then show "rd (u, a) s' = rd (u, a) s" by (intro rds) simp
qed

lemma leaf_write_entries:
  assumes wf: "wf_spaces s D" and d: "d \<in> D" and tp: "table_path [i, j]"
    and t: "node s d [i, j] = Some t"
    and rds: "\<And>l. l \<noteq> (t, k) \<Longrightarrow> rd l s' = rd l s"
    and d': "d' \<in> D" and js: "leaf_path js"
  shows "leaf_entry s' d' js =
    (if d' = d \<and> js = [i, j, k]
     then if rd (t, k) s' AND VALID = 0 then None else Some (rd (t, k) s')
     else leaf_entry s d' js)"
proof -
  have tb: "table_path (butlast js)" using leaf_path_butlast [OF js] by simp
  have nd: "node s' d' (butlast js) = node s d' (butlast js)"
    by (rule leaf_write_nodes [OF wf d tp t rds d' tb])
  show ?thesis
  proof (cases "d' = d \<and> js = [i, j, k]")
    case True
    then show ?thesis using nd t by (simp add: leaf_entry_def Let_def)
  next
    case False
    have "rd (u, last js) s' = rd (u, last js) s" if "node s d' (butlast js) = Some u" for u
    proof (rule rds, rule ccontr)
      assume "\<not> (u, last js) \<noteq> (t, k)"
      then have "u = t" "last js = k" by auto
      with wf_inj [OF wf d' d tb tp that] t have "d' = d" "butlast js = [i, j]" by auto
      moreover have "js = butlast js @ [last js]"
        using js by (cases js rule: rev_cases) (auto simp: leaf_path_def)
      ultimately show False using False \<open>last js = k\<close> by simp
    qed
    then have "leaf_entry s' d' js = leaf_entry s d' js"
      using nd by (auto simp: leaf_entry_def Let_def split: option.splits)
    then show ?thesis by (simp only: False if_False)
  qed
qed

lemma mappings_entry:
  "mappings s D p =
    {(d, is). d \<in> D \<and> leaf_path is \<and> map_option pte_page (leaf_entry s d is) = Some p}"
  by (auto simp: mappings_def node_leaf)

lemma leaf_write_mappings:
  assumes wf: "wf_spaces s D" and d: "d \<in> D" and tp: "table_path [i, j]" and k: "k < 512"
    and t: "node s d [i, j] = Some t"
    and rds: "\<And>l. l \<noteq> (t, k) \<Longrightarrow> rd l s' = rd l s"
  shows "mappings s' D p = (mappings s D p - {(d, [i, j, k])}) \<union>
    (if rd (t, k) s' AND VALID \<noteq> 0 \<and> pte_page (rd (t, k) s') = p then {(d, [i, j, k])} else {})"
proof -
  have lp: "leaf_path [i, j, k]" using tp k by (simp add: leaf_path_def table_path_def)
  show ?thesis
    using leaf_write_entries [OF wf d tp t rds] lp d
    by (auto simp: mappings_entry split: if_splits)
qed

text \<open>
  Changing one leaf entry keeps the invariant if the new page is no table and the reference
  counts follow.
\<close>

lemma leaf_write_wf:
  assumes wf: "wf_spaces s D" and d: "d \<in> D" and tp: "table_path [i, j]" and k: "k < 512"
    and t: "node s d [i, j] = Some t"
    and rds: "\<And>l. l \<noteq> (t, k) \<Longrightarrow> rd l s' = rd l s"
    and new: "rd (t, k) s' AND VALID \<noteq> 0 \<Longrightarrow>
      pa2page (rd (t, k) s') = pte_page (rd (t, k) s') \<and> \<not> is_table s D (pte_page (rd (t, k) s'))"
    and tref: "\<And>q. is_table s D q \<Longrightarrow> page_ref s' q > 0"
    and used: "\<And>q. page_ref s' q > 0 \<Longrightarrow> page_used s' q"
    and cnt: "\<And>q. card (mappings s' D q) \<le> unat (page_ref s' q)"
  shows "wf_spaces s' D" and "\<And>q. is_table s' D q = is_table s D q"
proof -
  note N = leaf_write_nodes [OF wf d tp t, of k s', OF rds]
  note E = leaf_write_entries [OF wf d tp t, of k s', OF rds]
  show T: "is_table s' D q = is_table s D q" for q
    unfolding is_table_def using N by metis
  show "wf_spaces s' D"
    unfolding wf_spaces_def
  proof (intro conjI ballI allI impI)
    show "finite D" by (rule wf_finite [OF wf])
    fix e e' "is" js u
    assume "e \<in> D" "e' \<in> D" "table_path is" "table_path js"
      "node s' e is = Some u" "node s' e' js = Some u"
    then show "e = e'" "is = js"
      using wf_inj [OF wf, of e e' "is" js u] N by auto
  next
    fix e "is" u
    assume e: "e \<in> D" "leaf_path is" "node s' e is = Some u"
    then have "map_option pte_page (leaf_entry s' e is) = Some u"
      by (simp add: node_leaf)
    then show "\<not> is_table s' D u"
      using E [OF _ e(1,2)] new wf_leaf_not_table [OF wf e(1,2), of u] node_leaf [OF e(2), of s e]
      by (auto simp: T split: if_splits)
  next
    fix q assume "is_table s' D q"
    then show "page_ref s' q > 0" using tref by (simp add: T)
  next
    fix e "is" w
    assume "e \<in> D" "leaf_path is" "leaf_entry s' e is = Some w"
    then show "pa2page w = pte_page w"
      using E [OF _ \<open>e \<in> D\<close> \<open>leaf_path is\<close>] new wf_entry [OF wf, of e "is" w] by (auto split: if_splits)
  qed (use used cnt in auto)
qed

section \<open>Adding a table\<close>

text \<open>
  A fresh page \<open>n\<close> of zeroes becomes the table of the path \<open>path @ [i]\<close>, whose entry was invalid.
\<close>

lemma new_table_node:
  assumes wf: "wf_spaces s D" and d: "d \<in> D" and tp: "table_path (path @ [i])"
    and t: "node s d path = Some t" and inv: "rd (t, i) s AND VALID = 0"
    and nu: "\<not> page_used s n"
    and zero: "\<And>x. rd (n, x) s' = 0"
    and ent: "rd (t, i) s' AND VALID \<noteq> 0" "pte_page (rd (t, i) s') = n"
    and rds: "\<And>l. l \<noteq> (t, i) \<Longrightarrow> fst l \<noteq> n \<Longrightarrow> rd l s' = rd l s"
    and d': "d' \<in> D" and js: "table_path js \<or> leaf_path js"
  shows "node s' d' js = (if d' = d \<and> js = path @ [i] then Some n else node s d' js)"
proof -
  have nt: "\<not> is_table s D n" using wf_table_ref [OF wf] wf_ref_used [OF wf] nu by blast
  have pp: "table_path path" "length path \<le> 1" using table_path_prefix(1) [of path i "[]"] tp by auto
  have node_ne: "u \<noteq> n" if "e \<in> D" "table_path as" "node s e as = Some u" for e as u
    using nt that by (auto simp: is_table_def)
  have keep: "node s' e ks = node s e ks"
    if e: "e \<in> D" "table_path ks \<or> leaf_path ks" and ne: "\<not> (e = d \<and> (\<exists>ms. ks = path @ i # ms))"
    for e ks
  proof (rule node_cong)
    fix as a ms u
    assume eq: "ks = as @ a # ms" and u: "node s e as = Some u"
    have as: "table_path as" using table_path_prefix e(2) eq by auto
    have "(u, a) \<noteq> (t, i)"
      using wf_inj [OF wf e(1) d as pp(1) u] t ne eq by auto
    then show "rd (u, a) s' = rd (u, a) s"
      using node_ne [OF e(1) as u] by (intro rds) auto
  qed
  show ?thesis
  proof (cases "d' = d \<and> (\<exists>ms. js = path @ i # ms)")
    case False
    then have "node s' d' js = node s d' js" using d' js by (intro keep)
    with False show ?thesis by auto
  next
    case True
    then obtain ms where d'd: "d' = d" and ms: "js = path @ i # ms" by blast
    have "node s' d path = Some t"
      using keep [of d path] d pp t by simp
    then have new: "node s' d (path @ [i]) = Some n"
      using ent by (simp add: node_append)
    have old: "node s d (path @ [i]) = None"
      using t inv by (simp add: node_append)
    show ?thesis
    proof (cases ms)
      case Nil
      then show ?thesis using new ms d'd by simp
    next
      case (Cons b bs)
      have js_eq: "js = (path @ [i]) @ b # bs" using ms Cons by simp
      have "node s' d js = None" "node s d js = None"
        unfolding js_eq node_append [of _ _ "path @ [i]"] using new old zero by auto
      then show ?thesis using ms d'd Cons by simp
    qed
  qed
qed

lemma new_table_wf:
  assumes wf: "wf_spaces s D" and d: "d \<in> D" and tp: "table_path (path @ [i])"
    and t: "node s d path = Some t" and inv: "rd (t, i) s AND VALID = 0"
    and nu: "\<not> page_used s n"
    and zero: "\<And>x. rd (n, x) s' = 0"
    and ent: "rd (t, i) s' AND VALID \<noteq> 0" "pte_page (rd (t, i) s') = n"
    and rds: "\<And>l. l \<noteq> (t, i) \<Longrightarrow> fst l \<noteq> n \<Longrightarrow> rd l s' = rd l s"
    and ref: "page_ref s' = (page_ref s)(n := 1)"
    and used: "\<And>q. page_used s q \<Longrightarrow> page_used s' q" "page_used s' n"
  shows "wf_spaces s' D"
    and "\<And>q. is_table s' D q \<longleftrightarrow> is_table s D q \<or> q = n"
    and "\<And>d' js. d' \<in> D \<Longrightarrow> leaf_path js \<Longrightarrow> leaf_entry s' d' js = leaf_entry s d' js"
    and "node s' d (path @ [i]) = Some n"
proof -
  have N: "node s' e js = (if e = d \<and> js = path @ [i] then Some n else node s e js)"
    if "e \<in> D" "table_path js \<or> leaf_path js" for e js
    by (rule new_table_node [OF wf d tp t inv nu zero ent]) (use rds that in auto)
  have n0: "page_ref s n = 0" using wf_ref_used [OF wf, of n] nu by (auto simp: word_gt_0)
  have nt: "\<not> is_table s D n" using wf_table_ref [OF wf, of n] n0 by auto
  have nl: "node s e ls \<noteq> Some n" if "e \<in> D" "leaf_path ls" for e ls
    using wf_mapped_ref [OF wf that, of n] n0 by auto
  have np: "leaf_path js \<Longrightarrow> js \<noteq> path @ [i]" for js
    using tp by (auto simp: table_path_def leaf_path_def)
  have ntab: "node s e as \<noteq> Some n" if "e \<in> D" "table_path as" for e as
    using nt that by (auto simp: is_table_def)
  show new: "node s' d (path @ [i]) = Some n" using N [OF d, of "path @ [i]"] tp by simp
  have L: "node s' e ls = node s e ls" if "e \<in> D" "leaf_path ls" for e ls
    using N [OF that(1), of ls] np [OF that(2)] that(2) by simp
  show T: "is_table s' D q \<longleftrightarrow> is_table s D q \<or> q = n" for q
  proof
    assume "is_table s' D q"
    then obtain e as where "e \<in> D" "table_path as" "node s' e as = Some q"
      by (auto simp: is_table_def)
    with N [of e as] show "is_table s D q \<or> q = n"
      by (auto simp: is_table_def split: if_splits)
  next
    assume "is_table s D q \<or> q = n"
    then show "is_table s' D q"
    proof
      assume "is_table s D q"
      then obtain e as where e: "e \<in> D" "table_path as" "node s e as = Some q"
        by (auto simp: is_table_def)
      have "node s d (path @ [i]) = None" using t inv by (simp add: node_append)
      with N [of e as] e have "node s' e as = Some q" by auto
      with e show ?thesis by (auto simp: is_table_def)
    next
      assume "q = n"
      with new d tp show ?thesis by (auto simp: is_table_def)
    qed
  qed
  show E: "leaf_entry s' d' js = leaf_entry s d' js" if "d' \<in> D" "leaf_path js" for d' js
  proof -
    have tb: "table_path (butlast js)" using leaf_path_butlast [OF that(2)] by simp
    show ?thesis
    proof (cases "d' = d \<and> butlast js = path @ [i]")
      case True
      then have "node s d (butlast js) = None" using t inv by (simp add: node_append)
      moreover have "node s' d (butlast js) = Some n" using new True by simp
      ultimately show ?thesis using True zero by (simp add: leaf_entry_def Let_def)
    next
      case False
      then have nd: "node s' d' (butlast js) = node s d' (butlast js)"
        using N [OF that(1), of "butlast js"] tb by auto
      have "rd (u, last js) s' = rd (u, last js) s" if u: "node s d' (butlast js) = Some u" for u
      proof (rule rds)
        have pp: "table_path path" "length path \<le> 1"
          using table_path_prefix(1) [of path i "[]"] tp by auto
        show "(u, last js) \<noteq> (t, i)"
          using wf_inj [OF wf \<open>d' \<in> D\<close> d tb pp(1) u] t pp(2) leaf_path_butlast [OF \<open>leaf_path js\<close>]
          by auto
        show "fst (u, last js) \<noteq> n" using ntab [OF \<open>d' \<in> D\<close> tb] u by auto
      qed
      then show ?thesis
        using nd by (auto simp: leaf_entry_def Let_def split: option.splits)
    qed
  qed
  have M: "mappings s' D q = mappings s D q" for q
    using L by (auto simp: mappings_def)
  show "wf_spaces s' D"
    unfolding wf_spaces_def
  proof (intro conjI ballI allI impI)
    show "finite D" by (rule wf_finite [OF wf])
    fix e e' as bs u
    assume a: "e \<in> D" "e' \<in> D" "table_path as" "table_path bs"
      "node s' e as = Some u" "node s' e' bs = Some u"
    show "e = e'" "as = bs"
      using N [OF a(1), of as] N [OF a(2), of bs] a ntab wf_inj [OF wf a(1-4), of u]
      by (auto split: if_splits)
  next
    fix e "is" u
    assume "e \<in> D" "leaf_path is" "node s' e is = Some u"
    then show "\<not> is_table s' D u"
      using L wf_leaf_not_table [OF wf, of e "is" u] nl by (auto simp: T)
  next
    fix q assume "is_table s' D q"
    then show "page_ref s' q > 0" using wf_table_ref [OF wf, of q] by (auto simp: T ref)
  next
    fix q assume "page_ref s' q > 0"
    then show "page_used s' q" using wf_ref_used [OF wf, of q] used by (auto simp: ref split: if_splits)
  next
    fix q
    have "card (mappings s D n) = 0" using wf_card [OF wf, of n] n0 by simp
    then show "card (mappings s' D q) \<le> unat (page_ref s' q)"
      using wf_card [OF wf, of q] by (simp add: M ref)
  next
    fix e "is" w
    assume "e \<in> D" "leaf_path is" "leaf_entry s' e is = Some w"
    then show "pa2page w = pte_page w" using E wf_entry [OF wf, of e "is" w] by auto
  qed
qed

section \<open>The walk that creates tables\<close>

lemma AND_OR_eq_0: "b AND m = 0 \<Longrightarrow> (a OR b) AND m = a AND (m :: 'a :: len word)"
  by (simp add: bit.conj_disj_distrib2)

lemma pte_page_OR: "b AND 0x3ffff000 = 0 \<Longrightarrow> pte_page (a OR b) = pte_page a"
  by (simp add: pte_page_def PTE_ADDR_def AND_OR_eq_0)

lemma valid_OR: "a AND VALID \<noteq> 0 \<Longrightarrow> (a OR b) AND VALID \<noteq> 0"
  by (auto simp: bit_eq_iff bit_simps)

text \<open>Permission bits that do not reach into the address of an entry.\<close>

definition perm_ok :: "u64 \<Rightarrow> bool" where
  "perm_ok perm \<longleftrightarrow> perm AND 0xfffff000 = 0"

lemma perm_ok_addr: "perm_ok b \<Longrightarrow> b AND 0x3ffff000 = 0"
proof -
  assume "perm_ok b"
  then have "(b AND 0xfffff000) AND 0x3ffff000 = 0" by (simp add: perm_ok_def)
  then show ?thesis by (simp add: and.assoc)
qed

lemma pa2page_OR:
  assumes "perm_ok b"
  shows "pa2page (a OR b) = pa2page a"
proof -
  have "drop_bit 12 (ucast b :: u32) = 0"
  proof (rule bit_word_eqI)
    fix n assume "n < LENGTH(32)"
    have "\<not> (bit b (12 + n) \<and> bit (0xfffff000 :: u64) (12 + n))"
      using assms by (metis bit_and_iff bit_0_eq bot_apply perm_ok_def bot_bool_def)
    moreover have "n < 20 \<Longrightarrow> bit (0xfffff000 :: u64) (12 + n)"
    proof -
      assume "n < 20"
      have eq: "(0xfffff000 :: u64) = push_bit 12 (mask 20)" by (simp add: mask_eq_exp_minus_1)
      show ?thesis
        unfolding eq bit_push_bit_iff bit_mask_iff using \<open>n < 20\<close> by simp
    qed
    ultimately show "bit (drop_bit 12 (ucast b :: u32)) n = bit (0 :: u32) n"
      by (auto simp: bit_simps)
  qed
  then show ?thesis
    by (simp add: pa2page_def drop_bit_or unsigned_or_eq)
qed

definition only_tables_added :: "'a pmem_scheme \<Rightarrow> 'b pmem_scheme \<Rightarrow> nat set \<Rightarrow> bool" where
  "only_tables_added s s' D \<longleftrightarrow>
     page_pa s' = page_pa s \<and>
     (\<forall>d \<in> D. \<forall>js. leaf_path js \<longrightarrow> leaf_entry s' d js = leaf_entry s d js) \<and>
     (\<forall>q. page_used s q \<longrightarrow> page_used s' q \<and> page_ref s' q = page_ref s q \<and>
        (\<not> is_table s D q \<longrightarrow> ram s' q = ram s q \<and> \<not> is_table s' D q))"

lemma only_tables_added_refl: "only_tables_added s s D"
  by (simp add: only_tables_added_def)

lemma only_tables_added_trans:
  "only_tables_added s s1 D \<Longrightarrow> only_tables_added s1 s2 D \<Longrightarrow> only_tables_added s s2 D"
  by (simp add: only_tables_added_def)

text \<open>A fresh page as the table of an entry that had none.\<close>

lemma table_fill:
  assumes wf: "wf_spaces s D" and pa: "pa_ok s" and d: "d \<in> D"
    and tp: "table_path (path @ [i])" and t: "node s d path = Some t"
    and inv: "rd (t, i) s AND VALID = 0" and al: "page_alloc s = (Some n, s1)"
    and e: "e AND VALID \<noteq> 0" "pte_page e = n"
    and s': "s' = set_ref n (page_ref s n + 1) (wr (t, i) e s1)"
  shows "wf_spaces s' D \<and> pa_ok s' \<and> only_tables_added s s' D \<and>
    node s' d (path @ [i]) = Some n"
proof -
  note F = page_alloc_fresh [OF al]
  have n0: "page_ref s n = 0" using wf_ref_used [OF wf, of n] F(2) by (auto simp: word_gt_0)
  have pp: "table_path path" using table_path_prefix(1) [of path i "[]"] tp by auto
  have "is_table s D t" using d pp t by (auto simp: is_table_def)
  then have tn: "t \<noteq> n" using wf_table_ref [OF wf, of t] n0 by auto
  have rds: "rd l s' = rd l s" if "l \<noteq> (t, i)" "fst l \<noteq> n" for l
    using that F(6) [of "fst l"] by (auto simp: s') (auto simp: rd_def)
  have zero: "rd (n, x) s' = 0" for x
    using tn F(5) by (auto simp: s') (auto simp: rd_def)
  have ent: "rd (t, i) s' AND VALID \<noteq> 0" "pte_page (rd (t, i) s') = n"
    using e by (auto simp: s')
  have ref: "page_ref s' = (page_ref s)(n := 1)"
    by (auto simp: s' F(7) n0)
  have used: "page_used s q \<Longrightarrow> page_used s' q" "page_used s' n" for q
    using F(3,4) by (auto simp: s')
  note W = new_table_wf [OF wf d tp t inv F(2) zero ent rds ref used]
  have pa': "page_pa s' = page_pa s" by (simp add: s' F(8))
  have "ram s' q = ram s q" if "page_used s q" "\<not> is_table s D q" for q
  proof -
    have "q \<noteq> n" "q \<noteq> t" using that F(2) \<open>is_table s D t\<close> by auto
    then show ?thesis using F(6) [of q] by (auto simp: s' wr_def set_ref_def)
  qed
  moreover have "q \<noteq> n" if "page_used s q" for q using that F(2) by auto
  ultimately have "only_tables_added s s' D"
    using W(2,3) pa' used(1) by (auto simp: only_tables_added_def ref)
  then show ?thesis
    using W(1,4) pa pa' by (simp add: pa_ok_def)
qed

lemma walk_level_create:
  assumes wf: "wf_spaces s D" and pa: "pa_ok s" and d: "d \<in> D"
    and tp: "table_path (path @ [i])" and t: "node s d path = Some t"
    and w: "walk_level (t, i) va True s = (r, s')"
  shows "wf_spaces s' D \<and> pa_ok s' \<and> only_tables_added s s' D \<and>
    (case r of Inl x \<Rightarrow> x = WFail | Inr n \<Rightarrow> node s' d (path @ [i]) = Some n)"
proof (cases "rd (t, i) s AND VALID = 0")
  case False
  then have "r = Inr (pte_page (rd (t, i) s))" "s' = s"
    using w by (auto simp: walk_level_def)
  then show ?thesis
    using wf pa t False by (simp add: node_append only_tables_added_refl)
next
  case inv: True
  obtain po s1 where al: "page_alloc s = (po, s1)" by (cases "page_alloc s")
  show ?thesis
  proof (cases po)
    case None
    then have "s1 = s" using al page_alloc_None [of s s1] by simp
    then have "r = Inl WFail" "s' = s" using w inv al None by (auto simp: walk_level_def)
    then show ?thesis using wf pa by (simp add: only_tables_added_refl)
  next
    case (Some n)
    note F = page_alloc_fresh [OF al [unfolded Some]]
    let ?e = "if va < KERNBASE then page_pa s n OR PTE_USER else page_pa s n"
    have s': "s' = set_ref n (page_ref s n + 1) (wr (t, i) ?e s1)" and r: "r = Inr (pte_page ?e)"
      using w inv al Some F(7,8) by (auto simp: walk_level_def Let_def)
    have e: "?e AND VALID \<noteq> 0" "pte_page ?e = n"
      using pa F(1) by (auto simp: pa_ok_def pte_page_OR valid_OR)
    show ?thesis
      using table_fill [OF wf pa d tp t inv al [unfolded Some] e s'] r e(2) by simp
  qed
qed

lemma pgdir_walk_create:
  assumes wf: "wf_spaces s D" and pa: "pa_ok s" and d: "d \<in> D" and va: "user_va va"
    and w: "pgdir_walk d va True s = (r, s')"
  shows "wf_spaces s' D \<and> pa_ok s' \<and> only_tables_added s s' D \<and>
    (r = WFail \<or> (\<exists>t. r = WPte (t, GET_L3_INDEX va) \<and>
       node s' d [GET_L1_INDEX va, GET_L2_INDEX va] = Some t))"
proof -
  obtain r1 s1 where w1: "walk_level (d, GET_L1_INDEX va) va True s = (r1, s1)"
    by (cases "walk_level (d, GET_L1_INDEX va) va True s")
  have L1: "wf_spaces s1 D" "pa_ok s1" "only_tables_added s s1 D"
    "case r1 of Inl x \<Rightarrow> x = WFail | Inr n \<Rightarrow> node s1 d [GET_L1_INDEX va] = Some n"
    using walk_level_create [OF wf pa d, of "[]" "GET_L1_INDEX va" d va r1 s1] va w1
    by (auto split: sum.splits)
  show ?thesis
  proof (cases r1)
    case (Inl x)
    then show ?thesis using w w1 L1 by (auto simp: pgdir_walk_def)
  next
    case (Inr t1)
    obtain r2 s2 where w2: "walk_level (t1, GET_L2_INDEX va) va True s1 = (r2, s2)"
      by (cases "walk_level (t1, GET_L2_INDEX va) va True s1")
    have "wf_spaces s2 D \<and> pa_ok s2 \<and> only_tables_added s1 s2 D \<and>
      (case r2 of Inl x \<Rightarrow> x = WFail
       | Inr n \<Rightarrow> node s2 d [GET_L1_INDEX va, GET_L2_INDEX va] = Some n)"
      using walk_level_create [OF L1(1,2) d, of "[GET_L1_INDEX va]" "GET_L2_INDEX va" t1 va r2 s2]
        va w2 L1(4) Inr by (auto split: sum.splits simp del: node.simps)
    then show ?thesis
      using w w1 w2 Inr only_tables_added_trans [OF L1(3), of s2]
      by (auto simp: pgdir_walk_def split: sum.splits simp del: node.simps)
  qed
qed

section \<open>The operations as operations on maps\<close>

text \<open>Two virtual addresses are on the same page of an address space if their indices agree.\<close>

abbreviation (input) same_vpage :: "u64 \<Rightarrow> u64 \<Rightarrow> bool" where
  "same_vpage va va' \<equiv> vpath va = vpath va'"

lemma vmap_node: "user_va va \<Longrightarrow> node s d (vpath va) = map_option pte_page (vmap s d va)"
  by (simp add: vmap_def node_leaf)

lemma card_remove_mapping:
  assumes "finite A"
  shows "card (A - {x}) = card A - (if x \<in> A then 1 else 0)"
  using assms by (auto simp: card_Diff_singleton)

lemma page_remove_unmapped: "vmap s d va = None \<Longrightarrow> page_remove d va s = s"
  using page_lookup_vmap [of d va s] by (simp add: page_remove_def)

text \<open>What \<open>page_remove\<close> writes when there is a mapping.\<close>

lemma page_remove_mapped:
  assumes wf: "wf_spaces s D" and d: "d \<in> D" and va: "user_va va" and e: "vmap s d va = Some e"
  obtains t where "node s d [GET_L1_INDEX va, GET_L2_INDEX va] = Some t"
    and "page_remove d va s = wr (t, GET_L3_INDEX va) 0
      (page_free (pte_page e) (set_ref (pte_page e) (page_ref s (pte_page e) - 1) s))"
    and "rd (t, GET_L3_INDEX va) s = e" and "e AND VALID \<noteq> 0" and "page_ref s (pte_page e) > 0"
    and "\<not> is_table s D (pte_page e)"
proof -
  obtain t where t: "node s d [GET_L1_INDEX va, GET_L2_INDEX va] = Some t"
    and re: "rd (t, GET_L3_INDEX va) s = e" "e AND VALID \<noteq> 0"
    using e by (auto simp: vmap_unfold Let_def split: option.splits if_splits)
  have pp: "pa2page e = pte_page e"
    using wf_entry [OF wf d, of "vpath va" e] va e by (simp add: vmap_def)
  have "page_lookup d va s = Some (pte_page e, (t, GET_L3_INDEX va))"
    using t re pp by (simp add: page_lookup_loc)
  then have rm: "page_remove d va s = wr (t, GET_L3_INDEX va) 0
      (page_free (pte_page e) (set_ref (pte_page e) (page_ref s (pte_page e) - 1) s))"
    by (simp add: page_remove_def Let_def)
  have lf: "node s d (vpath va) = Some (pte_page e)" using va e by (simp add: vmap_node)
  show ?thesis
    using that [OF t rm re] wf_mapped_ref [OF wf d _ lf] wf_leaf_not_table [OF wf d _ lf] va
    by simp
qed

lemma page_remove_wf:
  assumes wf: "wf_spaces s D" and d: "d \<in> D" and va: "user_va va"
  shows "wf_spaces (page_remove d va s) D"
    and "\<And>q. is_table (page_remove d va s) D q = is_table s D q"
    and "\<And>d' js. d' \<in> D \<Longrightarrow> leaf_path js \<Longrightarrow> leaf_entry (page_remove d va s) d' js =
      (if d' = d \<and> js = vpath va then None else leaf_entry s d' js)"
    and "\<And>js. table_path js \<Longrightarrow> node (page_remove d va s) d js = node s d js"
proof -
  let ?s = "page_remove d va s"
  consider (u) "vmap s d va = None" | (m) e where "vmap s d va = Some e" by fastforce
  then have "wf_spaces ?s D \<and> (\<forall>q. is_table ?s D q = is_table s D q) \<and>
    (\<forall>d' \<in> D. \<forall>js. leaf_path js \<longrightarrow> leaf_entry ?s d' js =
      (if d' = d \<and> js = vpath va then None else leaf_entry s d' js)) \<and>
    (\<forall>js. table_path js \<longrightarrow> node ?s d js = node s d js)"
  proof cases
    case u
    then show ?thesis using wf by (auto simp: page_remove_unmapped vmap_def)
  next
    case (m e)
    obtain t where t: "node s d [GET_L1_INDEX va, GET_L2_INDEX va] = Some t"
      and rm: "?s = wr (t, GET_L3_INDEX va) 0
        (page_free (pte_page e) (set_ref (pte_page e) (page_ref s (pte_page e) - 1) s))"
      and e: "rd (t, GET_L3_INDEX va) s = e" "e AND VALID \<noteq> 0"
      and r0: "page_ref s (pte_page e) > 0" and nt: "\<not> is_table s D (pte_page e)"
      by (rule page_remove_mapped [OF wf d va m])
    let ?x = "(d, [GET_L1_INDEX va, GET_L2_INDEX va, GET_L3_INDEX va])"
    have tp: "table_path [GET_L1_INDEX va, GET_L2_INDEX va]" using va by simp
    have rds: "rd l ?s = rd l s" if "l \<noteq> (t, GET_L3_INDEX va)" for l
      using that by (simp add: rm)
    have ref: "page_ref ?s q = (if q = pte_page e then page_ref s q - 1 else page_ref s q)" for q
      by (simp add: rm)
    have used: "page_used ?s q \<longleftrightarrow>
        page_used s q \<and> (q = pte_page e \<longrightarrow> page_ref s q - 1 > 0)" for q
      by (auto simp: rm page_used_page_free)
    have x: "?x \<in> mappings s D (pte_page e)"
      using d va m by (simp add: mappings_def vmap_node [symmetric] vpath_def [symmetric] vmap_node)
    have M: "mappings ?s D q = mappings s D q - {?x}" for q
    proof -
      have "rd (t, GET_L3_INDEX va) ?s = 0" by (simp add: rm)
      then show ?thesis
        using leaf_write_mappings [OF wf d tp _ t, of "GET_L3_INDEX va" ?s q] rds by auto
    qed
    have cnt: "card (mappings ?s D q) \<le> unat (page_ref ?s q)" for q
    proof (cases "q = pte_page e")
      case True
      have "unat (page_ref s q - 1) = unat (page_ref s q) - 1"
        using r0 True by (simp add: unat_minus_one word_gt_0)
      then show ?thesis
        using wf_card [OF wf, of q] x True finite_mappings [OF wf_finite [OF wf], of s q]
        by (simp add: M ref card_remove_mapping)
    next
      case False
      have "card (mappings s D q - {?x}) \<le> card (mappings s D q)"
        using finite_mappings [OF wf_finite [OF wf], of s q] by (intro card_mono) auto
      then show ?thesis using wf_card [OF wf, of q] False by (simp add: M ref)
    qed
    have "wf_spaces ?s D \<and> (\<forall>q. is_table ?s D q = is_table s D q)"
    proof (intro conjI allI)
      have new: "rd (t, GET_L3_INDEX va) ?s AND VALID = 0" by (simp add: rm)
      have tref: "page_ref ?s q > 0" if "is_table s D q" for q
        using wf_table_ref [OF wf that] that nt by (auto simp: ref)
      have us: "page_used ?s q" if "page_ref ?s q > 0" for q
        using that wf_ref_used [OF wf, of q] r0 by (auto simp: ref used split: if_splits)
      note W = leaf_write_wf [OF wf d tp _ t, of "GET_L3_INDEX va" ?s]
      show "wf_spaces ?s D" by (rule W(1)) (use rds new tref us cnt in auto)
      show "is_table ?s D q = is_table s D q" for q
        by (rule W(2)) (use rds new tref us cnt in auto)
    qed
    moreover have "leaf_entry ?s d' js =
        (if d' = d \<and> js = vpath va then None else leaf_entry s d' js)"
      if "d' \<in> D" "leaf_path js" for d' js
      using leaf_write_entries [OF wf d tp t, of "GET_L3_INDEX va" ?s d' js] rds that
      by (simp add: rm vpath_def)
    moreover have "node ?s d js = node s d js" if "table_path js" for js
      by (rule leaf_write_nodes [OF wf d tp t _ d that]) (use rds in auto)
    ultimately show ?thesis by blast
  qed
  then show "wf_spaces ?s D" "\<And>q. is_table ?s D q = is_table s D q"
    "\<And>d' js. d' \<in> D \<Longrightarrow> leaf_path js \<Longrightarrow> leaf_entry ?s d' js =
      (if d' = d \<and> js = vpath va then None else leaf_entry s d' js)"
    "\<And>js. table_path js \<Longrightarrow> node ?s d js = node s d js"
    by blast+
qed

lemma page_remove_frame:
  assumes wf: "wf_spaces s D" and d: "d \<in> D" and va: "user_va va"
  shows "page_pa (page_remove d va s) = page_pa s"
    and "\<not> is_table s D q \<Longrightarrow> ram (page_remove d va s) q = ram s q"
    and "page_ref (page_remove d va s) q =
      (if map_option pte_page (vmap s d va) = Some q then page_ref s q - 1 else page_ref s q)"
    and "page_used (page_remove d va s) q \<longleftrightarrow> page_used s q \<and>
      (map_option pte_page (vmap s d va) = Some q \<longrightarrow> page_ref s q - 1 > 0)"
proof -
  let ?s = "page_remove d va s"
  consider (u) "vmap s d va = None" | (m) e where "vmap s d va = Some e" by fastforce
  then have "page_pa ?s = page_pa s \<and> (\<not> is_table s D q \<longrightarrow> ram ?s q = ram s q) \<and>
    page_ref ?s q =
      (if map_option pte_page (vmap s d va) = Some q then page_ref s q - 1 else page_ref s q) \<and>
    (page_used ?s q \<longleftrightarrow> page_used s q \<and>
      (map_option pte_page (vmap s d va) = Some q \<longrightarrow> page_ref s q - 1 > 0))"
  proof cases
    case u
    then show ?thesis by (simp add: page_remove_unmapped)
  next
    case (m e)
    obtain t where t: "node s d [GET_L1_INDEX va, GET_L2_INDEX va] = Some t"
      and rm: "?s = wr (t, GET_L3_INDEX va) 0
        (page_free (pte_page e) (set_ref (pte_page e) (page_ref s (pte_page e) - 1) s))"
      by (rule page_remove_mapped [OF wf d va m])
    have "is_table s D t"
      using t d vpath_table(1) [OF va] by (auto simp: is_table_def simp del: node.simps)
    then have "\<not> is_table s D q \<Longrightarrow> q \<noteq> t" by auto
    then show ?thesis
      by (auto simp: rm m page_used_page_free) (auto simp: wr_def set_ref_def)
  qed
  then show "page_pa ?s = page_pa s" "\<not> is_table s D q \<Longrightarrow> ram ?s q = ram s q"
    "page_ref ?s q =
      (if map_option pte_page (vmap s d va) = Some q then page_ref s q - 1 else page_ref s q)"
    "page_used ?s q \<longleftrightarrow> page_used s q \<and>
      (map_option pte_page (vmap s d va) = Some q \<longrightarrow> page_ref s q - 1 > 0)"
    by blast+
qed

lemma pgdir_walk_exists:
  "node s d [GET_L1_INDEX va, GET_L2_INDEX va] = Some t \<Longrightarrow>
   pgdir_walk d va c s = (WPte (t, GET_L3_INDEX va), s)"
  by (auto simp: pgdir_walk_def walk_level_def split: if_splits)

text \<open>The entry that \<open>page_insert\<close> writes for page \<open>pp\<close>.\<close>

definition pte_for :: "'a pmem_scheme \<Rightarrow> nat \<Rightarrow> u64 \<Rightarrow> u64" where
  "pte_for s pp perm = page_pa s pp OR (perm OR VALID)"

lemma pte_for_ok:
  assumes "pa_ok s" and "pp < 2 ^ 18" and "perm_ok perm"
  shows "pte_page (pte_for s pp perm) = pp" "pa2page (pte_for s pp perm) = pp"
    "pte_for s pp perm AND VALID \<noteq> 0"
proof -
  have ok: "perm_ok (perm OR VALID)"
    using assms(3) by (simp add: perm_ok_def bit.conj_disj_distrib2)
  show "pte_page (pte_for s pp perm) = pp"
    using assms(1,2) perm_ok_addr [OF ok] by (simp add: pte_for_def pte_page_OR pa_ok_def)
  show "pa2page (pte_for s pp perm) = pp"
    using assms(1,2) ok by (simp add: pte_for_def pa2page_OR pa_ok_def)
  show "pte_for s pp perm AND VALID \<noteq> 0"
    using assms(1,2) by (simp add: pte_for_def valid_OR pa_ok_def)
qed

text \<open>Filling an empty leaf entry and counting the new reference.\<close>

lemma fill_entry_wf:
  assumes wf: "wf_spaces s D" and pa: "pa_ok s" and d: "d \<in> D" and va: "user_va va"
    and perm: "perm_ok perm" and pp: "pp < 2 ^ 18" "page_used s pp" "\<not> is_table s D pp"
    and max: "page_ref s pp \<noteq> -1"
    and t: "node s d [GET_L1_INDEX va, GET_L2_INDEX va] = Some t"
    and empty: "leaf_entry s d (vpath va) = None"
    and s': "s' = set_ref pp (page_ref s pp + 1) (wr (t, GET_L3_INDEX va) (pte_for s pp perm) s)"
  shows "wf_spaces s' D \<and> pa_ok s' \<and> (\<forall>d' \<in> D. \<forall>js. leaf_path js \<longrightarrow>
    leaf_entry s' d' js = (if d' = d \<and> js = vpath va then Some (pte_for s pp perm)
      else leaf_entry s d' js))"
proof -
  let ?x = "(d, [GET_L1_INDEX va, GET_L2_INDEX va, GET_L3_INDEX va])"
  note P = pte_for_ok [OF pa pp(1) perm]
  have tp: "table_path [GET_L1_INDEX va, GET_L2_INDEX va]" using va by simp
  have rds: "rd l s' = rd l s" if "l \<noteq> (t, GET_L3_INDEX va)" for l
    using that by (simp add: s')
  have v: "rd (t, GET_L3_INDEX va) s' = pte_for s pp perm" by (simp add: s')
  have ref: "page_ref s' q = (if q = pp then page_ref s q + 1 else page_ref s q)" for q
    by (simp add: s')
  have M: "mappings s' D q = mappings s D q \<union> (if pp = q then {?x} else {})" for q
  proof -
    have "?x \<notin> mappings s D q"
      using empty by (simp add: mappings_entry vpath_def)
    then show ?thesis
      using leaf_write_mappings [OF wf d tp _ t, of "GET_L3_INDEX va" s' q] rds v P by auto
  qed
  have pos: "unat (page_ref s pp + 1) = unat (page_ref s pp) + 1"
    using max by (rule unat_plus_one)
  have cnt: "card (mappings s' D q) \<le> unat (page_ref s' q)" for q
    using wf_card [OF wf, of q] finite_mappings [OF wf_finite [OF wf], of s q] pos
    by (auto simp: M ref card_insert_if)
  have new: "pa2page (rd (t, GET_L3_INDEX va) s') = pte_page (rd (t, GET_L3_INDEX va) s') \<and>
      \<not> is_table s D (pte_page (rd (t, GET_L3_INDEX va) s'))"
    using P pp(3) by (simp add: v)
  have p0: "page_ref s pp + 1 > 0"
    using max by (rule plus_one_gt_0)
  have tref: "page_ref s' q > 0" if "is_table s D q" for q
    using wf_table_ref [OF wf that] that pp(3) by (auto simp: ref)
  have used: "page_used s' q" if "page_ref s' q > 0" for q
    using that wf_ref_used [OF wf, of q] pp(2) by (auto simp: s' split: if_splits)
  have "wf_spaces s' D"
    by (rule leaf_write_wf(1) [OF wf d tp _ t, of "GET_L3_INDEX va" s'])
      (use rds new tref used cnt in auto)
  moreover have "pa_ok s'" using pa by (simp add: pa_ok_def s')
  ultimately show ?thesis
    using leaf_write_entries [OF wf d tp t, of "GET_L3_INDEX va" s'] rds v P
    by (simp add: vpath_def)
qed

text \<open>
  The abstract effect of inserting the entry \<open>v\<close> at the page of \<open>va\<close> in the address space of \<open>d\<close>,
  with result \<open>r\<close>: every other mapping of every address space of \<open>D\<close> and the contents of every page
  that is not a table stay as they are.
\<close>

definition inserts ::
    "'a pmem_scheme \<Rightarrow> nat set \<Rightarrow> nat \<Rightarrow> u64 \<Rightarrow> u64 \<Rightarrow> int \<times> 'a pmem_scheme \<Rightarrow> bool" where
  "inserts s D d va v res \<longleftrightarrow>
     wf_spaces (snd res) D \<and> pa_ok (snd res) \<and> (fst res = 0 \<or> fst res = -1) \<and>
     (\<forall>d' \<in> D. \<forall>js. leaf_path js \<longrightarrow> leaf_entry (snd res) d' js =
        (if fst res = 0 \<and> d' = d \<and> js = vpath va then Some v else leaf_entry s d' js)) \<and>
     (\<forall>q. page_used s q \<longrightarrow> \<not> is_table s D q \<longrightarrow> ram (snd res) q = ram s q)"

lemma is_table_third:
  assumes "d \<in> D" and "user_va va"
    and "node s d [GET_L1_INDEX va, GET_L2_INDEX va] = Some t"
  shows "is_table s D t"
  using assms vpath_table(1) [OF assms(2)] unfolding is_table_def by blast

lemma insert_unmapped:
  assumes wf: "wf_spaces s D" and pa: "pa_ok s" and d: "d \<in> D" and va: "user_va va"
    and perm: "perm_ok perm" and pp: "pp < 2 ^ 18" "page_used s pp" "\<not> is_table s D pp"
    and max: "page_ref s pp \<noteq> -1" and None: "vmap s d va = None"
  shows "inserts s D d va (pte_for s pp perm) (page_insert d pp va perm s)"
proof -
  have lf: "leaf_path (vpath va)" using va by simp
  have fr: "page_insert d pp va perm s = (case pgdir_walk d va True s of
        (WPte pte, s1) \<Rightarrow> (0, set_ref pp (page_ref s1 pp + 1) (wr pte (pte_for s1 pp perm) s1))
      | (_, s1) \<Rightarrow> (-1, s1))"
    using None
    by (auto simp: page_insert_def Let_def vmap_unfold pgdir_walk_lookup pte_for_def
        split: option.splits walk.splits prod.splits if_splits)
  obtain w s1 where w: "pgdir_walk d va True s = (w, s1)" by fastforce
  have W: "wf_spaces s1 D" "pa_ok s1" "only_tables_added s s1 D"
    and wc: "w = WFail \<or> (\<exists>t. w = WPte (t, GET_L3_INDEX va) \<and>
      node s1 d [GET_L1_INDEX va, GET_L2_INDEX va] = Some t)"
    using pgdir_walk_create [OF wf pa d va w] by auto
  from wc show ?thesis
  proof (elim disjE exE conjE)
    assume "w = WFail"
    then show ?thesis using W by (simp add: fr w inserts_def only_tables_added_def)
  next
    fix t assume wt: "w = WPte (t, GET_L3_INDEX va)"
      and t: "node s1 d [GET_L1_INDEX va, GET_L2_INDEX va] = Some t"
    have pp1: "page_used s1 pp" "\<not> is_table s1 D pp" "page_ref s1 pp \<noteq> -1"
      using W(3) pp max by (auto simp: only_tables_added_def)
    have "leaf_entry s1 d (vpath va) = None"
      using W(3) d lf None by (simp add: only_tables_added_def vmap_def)
    note F = fill_entry_wf [OF W(1,2) d va perm pp(1) pp1 t this refl]
    have "ram s1 q = ram s q \<and> q \<noteq> t" if "page_used s q" "\<not> is_table s D q" for q
      using W(3) that is_table_third [OF d va t] by (auto simp: only_tables_added_def)
    then show ?thesis
      using F W(3) by (simp add: fr w wt inserts_def only_tables_added_def pte_for_def set_ref_def wr_def)
  qed
qed

lemma insert_same_page:
  assumes wf: "wf_spaces s D" and pa: "pa_ok s" and d: "d \<in> D" and va: "user_va va"
    and perm: "perm_ok perm" and pp: "pp < 2 ^ 18" "\<not> is_table s D pp"
    and Some: "vmap s d va = Some e" and same: "pa2page e = pp"
  shows "inserts s D d va (pte_for s pp perm) (page_insert d pp va perm s)"
proof -
  have lf: "leaf_path (vpath va)" using va by simp
  obtain t where t: "node s d [GET_L1_INDEX va, GET_L2_INDEX va] = Some t"
    and e: "rd (t, GET_L3_INDEX va) s = e" "e AND VALID \<noteq> 0"
    by (rule page_remove_mapped [OF wf d va Some])
  let ?s = "wr (t, GET_L3_INDEX va) (pte_for s pp perm) s"
  have ins: "page_insert d pp va perm s = (0, ?s)"
    using t e same
    by (auto simp: page_insert_def pgdir_walk_lookup Let_def pte_for_def simp del: node.simps)
  note P = pte_for_ok [OF pa pp(1) perm]
  have tp: "table_path [GET_L1_INDEX va, GET_L2_INDEX va]" using va by simp
  have "(d, [GET_L1_INDEX va, GET_L2_INDEX va, GET_L3_INDEX va]) \<in> mappings s D q \<longleftrightarrow> q = pp" for q
    using d lf Some same wf_entry [OF wf d lf] by (auto simp: mappings_entry vmap_def vpath_def)
  then have M: "mappings ?s D q = mappings s D q" for q
    using leaf_write_mappings [OF wf d tp _ t, of "GET_L3_INDEX va" ?s q] P by auto
  have "wf_spaces ?s D"
    by (rule leaf_write_wf(1) [OF wf d tp _ t, of "GET_L3_INDEX va"])
      (use P pp(2) M wf_table_ref [OF wf] wf_ref_used [OF wf] wf_card [OF wf] in auto)
  moreover have "pa_ok ?s" using pa by (simp add: pa_ok_def)
  moreover have "ram ?s q = ram s q" if "\<not> is_table s D q" for q
    using that is_table_third [OF d va t] by (auto simp: wr_def)
  ultimately show ?thesis
    using leaf_write_entries [OF wf d tp t, of "GET_L3_INDEX va" ?s] P
    by (simp add: ins inserts_def vpath_def)
qed

lemma insert_other_page:
  assumes wf: "wf_spaces s D" and pa: "pa_ok s" and d: "d \<in> D" and va: "user_va va"
    and perm: "perm_ok perm" and pp: "pp < 2 ^ 18" "page_used s pp" "\<not> is_table s D pp"
    and max: "page_ref s pp \<noteq> -1" and Some: "vmap s d va = Some e" and other: "pa2page e \<noteq> pp"
  shows "inserts s D d va (pte_for s pp perm) (page_insert d pp va perm s)"
proof -
  have lf: "leaf_path (vpath va)" using va by simp
  let ?s1 = "page_remove d va s"
  note R = page_remove_wf [OF wf d va] and RF = page_remove_frame [OF wf d va]
  obtain t where t: "node s d [GET_L1_INDEX va, GET_L2_INDEX va] = Some t"
    and e: "rd (t, GET_L3_INDEX va) s = e" "e AND VALID \<noteq> 0"
    by (rule page_remove_mapped [OF wf d va Some])
  have t1: "node ?s1 d [GET_L1_INDEX va, GET_L2_INDEX va] = Some t"
    using R(4) [of "[GET_L1_INDEX va, GET_L2_INDEX va]"] t vpath_table(1) [OF va]
    by (simp del: node.simps)
  have ins: "page_insert d pp va perm s = (0, set_ref pp (page_ref ?s1 pp + 1)
      (wr (t, GET_L3_INDEX va) (pte_for ?s1 pp perm) ?s1))"
    using t e other pgdir_walk_exists [OF t1]
    by (auto simp: page_insert_def pgdir_walk_lookup Let_def pte_for_def simp del: node.simps)
  have pt: "pte_for ?s1 pp perm = pte_for s pp perm" using RF(1) by (simp add: pte_for_def)
  have "pte_page e \<noteq> pp" using other wf_entry [OF wf d lf] Some by (simp add: vmap_def)
  then have pp1: "page_used ?s1 pp" "\<not> is_table ?s1 D pp" "page_ref ?s1 pp \<noteq> -1"
    using pp max R(2) RF(3,4) Some by auto
  have pa1: "pa_ok ?s1" using pa RF(1) by (simp add: pa_ok_def)
  have "leaf_entry ?s1 d (vpath va) = None" using R(3) d lf by simp
  note F = fill_entry_wf [OF R(1) pa1 d va perm pp(1) pp1 t1 this refl]
  have "ram ?s1 q = ram s q \<and> q \<noteq> t" if "\<not> is_table s D q" for q
    using that is_table_third [OF d va t] RF(2) [OF that] by auto
  then show ?thesis using F R(3) pt by (auto simp: ins inserts_def set_ref_def wr_def)
qed

lemma page_insert_inserts:
  assumes "wf_spaces s D" and "pa_ok s" and "d \<in> D" and "user_va va" and "perm_ok perm"
    and "pp < 2 ^ 18" and "page_used s pp" and "\<not> is_table s D pp" and "page_ref s pp \<noteq> -1"
  shows "inserts s D d va (pte_for s pp perm) (page_insert d pp va perm s)"
proof (cases "vmap s d va")
  case None
  with assms show ?thesis by (intro insert_unmapped)
next
  case (Some e)
  with assms show ?thesis
    by (cases "pa2page e = pp") (auto intro: insert_same_page insert_other_page)
qed

lemma inserts_vmap:
  assumes "inserts s D d va v (r, s')" and "d' \<in> D" and "user_va va'"
  shows "vmap s' d' va' = (if r = 0 \<and> d' = d \<and> same_vpage va' va then Some v else vmap s d' va')"
  using assms by (auto simp: inserts_def vmap_def)

lemma wf_spacesI:
  assumes "finite D"
    and "\<And>d d' is js t. d \<in> D \<Longrightarrow> d' \<in> D \<Longrightarrow> table_path is \<Longrightarrow> table_path js \<Longrightarrow>
      node s d is = Some t \<Longrightarrow> node s d' js = Some t \<Longrightarrow> d = d' \<and> is = js"
    and "\<And>d is t. d \<in> D \<Longrightarrow> leaf_path is \<Longrightarrow> node s d is = Some t \<Longrightarrow> \<not> is_table s D t"
    and "\<And>t. is_table s D t \<Longrightarrow> page_ref s t > 0"
    and "\<And>p. page_ref s p > 0 \<Longrightarrow> page_used s p"
    and "\<And>p. card (mappings s D p) \<le> unat (page_ref s p)"
    and "\<And>d is e. d \<in> D \<Longrightarrow> leaf_path is \<Longrightarrow> leaf_entry s d is = Some e \<Longrightarrow> pa2page e = pte_page e"
  shows "wf_spaces s D"
  using assms by (simp add: wf_spaces_def)

section \<open>A new address space\<close>

text \<open>What \<open>env_setup_vm\<close> makes of a freshly allocated page: only the self map is valid.\<close>

definition new_dir :: "'a pmem_scheme \<Rightarrow> 'a pmem_scheme \<Rightarrow> nat \<Rightarrow> bool" where
  "new_dir s s' p \<longleftrightarrow> \<not> page_used s p \<and> page_used s' p \<and> page_ref s' p > 0 \<and>
     (\<forall>q. page_used s q \<longrightarrow> page_used s' q) \<and> (\<forall>q. q \<noteq> p \<longrightarrow> page_ref s' q = page_ref s q) \<and>
     (\<forall>q. q \<noteq> p \<longrightarrow> ram s' q = ram s q) \<and>
     (\<forall>k < 512. k \<noteq> self_index \<longrightarrow> ram s' p k AND VALID = 0) \<and> page_pa s' = page_pa s"

lemma new_dir_notin:
  assumes wf: "wf_spaces s D" and new: "new_dir s s' p"
  shows "p \<notin> D" "\<not> is_table s D p"
proof -
  show nt: "\<not> is_table s D p"
    using wf_ref_used [OF wf wf_table_ref [OF wf]] new by (auto simp: new_dir_def)
  show "p \<notin> D"
  proof
    assume "p \<in> D"
    then have "is_table s D p"
      unfolding is_table_def by (intro bexI [of _ p] exI [of _ "[]"]) simp_all
    with nt show False ..
  qed
qed

lemma new_dir_node_old:
  assumes wf: "wf_spaces s D" and new: "new_dir s s' p"
    and d: "d \<in> D" and path: "table_path is \<or> leaf_path is"
  shows "node s' d is = node s d is"
proof (rule node_cong)
  fix js j ks t
  assume "is = js @ j # ks" and t: "node s d js = Some t"
  then have "table_path js" using path table_path_prefix by blast
  then have "is_table s D t" using d t by (auto simp: is_table_def)
  then have "t \<noteq> p" using new_dir_notin(2) [OF wf new] by auto
  then show "rd (t, j) s' = rd (t, j) s" using new by (simp add: new_dir_def rd_def)
qed

lemma new_dir_node_new:
  assumes new: "new_dir s s' p"
    and "is \<noteq> []" and "table_path is \<or> leaf_path is"
  shows "node s' p is = None"
proof (cases "is")
  case Nil
  with assms show ?thesis by simp
next
  case (Cons i js)
  then have "i < 512" "i \<noteq> self_index"
    using assms by (auto simp: table_path_def leaf_path_def)
  then show ?thesis using new Cons by (simp add: new_dir_def rd_def)
qed

lemma new_dir_is_table:
  assumes wf: "wf_spaces s D" and new: "new_dir s s' p"
  shows "is_table s' (insert p D) t \<longleftrightarrow> t = p \<or> is_table s D t"
proof -
  have "(\<exists>is. table_path is \<and> node s' p is = Some t) \<longleftrightarrow> t = p"
  proof
    assume "\<exists>is. table_path is \<and> node s' p is = Some t"
    then obtain js where "table_path js" "node s' p js = Some t" by blast
    then show "t = p" using new_dir_node_new [OF new, of js] by (cases "js = []") auto
  next
    assume "t = p"
    then show "\<exists>is. table_path is \<and> node s' p is = Some t"
      by (intro exI [of _ "[]"]) simp
  qed
  then show ?thesis using new_dir_node_old [OF wf new] by (auto simp: is_table_def)
qed

lemma new_dir_mappings:
  assumes wf: "wf_spaces s D" and new: "new_dir s s' p"
  shows "mappings s' (insert p D) q = mappings s D q"
proof -
  have "\<not> (leaf_path js \<and> node s' p js = Some q)" for js
    using new_dir_node_new [OF new, of js] by (cases "js = []") (auto simp: leaf_path_def)
  then show ?thesis using new_dir_notin(1) [OF wf new] new_dir_node_old [OF wf new] by (auto simp: mappings_def)
qed

lemma new_dir_entries:
  assumes wf: "wf_spaces s D" and new: "new_dir s s' p"
    and js: "leaf_path js"
  shows "leaf_entry s' p js = None" and "d \<in> D \<Longrightarrow> leaf_entry s' d js = leaf_entry s d js"
proof -
  obtain i j k where ijk: "js = [i, j, k]" "table_path [i, j]" using leaf_path_cases [OF js] by blast
  show "leaf_entry s' p js = None"
    using new_dir_node_new [OF new, of "[i, j]"] ijk by (simp add: leaf_entry_def del: node.simps)
  assume d: "d \<in> D"
  have n: "node s' d [i, j] = node s d [i, j]" using new_dir_node_old [OF wf new d] ijk by blast
  have "t \<noteq> p" if "node s d [i, j] = Some t" for t
    using that ijk d new_dir_notin(2) [OF wf new] unfolding is_table_def by blast
  then show "leaf_entry s' d js = leaf_entry s d js"
    using n ijk new
    by (auto simp: leaf_entry_def new_dir_def rd_def simp del: node.simps split: option.splits)
qed

lemma new_dir_wf:
  assumes wf: "wf_spaces s D" and new: "new_dir s s' p"
  shows "wf_spaces s' (insert p D)"
proof -
  have inj: "d = d' \<and> is = js" if "d \<in> insert p D" "d' \<in> insert p D" "table_path is" "table_path js"
    "node s' d is = Some t" "node s' d' js = Some t" for d d' "is" js t
  proof (cases "t = p")
    case True
    have "d = p \<and> is = []" if "d \<in> insert p D" "table_path is" "node s' d is = Some p" for d "is"
    proof (cases "d = p")
      case True
      then show ?thesis using that new_dir_node_new [OF new, of "is"] by (cases "is = []") auto
    next
      case False
      then show ?thesis
        using that new_dir_node_old [OF wf new, of d "is"] new_dir_notin(2) [OF wf new] unfolding is_table_def by auto
    qed
    from this [of d "is"] this [of d' js] show ?thesis using that True by auto
  next
    case False
    have "d \<noteq> p" if "table_path is" "node s' d is = Some t" for d "is"
      using that False new_dir_node_new [OF new, of "is"] by (cases "is = []") auto
    then have "d \<in> D" "d' \<in> D" using that by auto
    then show ?thesis
      using that new_dir_node_old [OF wf new, of d "is"] new_dir_node_old [OF wf new, of d' js]
        wf_inj [OF wf, of d d' "is" js t] by simp
  qed
  have leaf: "\<not> is_table s' (insert p D) t"
    if "d \<in> insert p D" "leaf_path is" "node s' d is = Some t" for d "is" t
  proof -
    have "is \<noteq> []" using that by (auto simp: leaf_path_def)
    then have d: "d \<in> D" and n: "node s d is = Some t"
      using that new_dir_node_new [OF new, of "is"] new_dir_node_old [OF wf new, of d "is"] by auto
    then have "\<not> is_table s D t" "page_used s t"
      using that wf_leaf_not_table [OF wf d] wf_ref_used [OF wf wf_mapped_ref [OF wf d]] by auto
    then show ?thesis using new by (auto simp: new_dir_is_table [OF wf new] new_dir_def)
  qed
  have "\<not> page_ref s p > 0" using new wf_ref_used [OF wf] by (auto simp: new_dir_def)
  then have r0: "page_ref s p = 0" by (simp add: word_gt_0)
  have card: "card (mappings s' (insert p D) q) \<le> unat (page_ref s' q)" for q
    using wf_card [OF wf, of q] new r0 by (cases "q = p") (auto simp: new_dir_mappings [OF wf new] new_dir_def)
  have ent: "pa2page e = pte_page e"
    if "d \<in> insert p D" "leaf_path is" "leaf_entry s' d is = Some e" for d "is" e
    using that new_dir_entries [OF wf new] wf_entry [OF wf] by (cases "d = p") auto
  have refs: "is_table s' (insert p D) t \<Longrightarrow> page_ref s' t > 0" for t
    using new wf_table_ref [OF wf, of t] by (cases "t = p") (auto simp: new_dir_is_table [OF wf new] new_dir_def)
  have used: "page_ref s' q > 0 \<Longrightarrow> page_used s' q" for q
    using new wf_ref_used [OF wf, of q] by (cases "q = p") (auto simp: new_dir_def)
  show ?thesis
    by (rule wf_spacesI) (use wf_finite [OF wf] in simp, fact inj, fact leaf, fact refs, fact used,
        fact card, fact ent)
qed

lemma wf_spaces_no_dir: "wf_spaces s {} \<longleftrightarrow> (\<forall>p. page_ref s p > 0 \<longrightarrow> page_used s p)"
  by (auto simp: wf_spaces_def is_table_def mappings_def)

end
