(* ===== verification/FreshPages.thy ===== *)
theory FreshPages
  imports AddrSpace
begin

text \<open>
  Fresh pages among the address spaces: \<open>page_alloc\<close> changes no address space, and the page fault
  handler \<open>page_out\<close> of mm/pmap.c maps exactly one cleared page at the faulting address.
\<close>

section \<open>Allocated pages that are not yet mapped\<close>

lemma same_tables_node:
  assumes "\<And>t. is_table s D t \<Longrightarrow> ram s' t = ram s t" and d: "d \<in> D"
    and path: "table_path is \<or> leaf_path is"
  shows "node s' d is = node s d is"
proof (rule node_cong)
  fix js j ks t
  assume "is = js @ j # ks" and t: "node s d js = Some t"
  then have "table_path js" using path table_path_prefix by blast
  then have "is_table s D t" using d t by (auto simp: is_table_def)
  then show "rd (t, j) s' = rd (t, j) s" using assms(1) by (simp add: rd_def)
qed

text \<open>A step that leaves the tables and the reference counts alone and frees nothing.\<close>

lemma same_tables_wf:
  assumes wf: "wf_spaces s D" and pa: "pa_ok s"
    and same: "\<And>t. is_table s D t \<Longrightarrow> ram s' t = ram s t"
    and ref: "page_ref s' = page_ref s" and pp: "page_pa s' = page_pa s"
    and used: "\<And>q. page_used s q \<Longrightarrow> page_used s' q"
  shows "wf_spaces s' D" "pa_ok s'" "\<And>q. is_table s' D q = is_table s D q"
    "\<And>d js. d \<in> D \<Longrightarrow> leaf_path js \<Longrightarrow> leaf_entry s' d js = leaf_entry s d js"
proof -
  have N: "node s' d is = node s d is" if "d \<in> D" "table_path is \<or> leaf_path is" for d "is"
    using same that by (rule same_tables_node)
  have tab: "is_table s' D q = is_table s D q" for q
    unfolding is_table_def using N by (metis (no_types, lifting))
  have ent: "leaf_entry s' d js = leaf_entry s d js" if "d \<in> D" and lf: "leaf_path js" for d js
  proof -
    obtain i j k where js: "js = [i, j, k]" "table_path [i, j]"
      using leaf_path_cases [OF lf] by blast
    have "ram s' t = ram s t" if "node s d [i, j] = Some t" for t
      using same that js(2) \<open>d \<in> D\<close> unfolding is_table_def by blast
    then show ?thesis
      using N [OF \<open>d \<in> D\<close>, of "[i, j]"] js
      by (auto simp: leaf_entry_def rd_def simp del: node.simps split: option.splits)
  qed
  have map: "mappings s' D q = mappings s D q" for q
    using N by (auto simp: mappings_def)
  show "wf_spaces s' D"
  proof (rule wf_spacesI)
    show "d = d' \<and> is = js" if "d \<in> D" "d' \<in> D" "table_path is" "table_path js"
      "node s' d is = Some t" "node s' d' js = Some t" for d d' "is" js t
      using that wf_inj [OF wf] by (simp add: N)
    show "\<not> is_table s' D t" if "d \<in> D" "leaf_path is" "node s' d is = Some t" for d "is" t
      using that wf_leaf_not_table [OF wf] by (simp add: N tab)
    show "pa2page e = pte_page e"
      if "d \<in> D" "leaf_path is" "leaf_entry s' d is = Some e" for d "is" e
      using that wf_entry [OF wf] by (simp add: ent)
  qed (use wf_finite [OF wf] wf_table_ref [OF wf] wf_ref_used [OF wf] wf_card [OF wf] used
      in \<open>auto simp: tab map ref\<close>)
  show "pa_ok s'" using pa by (simp add: pa_ok_def pp)
  show "is_table s' D q = is_table s D q" for q by (rule tab)
  show "leaf_entry s' d js = leaf_entry s d js" if "d \<in> D" "leaf_path js" for d js
    using that by (rule ent)
qed

lemma page_alloc_spaces:
  assumes wf: "wf_spaces s D" and pa: "pa_ok s" and al: "page_alloc s = (Some n, s1)"
  shows "wf_spaces s1 D" "pa_ok s1" "only_tables_added s s1 D" "\<not> is_table s1 D n" "page_ref s n = 0"
proof -
  note F = page_alloc_fresh [OF al]
  show n0: "page_ref s n = 0" using wf_ref_used [OF wf, of n] F(2) by (auto simp: word_gt_0)
  have nt: "\<not> is_table s D n" using wf_table_ref [OF wf, of n] n0 by auto
  have same: "ram s1 t = ram s t" if "is_table s D t" for t
    using that nt F(6) [of t] by auto
  note S = same_tables_wf [OF wf pa same F(7,8) F(4)]
  show "wf_spaces s1 D" "pa_ok s1" using S(1,2) by blast+
  show "\<not> is_table s1 D n" using S(3) nt by blast
  show "only_tables_added s s1 D"
    unfolding only_tables_added_def
  proof (intro conjI ballI allI impI)
    fix q assume q: "page_used s q"
    show "page_used s1 q" "page_ref s1 q = page_ref s q" using F(4) [OF q] F(7) by simp_all
    assume "\<not> is_table s D q"
    then show "ram s1 q = ram s q" "\<not> is_table s1 D q"
      using F(2) F(6) [of q] q S(3) by auto
  qed (use S(4) F(8) in simp_all)
qed

text \<open>
  A fresh page mapped at the page of \<open>va\<close>, cleared; nothing that was in use changes.
\<close>

definition maps_fresh ::
    "'a pmem_scheme \<Rightarrow> nat set \<Rightarrow> nat \<Rightarrow> u64 \<Rightarrow> u64 \<Rightarrow> nat \<Rightarrow> 'a pmem_scheme \<Rightarrow> bool" where
  "maps_fresh s D d va perm n s' \<longleftrightarrow>
     wf_spaces s' D \<and> pa_ok s' \<and> n < 2 ^ 18 \<and> \<not> page_used s n \<and> page_ref s' n = 1 \<and>
     ram s' n = (\<lambda>_. 0) \<and>
     (\<forall>d' \<in> D. \<forall>js. leaf_path js \<longrightarrow> leaf_entry s' d' js =
        (if d' = d \<and> js = vpath va then Some (pte_for s n perm) else leaf_entry s d' js)) \<and>
     (\<forall>q. page_used s q \<longrightarrow> page_used s' q \<and> page_ref s' q = page_ref s q \<and>
        (\<not> is_table s D q \<longrightarrow> ram s' q = ram s q))"

lemma only_tables_added_maps_fresh:
  assumes "only_tables_added s s1 D" and "maps_fresh s1 D d va perm n s'"
  shows "maps_fresh s D d va perm n s'"
proof -
  have "pte_for s1 n perm = pte_for s n perm" using assms(1) by (simp add: only_tables_added_def pte_for_def)
  then show ?thesis using assms unfolding maps_fresh_def only_tables_added_def by auto
qed

lemma fresh_leaf:
  assumes wf: "wf_spaces s D" and pa: "pa_ok s" and d: "d \<in> D" and va: "user_va va"
    and perm: "perm_ok perm"
    and t: "node s d [GET_L1_INDEX va, GET_L2_INDEX va] = Some t"
    and empty: "leaf_entry s d (vpath va) = None"
    and al: "page_alloc s = (Some n, s1)"
    and s': "s' = set_ref n (page_ref s n + 1) (wr (t, GET_L3_INDEX va) (pte_for s n perm) s1)"
  shows "maps_fresh s D d va perm n s'"
proof -
  note A = page_alloc_spaces [OF wf pa al] and F = page_alloc_fresh [OF al]
  have lf: "leaf_path (vpath va)" using va by simp
  have tt: "is_table s D t" by (rule is_table_third [OF d va t])
  have tn: "t \<noteq> n" using wf_table_ref [OF wf tt] A(5) by auto
  have ent: "leaf_entry s1 d' js = leaf_entry s d' js" if "d' \<in> D" "leaf_path js" for d' js
    using A(3) that by (simp add: only_tables_added_def)
  have t1: "node s1 d [GET_L1_INDEX va, GET_L2_INDEX va] = Some t"
  proof -
    have "ram s1 q = ram s q" if "is_table s D q" for q
      using wf_table_ref [OF wf that] A(5) F(6) [of q] by (cases "q = n") simp_all
    then have "node s1 d [GET_L1_INDEX va, GET_L2_INDEX va] = node s d [GET_L1_INDEX va, GET_L2_INDEX va]"
      using d va by (intro same_tables_node) simp_all
    then show ?thesis using t by simp
  qed
  have pte: "pte_for s1 n perm = pte_for s n perm" by (simp add: pte_for_def F(8))
  have "wf_spaces s' D \<and> pa_ok s' \<and> (\<forall>d' \<in> D. \<forall>js. leaf_path js \<longrightarrow> leaf_entry s' d' js =
      (if d' = d \<and> js = vpath va then Some (pte_for s1 n perm) else leaf_entry s1 d' js))"
    by (rule fill_entry_wf [OF A(1,2) d va perm F(1,3) A(4) _ t1])
      (use A(5) F(7) ent d lf empty pte in \<open>simp_all add: s'\<close>)
  moreover have "page_used s q \<Longrightarrow> page_used s' q \<and> page_ref s' q = page_ref s q \<and>
      (\<not> is_table s D q \<longrightarrow> ram s' q = ram s q)" for q
    using F(2,4,6,7) tt by (auto simp: s') (auto simp: set_ref_def wr_def)
  moreover have "ram s' n = (\<lambda>_. 0)" "page_ref s' n = 1"
    using F(5) tn A(5) by (auto simp: s' set_ref_def wr_def)
  ultimately show ?thesis using F(1,2) ent by (simp add: maps_fresh_def pte)
qed


lemma page_out_level_table:
  assumes wf: "wf_spaces s D" and pa: "pa_ok s" and d: "d \<in> D"
    and tp: "table_path (path @ [i])" and t: "node s d path = Some t"
  shows "(\<exists>n s'. page_out_level va False (t, i) s = Ret n s' \<and> wf_spaces s' D \<and> pa_ok s' \<and>
      only_tables_added s s' D \<and> node s' d (path @ [i]) = Some n) \<or>
    (page_alloc s = (None, s) \<and> (\<exists>m. page_out_level va False (t, i) s = Panic m s))"
proof (cases "rd (t, i) s AND VALID = 0")
  case False
  then show ?thesis
    using wf pa t by (simp add: page_out_level_def node_append only_tables_added_refl)
next
  case inv: True
  obtain po s1 where al: "page_alloc s = (po, s1)" by (cases "page_alloc s")
  show ?thesis
  proof (cases po)
    case None
    then show ?thesis using al page_alloc_None [of s s1] inv by (simp add: page_out_level_def)
  next
    case (Some n)
    note F = page_alloc_fresh [OF al [unfolded Some]]
    let ?perm = "if va < KERNBASE then PTE_USER else 0"
    let ?e = "page_pa s n OR TABLE OR VALID OR ?perm"
    let ?s = "set_ref n (page_ref s n + 1) (wr (t, i) ?e s1)"
    have r: "page_out_level va False (t, i) s = Ret (pte_page ?e) ?s"
      using inv al Some F(7,8) by (simp add: page_out_level_def Let_def wr_set_ref or.assoc)
    have e: "?e AND VALID \<noteq> 0" "pte_page ?e = n"
      using pa F(1) by (simp_all add: pa_ok_def pte_page_OR valid_OR or.assoc)
    show ?thesis
      using table_fill [OF wf pa d tp t inv al [unfolded Some] e refl]
      unfolding r e(2) by blast
  qed
qed

lemma page_out_maps:
  assumes wf: "wf_spaces s D" and pa: "pa_ok s" and d: "d \<in> D" and va: "user_va va"
    and low: "VADDR va \<ge> BY2PG" and u: "va AND push_bit 39 1 = 0" "va < KERNBASE"
    and empty: "vmap s d va = None"
  shows "(\<exists>n s'. page_out d kd va s = Ret () s' \<and>
      maps_fresh s D d va (TABLE OR PTE_USER) n s') \<or>
    (\<exists>m s'. page_out d kd va s = Panic m s' \<and> page_alloc s' = (None, s'))"
proof -
  have "\<not> VADDR va < BY2PG" using low by (simp add: not_less)
  then have po: "page_out d kd va s = obind (page_out_level va False (d, GET_L1_INDEX va) s)
      (\<lambda>t1 s1. obind (page_out_level va False (t1, GET_L2_INDEX va) s1)
      (\<lambda>t2 s2. obind (page_out_level va True (t2, GET_L3_INDEX va) s2) (\<lambda>_ s3. Ret () s3)))"
    using u by (simp add: page_out_def Let_def)
  have "table_path ([] @ [GET_L1_INDEX va])" "node s d [] = Some d" using va by simp_all
  from page_out_level_table [OF wf pa d this, of va] show ?thesis
  proof (elim disjE exE conjE)
    fix t1 s1
    assume r1: "page_out_level va False (d, GET_L1_INDEX va) s = Ret t1 s1"
      and W1: "wf_spaces s1 D" "pa_ok s1" and A1: "only_tables_added s s1 D"
      and t1: "node s1 d ([] @ [GET_L1_INDEX va]) = Some t1"
    have "table_path (([] @ [GET_L1_INDEX va]) @ [GET_L2_INDEX va])" using va by simp
    from page_out_level_table [OF W1 d this t1, of va] show ?thesis
    proof (elim disjE exE conjE)
      fix t2 s2
      assume r2: "page_out_level va False (t1, GET_L2_INDEX va) s1 = Ret t2 s2"
        and W2: "wf_spaces s2 D" "pa_ok s2" and A2: "only_tables_added s1 s2 D"
        and t2: "node s2 d (([] @ [GET_L1_INDEX va]) @ [GET_L2_INDEX va]) = Some t2"
      have A: "only_tables_added s s2 D" by (rule only_tables_added_trans [OF A1 A2])
      have t2': "node s2 d [GET_L1_INDEX va, GET_L2_INDEX va] = Some t2"
        using t2 by (simp del: node.simps)
      have e2: "leaf_entry s2 d (vpath va) = None"
        using A d va empty by (simp add: only_tables_added_def vmap_def)
      then have inv: "rd (t2, GET_L3_INDEX va) s2 AND VALID = 0"
        using t2' by (simp add: leaf_entry_def vpath_def Let_def del: node.simps split: if_splits)
      obtain po s3 where al: "page_alloc s2 = (po, s3)" by (cases "page_alloc s2")
      show ?thesis
      proof (cases po)
        case None
        then have "page_out_level va True (t2, GET_L3_INDEX va) s2 =
            Panic ''page_out error: no free page'' s3"
          using al inv by (simp add: page_out_level_def)
        then show ?thesis using al None page_alloc_None [of s2 s3] by (simp add: po r1 r2)
      next
        case (Some n)
        note F = page_alloc_fresh [OF al [unfolded Some]]
        let ?s = "set_ref n (page_ref s2 n + 1)
          (wr (t2, GET_L3_INDEX va) (pte_for s2 n (TABLE OR PTE_USER)) s3)"
        have "page_out_level va True (t2, GET_L3_INDEX va) s2 =
            Ret (pte_page (pte_for s2 n (TABLE OR PTE_USER))) ?s"
          using inv al Some F(7,8) u(2)
          by (simp add: page_out_level_def Let_def wr_set_ref pte_for_def or.assoc)
        then have r: "page_out d kd va s = Ret () ?s" by (simp add: po r1 r2)
        have "perm_ok (TABLE OR PTE_USER)" by (simp add: perm_ok_def)
        from fresh_leaf [OF W2 d va this t2' e2 al [unfolded Some] refl]
        have M: "maps_fresh s2 D d va (TABLE OR PTE_USER) n ?s" .
        have "maps_fresh s D d va (TABLE OR PTE_USER) n ?s"
          by (rule only_tables_added_maps_fresh [OF A M])
        with r show ?thesis by blast
      qed
    qed (simp add: po r1)
  qed (simp add: po)
qed

end
