(* ===== verification/Boot.thy ===== *)
theory Boot
  imports FreshPages
begin

text \<open>
  boot/init.c: the page descriptors, the allocation bitmap and the boot page tables that
  \<open>init_boot_pt\<close> sets up before the MMU is on. The linker's addresses are a parameter; an array
  of table entries is its first page, entry \<open>i\<close> being word \<open>i mod 512\<close> of page \<open>i div 512\<close>.
\<close>

section \<open>The code\<close>

record layout =
  init_end :: u64
  img_end :: u64
  ttbr0_l1 :: nat
  ttbr0_l2 :: nat
  ttbr0_l3 :: nat
  ttbr1_l1 :: nat
  ttbr1_l2 :: nat
  ttbr1_l3 :: nat

abbreviation (input) PERIPHERAL_BASE :: u64 where "PERIPHERAL_BASE \<equiv> 0x3F000000"
abbreviation (input) PHYSMEM_END :: u64 where "PHYSMEM_END \<equiv> 0x40000000"
abbreviation (input) SIZE_2M :: u64 where "SIZE_2M \<equiv> 2 * 1024 * 1024"

definition entry_at :: "nat \<Rightarrow> nat \<Rightarrow> ploc" where
  "entry_at base i = (base + i div 512, i mod 512)"

text \<open>The address of entry \<open>i\<close> of the array at \<open>base\<close>.\<close>

definition entry_addr :: "nat \<Rightarrow> nat \<Rightarrow> u64" where
  "entry_addr base i = of_nat (base * 4096 + i * 8)"

definition set_pa :: "nat \<Rightarrow> u64 \<Rightarrow> 'a pmem_scheme \<Rightarrow> 'a pmem_scheme" where
  "set_pa i v s = s\<lparr>page_pa := (page_pa s)(i := v)\<rparr>"

definition mark_vis :: "nat \<Rightarrow> 'a pmem_scheme \<Rightarrow> 'a pmem_scheme" where
  "mark_vis i s =
    s\<lparr>Kern_vis := (Kern_vis s)(i div 64 := Kern_vis s (i div 64) OR push_bit (i mod 64) 1)\<rparr>"

definition init_page_pa :: "nat \<Rightarrow> u64" where
  "init_page_pa i =
    (let pa = push_bit 12 (of_nat i) OR VALID OR TABLE OR ACCESSED
     in if push_bit 12 (of_nat i) \<ge> PERIPHERAL_BASE then pa OR (OUTER_SHARABLE OR DEVICE_MEMORY)
        else pa OR (INNER_SHARABLE OR NORMAL_MEMORY))"

definition ttbr0_step :: "layout \<Rightarrow> nat \<Rightarrow> 'a pmem_scheme \<Rightarrow> 'a pmem_scheme" where
  "ttbr0_step lay i s =
    (let s1 = mark_vis i s
     in if i > 0 then
          (let s2 = wr (entry_at (ttbr0_l3 lay) i) (page_pa s1 i) s1;
               s3 = set_ref i (page_ref s2 i + 1) s2
           in set_pa i (page_pa s3 i OR UXN) s3)
        else s1)"

definition ttbr1_step :: "layout \<Rightarrow> nat \<Rightarrow> 'a pmem_scheme \<Rightarrow> 'a pmem_scheme" where
  "ttbr1_step lay i s =
    (let s1 = (if (drop_bit 12 (init_end lay) \<le> of_nat i \<and> of_nat i < drop_bit 12 (img_end lay))
                  \<or> of_nat i \<ge> drop_bit 12 PERIPHERAL_BASE
               then set_ref i (page_ref s i + 1) (mark_vis i s) else s)
     in if i > 0 then wr (entry_at (ttbr1_l3 lay) i) (page_pa s1 i) s1 else s1)"

definition init_boot_pt :: "layout \<Rightarrow> 'a pmem_scheme \<Rightarrow> 'a pmem_scheme" where
  "init_boot_pt lay s =
    (let s1 = fold (\<lambda>i. set_pa i (init_page_pa i)) [0..<2 ^ 18] s;
         s2 = wr (ttbr0_l1 lay, 0) (entry_addr (ttbr0_l2 lay) 0 OR TABLE OR VALID OR ACCESSED) s1;
         s3 = fold (\<lambda>i. wr (ttbr0_l2 lay, i)
                (entry_addr (ttbr0_l3 lay) (i * 512) OR TABLE OR VALID OR ACCESSED))
                [0..<unat (init_end lay div SIZE_2M)] s2;
         s4 = fold (ttbr0_step lay) [0..<unat (init_end lay div 4096)] s3;
         s5 = wr (ttbr1_l1 lay, 0) (entry_addr (ttbr1_l2 lay) 0 OR TABLE OR VALID OR ACCESSED) s4;
         s6 = fold (\<lambda>i. wr (ttbr1_l2 lay, i)
                (entry_addr (ttbr1_l3 lay) (i * 512) OR TABLE OR VALID OR ACCESSED)) [0..<512] s5;
         s7 = fold (ttbr1_step lay) [0..<2 ^ 18] s6
     in wr (ttbr1_l1 lay, GET_L1_INDEX (KERNBASE + PHYSMEM_END))
          (PHYSMEM_END OR UXN OR ACCESSED OR DEVICE_MEMORY OR VALID) s7)"

section \<open>Page descriptors\<close>

lemma boot_updates [simp, field_simps_os]:
  "page_pa (set_pa i v s) = (page_pa s)(i := v)" "page_ref (set_pa i v s) = page_ref s"
  "ram (set_pa i v s) = ram s" "page_used (set_pa i v s) p = page_used s p"
  "page_pa (mark_vis i s) = page_pa s" "page_ref (mark_vis i s) = page_ref s"
  "ram (mark_vis i s) = ram s" "ram (set_ref p r s) = ram s"
  by (simp_all add: set_pa_def mark_vis_def page_used_def set_ref_def)

lemma page_used_mark_vis [simp]: "page_used (mark_vis i s) p \<longleftrightarrow> page_used s p \<or> p = i"
proof -
  have "p div 64 = i div 64 \<Longrightarrow> p mod 64 = i mod 64 \<longleftrightarrow> p = i"
    by (metis div_mult_mod_eq)
  then show ?thesis by (auto simp: page_used_def mark_vis_def bit_simps)
qed

text \<open>A loop that leaves a field of the state alone, and one that sets it entry by entry.\<close>

lemma fold_same: "(\<And>i s. f (g i s) = f s) \<Longrightarrow> f (fold g xs s) = f s"
  by (induction xs arbitrary: s) auto

lemma fold_pointwise:
  assumes "\<And>i s. f (g i s) = (f s)(i := h i (f s i))" and "distinct xs"
  shows "f (fold g xs s) x = (if x \<in> set xs then h x (f s x) else f s x)"
  using assms(2) by (induction xs arbitrary: s) (auto simp: assms(1))

lemma ttbr0_step_fields [simp]:
  "page_pa (ttbr0_step lay i s) = (page_pa s)(i := page_pa s i OR (if i > 0 then UXN else 0))"
  "page_ref (ttbr0_step lay i s) = (page_ref s)(i := page_ref s i + (if i > 0 then 1 else 0))"
  "page_used (ttbr0_step lay i s) p \<longleftrightarrow> page_used s p \<or> p = i"
  by (auto simp: ttbr0_step_def Let_def)

definition boot_reserved :: "layout \<Rightarrow> nat \<Rightarrow> bool" where
  "boot_reserved lay i \<longleftrightarrow>
     (drop_bit 12 (init_end lay) \<le> of_nat i \<and> of_nat i < drop_bit 12 (img_end lay)) \<or>
     of_nat i \<ge> drop_bit 12 PERIPHERAL_BASE"

lemma ttbr1_step_fields [simp]:
  "page_pa (ttbr1_step lay i s) = page_pa s"
  "page_ref (ttbr1_step lay i s) =
     (page_ref s)(i := page_ref s i + (if boot_reserved lay i then 1 else 0))"
  "page_used (ttbr1_step lay i s) p \<longleftrightarrow> page_used s p \<or> p = i \<and> boot_reserved lay i"
  by (auto simp: ttbr1_step_def Let_def boot_reserved_def)

lemma fold_marks:
  assumes "\<And>i s. P (g i s) \<longleftrightarrow> P s \<or> p = i \<and> Q i"
  shows "P (fold g xs s) \<longleftrightarrow> P s \<or> p \<in> set xs \<and> Q p"
  by (induction xs arbitrary: s) (auto simp: assms)

lemma init_boot_pt_pa:
  assumes "p < 2 ^ 18"
  shows "page_pa (init_boot_pt lay s) p =
    init_page_pa p OR (if 0 < p \<and> p < unat (init_end lay div 4096) then UXN else 0)"
proof -
  have a: "page_pa (fold (\<lambda>i. set_pa i (init_page_pa i)) [0..<2 ^ 18] s) p = init_page_pa p" for s :: "'a pmem_scheme"
    using assms fold_pointwise [of page_pa "\<lambda>i. set_pa i (init_page_pa i)" "\<lambda>i _. init_page_pa i"
        "[0..<2 ^ 18]" s p] by simp
  have b: "page_pa (fold (ttbr0_step lay) [0..<n] s) p =
    page_pa s p OR (if 0 < p \<and> p < n then UXN else 0)" for n and s :: "'a pmem_scheme"
    using fold_pointwise [of page_pa "ttbr0_step lay" "\<lambda>i v. v OR (if i > 0 then UXN else 0)"
        "[0..<n]" s p] by simp
  have c: "page_pa (fold (ttbr1_step lay) xs s) = page_pa s" for xs and s :: "'a pmem_scheme"
    by (rule fold_same) simp
  have d: "page_pa (fold (\<lambda>i. wr (f i) (g i)) xs s) = page_pa s" for f g xs and s :: "'a pmem_scheme"
    by (rule fold_same) simp
  show ?thesis unfolding init_boot_pt_def Let_def by (simp only: page_pa_updates a b c d)
qed

lemma init_boot_pt_used:
  "page_used (init_boot_pt lay s) p \<longleftrightarrow> page_used s p \<or> p < unat (init_end lay div 4096) \<or>
     p < 2 ^ 18 \<and> boot_reserved lay p"
proof -
  have a: "page_used (fold (\<lambda>i. set_pa i (init_page_pa i)) xs s) p = page_used s p" for xs and s :: "'a pmem_scheme"
    by (rule fold_same) simp
  have b: "page_used (fold (ttbr0_step lay) xs s) p \<longleftrightarrow> page_used s p \<or> p \<in> set xs" for xs and s :: "'a pmem_scheme"
    using fold_marks [of "\<lambda>s. page_used s p" "ttbr0_step lay" p "\<lambda>_. True"] by simp
  have c: "page_used (fold (ttbr1_step lay) xs s) p \<longleftrightarrow> page_used s p \<or> p \<in> set xs \<and> boot_reserved lay p"
    for xs and s :: "'a pmem_scheme"
    by (rule fold_marks) simp
  have d: "page_used (fold (\<lambda>i. wr (f i) (g i)) xs s) p = page_used s p" for f g xs and s :: "'a pmem_scheme"
    by (rule fold_same) simp
  show ?thesis unfolding init_boot_pt_def Let_def
    by (auto simp only: page_used_updates a b c d set_upt atLeastLessThan_iff)
qed

lemma init_boot_pt_ref:
  "page_ref (init_boot_pt lay s) p = page_ref s p +
     (if 0 < p \<and> p < unat (init_end lay div 4096) then 1 else 0) +
     (if p < 2 ^ 18 \<and> boot_reserved lay p then 1 else 0)"
proof -
  have a: "page_ref (fold (\<lambda>i. set_pa i (init_page_pa i)) xs s) = page_ref s" for xs and s :: "'a pmem_scheme"
    by (rule fold_same) simp
  have b: "page_ref (fold (ttbr0_step lay) [0..<n] s) p =
    page_ref s p + (if 0 < p \<and> p < n then 1 else 0)" for n and s :: "'a pmem_scheme"
    using fold_pointwise [of page_ref "ttbr0_step lay" "\<lambda>i v. v + (if i > 0 then 1 else 0)"
        "[0..<n]" s p] by simp
  have c: "page_ref (fold (ttbr1_step lay) [0..<n] s) p =
    page_ref s p + (if p < n \<and> boot_reserved lay p then 1 else 0)" for n and s :: "'a pmem_scheme"
    using fold_pointwise [of page_ref "ttbr1_step lay" "\<lambda>i v. v + (if boot_reserved lay i then 1 else 0)"
        "[0..<n]" s p] by simp
  have d: "page_ref (fold (\<lambda>i. wr (f i) (g i)) xs s) = page_ref s" for f g xs and s :: "'a pmem_scheme"
    by (rule fold_same) simp
  show ?thesis unfolding init_boot_pt_def Let_def by (simp only: page_ref_updates a b c d)
qed

section \<open>Addresses in the descriptors\<close>

lemma PTE_ADDR_flags:
  assumes "c AND 0x3ffff000 = 0"
  shows "PTE_ADDR (w OR c) = PTE_ADDR w"
  using assms by (simp add: PTE_ADDR_def bit.conj_disj_distrib2)

lemma unat_page_addr:
  assumes "p < 2 ^ 18" and "30 \<le> LENGTH('a)"
  shows "unat (push_bit 12 (of_nat p) :: 'a :: len word) = p * 4096"
proof -
  have "p * 4096 < 2 ^ 30" using assms(1) by simp
  also have "(2 :: nat) ^ 30 \<le> 2 ^ LENGTH('a)" using assms(2) by (rule power_increasing) simp
  finally have "unat (of_nat (p * 4096) :: 'a word) = p * 4096" by (rule of_nat_inverse [OF refl])
  then show ?thesis by (simp add: push_bit_eq_mult mult.commute)
qed

lemma PTE_ADDR_page:
  assumes "p < 2 ^ 18"
  shows "PTE_ADDR (push_bit 12 (of_nat p)) = push_bit 12 (of_nat p)"
proof -
  have m: "(0x3ffff000 :: u64) = push_bit 12 (mask 18)"
    by (simp add: mask_eq_exp_minus_1 push_bit_eq_mult)
  have "take_bit 18 (of_nat p :: u64) = of_nat p"
    using take_bit_nat_eq_self [OF assms] by (simp add: take_bit_of_nat)
  then show ?thesis
    by (simp add: PTE_ADDR_def m flip: push_bit_and take_bit_eq_mask)
qed

lemma pte_page_flags:
  assumes "p < 2 ^ 18" and "c AND 0x3ffff000 = 0"
  shows "pte_page (push_bit 12 (of_nat p) OR c) = p"
  using assms by (simp add: pte_page_def PTE_ADDR_flags PTE_ADDR_page unat_page_addr)

lemma pa2page_flags:
  assumes "p < 2 ^ 18" and "drop_bit 12 (ucast c :: u32) = 0"
  shows "pa2page (push_bit 12 (of_nat p) OR c) = p"
proof -
  have "(ucast (push_bit 12 (of_nat p) :: u64) :: u32) = push_bit 12 (of_nat p)"
    by (rule bit_word_eqI) (auto simp: bit_simps)
  then have "pa2page (push_bit 12 (of_nat p) OR c) = unat (drop_bit 12 (push_bit 12 (of_nat p) :: u32))"
    using assms(2) by (simp only: pa2page_def unsigned_or_eq drop_bit_or or.right_neutral)
  also have "\<dots> = p * 4096 div 2 ^ 12"
    using unat_page_addr [OF assms(1), where 'a = 32] by (simp only: unat_drop_bit_eq) (simp add: drop_bit_eq_div)
  finally show ?thesis by simp
qed

lemma init_page_pa_flags:
  obtains c where "init_page_pa p = push_bit 12 (of_nat p) OR c"
    "c = 0x703 \<or> c = 0x607"
proof (cases "push_bit 12 (of_nat p) \<ge> PERIPHERAL_BASE")
  case True
  then show ?thesis by (intro that [of "0x607"]) (simp_all add: init_page_pa_def or.assoc)
next
  case False
  then show ?thesis by (intro that [of "0x703"]) (simp_all add: init_page_pa_def or.assoc)
qed

lemma init_page_pa_UXN:
  assumes "p < 2 ^ 18" and "x = 0 \<or> x = UXN"
  shows "pte_page (init_page_pa p OR x) = p" "pa2page (init_page_pa p OR x) = p"
    "(init_page_pa p OR x) AND VALID \<noteq> 0"
proof -
  obtain c where c: "init_page_pa p = push_bit 12 (of_nat p) OR c" "c = 0x703 \<or> c = 0x607"
    using init_page_pa_flags by blast
  have e: "init_page_pa p OR x = push_bit 12 (of_nat p) OR (c OR x)" by (simp add: c(1) or.assoc)
  have m: "(c OR x) AND 0x3ffff000 = 0" and u: "drop_bit 12 (ucast (c OR x) :: u32) = 0"
    using c(2) assms(2) by (elim disjE; simp)+
  show "pte_page (init_page_pa p OR x) = p" "pa2page (init_page_pa p OR x) = p"
    unfolding e by (rule pte_page_flags pa2page_flags; fact)+
  have "bit (init_page_pa p OR x) 0" using c by (auto simp: bit_simps)
  then show "(init_page_pa p OR x) AND VALID \<noteq> 0"
    by (metis and_one_eq bit_0 even_iff_mod_2_eq_zero)
qed

lemma boot_pa_ok: "pa_ok (init_boot_pt lay s)"
  unfolding pa_ok_def
  by (intro allI impI conjI; simp only: init_boot_pt_pa; rule init_page_pa_UXN; simp)

text \<open>Memory as the loader leaves it, with every kernel variable of .bss zero.\<close>

definition zero_mem :: pmem where
  "zero_mem = \<lparr>Kern_vis = (\<lambda>_. 0), page_pa = (\<lambda>_. 0), page_ref = (\<lambda>_. 0), ram = (\<lambda>_ _. 0)\<rparr>"

lemma boot_wf: "wf_spaces (init_boot_pt lay zero_mem) {}"
proof -
  have "page_used (init_boot_pt lay zero_mem) p" if "page_ref (init_boot_pt lay zero_mem) p > 0" for p
    using that by (auto simp: init_boot_pt_ref init_boot_pt_used zero_mem_def split: if_splits)
  then show ?thesis by (simp add: wf_spaces_no_dir)
qed

section \<open>An example\<close>

text \<open>
  A kernel image in pages 128 to 1535, one address space with its directory in page 2000, and an
  allocated page 2001 that nothing maps. The witnesses of the memory properties use it.
\<close>

definition demo_layout :: layout where
  "demo_layout = \<lparr>init_end = 0x80000, img_end = 0x600000, ttbr0_l1 = 200, ttbr0_l2 = 201,
     ttbr0_l3 = 300, ttbr1_l1 = 202, ttbr1_l2 = 203, ttbr1_l3 = 900\<rparr>"

definition demo_boot :: pmem where "demo_boot = init_boot_pt demo_layout zero_mem"

definition demo_space :: pmem where
  "demo_space = mark_vis 2000 (set_ref 2000 1 (demo_boot\<lparr>ram := (ram demo_boot)(2000 := \<lambda>_. 0)\<rparr>))"

definition demo_mem :: pmem where "demo_mem = mark_vis 2001 demo_space"

lemma demo_boot_used: "page_used demo_boot p \<longleftrightarrow> p < 1536 \<or> 258048 \<le> p \<and> p < 2 ^ 18"
proof (cases "p < 2 ^ 18")
  case True
  have le: "(of_nat p :: u64) \<ge> of_nat n \<longleftrightarrow> n \<le> p" and less: "(of_nat p :: u64) < of_nat n \<longleftrightarrow> p < n"
    if "n < 2 ^ 18" for n
    using True that by (simp_all add: word_le_nat_alt word_less_nat_alt of_nat_inverse [OF refl])
  have "boot_reserved demo_layout p \<longleftrightarrow> 128 \<le> p \<and> p < 1536 \<or> 258048 \<le> p"
    using le [of 128] less [of 1536] le [of 258048]
    by (simp add: boot_reserved_def demo_layout_def drop_bit_eq_div)
  moreover have "unat (init_end demo_layout div 4096) = 128" by (simp add: demo_layout_def)
  moreover have "\<not> page_used zero_mem p" by (simp add: zero_mem_def page_used_def)
  ultimately show ?thesis using True by (auto simp: demo_boot_def init_boot_pt_used)
next
  case False
  moreover have "unat (init_end demo_layout div 4096) = 128" by (simp add: demo_layout_def)
  moreover have "\<not> page_used zero_mem p" by (simp add: zero_mem_def page_used_def)
  ultimately show ?thesis by (auto simp: demo_boot_def init_boot_pt_used)
qed

lemma page_used_ram: "page_used (s\<lparr>ram := r\<rparr>) p = page_used s p"
  by (simp add: page_used_def)

lemma demo_space_new: "new_dir (init_boot_pt demo_layout zero_mem) demo_space 2000"
  unfolding new_dir_def demo_space_def using demo_boot_used [of 2000]
  by (simp add: page_used_ram flip: demo_boot_def)

lemma demo_space_wf: "wf_spaces demo_space {2000}" "pa_ok demo_space"
proof -
  from new_dir_wf [OF boot_wf demo_space_new] show "wf_spaces demo_space {2000}" by simp
  show "pa_ok demo_space"
    using boot_pa_ok [of demo_layout zero_mem]
    by (simp add: pa_ok_def demo_space_def demo_boot_def)
qed

end
