(* ===== verification/Memory.thy ===== *)
theory Memory
  imports Boot
begin

text \<open>
  What the rest of the system may rely on of mm/pmap.c and boot/init.c: the properties of the
  page allocator, of the page tables as maps from virtual pages to entries, and of the state
  that booting leaves behind.
\<close>

section \<open>Booting\<close>

text \<open>C7: \<open>init_boot_pt\<close> establishes the invariants of the memory manager: every page descriptor
  encodes its own page number, every referenced page is marked as allocated, and exactly the pages
  of the kernel image and of the peripherals are withheld from the allocator.\<close>

theorem init_boot_pt_establishes:
  "pa_ok (init_boot_pt lay zero_mem) \<and> wf_spaces (init_boot_pt lay zero_mem) {} \<and>
   (page_used (init_boot_pt lay zero_mem) p \<longleftrightarrow>
      p < unat (init_end lay div 4096) \<or>
      p < 2 ^ 18 \<and> ((drop_bit 12 (init_end lay) \<le> of_nat p \<and> of_nat p < drop_bit 12 (img_end lay)) \<or>
        of_nat p \<ge> drop_bit 12 PERIPHERAL_BASE))"
proof -
  have "\<not> page_used zero_mem p" by (simp add: zero_mem_def page_used_def)
  then show ?thesis
    using boot_pa_ok [of lay zero_mem] boot_wf [of lay]
    by (simp add: init_boot_pt_used boot_reserved_def)
qed

section \<open>The allocator\<close>




text \<open>The first 31 pages are taken: the next is page 31, and it is lost when freed.\<close>

definition slot31_mem :: pmem where
  "slot31_mem = zero_mem\<lparr>Kern_vis := (\<lambda>_. 0)(0 := mask 31)\<rparr>"

lemma slot31_alloc: "\<exists>s'. page_alloc slot31_mem = (Some 31, s')"
proof -
  have f: "List.find (\<lambda>j. mask 31 AND int_shl1 j = 0) [0..<64] = Some 31"
  proof (rule find_Some_iff [THEN iffD2], intro exI [of _ 31] conjI allI impI)
    show "mask 31 AND int_shl1 ([0..<64] ! 31) = 0" by (simp add: and_int_shl1_eq_0 bit_simps)
    show "mask 31 AND int_shl1 ([0..<64] ! j) \<noteq> 0" if "j < 31" for j
      using that by (simp add: and_int_shl1_eq_0 bit_simps)
  qed simp_all
  obtain rest where "[0..<4096] = (0 :: nat) # rest" using upt_conv_Cons [of 0 4096] by force
  moreover have "mask 31 \<noteq> (-1 :: u64)" by (simp add: mask_eq_exp_minus_1)
  ultimately have "vis_scan (Kern_vis slot31_mem) [0..<4096] = Some (0, 31)"
    using f by (simp add: slot31_mem_def)
  then show ?thesis by (simp add: page_alloc_def Let_def)
qed


section \<open>The page tables as maps\<close>

lemma demo_mem_wf:
  "wf_spaces demo_mem {2000}" "pa_ok demo_mem" "page_used demo_mem 2001"
  "\<not> is_table demo_mem {2000} 2001" "page_ref demo_mem 2001 = 0" "page_ref demo_mem 2000 = 1"
proof -
  have r: "page_ref demo_space 2001 = 0"
    by (auto simp: demo_space_def demo_boot_def init_boot_pt_ref boot_reserved_def demo_layout_def
        zero_mem_def drop_bit_eq_div)
  have t: "\<not> is_table demo_space {2000} 2001" using wf_table_ref [OF demo_space_wf(1), of 2001] r by auto
  note S = same_tables_wf [OF demo_space_wf, of demo_mem]
  show "wf_spaces demo_mem {2000}" "pa_ok demo_mem" "\<not> is_table demo_mem {2000} 2001"
    using S t by (simp_all add: demo_mem_def)
  show "page_used demo_mem 2001" "page_ref demo_mem 2001 = 0" "page_ref demo_mem 2000 = 1"
    using r by (simp_all add: demo_mem_def demo_space_def demo_boot_def init_boot_pt_ref
        boot_reserved_def demo_layout_def zero_mem_def drop_bit_eq_div)
qed

text \<open>C1: \<open>page_insert\<close> refines the update of a map. Over any well-formed set of address spaces, it
  either maps the page of \<open>va\<close> in the address space of \<open>d\<close> to \<open>pp\<close> with the requested permissions
  and returns 0, or returns -1; every other mapping of every address space, and the contents of every
  page that is not a page table, stay as they were, and the invariant is kept.\<close>

theorem page_insert_refines:
  assumes "wf_spaces s D" and "pa_ok s" and "d \<in> D" and "user_va va" and "perm_ok perm"
    and "pp < 2 ^ 18" and "page_used s pp" and "\<not> is_table s D pp" and "page_ref s pp \<noteq> -1"
  shows "case page_insert d pp va perm s of (r, s') \<Rightarrow>
    (r = 0 \<or> r = -1) \<and> wf_spaces s' D \<and> pa_ok s' \<and>
    (\<forall>d' \<in> D. \<forall>va'. user_va va' \<longrightarrow> vmap s' d' va' =
       (if r = 0 \<and> d' = d \<and> same_vpage va' va then Some (page_pa s pp OR (perm OR VALID))
        else vmap s d' va')) \<and>
    (\<forall>q. page_used s q \<longrightarrow> \<not> is_table s D q \<longrightarrow> ram s' q = ram s q)"
proof (cases "page_insert d pp va perm s")
  case (Pair r s')
  with page_insert_inserts [OF assms] have I: "inserts s D d va (pte_for s pp perm) (r, s')" by simp
  then show ?thesis
    using Pair inserts_vmap [OF I] by (simp add: pte_for_def inserts_def)
qed

lemma user_va_example: "user_va 0x400000"
  by (simp add: user_va_def self_index_eq GET_L1_INDEX_def drop_bit_eq_div)

lemma page_insert_refines_witness:
  "\<exists>r s'. page_insert 2000 2001 0x400000 PTE_USER demo_mem = (r, s') \<and>
     vmap s' 2000 0x400000 = (if r = 0 then Some (page_pa demo_mem 2001 OR (PTE_USER OR VALID))
       else vmap demo_mem 2000 0x400000)"
proof (cases "page_insert 2000 2001 0x400000 PTE_USER demo_mem")
  case (Pair r s')
  then show ?thesis
    using page_insert_refines [of demo_mem "{2000}" 2000 "0x400000" PTE_USER 2001] demo_mem_wf
      user_va_example by (auto simp: perm_ok_def)
qed

text \<open>C2: \<open>page_remove\<close> refines the removal of a key: it unmaps the page of \<open>va\<close> in the address space
  of \<open>d\<close> and nothing else; the page it unmaps loses one reference and is freed exactly when that was
  its last one.\<close>

theorem page_remove_refines:
  assumes "wf_spaces s D" and "d \<in> D" and "user_va va"
  shows "wf_spaces (page_remove d va s) D \<and>
    (\<forall>d' \<in> D. \<forall>va'. user_va va' \<longrightarrow> vmap (page_remove d va s) d' va' =
       (if d' = d \<and> same_vpage va' va then None else vmap s d' va')) \<and>
    (\<forall>q. let unmapped = (map_option pte_page (vmap s d va) = Some q) in
       page_ref (page_remove d va s) q = page_ref s q - (if unmapped then 1 else 0) \<and>
       (page_used (page_remove d va s) q \<longleftrightarrow> page_used s q \<and> \<not> (unmapped \<and> page_ref s q = 1)))"
proof (intro conjI ballI allI impI)
  show "wf_spaces (page_remove d va s) D" by (rule page_remove_wf(1) [OF assms])
  fix d' va' assume "d' \<in> D" "user_va va'"
  then show "vmap (page_remove d va s) d' va' =
      (if d' = d \<and> same_vpage va' va then None else vmap s d' va')"
    using page_remove_wf(3) [OF assms] by (simp add: vmap_def)
next
  fix q
  have "x - 1 > 0 \<longleftrightarrow> x \<noteq> 1" for x :: u32 by (auto simp: word_gt_0)
  then show "let unmapped = (map_option pte_page (vmap s d va) = Some q) in
       page_ref (page_remove d va s) q = page_ref s q - (if unmapped then 1 else 0) \<and>
       (page_used (page_remove d va s) q \<longleftrightarrow> page_used s q \<and> \<not> (unmapped \<and> page_ref s q = 1))"
    using page_remove_frame(3,4) [OF assms, of q] by (auto simp: Let_def)
qed

lemma page_remove_refines_witness:
  "wf_spaces (page_remove 2000 0x400000 demo_mem) {2000} \<and>
   vmap (page_remove 2000 0x400000 demo_mem) 2000 0x400000 = None"
  using page_remove_refines [OF demo_mem_wf(1), of 2000 "0x400000"] user_va_example by simp

text \<open>\<open>page_lookup\<close> reads the map: it finds a page exactly where the address space maps one, and
  gives the location the entry was read from.\<close>

lemma page_lookup_correct:
  "(case page_lookup d va s of
      None \<Rightarrow> vmap s d va = None
    | Some (pp, pte) \<Rightarrow> vmap s d va = Some (rd pte s) \<and> pp = pa2page (rd pte s) \<and>
        pgdir_walk d va False s = (WPte pte, s))"
  by (auto simp: page_lookup_def pgdir_walk_lookup vmap_unfold Let_def split: option.splits)

text \<open>C4: the page fault handler \<open>page_out\<close> gives an unmapped user address exactly one fresh, cleared
  page with one reference, usable from user mode; it disturbs no page that was in use and no other
  mapping. It panics only when the allocator is exhausted.\<close>

theorem page_out_demand_zero:
  assumes "wf_spaces s D" and "pa_ok s" and "d \<in> D" and "user_va va" and "VADDR va \<ge> BY2PG"
    and "va AND push_bit 39 1 = 0" and "va < KERNBASE" and "vmap s d va = None"
  shows "case page_out d kd va s of
      Ret _ s' \<Rightarrow> \<exists>n. n < 2 ^ 18 \<and> \<not> page_used s n \<and> page_ref s' n = 1 \<and> ram s' n = (\<lambda>_. 0) \<and>
        wf_spaces s' D \<and> pa_ok s' \<and>
        (\<forall>d' \<in> D. \<forall>va'. user_va va' \<longrightarrow> vmap s' d' va' =
           (if d' = d \<and> same_vpage va' va then Some (page_pa s n OR TABLE OR PTE_USER OR VALID)
            else vmap s d' va')) \<and>
        (\<forall>q. page_used s q \<longrightarrow>
           page_ref s' q = page_ref s q \<and> (\<not> is_table s D q \<longrightarrow> ram s' q = ram s q))
    | Panic _ s' \<Rightarrow> page_alloc s' = (None, s')
    | _ \<Rightarrow> False"
  using page_out_maps [OF assms, of kd]
proof (elim disjE exE conjE)
  fix n s'
  assume r: "page_out d kd va s = Ret () s'" and m: "maps_fresh s D d va (TABLE OR PTE_USER) n s'"
  show ?thesis
    unfolding r outcome.case
    by (intro exI [of _ n]) (use m in \<open>simp add: maps_fresh_def vmap_def pte_for_def or.assoc\<close>)
qed simp

lemma page_out_demand_zero_witness:
  "case page_out 2000 0 0x400000 demo_mem of
      Ret _ s' \<Rightarrow> \<exists>n. vmap s' 2000 0x400000 = Some (page_pa demo_mem n OR TABLE OR PTE_USER OR VALID)
    | Panic _ s' \<Rightarrow> page_alloc s' = (None, s')
    | _ \<Rightarrow> False"
proof -
  have "vmap demo_mem 2000 0x400000 = None"
    by (simp add: vmap_unfold demo_mem_def demo_space_def mark_vis_def set_ref_def rd_def)
  from page_out_demand_zero [OF demo_mem_wf(1,2) _ user_va_example _ _ _ this, of 0] show ?thesis
    by (auto simp: VADDR_def push_bit_eq_mult user_va_example split: outcome.splits)
qed

end
