(* ===== verification/Queue.thy ===== *)
theory Queue
  imports Prelude
begin

text \<open>
  The intrusive doubly linked lists of include/queue.h, on which the kernel keeps its free
  environments and its two scheduling lists. A list entry lives inside the element; \<open>le_prev\<close>
  points at the pointer that points to the element, which is a list head or the \<open>le_next\<close>
  field of the element before. The macros are translated assignment by assignment over an
  explicit store of head, next and prev fields.
\<close>

section \<open>The store\<close>

text \<open>
  Elements (environments) are numbered by their index in \<open>envs\<close>, heads by a number of their
  own. \<open>None\<close> is the null element pointer; an \<open>lptr\<close> is the address of a pointer variable.
\<close>

datatype lptr = LHead nat | LNext nat | LNull

record links =
  lh_first :: "nat \<Rightarrow> nat option"
  le_next :: "nat \<Rightarrow> nat option"
  le_prev :: "nat \<Rightarrow> lptr"

abbreviation set_first :: "nat \<Rightarrow> nat option \<Rightarrow> links \<Rightarrow> links" where
  "set_first h v L \<equiv> L\<lparr>lh_first := (lh_first L)(h := v)\<rparr>"

abbreviation set_next :: "nat \<Rightarrow> nat option \<Rightarrow> links \<Rightarrow> links" where
  "set_next e v L \<equiv> L\<lparr>le_next := (le_next L)(e := v)\<rparr>"

abbreviation set_prev :: "nat \<Rightarrow> lptr \<Rightarrow> links \<Rightarrow> links" where
  "set_prev e p L \<equiv> L\<lparr>le_prev := (le_prev L)(e := p)\<rparr>"

text \<open>\<open>*p = v\<close>; a write through a null pointer does not come back.\<close>

fun store_ptr :: "lptr \<Rightarrow> nat option \<Rightarrow> links \<Rightarrow> links option" where
  "store_ptr (LHead h) v L = Some (set_first h v L)"
| "store_ptr (LNext e) v L = Some (set_next e v L)"
| "store_ptr LNull v L = None"

section \<open>The macros\<close>

definition list_init :: "nat \<Rightarrow> links \<Rightarrow> links" where
  "list_init h L = set_first h None L"

definition list_empty :: "nat \<Rightarrow> links \<Rightarrow> bool" where
  "list_empty h L \<longleftrightarrow> lh_first L h = None"

definition list_insert_after :: "nat \<Rightarrow> nat \<Rightarrow> links \<Rightarrow> links" where
  "list_insert_after listelm elm L =
    (let L1 = set_next elm (le_next L listelm) L;
         L2 = (case le_next L1 listelm of
                 Some n \<Rightarrow> set_prev n (LNext elm) L1
               | None \<Rightarrow> L1);
         L3 = set_next listelm (Some elm) L2
     in set_prev elm (LNext listelm) L3)"

definition list_insert_before :: "nat \<Rightarrow> nat \<Rightarrow> links \<Rightarrow> links option" where
  "list_insert_before listelm elm L =
    (let L1 = set_prev elm (le_prev L listelm) L;
         L2 = set_next elm (Some listelm) L1
     in map_option (set_prev listelm (LNext elm))
          (store_ptr (le_prev L2 listelm) (Some elm) L2))"

definition list_insert_head :: "nat \<Rightarrow> nat \<Rightarrow> links \<Rightarrow> links" where
  "list_insert_head h elm L =
    (let L1 = set_next elm (lh_first L h) L;
         L2 = (case lh_first L1 h of
                 Some f \<Rightarrow> set_prev f (LNext elm) L1
               | None \<Rightarrow> L1);
         L3 = set_first h (Some elm) L2
     in set_prev elm (LHead h) L3)"

text \<open>
  The loop of \<open>LIST_INSERT_TAIL\<close> walks \<open>elm\<close>'s own next field along the list until it points at
  the last element. It need not end: \<open>None\<close> is a walk that does not.
\<close>

partial_function (option) tail_walk :: "nat \<Rightarrow> links \<Rightarrow> links option" where
  "tail_walk elm L =
    (case le_next L elm of
       None \<Rightarrow> None
     | Some x \<Rightarrow>
         (case le_next L x of
            None \<Rightarrow> Some L
          | Some y \<Rightarrow> tail_walk elm (set_next elm (Some y) L)))"

definition list_insert_tail :: "nat \<Rightarrow> nat \<Rightarrow> links \<Rightarrow> links option" where
  "list_insert_tail h elm L =
    (if lh_first L h \<noteq> None then
       (case tail_walk elm (set_next elm (lh_first L h) L) of
          None \<Rightarrow> None
        | Some L1 \<Rightarrow>
            (case le_next L1 elm of
               None \<Rightarrow> None
             | Some x \<Rightarrow>
                 (let L2 = set_next x (Some elm) L1
                  in case le_next L2 elm of
                       None \<Rightarrow> None
                     | Some y \<Rightarrow>
                         (let L3 = set_prev elm (LNext y) L2
                          in Some (set_next elm None L3)))))
     else Some (list_insert_head h elm L))"

definition list_remove :: "nat \<Rightarrow> links \<Rightarrow> links option" where
  "list_remove elm L =
    (let L1 = (case le_next L elm of
                 Some n \<Rightarrow> set_prev n (le_prev L elm) L
               | None \<Rightarrow> L)
     in store_ptr (le_prev L1 elm) (le_next L1 elm) L1)"

section \<open>What a store represents\<close>

text \<open>
  \<open>chain L p v xs\<close>: following next pointers from the pointer value \<open>v\<close> stored at address \<open>p\<close>
  visits exactly \<open>xs\<close>, and every prev pointer on the way points back at where it was reached
  from. \<open>repr h xs L\<close>: the list headed by \<open>h\<close> is \<open>xs\<close>.
\<close>

primrec seg :: "(nat \<Rightarrow> nat option) \<Rightarrow> (nat \<Rightarrow> lptr) \<Rightarrow>
    lptr \<Rightarrow> nat option \<Rightarrow> nat list \<Rightarrow> lptr \<Rightarrow> nat option \<Rightarrow> bool" where
  "seg nx pv p v [] q w \<longleftrightarrow> q = p \<and> w = v"
| "seg nx pv p v (x # xs) q w \<longleftrightarrow>
     v = Some x \<and> pv x = p \<and> seg nx pv (LNext x) (nx x) xs q w"

definition repr :: "nat \<Rightarrow> nat list \<Rightarrow> links \<Rightarrow> bool" where
  "repr h xs L \<longleftrightarrow>
     distinct xs \<and> (\<exists>q. seg (le_next L) (le_prev L) (LHead h) (lh_first L h) xs q None)"

lemma seg_append [simp]:
  "seg nx pv p v (xs @ ys) q w \<longleftrightarrow> (\<exists>r u. seg nx pv p v xs r u \<and> seg nx pv r u ys q w)"
  by (induction xs arbitrary: p v) auto

lemma seg_upd [simp]:
  "e \<notin> set xs \<Longrightarrow> seg (nx(e := u)) pv p v xs q w = seg nx pv p v xs q w"
  "e \<notin> set xs \<Longrightarrow> seg nx (pv(e := r)) p v xs q w = seg nx pv p v xs q w"
  by (induction xs arbitrary: p v) auto

text \<open>Where a segment ends is determined by its elements.\<close>

lemma seg_end: "seg nx pv p v xs q w \<Longrightarrow> q = (if xs = [] then p else LNext (last xs))"
  by (induction xs arbitrary: p v) auto

lemma repr_init: "repr h [] (list_init h L)"
  by (simp add: repr_def list_init_def)

lemma repr_empty: "repr h xs L \<Longrightarrow> list_empty h L \<longleftrightarrow> xs = []"
  by (cases xs) (auto simp: repr_def list_empty_def)

lemma repr_first: "repr h (x # xs) L \<Longrightarrow> lh_first L h = Some x"
  by (auto simp: repr_def)

lemma repr_Nil: "repr h [] L \<longleftrightarrow> lh_first L h = None"
  by (auto simp: repr_def)

lemma repr_distinct: "repr h xs L \<Longrightarrow> distinct xs"
  by (simp add: repr_def)

text \<open>
  The frame of an operation: it writes the entries of \<open>A\<close> and the head \<open>h\<close> only, so every list
  with another head and other elements is what it was.
\<close>

definition writes_only :: "nat \<Rightarrow> nat set \<Rightarrow> links \<Rightarrow> links \<Rightarrow> bool" where
  "writes_only h A L L' \<longleftrightarrow>
     (\<forall>h'. h' \<noteq> h \<longrightarrow> lh_first L' h' = lh_first L h') \<and>
     (\<forall>x. x \<notin> A \<longrightarrow> le_next L' x = le_next L x \<and> le_prev L' x = le_prev L x)"

lemma seg_cong:
  assumes "\<And>x. x \<in> set xs \<Longrightarrow> nx x = nx' x" and "\<And>x. x \<in> set xs \<Longrightarrow> pv x = pv' x"
  shows "seg nx pv p v xs q w = seg nx' pv' p v xs q w"
  using assms by (induction xs arbitrary: p v) auto

lemma writes_only_repr:
  assumes "writes_only h A L L'" and "h' \<noteq> h" and "set ys \<inter> A = {}"
  shows "repr h' ys L' = repr h' ys L"
proof -
  have "seg (le_next L') (le_prev L') p v ys q w = seg (le_next L) (le_prev L) p v ys q w" for p v q w
    using assms by (intro seg_cong) (auto simp: writes_only_def disjoint_iff)
  then show ?thesis using assms by (simp add: repr_def writes_only_def)
qed

section \<open>The operations on represented lists\<close>

lemma insert_head_repr:
  assumes "repr h xs L" and "e \<notin> set xs"
  shows "repr h (e # xs) (list_insert_head h e L)"
  using assms by (cases xs) (auto simp: repr_def list_insert_head_def Let_def)

lemma insert_head_frame:
  assumes "repr h xs L"
  shows "writes_only h (insert e (set xs)) L (list_insert_head h e L)"
  using assms
  by (cases xs) (auto simp: repr_def list_insert_head_def Let_def writes_only_def)

lemma tail_walk_seg:
  assumes "seg (le_next L) (le_prev L) p (Some x) (x # ys) q None" and "e \<notin> set (x # ys)"
  shows "tail_walk e (set_next e (Some x) L) = Some (set_next e (Some (last (x # ys))) L)"
  using assms
proof (induction ys arbitrary: x p)
  case Nil
  then show ?case by (subst tail_walk.simps) auto
next
  case (Cons y ys)
  then have "seg (le_next L) (le_prev L) (LNext x) (Some y) (y # ys) q None"
    and "e \<notin> set (y # ys)" and "le_next L x = Some y" and "x \<noteq> e"
    by auto
  then have "tail_walk e (set_next e (Some x) L) = tail_walk e (set_next e (Some y) L)"
    by (subst tail_walk.simps) simp
  also have "\<dots> = Some (set_next e (Some (last (y # ys))) L)"
    using \<open>seg _ _ (LNext x) _ _ _ _\<close> \<open>e \<notin> set (y # ys)\<close> by (rule Cons.IH)
  finally show ?case by (simp only: last.simps list.distinct if_False)
qed

lemma insert_tail_repr:
  assumes "repr h xs L" and "e \<notin> set xs"
  shows "\<exists>L'. list_insert_tail h e L = Some L' \<and> repr h (xs @ [e]) L' \<and>
    writes_only h (insert e (set xs)) L L'"
proof (cases xs rule: rev_cases)
  case Nil
  with assms insert_head_repr [OF assms] insert_head_frame [OF assms(1), of e] show ?thesis
    by (simp add: list_insert_tail_def repr_Nil)
next
  case (snoc zs l)
  then obtain x ys where xy: "xs = x # ys" by (metis neq_Nil_conv snoc_eq_iff_butlast)
  obtain q where sg: "seg (le_next L) (le_prev L) (LHead h) (Some x) (x # ys) q None"
    and fst: "lh_first L h = Some x"
    using assms xy by (auto simp: repr_def)
  have ne: "l \<noteq> e" using assms snoc by auto
  have walk: "tail_walk e (set_next e (Some x) L) = Some (set_next e (Some l) L)"
    using tail_walk_seg [OF sg] assms xy snoc by (metis last_snoc)
  let ?L' = "set_next e None (set_prev e (LNext l)
      (set_next l (Some e) (set_next e (Some l) L)))"
  have "list_insert_tail h e L = Some ?L'"
    using ne by (simp add: list_insert_tail_def fst walk Let_def)
  moreover have "repr h (xs @ [e]) ?L'"
    using assms snoc ne by (auto simp: repr_def)
  moreover have "writes_only h (insert e (set xs)) L ?L'"
    using snoc by (auto simp: writes_only_def)
  ultimately show ?thesis by blast
qed

lemma remove_repr:
  assumes "repr h xs L" and "e \<in> set xs"
  shows "\<exists>L'. list_remove e L = Some L' \<and> repr h (remove1 e xs) L' \<and>
    writes_only h (set xs) L L'"
proof -
  obtain as bs where xs: "xs = as @ e # bs" and na: "e \<notin> set as"
    using split_list_first [OF assms(2)] by blast
  show ?thesis
  proof (cases as rule: rev_cases)
    case Nil
    then show ?thesis
      using assms(1) xs by (cases bs) (auto simp: repr_def list_remove_def writes_only_def)
  next
    case (snoc as' a)
    then show ?thesis
      using assms(1) xs na
      by (cases bs) (auto simp: repr_def list_remove_def remove1_append writes_only_def dest: seg_end)
  qed
qed

text \<open>
  Inserting an element into the list it is already on: the walk reaches the element itself and
  never leaves it.
\<close>

lemma tail_walk_self:
  assumes "le_next L e = Some e"
  shows "tail_walk e L = None"
proof (rule ccontr)
  assume "tail_walk e L \<noteq> None"
  then obtain r where r: "tail_walk e L = Some r" by blast
  have "\<not> (le_next L e = Some e)"
  proof (rule tail_walk.raw_induct [where P = "\<lambda>e L r. \<not> (le_next L e = Some e)", OF _ r])
    fix f e L r
    assume IH: "\<And>e L r. f e L = Some r \<Longrightarrow> \<not> (le_next L e = Some e)"
      and eq: "(case le_next L e of None \<Rightarrow> None
        | Some x \<Rightarrow> (case le_next L x of None \<Rightarrow> Some L
            | Some y \<Rightarrow> f e (set_next e (Some y) L))) = Some r"
    show "\<not> (le_next L e = Some e)"
    proof
      assume self: "le_next L e = Some e"
      with eq have "f e (set_next e (Some e) L) = Some r" by simp
      from IH [OF this] show False by simp
    qed
  qed
  with assms show False by blast
qed

lemma tail_walk_cycle:
  assumes "seg (le_next L) (le_prev L) p (Some x) (x # ys) q w" and "e \<notin> set (x # ys)"
    and "w = Some e"
  shows "tail_walk e (set_next e (Some x) L) = None"
  using assms
proof (induction ys arbitrary: x p)
  case Nil
  then have "le_next L x = Some e" and "x \<noteq> e" by auto
  then show ?case by (subst tail_walk.simps) (simp add: tail_walk_self)
next
  case (Cons y ys)
  then have "seg (le_next L) (le_prev L) (LNext x) (Some y) (y # ys) q w"
    and "e \<notin> set (y # ys)" and "le_next L x = Some y" and "x \<noteq> e"
    by auto
  then have "tail_walk e (set_next e (Some x) L) = tail_walk e (set_next e (Some y) L)"
    by (subst tail_walk.simps) simp
  also have "\<dots> = None"
    using \<open>seg _ _ (LNext x) _ _ _ _\<close> \<open>e \<notin> set (y # ys)\<close> \<open>w = Some e\<close> by (rule Cons.IH)
  finally show ?case .
qed

lemma insert_tail_member_hangs:
  assumes "repr h xs L" and "e \<in> set xs"
  shows "list_insert_tail h e L = None"
proof -
  obtain as bs where xs: "xs = as @ e # bs" and na: "e \<notin> set as"
    using split_list_first [OF assms(2)] by blast
  show ?thesis
  proof (cases as)
    case Nil
    then show ?thesis
      using assms(1) xs by (auto simp: repr_def list_insert_tail_def tail_walk_self)
  next
    case (Cons x ys)
    obtain r where "seg (le_next L) (le_prev L) (LHead h) (Some x) (x # ys) r (Some e)"
      and "lh_first L h = Some x"
      using assms(1) xs Cons by (auto simp: repr_def)
    then show ?thesis
      using tail_walk_cycle [of L "LHead h" x ys r "Some e" e] na Cons
      by (simp add: list_insert_tail_def)
  qed
qed

section \<open>The interface the kernel relies on\<close>

text \<open>
  What env.c and sched.c use of the lists: the first element of a list, removal, and insertion
  at the tail, on two lists over the same entries that share no element.
\<close>

locale list_pair =
  fixes holds :: "'h \<Rightarrow> 'e list \<Rightarrow> 'l \<Rightarrow> bool"
    and first :: "'h \<Rightarrow> 'l \<Rightarrow> 'e option"
    and push :: "'h \<Rightarrow> 'e \<Rightarrow> 'l \<Rightarrow> 'l option"
    and unlink :: "'e \<Rightarrow> 'l \<Rightarrow> 'l option"
  assumes first_Nil: "holds h [] l \<Longrightarrow> first h l = None"
    and first_Cons: "holds h (x # xs) l \<Longrightarrow> first h l = Some x"
    and push_tail: "holds h xs l \<Longrightarrow> holds k ys l \<Longrightarrow> h \<noteq> k \<Longrightarrow> distinct (xs @ ys) \<Longrightarrow>
      e \<notin> set (xs @ ys) \<Longrightarrow> \<exists>l'. push h e l = Some l' \<and> holds h (xs @ [e]) l' \<and> holds k ys l'"
    and unlink_first: "holds h (x # xs) l \<Longrightarrow> holds k ys l \<Longrightarrow> h \<noteq> k \<Longrightarrow>
      distinct (x # xs @ ys) \<Longrightarrow> \<exists>l'. unlink x l = Some l' \<and> holds h xs l' \<and> holds k ys l'"
begin

text \<open>Taking the head of one list and queueing it at the end of the other.\<close>

lemma move_head:
  assumes "holds h (x # xs) l" and "holds k ys l" and "h \<noteq> k" and "distinct (x # xs @ ys)"
  shows "\<exists>l1 l2. unlink x l = Some l1 \<and> push k x l1 = Some l2 \<and>
    holds h xs l2 \<and> holds k (ys @ [x]) l2"
proof -
  obtain l1 where l1: "unlink x l = Some l1" "holds h xs l1" "holds k ys l1"
    using unlink_first [OF assms] by blast
  then obtain l2 where "push k x l1 = Some l2" "holds k (ys @ [x]) l2" "holds h xs l2"
    using push_tail [of k ys l1 h xs x] assms(3,4) by auto
  with l1 show ?thesis by blast
qed

lemma first_eq_None: "holds h xs l \<Longrightarrow> first h l = None \<longleftrightarrow> xs = []"
  using first_Nil first_Cons by (cases xs) auto

end

lemma queue_push_tail:
  assumes "repr h xs L" and "repr k ys L" and "h \<noteq> k" and "distinct (xs @ ys)"
    and "e \<notin> set (xs @ ys)"
  shows "\<exists>L'. list_insert_tail h e L = Some L' \<and> repr h (xs @ [e]) L' \<and> repr k ys L'"
proof -
  obtain L' where L': "list_insert_tail h e L = Some L'" "repr h (xs @ [e]) L'"
    "writes_only h (insert e (set xs)) L L'"
    using insert_tail_repr [OF assms(1)] assms(5) by auto
  moreover have "repr k ys L'"
    using writes_only_repr [OF L'(3), of k ys] assms by auto
  ultimately show ?thesis by blast
qed

lemma queue_unlink_first:
  assumes "repr h (x # xs) L" and "repr k ys L" and "h \<noteq> k" and "distinct (x # xs @ ys)"
  shows "\<exists>L'. list_remove x L = Some L' \<and> repr h xs L' \<and> repr k ys L'"
proof -
  obtain L' where L': "list_remove x L = Some L'" "repr h xs L'"
    "writes_only h (set (x # xs)) L L'"
    using remove_repr [OF assms(1), of x] by auto
  moreover have "repr k ys L'"
    using writes_only_repr [OF L'(3), of k ys] assms by auto
  ultimately show ?thesis by blast
qed

interpretation lq: list_pair repr "\<lambda>h L. lh_first L h" list_insert_tail list_remove
  by unfold_locales
    (auto simp: repr_Nil repr_first intro!: queue_push_tail queue_unlink_first)

section \<open>Properties\<close>

text \<open>The list \<open>1, 2\<close> under head 0, and an empty list under head 1.\<close>

definition demo_links :: links where
  "demo_links = list_insert_head 0 1 (list_insert_head 0 2 (list_init 1 (list_init 0
     \<lparr>lh_first = (\<lambda>_. None), le_next = (\<lambda>_. None), le_prev = (\<lambda>_. LNull)\<rparr>)))"

lemma demo_links_repr: "repr 0 [1, 2] demo_links" "repr 1 [] demo_links"
  by (auto simp: demo_links_def list_insert_head_def list_init_def repr_def)

text \<open>C8: the macros implement FIFO queues over intrusive links: \<open>LIST_FIRST\<close> reads the oldest
  element, \<open>LIST_REMOVE\<close> of it and \<open>LIST_INSERT_TAIL\<close> on another list both return, the element
  leaves the first queue, is appended to the second, and no other element moves.\<close>

theorem list_rotate_fifo:
  assumes "repr h (x # xs) L" and "repr k ys L" and "h \<noteq> k" and "distinct (x # xs @ ys)"
  shows "lh_first L h = Some x \<and>
    (\<exists>L1 L2. list_remove x L = Some L1 \<and> list_insert_tail k x L1 = Some L2 \<and>
       repr h xs L2 \<and> repr k (ys @ [x]) L2)"
  using lq.first_Cons [OF assms(1)] lq.move_head [OF assms] by blast

lemma list_rotate_fifo_witness:
  "\<exists>L1 L2. list_remove 1 demo_links = Some L1 \<and> list_insert_tail 1 1 L1 = Some L2 \<and>
     repr 0 [2] L2 \<and> repr 1 [1] L2"
  using list_rotate_fifo [OF demo_links_repr] by simp

end
