(* ===== verification/Bytes.thy ===== *)
theory Bytes
  imports Prelude
begin

text \<open>
  Byte-addressed memory. The kernel's \<open>bcopy\<close> and \<open>bzero\<close> (kernel/main.c) and the little-endian
  loads and stores of the processor are written over any memory that reads and writes single
  bytes; the locale states the one law such a memory has to keep. Physical memory (theory Kmem)
  and the address space of a user program are both instances.
\<close>

section \<open>Loads and stores\<close>

definition ld16 :: "('s \<Rightarrow> nat \<Rightarrow> u8) \<Rightarrow> 's \<Rightarrow> nat \<Rightarrow> u16" where
  "ld16 get s a = ucast (get s a) OR push_bit 8 (ucast (get s (a + 1)))"

definition ld32 :: "('s \<Rightarrow> nat \<Rightarrow> u8) \<Rightarrow> 's \<Rightarrow> nat \<Rightarrow> u32" where
  "ld32 get s a = ucast (ld16 get s a) OR push_bit 16 (ucast (ld16 get s (a + 2)))"

definition ld64 :: "('s \<Rightarrow> nat \<Rightarrow> u8) \<Rightarrow> 's \<Rightarrow> nat \<Rightarrow> u64" where
  "ld64 get s a = ucast (ld32 get s a) OR push_bit 32 (ucast (ld32 get s (a + 4)))"

definition st16 :: "(nat \<Rightarrow> u8 \<Rightarrow> 's \<Rightarrow> 's) \<Rightarrow> nat \<Rightarrow> u16 \<Rightarrow> 's \<Rightarrow> 's" where
  "st16 put a v s = put (a + 1) (ucast (drop_bit 8 v)) (put a (ucast v) s)"

definition st32 :: "(nat \<Rightarrow> u8 \<Rightarrow> 's \<Rightarrow> 's) \<Rightarrow> nat \<Rightarrow> u32 \<Rightarrow> 's \<Rightarrow> 's" where
  "st32 put a v s = st16 put (a + 2) (ucast (drop_bit 16 v)) (st16 put a (ucast v) s)"

definition st64 :: "(nat \<Rightarrow> u8 \<Rightarrow> 's \<Rightarrow> 's) \<Rightarrow> nat \<Rightarrow> u64 \<Rightarrow> 's \<Rightarrow> 's" where
  "st64 put a v s = st32 put (a + 4) (ucast (drop_bit 32 v)) (st32 put a (ucast v) s)"

section \<open>The copy loops\<close>

text \<open>\<open>len\<close> is an \<open>int\<close>; a negative length copies nothing, so the loops run on \<open>nat len\<close>.\<close>

fun bcopy_bytes :: "('s \<Rightarrow> nat \<Rightarrow> u8) \<Rightarrow> (nat \<Rightarrow> u8 \<Rightarrow> 's \<Rightarrow> 's) \<Rightarrow> nat \<Rightarrow> nat \<Rightarrow> nat \<Rightarrow> 's \<Rightarrow> 's" where
  "bcopy_bytes get put src dst 0 s = s"
| "bcopy_bytes get put src dst (Suc n) s =
    bcopy_bytes get put (src + 1) (dst + 1) n (put dst (get s src) s)"

fun bcopy_from :: "('s \<Rightarrow> nat \<Rightarrow> u8) \<Rightarrow> (nat \<Rightarrow> u8 \<Rightarrow> 's \<Rightarrow> 's) \<Rightarrow> nat \<Rightarrow> nat \<Rightarrow> nat \<Rightarrow> 's \<Rightarrow> 's" where
  "bcopy_from get put src dst n s =
    (if n > 3 then bcopy_from get put (src + 4) (dst + 4) (n - 4) (st32 put dst (ld32 get s src) s)
     else bcopy_bytes get put src dst n s)"

definition bcopy :: "('s \<Rightarrow> nat \<Rightarrow> u8) \<Rightarrow> (nat \<Rightarrow> u8 \<Rightarrow> 's \<Rightarrow> 's) \<Rightarrow> nat \<Rightarrow> nat \<Rightarrow> int \<Rightarrow> 's \<Rightarrow> 's" where
  "bcopy get put src dst len s = bcopy_from get put src dst (nat len) s"

fun bzero_bytes :: "(nat \<Rightarrow> u8 \<Rightarrow> 's \<Rightarrow> 's) \<Rightarrow> nat \<Rightarrow> nat \<Rightarrow> 's \<Rightarrow> 's" where
  "bzero_bytes put b 0 s = s"
| "bzero_bytes put b (Suc n) s = bzero_bytes put (b + 1) n (put b 0 s)"

fun bzero_from :: "(nat \<Rightarrow> u8 \<Rightarrow> 's \<Rightarrow> 's) \<Rightarrow> nat \<Rightarrow> nat \<Rightarrow> 's \<Rightarrow> 's" where
  "bzero_from put b n s =
    (if n > 3 then bzero_from put (b + 4) (n - 4) (st32 put b 0 s) else bzero_bytes put b n s)"

definition bzero :: "(nat \<Rightarrow> u8 \<Rightarrow> 's \<Rightarrow> 's) \<Rightarrow> nat \<Rightarrow> int \<Rightarrow> 's \<Rightarrow> 's" where
  "bzero put b len s = bzero_from put b (nat len) s"

declare bcopy_from.simps [simp del] bzero_from.simps [simp del]

text \<open>What no store in the target range changes, the loops do not change.\<close>

lemma st32_frame: "(\<And>b w t. a \<le> b \<Longrightarrow> b < a + 4 \<Longrightarrow> f (put b w t) = f t) \<Longrightarrow> f (st32 put a v s) = f s"
  by (simp add: st32_def st16_def)

lemma bcopy_bytes_frame:
  assumes "\<And>a v t. dst \<le> a \<Longrightarrow> a < dst + n \<Longrightarrow> f (put a v t) = f t"
  shows "f (bcopy_bytes get put src dst n s) = f s"
  using assms by (induction n arbitrary: src dst s) auto

lemma bcopy_frame:
  assumes "\<And>a v t. dst \<le> a \<Longrightarrow> a < dst + nat len \<Longrightarrow> f (put a v t) = f t"
  shows "f (bcopy get put src dst len s) = f s"
proof -
  have "f (bcopy_from get put src dst n s) = f s"
    if "\<And>a v t. dst \<le> a \<Longrightarrow> a < dst + n \<Longrightarrow> f (put a v t) = f t" for n
    using that
  proof (induction n arbitrary: src dst s rule: less_induct)
    case (less n)
    show ?case
    proof (cases "n > 3")
      case False
      then show ?thesis by (subst bcopy_from.simps) (simp add: bcopy_bytes_frame less.prems)
    next
      case True
      then have "f (bcopy_from get put (src + 4) (dst + 4) (n - 4) (st32 put dst (ld32 get s src) s)) =
          f (st32 put dst (ld32 get s src) s)"
        by (intro less.IH less.prems) auto
      also have "\<dots> = f s" by (rule st32_frame) (use less.prems True in auto)
      finally show ?thesis using True by (subst bcopy_from.simps) simp
    qed
  qed
  from this [OF assms] show ?thesis by (simp add: bcopy_def)
qed

lemma bzero_frame:
  assumes "\<And>a v t. b \<le> a \<Longrightarrow> a < b + nat len \<Longrightarrow> f (put a v t) = f t"
  shows "f (bzero put b len s) = f s"
proof -
  have bytes: "f (bzero_bytes put b n s) = f s"
    if "\<And>a v t. b \<le> a \<Longrightarrow> a < b + n \<Longrightarrow> f (put a v t) = f t" for b n s
    using that by (induction n arbitrary: b s) auto
  have "f (bzero_from put b n s) = f s"
    if "\<And>a v t. b \<le> a \<Longrightarrow> a < b + n \<Longrightarrow> f (put a v t) = f t" for n
    using that
  proof (induction n arbitrary: b s rule: less_induct)
    case (less n)
    show ?case
    proof (cases "n > 3")
      case False
      then show ?thesis by (subst bzero_from.simps) (simp add: bytes less.prems)
    next
      case True
      then have "f (bzero_from put (b + 4) (n - 4) (st32 put b 0 s)) = f (st32 put b 0 s)"
        by (intro less.IH less.prems) auto
      also have "\<dots> = f s" by (rule st32_frame) (use less.prems True in auto)
      finally show ?thesis using True by (subst bzero_from.simps) simp
    qed
  qed
  from this [OF assms] show ?thesis by (simp add: bzero_def)
qed

section \<open>The contract of a byte memory\<close>

locale byte_mem =
  fixes get :: "'s \<Rightarrow> nat \<Rightarrow> u8" and put :: "nat \<Rightarrow> u8 \<Rightarrow> 's \<Rightarrow> 's"
  assumes get_put: "get (put a v s) b = (if b = a then v else get s b)"
begin

lemma get_st16: "get (st16 put a v s) b =
  (if b = a then ucast v else if b = a + 1 then ucast (drop_bit 8 v) else get s b)"
  by (simp add: st16_def get_put)

lemma get_st32: "get (st32 put a v s) b =
  (if a \<le> b \<and> b < a + 4 then ucast (drop_bit (8 * (b - a)) v) else get s b)"
proof -
  have u: "ucast (drop_bit n (ucast (drop_bit m v) :: u16)) = (ucast (drop_bit (m + n) v) :: u8)"
    if "n \<le> 8" for n m
    using that by (intro bit_word_eqI) (auto simp: bit_simps ac_simps)
  have "b = a \<or> b = a + 1 \<or> b = a + 2 \<or> b = a + 3" if "a \<le> b" "b < a + 4"
    using that by linarith
  then show ?thesis
    using u [of 0 0] u [of 8 0] u [of 0 16] u [of 8 16]
    by (auto simp: st32_def get_st16 get_put)
qed

lemma get_st64: "get (st64 put a v s) b =
  (if a \<le> b \<and> b < a + 8 then ucast (drop_bit (8 * (b - a)) v) else get s b)"
proof -
  have u: "ucast (drop_bit n (ucast (drop_bit m v) :: u32)) = (ucast (drop_bit (m + n) v) :: u8)"
    if "n \<le> 24" for n m
    using that by (intro bit_word_eqI) (auto simp: bit_simps ac_simps)
  show ?thesis
    using u [of "8 * (b - a)" 0] u [of "8 * (b - (a + 4))" 32]
    by (auto simp: st64_def get_st32 algebra_simps)
qed

text \<open>Reading back what was stored, and what was stored elsewhere.\<close>

lemma ld32_st32: "ld32 get (st32 put a v s) a = v"
proof -
  have "(ucast ((ucast (ucast v :: u8) :: u16) OR push_bit 8 (ucast (ucast (drop_bit 8 v) :: u8))) :: u32) OR
      push_bit 16 (ucast ((ucast (ucast (drop_bit 16 v) :: u8) :: u16) OR
        push_bit 8 (ucast (ucast (drop_bit 24 v) :: u8)))) = v" (is "?w = v")
  proof (rule bit_word_eqI)
    fix n assume "n < LENGTH(32)"
    then consider "n < 8" | "8 \<le> n" "n < 16" | "16 \<le> n" "n < 24" | "24 \<le> n" "n < 32"
      by (simp del: numeral_eq_Suc) linarith
    then show "bit ?w n = bit v n" by cases (auto simp: bit_simps)
  qed
  then show ?thesis by (simp add: ld32_def ld16_def get_st32)
qed

text \<open>The two halves of a stored double word.\<close>

lemma ld32_st64_halves:
  "ld32 get (st64 put a v s) a = ucast v" "ld32 get (st64 put a v s) (a + 4) = ucast (drop_bit 32 v)"
proof -
  show "ld32 get (st64 put a v s) a = ucast v"
    using ld32_st32 [of a "ucast v" s] by (simp add: ld32_def ld16_def st64_def get_st32)
  show "ld32 get (st64 put a v s) (a + 4) = ucast (drop_bit 32 v)"
    unfolding st64_def by (rule ld32_st32)
qed

lemma ld64_st64: "ld64 get (st64 put a v s) a = v"
proof -
  have "(ucast (ucast v :: u32) :: u64) OR push_bit 32 (ucast (ucast (drop_bit 32 v) :: u32)) = v"
    by (rule bit_word_eqI) (auto simp: bit_simps)
  then show ?thesis by (simp add: ld64_def ld32_st64_halves)
qed

lemma ld32_cong:
  assumes "\<And>i. i < 4 \<Longrightarrow> get s (a + i) = get s' (b + i)"
  shows "ld32 get s a = ld32 get s' b"
  using assms [of 0] assms [of 1] assms [of 2] assms [of 3]
  by (simp add: ld32_def ld16_def numeral_3_eq_3)

lemma ld64_cong:
  assumes "\<And>i. i < 8 \<Longrightarrow> get s (a + i) = get s' (b + i)"
  shows "ld64 get s a = ld64 get s' b"
proof -
  have "ld32 get s a = ld32 get s' b" by (rule ld32_cong) (use assms in simp)
  moreover have "ld32 get s (a + 4) = ld32 get s' (b + 4)"
  proof (rule ld32_cong)
    fix i :: nat assume "i < 4"
    then show "get s (a + 4 + i) = get s' (b + 4 + i)" using assms [of "4 + i"] by (simp add: add.assoc)
  qed
  ultimately show ?thesis by (simp add: ld64_def)
qed

lemma ld32_st32_other: "a + 4 \<le> b \<or> b + 4 \<le> a \<Longrightarrow> ld32 get (st32 put a v s) b = ld32 get s b"
  by (rule ld32_cong) (auto simp: get_st32)

lemma ld64_st64_other: "a + 8 \<le> b \<or> b + 8 \<le> a \<Longrightarrow> ld64 get (st64 put a v s) b = ld64 get s b"
  by (rule ld64_cong) (auto simp: get_st64)

text \<open>Both loops copy and clear byte by byte; a copy needs the two ranges to be apart.\<close>

lemma get_bcopy_bytes:
  assumes "src + n \<le> dst \<or> dst + n \<le> src"
  shows "get (bcopy_bytes get put src dst n s) b =
    (if dst \<le> b \<and> b < dst + n then get s (src + (b - dst)) else get s b)"
  using assms
proof (induction n arbitrary: src dst s)
  case 0
  then show ?case by auto
next
  case (Suc n)
  have "src + 1 + n \<le> dst + 1 \<or> dst + 1 + n \<le> src + 1" using Suc.prems by auto
  note IH = Suc.IH [OF this, of "put dst (get s src) s"]
  have "dst + 1 \<le> b \<Longrightarrow> src + 1 + (b - (dst + 1)) = src + (b - dst)" by simp
  then show ?case using IH Suc.prems by (auto simp: get_put simp del: diff_add_assoc2 diff_add_assoc)
qed

lemma get_bcopy_from:
  assumes "src + n \<le> dst \<or> dst + n \<le> src"
  shows "get (bcopy_from get put src dst n s) b =
    (if dst \<le> b \<and> b < dst + n then get s (src + (b - dst)) else get s b)"
  using assms
proof (induction n arbitrary: src dst s rule: less_induct)
  case (less n)
  show ?case
  proof (cases "n > 3")
    case False
    then show ?thesis
      using get_bcopy_bytes [OF less.prems] by (subst bcopy_from.simps) simp
  next
    case True
    let ?s = "st32 put dst (ld32 get s src) s"
    have IH: "get (bcopy_from get put (src + 4) (dst + 4) (n - 4) ?s) b =
      (if dst + 4 \<le> b \<and> b < dst + 4 + (n - 4) then get ?s (src + 4 + (b - (dst + 4))) else get ?s b)"
      using less.prems True by (intro less.IH) auto
    have chunk: "get ?s b' = (if dst \<le> b' \<and> b' < dst + 4 then get s (src + (b' - dst)) else get s b')" for b'
    proof (cases "dst \<le> b' \<and> b' < dst + 4")
      case c: True
      have "ucast (drop_bit (8 * i) (ld32 get s src)) = get s (src + i)" if "i < 4" for i
      proof -
        have "i = 0 \<or> i = 1 \<or> i = 2 \<or> i = 3" using that by linarith
        then show ?thesis
          by (elim disjE; simp only: ld32_def ld16_def; intro bit_word_eqI)
            (auto simp: bit_simps numeral_3_eq_3 dest: bit_imp_le_length)
      qed
      from this [of "b' - dst"] show ?thesis using c by (auto simp: get_st32)
    qed (auto simp: get_st32)
    have "bcopy_from get put src dst n s = bcopy_from get put (src + 4) (dst + 4) (n - 4) ?s"
      using True by (subst bcopy_from.simps) simp
    then show ?thesis using IH less.prems True by (auto simp: chunk)
  qed
qed

lemma get_bcopy:
  assumes "src + nat len \<le> dst \<or> dst + nat len \<le> src"
  shows "get (bcopy get put src dst len s) b =
    (if dst \<le> b \<and> b < dst + nat len then get s (src + (b - dst)) else get s b)"
  using get_bcopy_from [OF assms] by (simp add: bcopy_def)

lemma get_bzero_bytes: "get (bzero_bytes put a n s) b = (if a \<le> b \<and> b < a + n then 0 else get s b)"
  by (induction n arbitrary: a s) (auto simp: get_put)

lemma get_bzero_from: "get (bzero_from put a n s) b = (if a \<le> b \<and> b < a + n then 0 else get s b)"
proof (induction n arbitrary: a s rule: less_induct)
  case (less n)
  show ?case
  proof (cases "n > 3")
    case False
    then show ?thesis by (subst bzero_from.simps) (simp add: get_bzero_bytes)
  next
    case True
    then show ?thesis
      using less.IH [of "n - 4" "a + 4" "st32 put a 0 s"]
      by (subst bzero_from.simps) (auto simp: get_st32)
  qed
qed

lemma get_bzero: "get (bzero put a len s) b = (if a \<le> b \<and> b < a + nat len then 0 else get s b)"
  by (simp add: bzero_def get_bzero_from)

end

end
