(* ===== verification/Kmem.thy ===== *)
theory Kmem
  imports Bytes FreshPages
begin

text \<open>
  Physical memory by bytes: the kernel reaches byte \<open>a\<close> at \<open>KADDR(a)\<close>. Words are little-endian.
\<close>

definition pbyte :: "'a pmem_scheme \<Rightarrow> nat \<Rightarrow> u8" where
  "pbyte s a = ucast (drop_bit (8 * (a mod 8)) (ram s (a div 4096) (a mod 4096 div 8)))"

definition set_pbyte :: "nat \<Rightarrow> u8 \<Rightarrow> 'a pmem_scheme \<Rightarrow> 'a pmem_scheme" where
  "set_pbyte a v s =
    (let l = (a div 4096, a mod 4096 div 8); sh = 8 * (a mod 8)
     in wr l ((rd l s AND NOT (push_bit sh 0xff)) OR push_bit sh (ucast v)) s)"

lemma bit_ff: "bit (0xff :: 'a :: len word) n \<longleftrightarrow> n < 8 \<and> n < LENGTH('a)"
proof -
  have eq: "(0xff :: 'a word) = mask 8" by (simp add: mask_eq_exp_minus_1)
  show ?thesis unfolding eq bit_mask_iff by auto
qed

lemma bit_ff_int: "bit (0xff :: int) n \<longleftrightarrow> n < 8"
proof -
  have eq: "(0xff :: int) = mask 8" by (simp add: mask_eq_exp_minus_1)
  show ?thesis unfolding eq bit_mask_iff by auto
qed

lemma same_word:
  assumes "a div 4096 = b div 4096" and "a mod 4096 div 8 = b mod 4096 div 8" and "a mod 8 = b mod 8"
  shows "a = (b :: nat)"
proof -
  have "a mod 4096 mod 8 = a mod 8" "b mod 4096 mod 8 = b mod 8" by (simp_all add: mod_mod_cancel)
  then have "a mod 4096 = b mod 4096" using assms(2,3) by (metis div_mult_mod_eq)
  with assms(1) show ?thesis by (metis div_mult_mod_eq)
qed

lemma pbyte_set: "pbyte (set_pbyte a v s) b = (if b = a then v else pbyte s b)"
proof (cases "a div 4096 = b div 4096 \<and> a mod 4096 div 8 = b mod 4096 div 8")
  case False
  then show ?thesis by (auto simp: pbyte_def set_pbyte_def Let_def wr_def)
next
  case True
  define i where "i = 8 * (a mod 8)"
  define j where "j = 8 * (b mod 8)"
  have ne: "i \<noteq> j" if "a \<noteq> b" using same_word [of a b] True that by (auto simp: i_def j_def)
  have gap: "i + 8 \<le> j \<or> j + 8 \<le> i" if "a \<noteq> b"
    using ne [OF that] by (auto simp: i_def j_def)
  have lim: "i \<le> 56" "j \<le> 56" by (auto simp: i_def j_def)
  have "(ucast (drop_bit j ((w AND NOT (push_bit i 0xff)) OR push_bit i (ucast v))) :: u8) =
    (if b = a then v else ucast (drop_bit j w))" for w :: u64
  proof (cases "b = a")
    case True
    then show ?thesis using lim by (intro bit_word_eqI) (auto simp: bit_simps bit_ff bit_ff_int i_def j_def)
  next
    case False
    then show ?thesis
      using gap lim by (intro bit_word_eqI) (auto simp: bit_simps bit_ff bit_ff_int dest: bit_imp_le_length)
  qed
  then show ?thesis
    using True by (simp add: pbyte_def set_pbyte_def Let_def wr_def rd_def i_def j_def)
qed

interpretation phys: byte_mem pbyte set_pbyte
  by unfold_locales (rule pbyte_set)

text \<open>A byte store touches one page and nothing but its contents.\<close>

lemma set_pbyte_fields [simp, field_simps_os]:
  "page_ref (set_pbyte a v s) = page_ref s" "page_pa (set_pbyte a v s) = page_pa s"
  "Kern_vis (set_pbyte a v s) = Kern_vis s" "page_used (set_pbyte a v s) p = page_used s p"
  "q \<noteq> a div 4096 \<Longrightarrow> ram (set_pbyte a v s) q = ram s q"
  by (simp_all add: set_pbyte_def Let_def) (simp add: wr_def)

text \<open>The kernel's copies within physical memory.\<close>

abbreviation kbcopy :: "nat \<Rightarrow> nat \<Rightarrow> int \<Rightarrow> 'a pmem_scheme \<Rightarrow> 'a pmem_scheme" where
  "kbcopy \<equiv> bcopy pbyte set_pbyte"

abbreviation kbzero :: "nat \<Rightarrow> int \<Rightarrow> 'a pmem_scheme \<Rightarrow> 'a pmem_scheme" where
  "kbzero \<equiv> bzero set_pbyte"

lemma kbcopy_fields [simp, field_simps_os]:
  "page_ref (kbcopy src dst len s) = page_ref s" "page_pa (kbcopy src dst len s) = page_pa s"
  "Kern_vis (kbcopy src dst len s) = Kern_vis s"
  by (rule bcopy_frame; simp)+

lemma kbzero_fields [simp, field_simps_os]:
  "page_ref (kbzero a len s) = page_ref s" "page_pa (kbzero a len s) = page_pa s"
  "Kern_vis (kbzero a len s) = Kern_vis s"
  by (rule bzero_frame; simp)+

lemma kbcopy_ram: "(\<And>a. dst \<le> a \<Longrightarrow> a < dst + nat len \<Longrightarrow> a div 4096 \<noteq> q) \<Longrightarrow>
  ram (kbcopy src dst len s) q = ram s q"
  by (rule bcopy_frame [where f = "\<lambda>s. ram s q"]) (metis set_pbyte_fields(5))

lemma kbzero_ram: "(\<And>a. b \<le> a \<Longrightarrow> a < b + nat len \<Longrightarrow> a div 4096 \<noteq> q) \<Longrightarrow>
  ram (kbzero b len s) q = ram s q"
  by (rule bzero_frame [where f = "\<lambda>s. ram s q"]) (metis set_pbyte_fields(5))

end
