(* ===== verification/Elf.thy ===== *)
theory Elf
  imports Kmem
begin

text \<open>
  The ELF loader: kernel/kernel_elfloader.c with the offsets of include/kerelf.h, and the segment
  mapper \<open>load_icode_mapper\<close> of kernel/env.c. The image lies in physical memory, so an address
  in it is a physical byte address; a page directory is named by its page.
\<close>

section \<open>Headers (include/kerelf.h)\<close>

definition ehdr_entry :: "'a pmem_scheme \<Rightarrow> nat \<Rightarrow> u64" where "ehdr_entry s b = ld64 pbyte s (b + 24)"
definition ehdr_phoff :: "'a pmem_scheme \<Rightarrow> nat \<Rightarrow> u64" where "ehdr_phoff s b = ld64 pbyte s (b + 32)"
definition ehdr_phentsize :: "'a pmem_scheme \<Rightarrow> nat \<Rightarrow> u16" where
  "ehdr_phentsize s b = ld16 pbyte s (b + 54)"
definition ehdr_phnum :: "'a pmem_scheme \<Rightarrow> nat \<Rightarrow> u16" where "ehdr_phnum s b = ld16 pbyte s (b + 56)"

definition phdr_type :: "'a pmem_scheme \<Rightarrow> nat \<Rightarrow> u32" where "phdr_type s p = ld32 pbyte s p"
definition phdr_offset :: "'a pmem_scheme \<Rightarrow> nat \<Rightarrow> u64" where "phdr_offset s p = ld64 pbyte s (p + 8)"
definition phdr_vaddr :: "'a pmem_scheme \<Rightarrow> nat \<Rightarrow> u64" where "phdr_vaddr s p = ld64 pbyte s (p + 16)"
definition phdr_filesz :: "'a pmem_scheme \<Rightarrow> nat \<Rightarrow> u64" where "phdr_filesz s p = ld64 pbyte s (p + 32)"
definition phdr_memsz :: "'a pmem_scheme \<Rightarrow> nat \<Rightarrow> u64" where "phdr_memsz s p = ld64 pbyte s (p + 40)"

abbreviation (input) PT_LOAD :: u32 where "PT_LOAD \<equiv> 1"

section \<open>Loading (kernel/kernel_elfloader.c)\<close>

definition is_elf_format :: "nat \<Rightarrow> bool" where "is_elf_format binary = True"

text \<open>
  The segment sizes are 64 bits in the file and 32 bits in the callback. The result carries the
  entry point when \<open>*entry_point\<close> is written.
\<close>

type_synonym 's segment_map = "u64 \<Rightarrow> u32 \<Rightarrow> nat \<Rightarrow> u32 \<Rightarrow> 's \<Rightarrow> int \<times> 's"

primrec load_segments ::
    "'a pmem_scheme segment_map \<Rightarrow> nat \<Rightarrow> nat \<Rightarrow> u16 \<Rightarrow> nat \<Rightarrow> 'a pmem_scheme \<Rightarrow> int \<times> 'a pmem_scheme" where
  "load_segments map_seg binary ph entry_size 0 s = (0, s)"
| "load_segments map_seg binary ph entry_size (Suc n) s =
    (if phdr_type s ph = PT_LOAD then
       (case map_seg (phdr_vaddr s ph) (ucast (phdr_memsz s ph)) (binary + unat (phdr_offset s ph))
               (ucast (phdr_filesz s ph)) s of
          (r, s1) \<Rightarrow>
            if r < 0 then (r, s1)
            else load_segments map_seg binary (ph + unat entry_size) entry_size n s1)
     else load_segments map_seg binary (ph + unat entry_size) entry_size n s)"

definition load_elf ::
    "'a pmem_scheme segment_map \<Rightarrow> nat \<Rightarrow> int \<Rightarrow> 'a pmem_scheme \<Rightarrow> (int \<times> u64 option) \<times> 'a pmem_scheme" where
  "load_elf map_seg binary len s =
    (if len < 4 \<or> \<not> is_elf_format binary then ((-1, None), s)
     else
       (case load_segments map_seg binary (binary + unat (ehdr_phoff s binary))
               (ehdr_phentsize s binary) (unat (ehdr_phnum s binary)) s of
          (r, s1) \<Rightarrow> if r < 0 then ((r, None), s1) else ((0, Some (ehdr_entry s1 binary)), s1)))"

section \<open>Mapping a segment (kernel/env.c)\<close>

text \<open>The page at \<open>va\<close>, allocated and mapped if there was none. The result of the mapping is ignored.\<close>

definition icode_page :: "nat \<Rightarrow> u64 \<Rightarrow> 'a pmem_scheme \<Rightarrow> nat option \<times> 'a pmem_scheme" where
  "icode_page pd va s =
    (case page_lookup pd va s of
       Some (p, _) \<Rightarrow> (Some p, s)
     | None \<Rightarrow>
         (case page_alloc s of
            (None, s1) \<Rightarrow> (None, s1)
          | (Some p, s1) \<Rightarrow> (Some p, snd (page_insert pd p va (PTE_RW OR PTE_USER) s1))))"

text \<open>The two loops; they return \<open>i\<close> and the last value of \<open>r\<close>.\<close>

function icode_copy :: "nat \<Rightarrow> u64 \<Rightarrow> nat \<Rightarrow> u64 \<Rightarrow> u64 \<Rightarrow> u64 \<Rightarrow> 'a pmem_scheme \<Rightarrow>
    (u64 \<times> u64) option \<times> 'a pmem_scheme" where
  "icode_copy pd va bin bin_size i r s =
    (if i < bin_size then
       (case page_alloc s of
          (None, s1) \<Rightarrow> (None, s1)
        | (Some p, s1) \<Rightarrow>
            (let s2 = snd (page_insert pd p (va + i) (PTE_RW OR PTE_USER) s1);
                 r' = min BY2PG (bin_size - i);
                 s3 = kbcopy (bin + unat i) (p * 4096) (uint r') s2
             in icode_copy pd va bin bin_size (i + r') r' s3))
     else (Some (i, r), s))"
  by auto

function icode_zero :: "nat \<Rightarrow> u64 \<Rightarrow> u64 \<Rightarrow> u64 \<Rightarrow> 'a pmem_scheme \<Rightarrow> int \<times> 'a pmem_scheme" where
  "icode_zero pd va sgsize i s =
    (if i < sgsize then
       (case page_alloc s of
          (None, s1) \<Rightarrow> (-1, s1)
        | (Some p, s1) \<Rightarrow>
            (let s2 = snd (page_insert pd p (va + i) (PTE_RW OR PTE_USER) s1);
                 r = min BY2PG (sgsize - i);
                 s3 = kbzero (p * 4096) (uint r) s2
             in icode_zero pd va sgsize (i + r) s3))
     else (0, s))"
  by auto

lemma chunk_progress:
  fixes i n :: u64
  assumes "i < n"
  shows "unat (i + min 4096 (n - i)) = unat i + min 4096 (unat n - unat i)"
    and "unat n - unat (i + min 4096 (n - i)) < unat n - unat i"
proof -
  have d: "unat (n - i) = unat n - unat i" using assms by (simp add: unat_sub order_less_imp_le)
  then have m: "unat (min 4096 (n - i)) = min 4096 (unat n - unat i)"
    by (simp add: min_def word_le_nat_alt)
  have n: "unat n < 2 ^ 64" using unsigned_less [of n] by simp
  have "unat i + min 4096 (unat n - unat i) < 2 ^ 64"
    using n assms by (simp add: word_less_nat_alt)
  then show e: "unat (i + min 4096 (n - i)) = unat i + min 4096 (unat n - unat i)"
    using m by (subst unat_add_lem [THEN iffD1]) simp_all
  show "unat n - unat (i + min 4096 (n - i)) < unat n - unat i"
    using assms by (simp add: e word_less_nat_alt)
qed

termination icode_copy
  by (relation "measure (\<lambda>(pd, va, bin, n, i, r, s). unat n - unat i)") (auto simp: chunk_progress(2))

termination icode_zero
  by (relation "measure (\<lambda>(pd, va, n, i, s). unat n - unat i)") (auto simp: chunk_progress(2))

declare icode_copy.simps [simp del] icode_zero.simps [simp del]

definition load_icode_mapper ::
    "nat \<Rightarrow> u64 \<Rightarrow> u32 \<Rightarrow> nat \<Rightarrow> u32 \<Rightarrow> 'a pmem_scheme \<Rightarrow> int \<times> 'a pmem_scheme" where
  "load_icode_mapper pd va sgsize bin bin_size s =
    (let offset = va - ROUNDDOWN va BY2PG;
         (ro, s1) = (if offset > 0 then
             (case icode_page pd va s of
                (None, s1) \<Rightarrow> (None, s1)
              | (Some p, s1) \<Rightarrow>
                  (let r = min (ucast bin_size) (BY2PG - offset)
                   in (Some r, kbcopy bin (p * 4096 + unat offset) (uint r) s1)))
           else (Some 0, s))
     in case ro of
          None \<Rightarrow> (-1, s1)
        | Some r \<Rightarrow>
            (case icode_copy pd va bin (ucast bin_size) r r s1 of
               (None, s2) \<Rightarrow> (-1, s2)
             | (Some (i, r), s2) \<Rightarrow>
                 (let offset = va + i - ROUNDDOWN (va + i) BY2PG;
                      (ro, s3) = (if offset > 0 then
                          (case icode_page pd (va + i) s2 of
                             (None, s3) \<Rightarrow> (None, s3)
                           | (Some p, s3) \<Rightarrow>
                               (let r = min (ucast sgsize - i) (BY2PG - offset)
                                in (Some r, kbzero (p * 4096 + unat offset) (uint r) s3)))
                        else (Some r, s2))
                  in case ro of
                       None \<Rightarrow> (-1, s3)
                     | Some r \<Rightarrow> icode_zero pd va (ucast sgsize) (i + r) s3)))"

end
