(* ===== verification/Env.thy ===== *)
theory Env
  imports Queue Elf
begin

text \<open>
  Environments: kernel/env.c with \<open>struct Trapframe\<close> and \<open>struct Env\<close> of include/type.h. The kernel
  state extends physical memory with the environment table, the two kinds of lists, the current
  environment and the static variables of env.c and sched.c. \<open>tf_cpu\<close> is the trap frame
  at \<open>*TRAPSP\<close>, which the exception entry saves and the exception return restores. A function
  that panics, hangs or leaves through \<open>env_run\<close> says so in its result.
\<close>

section \<open>State (include/type.h)\<close>

record trapframe =
  far_el1 :: u64
  sp_el0 :: u64
  elr_el1 :: u64
  spsr_el1 :: u64
  count_down :: u64
  regs :: "nat \<Rightarrow> u64"

text \<open>\<open>pgdir\<close> is the page of the kernel address of the directory, \<open>None\<close> when that is 0.\<close>

record env =
  tf :: trapframe
  env_id :: u32
  parent_id :: u32
  status :: u32
  pgdir :: "nat option"
  pgdir_pa :: u64
  pri :: u32
  ipc_value :: u64
  ipc_from :: u64
  ipc_recving :: u64
  ipc_dstva :: u64
  ipc_perm :: u64
  pgfault_handler :: u64
  xstacktop :: u64
  env_runs :: u64

abbreviation (input) ENV_FREE :: u32 where "ENV_FREE \<equiv> 0"
abbreviation (input) ENV_RUNNABLE :: u32 where "ENV_RUNNABLE \<equiv> 1"
abbreviation (input) ENV_NOT_RUNNABLE :: u32 where "ENV_NOT_RUNNABLE \<equiv> 2"
abbreviation (input) LOG2NENV :: nat where "LOG2NENV \<equiv> 10"
abbreviation (input) NENV :: nat where "NENV \<equiv> 1024"

definition ENVX :: "u32 \<Rightarrow> nat" where
  "ENVX envid = unat (envid AND 1023)"

text \<open>
  \<open>free_link\<close> holds the list under \<open>env_free_list\<close> (head 0) through the entries' \<open>link\<close>;
  \<open>sched_link\<close> holds \<open>env_sched_list[0]\<close> and \<open>[1]\<close> through \<open>sched_link\<close>. \<open>count\<close> and \<open>point\<close> are the
  static variables of \<open>sched_yield\<close>.
\<close>

record kstate = pmem +
  envs :: "nat \<Rightarrow> env"
  curenv :: "nat option"
  free_link :: links
  sched_link :: links
  next_env_id :: u32
  count :: u32
  point :: nat
  tf_cpu :: trapframe
  User_pgdir :: u64

type_synonym 'a kres = "('a, kstate) outcome"

definition set_env :: "nat \<Rightarrow> env \<Rightarrow> kstate \<Rightarrow> kstate" where
  "set_env e v s = s\<lparr>envs := (envs s)(e := v)\<rparr>"

text \<open>
  A load or store through a null pointer has no defined result; the model stops there. The
  properties say for which states this does not happen.
\<close>

definition null_deref :: "kstate \<Rightarrow> 'a kres" where
  "null_deref s = Panic ''null pointer'' s"

definition deref :: "'b option \<Rightarrow> ('b \<Rightarrow> kstate \<Rightarrow> 'a kres) \<Rightarrow> kstate \<Rightarrow> 'a kres" where
  "deref p f s = (case p of None \<Rightarrow> null_deref s | Some x \<Rightarrow> f x s)"

section \<open>The environment table\<close>

definition env_init :: "kstate \<Rightarrow> kstate" where
  "env_init s =
    (let s1 = s\<lparr>free_link := list_init 0 (free_link s),
                sched_link := list_init 1 (list_init 0 (sched_link s))\<rparr>
     in fold (\<lambda>i s. let s' = set_env i (envs s i\<lparr>status := ENV_FREE\<rparr>) s
                    in s'\<lparr>free_link := list_insert_head 0 i (free_link s')\<rparr>)
          (rev [0..<NENV]) s1)"

definition mkenvid :: "nat \<Rightarrow> kstate \<Rightarrow> u32 \<times> kstate" where
  "mkenvid e s =
    (let n = next_env_id s + 1
     in (push_bit (1 + LOG2NENV) n OR of_nat e, s\<lparr>next_env_id := n\<rparr>))"

definition envid2env :: "u32 \<Rightarrow> bool \<Rightarrow> kstate \<Rightarrow> (int \<times> nat option) kres" where
  "envid2env envid checkperm s =
    (if envid = 0 then Ret (0, curenv s) s
     else
       (let e = ENVX envid
        in if status (envs s e) = ENV_FREE \<or> env_id (envs s e) \<noteq> envid then Ret (-1, None) s
           else if checkperm then
             (if curenv s \<noteq> Some e then
                deref (curenv s) (\<lambda>c s.
                  if parent_id (envs s e) \<noteq> env_id (envs s c) then Ret (-1, None) s
                  else Ret (0, Some e) s) s
              else Ret (0, Some e) s)
           else Ret (0, Some e) s))"

section \<open>Creating environments\<close>

text \<open>
  The directory of a new environment: the self map, and every page of the kernel image below
  \<open>init_end\<close> at its own address. The results of the insertions are ignored.
\<close>

definition env_setup_vm :: "u64 \<Rightarrow> nat \<Rightarrow> kstate \<Rightarrow> unit kres" where
  "env_setup_vm init_end e s =
    (case page_alloc s of
       (None, s1) \<Rightarrow> Panic ''env_setup_vm - page alloc error'' s1
     | (Some p, s1) \<Rightarrow>
         (let s2 = set_ref p (page_ref s1 p + 1) s1;
              s3 = fold (\<lambda>i. wr (p, i) 0) [0..<512] s2;
              s4 = wr (p, GET_L1_INDEX UVPT) (page_pa s3 p OR PTE_RW OR PTE_USER) s3;
              s5 = set_env e (envs s4 e\<lparr>pgdir := Some p, pgdir_pa := of_nat (p * 4096)\<rparr>) s4;
              s6 = fold (\<lambda>i s. snd (page_insert p i (push_bit 12 (of_nat i))
                                      (PTE_RW OR PTE_USER OR PTE_LIBRARY) s))
                     [0..<unat (init_end div 4096)] s5
          in Ret () s6))"

definition env_alloc :: "u64 \<Rightarrow> u64 \<Rightarrow> kstate \<Rightarrow> (int \<times> nat option) kres" where
  "env_alloc init_end parent s =
    (case lh_first (free_link s) 0 of
       None \<Rightarrow> Ret (-1, None) s
     | Some e \<Rightarrow>
         (case list_remove e (free_link s) of
            None \<Rightarrow> null_deref s
          | Some l \<Rightarrow>
              obind (env_setup_vm init_end e (s\<lparr>free_link := l\<rparr>)) (\<lambda>_ s1.
                (let (i, s2) = mkenvid e s1;
                     v = envs s2 e;
                     s3 = set_env e (v\<lparr>env_id := i, status := ENV_RUNNABLE, parent_id := ucast parent,
                            tf := (tf v)\<lparr>spsr_el1 := 0x340, sp_el0 := USTACKTOP\<rparr>\<rparr>) s2
                 in Ret (0, Some e) s3))))"

text \<open>
  \<open>load_icode\<close> ignores the loader's result and reads \<open>entry_point\<close> even when nothing was stored
  there; \<open>stack\<close> is what that stack slot holds.
\<close>

definition load_icode :: "u64 \<Rightarrow> nat \<Rightarrow> nat \<Rightarrow> int \<Rightarrow> kstate \<Rightarrow> unit kres" where
  "load_icode stack e binary len s =
    deref (pgdir (envs s e)) (\<lambda>pd s.
      (case load_elf (load_icode_mapper pd) binary len s of
         ((r, ep), s1) \<Rightarrow>
           (let entry_point = (case ep of None \<Rightarrow> stack | Some x \<Rightarrow> x);
                v = envs s1 e
            in Ret () (set_env e (v\<lparr>tf := (tf v)\<lparr>elr_el1 := entry_point\<rparr>\<rparr>) s1)))) s"

definition env_create_priority :: "u64 \<Rightarrow> u64 \<Rightarrow> nat \<Rightarrow> int \<Rightarrow> int \<Rightarrow> kstate \<Rightarrow> unit kres" where
  "env_create_priority init_end stack binary len priority s =
    obind (env_alloc init_end 0 s) (\<lambda>(r, new) s1.
      (case new of
         None \<Rightarrow> Ret () s1
       | Some e \<Rightarrow>
           obind (load_icode stack e binary len (set_env e (envs s1 e\<lparr>pri := of_int priority\<rparr>) s1))
             (\<lambda>_ s2. (case list_insert_tail 0 e (sched_link s2) of
                        None \<Rightarrow> Hang
                      | Some l \<Rightarrow> Ret () (s2\<lparr>sched_link := l\<rparr>)))))"

definition env_create :: "u64 \<Rightarrow> u64 \<Rightarrow> nat \<Rightarrow> int \<Rightarrow> kstate \<Rightarrow> unit kres" where
  "env_create init_end stack binary len s = env_create_priority init_end stack binary len 1 s"

section \<open>Freeing environments\<close>

text \<open>The three nested loops of \<open>env_free\<close> over the tables of the directory \<open>pd\<close>.\<close>

definition free_pages :: "nat \<Rightarrow> nat \<Rightarrow> nat \<Rightarrow> nat \<Rightarrow> 'a pmem_scheme \<Rightarrow> 'a pmem_scheme" where
  "free_pages pd i j pt2 s =
    fold (\<lambda>k s.
      if rd (pt2, k) s AND VALID \<noteq> 0
      then page_remove pd (push_bit 30 (of_nat i) OR push_bit 21 (of_nat j) OR push_bit 12 (of_nat k)) s
      else s) [0..<512] s"

definition free_tables :: "nat \<Rightarrow> nat \<Rightarrow> nat \<Rightarrow> 'a pmem_scheme \<Rightarrow> 'a pmem_scheme" where
  "free_tables pd i pt1 s =
    fold (\<lambda>j s.
      if rd (pt1, j) s AND VALID = 0 then s
      else
        (let pa2 = PTE_ADDR (rd (pt1, j) s);
             s1 = free_pages pd i j (pte_page (rd (pt1, j) s)) s;
             s2 = wr (pt1, j) 0 s1
         in page_decref (pa2page pa2) s2)) [0..<512] s"

definition free_dir :: "nat \<Rightarrow> 'a pmem_scheme \<Rightarrow> 'a pmem_scheme" where
  "free_dir pd s =
    fold (\<lambda>i s.
      if rd (pd, i) s AND VALID = 0 then s
      else
        (let pa1 = PTE_ADDR (rd (pd, i) s);
             s1 = free_tables pd i (pte_page (rd (pd, i) s)) s;
             s2 = wr (pd, i) 0 s1
         in page_decref (pa2page pa1) s2)) [0..<512] s"

definition env_free :: "nat \<Rightarrow> kstate \<Rightarrow> unit kres" where
  "env_free e s =
    deref (pgdir (envs s e)) (\<lambda>pd s.
      (let s1 = free_dir pd (wr (pd, GET_L1_INDEX UVPT) 0 s);
           pa = pgdir_pa (envs s1 e);
           s2 = set_env e (envs s1 e\<lparr>pgdir := None, pgdir_pa := 0\<rparr>) s1;
           s3 = page_decref (pa2page pa) s2;
           s4 = set_env e (envs s3 e\<lparr>status := ENV_FREE\<rparr>) s3
       in Ret () (s4\<lparr>free_link := list_insert_head 0 e (free_link s4)\<rparr>))) s"

section \<open>Switching to an environment\<close>

text \<open>\<open>lcontext\<close> returns its argument. \<open>env_pop_tf\<close> restores the registers from \<open>*TRAPSP\<close> and leaves.\<close>

definition save_context :: "kstate \<Rightarrow> kstate" where
  "save_context s =
    (case curenv s of None \<Rightarrow> s | Some c \<Rightarrow> set_env c (envs s c\<lparr>tf := tf_cpu s\<rparr>) s)"

definition env_run :: "nat \<Rightarrow> kstate \<Rightarrow> unit kres" where
  "env_run e s =
    (let s1 = save_context s;
         s2 = s1\<lparr>curenv := Some e\<rparr>;
         s3 = set_env e (envs s2 e\<lparr>env_runs := env_runs (envs s2 e) + 1\<rparr>) s2;
         s4 = s3\<lparr>User_pgdir := pgdir_pa (envs s3 e)\<rparr>;
         v = envs s4 e;
         s5 = set_env e (v\<lparr>tf := (tf v)\<lparr>count_down := 62500 * 2\<rparr>\<rparr>) s4
     in Eret (s5\<lparr>tf_cpu := tf (envs s5 e)\<rparr>))"

end
