(* ===== verification/Release.thy ===== *)
theory Release
  imports Env Memory
begin

text \<open>
  Taking an address space apart: the loops of \<open>env_free\<close> (kernel/env.c) remove every mapping and
  every table of one directory. A step that releases pages keeps, for every page, the difference
  between its references and its uses in that directory.
\<close>

section \<open>Uses of a page in an address space\<close>

definition uses :: "'a pmem_scheme \<Rightarrow> nat \<Rightarrow> nat \<Rightarrow> nat list set" where
  "uses s d q = {js. (table_path js \<or> leaf_path js) \<and> node s d js = Some q}"

lemma finite_uses: "finite (uses s d q)"
proof (rule finite_subset)
  show "finite {js. set js \<subseteq> {..<512 :: nat} \<and> length js \<le> 3}" by (rule finite_lists_length_le) simp
  show "uses s d q \<subseteq> {js. set js \<subseteq> {..<512} \<and> length js \<le> 3}"
    by (auto simp: uses_def table_path_def leaf_path_def)
qed

text \<open>
  \<open>s\<close> has released some pages of \<open>d\<close> with respect to \<open>s0\<close>: references fall with uses, a page is
  freed when its last reference goes, and the rest of memory is untouched.
\<close>

definition releases :: "nat set \<Rightarrow> nat \<Rightarrow> 'a pmem_scheme \<Rightarrow> 'a pmem_scheme \<Rightarrow> bool" where
  "releases D d s0 s \<longleftrightarrow>
     wf_spaces s D \<and> page_pa s = page_pa s0 \<and> ram s d self_index = ram s0 d self_index \<and>
     (\<forall>q. uses s d q \<subseteq> uses s0 d q) \<and>
     (\<forall>q. page_ref s q - of_nat (card (uses s d q)) = page_ref s0 q - of_nat (card (uses s0 d q))) \<and>
     (\<forall>q. page_used s q \<longleftrightarrow> page_used s0 q \<and> (uses s d q = uses s0 d q \<or> page_ref s q > 0)) \<and>
     (\<forall>d' \<in> D - {d}. \<forall>js. leaf_path js \<longrightarrow> leaf_entry s d' js = leaf_entry s0 d' js) \<and>
     (\<forall>q. \<not> is_table s0 D q \<longrightarrow> \<not> is_table s D q \<and> ram s q = ram s0 q)"

lemma releases_refl: "wf_spaces s D \<Longrightarrow> releases D d s s"
  by (simp add: releases_def)

lemma releases_wf: "releases D d s0 s \<Longrightarrow> wf_spaces s D"
  by (simp add: releases_def)

lemma releases_trans:
  assumes "releases D d s0 s1" and "releases D d s1 s2"
  shows "releases D d s0 s2"
proof -
  have sub: "uses s2 d q \<subseteq> uses s1 d q" "uses s1 d q \<subseteq> uses s0 d q" for q
    using assms by (auto simp: releases_def)
  have bal: "page_ref s2 q - of_nat (card (uses s2 d q)) = page_ref s1 q - of_nat (card (uses s1 d q))" for q
    using assms(2) by (simp add: releases_def)
  have u1: "page_used s1 q \<longleftrightarrow> page_used s0 q \<and> (uses s1 d q = uses s0 d q \<or> page_ref s1 q > 0)"
    and u2: "page_used s2 q \<longleftrightarrow> page_used s1 q \<and> (uses s2 d q = uses s1 d q \<or> page_ref s2 q > 0)" for q
    using assms by (simp_all add: releases_def)
  have "page_used s2 q \<longleftrightarrow> page_used s0 q \<and> (uses s2 d q = uses s0 d q \<or> page_ref s2 q > 0)" for q
  proof (cases "page_ref s2 q > 0")
    case True
    then show ?thesis using u1 u2 wf_ref_used [OF releases_wf [OF assms(2)]] by blast
  next
    case False
    have "page_ref s1 q = page_ref s2 q" if "uses s2 d q = uses s1 d q" using bal [of q] that by simp
    then show ?thesis using False u1 [of q] u2 [of q] sub [of q] by auto
  qed
  moreover have "uses s2 d q \<subseteq> uses s0 d q" for q using sub by blast
  ultimately show ?thesis using assms unfolding releases_def by simp
qed

text \<open>Removing one use \<open>p\<close> of the page \<open>c\<close> and one of its references.\<close>

lemma releases_step:
  assumes wf: "wf_spaces s D" "wf_spaces s' D"
    and c: "p \<in> uses s d c" "page_ref s c > 0"
    and uses: "\<And>q. uses s' d q = uses s d q - {p}"
    and ref: "\<And>q. page_ref s' q = (if q = c then page_ref s q - 1 else page_ref s q)"
    and used: "\<And>q. page_used s' q \<longleftrightarrow> page_used s q \<and> (q = c \<longrightarrow> page_ref s' q > 0)"
    and rest: "page_pa s' = page_pa s" "ram s' d self_index = ram s d self_index"
      "\<And>d' js. d' \<in> D - {d} \<Longrightarrow> leaf_path js \<Longrightarrow> leaf_entry s' d' js = leaf_entry s d' js"
      "\<And>q. \<not> is_table s D q \<Longrightarrow> \<not> is_table s' D q \<and> ram s' q = ram s q"
  shows "releases D d s s'"
proof -
  have other: "p \<notin> uses s d q" if "q \<noteq> c" for q using c(1) that by (auto simp: uses_def)
  have u: "uses s' d q = (if q = c then uses s d q - {p} else uses s d q)" for q
    using uses other by auto
  have card: "page_ref s' q - of_nat (card (uses s' d q)) = page_ref s q - of_nat (card (uses s d q))" for q
  proof (cases "q = c")
    case True
    have "card (uses s d c) > 0" using c(1) finite_uses [of s d c] by (auto simp: card_gt_0_iff)
    then have "(of_nat (card (uses s d c) - 1) :: u32) = of_nat (card (uses s d c)) - 1"
      by (simp add: of_nat_diff)
    then show ?thesis using True c(1) finite_uses [of s d c] by (simp add: uses ref)
  qed (simp add: u ref)
  have "page_used s' q \<longleftrightarrow> page_used s q \<and> (uses s' d q = uses s d q \<or> page_ref s' q > 0)" for q
    using used [of q] c(1) u [of q] by auto
  then show ?thesis unfolding releases_def using wf(2) rest u card by auto
qed

section \<open>Removing a mapping\<close>

lemma node_self: "d \<in> D \<Longrightarrow> is_table s D d"
  unfolding is_table_def by (intro bexI [of _ d] exI [of _ "[]"]) simp_all

lemma page_remove_releases:
  assumes wf: "wf_spaces s D" and d: "d \<in> D" and va: "user_va va"
  shows "releases D d s (page_remove d va s)"
proof (cases "vmap s d va")
  case None
  then show ?thesis using wf by (simp add: page_remove_unmapped releases_refl)
next
  case (Some e)
  let ?s = "page_remove d va s"
  note R = page_remove_wf [OF wf d va] and F = page_remove_frame [OF wf d va]
  obtain t where t: "node s d [GET_L1_INDEX va, GET_L2_INDEX va] = Some t"
    and rm: "?s = wr (t, GET_L3_INDEX va) 0
      (page_free (pte_page e) (set_ref (pte_page e) (page_ref s (pte_page e) - 1) s))"
    and r0: "page_ref s (pte_page e) > 0"
    by (rule page_remove_mapped [OF wf d va Some])
  have td: "t \<noteq> d"
    using wf_inj [OF wf d d vpath_table(1) [OF va] vpath_table(3) t] by force
  have lf: "leaf_path (vpath va)" using va by simp
  have nt: "\<not> table_path (vpath va)" by (simp add: table_path_def vpath_def)
  have node: "node ?s d js = (if js = vpath va then None else node s d js)"
    if "table_path js \<or> leaf_path js" for js
  proof (cases "leaf_path js")
    case True
    then show ?thesis using R(3) [OF d True] by (simp add: node_leaf)
  next
    case False
    then show ?thesis using that R(4) nt by auto
  qed
  show ?thesis
  proof (rule releases_step [OF wf R(1), where p = "vpath va" and c = "pte_page e"])
    show "vpath va \<in> uses s d (pte_page e)"
      using lf Some by (simp add: uses_def node_leaf vmap_def)
    show "uses ?s d q = uses s d q - {vpath va}" for q
      using node by (auto simp: uses_def split: if_splits)
    show "ram ?s d self_index = ram s d self_index"
      using td by (simp add: rm) (simp add: wr_def set_ref_def)
    show "\<not> is_table s D q \<Longrightarrow> \<not> is_table ?s D q \<and> ram ?s q = ram s q" for q
      using R(2) F(2) by blast
    show "leaf_entry ?s d' js = leaf_entry s d' js" if "d' \<in> D - {d}" "leaf_path js" for d' js
      using R(3) that by simp
    show "page_ref ?s q = (if q = pte_page e then page_ref s q - 1 else page_ref s q)"
      "page_used ?s q \<longleftrightarrow> page_used s q \<and> (q = pte_page e \<longrightarrow> page_ref ?s q > 0)" for q
      using F(3,4) [of q] Some by auto
  qed (use r0 F(1) in auto)
qed


section \<open>Removing a table\<close>

lemma page_decref_fields:
  "page_pa (page_decref c s) = page_pa s" "ram (page_decref c s) = ram s"
  "page_ref (page_decref c s) = (page_ref s)(c := page_ref s c - 1)"
  "page_used (page_decref c s) q \<longleftrightarrow> page_used s q \<and> (q = c \<longrightarrow> page_ref s c - 1 > 0)"
  by (auto simp: page_decref_def page_used_page_free)

lemma pa2page_PTE_ADDR: "pa2page (PTE_ADDR e) = pte_page e"
proof -
  have "unat (PTE_ADDR e) \<le> unat (0x3ffff000 :: u64)"
    unfolding PTE_ADDR_def by (metis word_and_le1 word_le_nat_alt)
  then have "unat (PTE_ADDR e) < 2 ^ 32" by simp
  then have "unat (ucast (PTE_ADDR e) :: u32) = unat (PTE_ADDR e)"
    by (simp add: unsigned_ucast_eq take_bit_nat_eq_self)
  then show ?thesis
    by (simp only: pa2page_def pte_page_def unat_drop_bit_eq) (simp add: drop_bit_eq_div)
qed

text \<open>The nodes after the entry of a table without valid entries has been cleared.\<close>

lemma table_path_lengths:
  "table_path (as @ [i]) \<Longrightarrow> table_path as \<and> length as \<le> 1 \<and> i < 512"
  "table_path js \<or> leaf_path js \<Longrightarrow> js = as @ k # bs \<Longrightarrow> table_path as \<and> k < 512"
  by (auto simp: table_path_def leaf_path_def hd_append split: if_splits)

lemma remove_table_node:
  assumes wf: "wf_spaces s D" and d: "d \<in> D" and tp: "table_path (path @ [i])"
    and t: "node s d path = Some t" and c: "node s d (path @ [i]) = Some c"
    and empty: "\<forall>k < 512. rd (c, k) s AND VALID = 0"
    and rds: "\<And>l. l \<noteq> (t, i) \<Longrightarrow> rd l s' = rd l s" and inv: "rd (t, i) s' AND VALID = 0"
    and d': "d' \<in> D" and js: "table_path js \<or> leaf_path js"
  shows "node s' d' js = (if d' = d \<and> js = path @ [i] then None else node s d' js)"
proof (cases "d' = d \<and> (\<exists>ks. js = path @ i # ks)")
  case True
  then obtain ks where ks: "js = (path @ [i]) @ ks" by auto
  have pt: "table_path path" using table_path_lengths(1) [OF tp] by simp
  have "node s' d path = node s d path"
  proof (rule node_cong)
    fix as a bs t' assume p: "path = as @ a # bs" and t': "node s d as = Some t'"
    have "table_path as" using table_path_lengths(2) pt p by blast
    then have "t' \<noteq> t" using wf_inj [OF wf d d _ pt t' ] t p by force
    then show "rd (t', a) s' = rd (t', a) s" using rds by simp
  qed
  then have "node s' d (path @ [i]) = None" using t inv by (simp add: node_append)
  then have "node s' d js = None" unfolding ks by (subst node_append) simp
  moreover have "ks \<noteq> [] \<Longrightarrow> node s d js = None"
  proof -
    assume "ks \<noteq> []"
    then obtain k ms where k: "ks = k # ms" by (cases ks) auto
    have "k < 512" using table_path_lengths(2) [OF js, of "path @ [i]" k ms] ks k by simp
    then show ?thesis unfolding ks k using c empty by (subst node_append) simp
  qed
  ultimately show ?thesis using True ks by auto
next
  case False
  have "node s' d' js = node s d' js"
  proof (rule node_cong)
    fix as a bs t' assume p: "js = as @ a # bs" and t': "node s d' as = Some t'"
    have ta: "table_path as" using table_path_lengths(2) [OF js p] by simp
    have pt: "table_path path" using table_path_lengths(1) [OF tp] by simp
    have "(t', a) \<noteq> (t, i)"
    proof
      assume "(t', a) = (t, i)"
      then have "d' = d \<and> as = path" "a = i" using wf_inj [OF wf d' d ta pt t'] t by auto
      then show False using False p by auto
    qed
    then show "rd (t', a) s' = rd (t', a) s" by (rule rds)
  qed
  then show ?thesis using False by auto
qed


lemma remove_table_releases:
  assumes wf: "wf_spaces s D" and d: "d \<in> D" and tp: "table_path (path @ [i])"
    and t: "node s d path = Some t" and c: "node s d (path @ [i]) = Some c"
    and empty: "\<forall>k < 512. rd (c, k) s AND VALID = 0"
    and s': "s' = page_decref c (wr (t, i) 0 s)"
  shows "releases D d s s'"
    and "\<And>js. table_path js \<or> leaf_path js \<Longrightarrow>
      node s' d js = (if js = path @ [i] then None else node s d js)"
    and "\<And>q. q \<noteq> t \<Longrightarrow> ram s' q = ram s q"
proof -
  have pt: "table_path path" and len: "length path \<le> 1" using table_path_lengths(1) [OF tp] by auto
  have rds: "rd l s' = rd l s" if "l \<noteq> (t, i)" for l
    using that by (auto simp: s' page_decref_def)
  have inv: "rd (t, i) s' AND VALID = 0" by (simp add: s' page_decref_def)
  have N: "node s' d' js = (if d' = d \<and> js = path @ [i] then None else node s d' js)"
    if "d' \<in> D" "table_path js \<or> leaf_path js" for d' js
    by (rule remove_table_node [OF wf d tp t c empty rds inv that])
  have tc: "is_table s D c" using d tp c unfolding is_table_def by blast
  have c0: "page_ref s c > 0" by (rule wf_table_ref [OF wf tc])
  have tab: "is_table s' D q \<longleftrightarrow> is_table s D q \<and> q \<noteq> c" for q
  proof
    assume "is_table s' D q"
    then obtain d' js where j: "d' \<in> D" "table_path js" "node s' d' js = Some q"
      unfolding is_table_def by blast
    then have n: "node s d' js = Some q" and "\<not> (d' = d \<and> js = path @ [i])"
      using N [of d' js] by (auto split: if_splits)
    moreover have "q \<noteq> c" using calculation wf_inj [OF wf j(1) d j(2) tp n] c by blast
    ultimately show "is_table s D q \<and> q \<noteq> c" using j unfolding is_table_def by blast
  next
    assume a: "is_table s D q \<and> q \<noteq> c"
    then obtain d' js where j: "d' \<in> D" "table_path js" "node s d' js = Some q"
      unfolding is_table_def by blast
    then have "\<not> (d' = d \<and> js = path @ [i])" using a c by auto
    then have "node s' d' js = Some q" using N [of d' js] j by simp
    then show "is_table s' D q" using j unfolding is_table_def by blast
  qed
  have pi: "\<not> leaf_path (path @ [i])" using len by (simp add: leaf_path_def)
  have ent: "leaf_entry s' d' js = leaf_entry s d' js" if d': "d' \<in> D" and js: "leaf_path js" for d' js
  proof -
    obtain a b k where jk: "js = [a, b, k]" "table_path [a, b]" "k < 512"
      using leaf_path_cases [OF js] by blast
    show ?thesis
    proof (cases "d' = d \<and> [a, b] = path @ [i]")
      case True
      then have "node s d' [a, b] = Some c" using c by metis
      moreover have "node s' d' [a, b] = None"
        using True N [OF d', of "[a, b]"] jk(2) by (simp del: node.simps)
      ultimately have "node s d' [a, b] = Some c" "node s' d' [a, b] = None" by blast+
      then show ?thesis using jk empty by (simp add: leaf_entry_def del: node.simps)
    next
      case False
      then have n: "node s' d' [a, b] = node s d' [a, b]"
        using N [OF d', of "[a, b]"] jk(2) by (auto simp del: node.simps)
      have "t3 \<noteq> t" if "node s d' [a, b] = Some t3" for t3
        using wf_inj [OF wf d' d jk(2) pt that] t len by force
      then show ?thesis
        using n jk rds by (auto simp: leaf_entry_def simp del: node.simps split: option.splits)
    qed
  qed
  have ref: "page_ref s' q = (if q = c then page_ref s q - 1 else page_ref s q)" for q
    by (simp add: s' page_decref_fields)
  have used: "page_used s' q \<longleftrightarrow> page_used s q \<and> (q = c \<longrightarrow> page_ref s' q > 0)" for q
    by (simp add: s' page_decref_fields)
  have map: "mappings s' D q = mappings s D q" for q
    using N pi by (auto simp: mappings_def split: if_splits)
  have mapc: "mappings s D c = {}"
    using wf_leaf_not_table [OF wf] tc by (auto simp: mappings_def)
  have wf': "wf_spaces s' D"
  proof (rule wf_spacesI)
    show "d1 = d2 \<and> is = js" if "d1 \<in> D" "d2 \<in> D" "table_path is" "table_path js"
      "node s' d1 is = Some q" "node s' d2 js = Some q" for d1 d2 "is" js q
      using that N [of d1 "is"] N [of d2 js] wf_inj [OF wf, of d1 d2 "is" js q] by (auto split: if_splits)
    show "\<not> is_table s' D q" if "d1 \<in> D" "leaf_path is" "node s' d1 is = Some q" for d1 "is" q
      using that N [of d1 "is"] wf_leaf_not_table [OF wf, of d1 "is" q] tab by (auto split: if_splits)
    show "page_ref s' q > 0" if "is_table s' D q" for q
      using that tab wf_table_ref [OF wf] by (simp add: ref)
    show "page_used s' q" if "page_ref s' q > 0" for q
      using that wf_ref_used [OF wf, of q] c0 used [of q] by (cases "q = c") (auto simp: ref)
    show "card (mappings s' D q) \<le> unat (page_ref s' q)" for q
      using wf_card [OF wf, of q] mapc by (cases "q = c") (simp_all add: map ref)
    show "pa2page e = pte_page e" if "d1 \<in> D" "leaf_path is" "leaf_entry s' d1 is = Some e" for d1 "is" e
      using that wf_entry [OF wf] by (simp add: ent)
  qed (rule wf_finite [OF wf])
  have "i \<noteq> self_index" if "t = d"
  proof -
    have "path = []" using wf_inj [OF wf d d pt vpath_table(3)] t that by force
    then show ?thesis using tp by (simp add: table_path_def)
  qed
  then have self: "ram s' d self_index = ram s d self_index" using rds [of "(d, self_index)"] by (auto simp: rd_def)
  have ram: "ram s' q = ram s q" if "q \<noteq> t" for q
    using that by (simp add: s' page_decref_fields wr_def)
  show "releases D d s s'"
  proof (rule releases_step [OF wf wf', where p = "path @ [i]" and c = c])
    show "path @ [i] \<in> uses s d c" using c tp by (simp add: uses_def)
    show "uses s' d q = uses s d q - {path @ [i]}" for q
      using N [OF d] by (auto simp: uses_def split: if_splits)
    have "is_table s D t" using t pt d unfolding is_table_def by blast
    then show "\<not> is_table s D q \<Longrightarrow> \<not> is_table s' D q \<and> ram s' q = ram s q" for q
      using tab [of q] ram [of q] by (cases "q = t") simp_all
  qed (use c0 ref used ent self in \<open>auto simp: s' page_decref_fields\<close>)
  show "node s' d js = (if js = path @ [i] then None else node s d js)"
    if "table_path js \<or> leaf_path js" for js
    using N [OF d that] by simp
  show "ram s' q = ram s q" if "q \<noteq> t" for q by (rule ram [OF that])
qed


section \<open>The loops\<close>

lemma fold_upt_inv:
  assumes "P 0 s" and "\<And>k s. k < n \<Longrightarrow> P k s \<Longrightarrow> P (Suc k) (f k s)"
  shows "P n (fold f [0..<n] s)"
  using assms(2)
proof (induction n)
  case 0
  then show ?case using assms(1) by simp
next
  case (Suc n)
  then have "P n (fold f [0..<n] s)" by simp
  then show ?case using Suc.prems by simp
qed

text \<open>The address that \<open>env_free\<close> computes from the three indices.\<close>

definition va_of :: "nat \<Rightarrow> nat \<Rightarrow> nat \<Rightarrow> u64" where
  "va_of i j k = push_bit 30 (of_nat i) OR push_bit 21 (of_nat j) OR push_bit 12 (of_nat k)"

lemma index_of_bits:
  assumes "x < 512" and "\<And>n. n < 9 \<Longrightarrow> bit (v :: u64) (m + n) \<longleftrightarrow> bit x n" and "m \<le> 30"
  shows "unat (drop_bit m v AND 0x1ff) = x"
proof -
  have m: "(0x1ff :: u64) = mask 9" by (simp add: mask_eq_exp_minus_1)
  have xt: "take_bit 9 x = x" using assms(1) by (simp add: take_bit_nat_eq_self)
  have "drop_bit m v AND 0x1ff = (of_nat x :: u64)"
  proof (rule bit_word_eqI)
    fix n assume "n < LENGTH(64)"
    have "bit x n \<Longrightarrow> n < 9" by (metis bit_take_bit_iff xt)
    then show "bit (drop_bit m v AND 0x1ff) n = bit (of_nat x :: u64) n"
      using assms(2) [of n] \<open>n < LENGTH(64)\<close>
      unfolding m by (auto simp: bit_simps)
  qed
  moreover have "unat (of_nat x :: u64) = x" using assms(1) by (intro of_nat_inverse [OF refl]) simp
  ultimately show ?thesis by simp
qed

lemma vpath_va_of:
  assumes "i < 512" and "j < 512" and "k < 512"
  shows "vpath (va_of i j k) = [i, j, k]"
proof -
  have small: "bit x n \<Longrightarrow> n < 9" if "x < 512" for x n :: nat
  proof -
    have "take_bit 9 x = x" using that by (simp add: take_bit_nat_eq_self)
    then show "bit x n \<Longrightarrow> n < 9" by (metis bit_take_bit_iff)
  qed
  have b: "bit (va_of i j k) n \<longleftrightarrow> n < 64 \<and> (30 \<le> n \<and> bit i (n - 30) \<or> 21 \<le> n \<and> bit j (n - 21) \<or>
      12 \<le> n \<and> bit k (n - 12))" for n
    by (auto simp: va_of_def bit_simps)
  have "GET_L1_INDEX (va_of i j k) = i" unfolding GET_L1_INDEX_def
    by (rule index_of_bits [OF assms(1)]) (auto simp: b dest!: small [OF assms(2)] small [OF assms(3)])
  moreover have "GET_L2_INDEX (va_of i j k) = j" unfolding GET_L2_INDEX_def
    by (rule index_of_bits [OF assms(2)]) (auto simp: b dest!: small [OF assms(3)])
  moreover have "GET_L3_INDEX (va_of i j k) = k" unfolding GET_L3_INDEX_def
    by (rule index_of_bits [OF assms(3)]) (auto simp: b)
  ultimately show ?thesis by (simp add: vpath_def)
qed


lemma leaf_entry_None_iff:
  "node s d [i, j] = Some t \<Longrightarrow> leaf_entry s d [i, j, k] = None \<longleftrightarrow> rd (t, k) s AND VALID = 0"
  by (simp add: leaf_entry_def Let_def del: node.simps)

lemma node_child_None_iff:
  "node s d [i] = Some t \<Longrightarrow> node s d [i, j] = None \<longleftrightarrow> rd (t, j) s AND VALID = 0"
  using node_append [of s d "[i]" "[j]"] by (simp split: if_splits)

lemma free_pages_releases:
  assumes wf: "wf_spaces s D" and d: "d \<in> D" and tp: "table_path [i, j]"
    and t: "node s d [i, j] = Some t"
  shows "releases D d s (free_pages d i j t s) \<and>
    (\<forall>js. table_path js \<longrightarrow> node (free_pages d i j t s) d js = node s d js) \<and>
    (\<forall>k < 512. rd (t, k) (free_pages d i j t s) AND VALID = 0)"
proof -
  define Inv where "Inv n s1 \<longleftrightarrow> releases D d s s1 \<and> (\<forall>js. table_path js \<longrightarrow> node s1 d js = node s d js) \<and>
    (\<forall>k < n. rd (t, k) s1 AND VALID = 0)" for n s1
  have "Inv 512 (free_pages d i j t s)"
  unfolding free_pages_def
  proof (rule fold_upt_inv [where P = Inv])
  show "Inv 0 s" using wf by (simp add: Inv_def releases_refl)
  next
  fix k s1
  assume a: "k < 512" "Inv k s1"
  from a have rel: "releases D d s s1" and tab: "\<And>js. table_path js \<Longrightarrow> node s1 d js = node s d js"
    and inv: "\<And>k'. k' < k \<Longrightarrow> rd (t, k') s1 AND VALID = 0" by (auto simp: Inv_def)
  have ij: "i < 512" "j < 512" "i \<noteq> self_index" using tp by (auto simp: table_path_def)
  have vp: "vpath (va_of i j k) = [i, j, k]" using ij a by (intro vpath_va_of) auto
  then have va: "user_va (va_of i j k)" using ij by (simp add: user_va_def vpath_def)
  note R = page_remove_wf [OF releases_wf [OF rel] d va]
  let ?s2 = "page_remove d (va_of i j k) s1"
  have t1: "node s1 d [i, j] = Some t" using tab tp t by (simp del: node.simps)
  then have t2: "node ?s2 d [i, j] = Some t" using R(4) [OF tp] by (simp del: node.simps)
  have "rd (t, k') ?s2 AND VALID = 0" if "k' < Suc k" for k'
  proof -
    have "leaf_path [i, j, k']" using ij that a(1) by (simp add: leaf_path_def)
    from R(3) [OF d this] have "leaf_entry ?s2 d [i, j, k'] = None"
      using that inv [of k'] vp leaf_entry_None_iff [OF t1, of k'] by (cases "k' = k") auto
    then show ?thesis using leaf_entry_None_iff [OF t2] by blast
  qed
  moreover have "releases D d s ?s2"
    by (rule releases_trans [OF rel page_remove_releases [OF releases_wf [OF rel] d va]])
  moreover have "node ?s2 d js = node s d js" if "table_path js" for js
    using R(4) tab that by simp
  moreover have "rd (t, k) s1 AND VALID = 0 \<Longrightarrow> k' < Suc k \<Longrightarrow> rd (t, k') s1 AND VALID = 0" for k'
    using inv by (cases "k' = k") auto
  ultimately have "Inv (Suc k) (if rd (t, k) s1 AND VALID \<noteq> 0 then ?s2 else s1)"
    using rel tab by (simp add: Inv_def)
  then show "Inv (Suc k) (if rd (t, k) s1 AND VALID \<noteq> 0
      then page_remove d (push_bit 30 (of_nat i) OR push_bit 21 (of_nat j) OR push_bit 12 (of_nat k)) s1
      else s1)" unfolding va_of_def .
  qed
  then show ?thesis by (simp add: Inv_def)
qed

lemma free_tables_releases:
  assumes wf: "wf_spaces s D" and d: "d \<in> D" and tp: "table_path [i]" and t: "node s d [i] = Some t"
  shows "releases D d s (free_tables d i t s) \<and>
    (\<forall>js. table_path js \<longrightarrow> length js = 1 \<longrightarrow> node (free_tables d i t s) d js = node s d js) \<and>
    (\<forall>j < 512. node (free_tables d i t s) d [i, j] = None)"
proof -
  define Inv where "Inv n s1 \<longleftrightarrow> releases D d s s1 \<and>
    (\<forall>js. table_path js \<longrightarrow> length js = 1 \<longrightarrow> node s1 d js = node s d js) \<and>
    (\<forall>j < n. node s1 d [i, j] = None)" for n s1
  have "Inv 512 (free_tables d i t s)"
  unfolding free_tables_def
  proof (rule fold_upt_inv [where P = Inv])
  show "Inv 0 s" using wf by (simp add: Inv_def releases_refl)
  next
  fix j s1
  assume a: "j < 512" "Inv j s1"
  from a have rel: "releases D d s s1"
    and tab: "\<And>js. table_path js \<Longrightarrow> length js = 1 \<Longrightarrow> node s1 d js = node s d js"
    and inv: "\<And>j'. j' < j \<Longrightarrow> node s1 d [i, j'] = None" and j: "j < 512" by (auto simp: Inv_def simp del: node.simps)
  have t1: "node s1 d [i] = Some t" using tab tp t by (simp del: node.simps)
  have tpj: "table_path [i, j']" if "j' < 512" for j' using tp that by (auto simp: table_path_def)
  show "Inv (Suc j) (if rd (t, j) s1 AND VALID = 0 then s1
     else (let pa2 = PTE_ADDR (rd (t, j) s1);
             s1 = free_pages d i j (pte_page (rd (t, j) s1)) s1;
             s2 = wr (t, j) 0 s1
         in page_decref (pa2page pa2) s2))"
  proof (cases "rd (t, j) s1 AND VALID = 0")
    case True
    then have "node s1 d [i, j'] = None" if "j' < Suc j" for j'
      using that inv node_child_None_iff [OF t1, of j] by (cases "j' = j") auto
    then show ?thesis using rel tab True by (simp add: Inv_def del: node.simps)
  next
    case False
    define c where "c = pte_page (rd (t, j) s1)"
    have c1: "node s1 d [i, j] = Some c"
      using node_append [of s1 d "[i]" "[j]"] t1 False by (simp add: c_def)
    let ?s2 = "free_pages d i j c s1"
    let ?s3 = "page_decref c (wr (t, j) 0 ?s2)"
    note P = free_pages_releases [OF releases_wf [OF rel] d tpj [OF j] c1]
    have t2: "node ?s2 d [i] = Some t" using P tp t1 by (simp del: node.simps)
    have c2: "node ?s2 d ([i] @ [j]) = Some c" using P tpj [OF j] c1 by (simp del: node.simps)
    have wf2: "wf_spaces ?s2 D" using P releases_wf by blast
    have tpa: "table_path ([i] @ [j])" using tpj [OF j] by simp
    have e2: "\<forall>k < 512. rd (c, k) ?s2 AND VALID = 0" using P by blast
    note R = remove_table_releases [OF wf2 d tpa t2 c2 e2 refl]
    have "releases D d s ?s3"
      using releases_trans [OF releases_trans [OF rel] R(1)] P by blast
    moreover have "node ?s3 d js = node s d js" if "table_path js" "length js = 1" for js
      using that R(2) [of js] P tab by auto
    moreover have "node ?s3 d [i, j'] = None" if "j' < Suc j" for j'
      using that R(2) [of "[i, j']"] tpj [of j'] P inv [of j'] j
      by (cases "j' = j") (simp_all del: node.simps)
    ultimately show ?thesis
      using False by (simp add: Inv_def Let_def pa2page_PTE_ADDR c_def [symmetric] del: node.simps)
  qed
  qed
  then show ?thesis by (simp add: Inv_def)
qed

lemma free_dir_releases:
  assumes wf: "wf_spaces s D" and d: "d \<in> D" and self: "rd (d, self_index) s AND VALID = 0"
  shows "releases D d s (free_dir d s) \<and>
    (\<forall>i < 512. i \<noteq> self_index \<longrightarrow> node (free_dir d s) d [i] = None)"
proof -
  define Inv where "Inv n s1 \<longleftrightarrow> releases D d s s1 \<and>
    (\<forall>i < n. i \<noteq> self_index \<longrightarrow> node s1 d [i] = None)" for n s1
  have "Inv 512 (free_dir d s)"
  unfolding free_dir_def
  proof (rule fold_upt_inv [where P = Inv])
  show "Inv 0 s" using wf by (simp add: Inv_def releases_refl)
  next
  fix i s1
  assume a: "i < 512" "Inv i s1"
  from a have rel: "releases D d s s1" and i: "i < 512"
    and inv: "\<And>i'. i' < i \<Longrightarrow> i' \<noteq> self_index \<Longrightarrow> node s1 d [i'] = None"
    by (auto simp: Inv_def simp del: node.simps)
  show "Inv (Suc i) (if rd (d, i) s1 AND VALID = 0 then s1
     else (let pa1 = PTE_ADDR (rd (d, i) s1);
             s1 = free_tables d i (pte_page (rd (d, i) s1)) s1;
             s2 = wr (d, i) 0 s1
         in page_decref (pa2page pa1) s2))"
  proof (cases "rd (d, i) s1 AND VALID = 0")
    case True
    then have "node s1 d [i'] = None" if "i' < Suc i" "i' \<noteq> self_index" for i'
      using that inv by (cases "i' = i") auto
    then show ?thesis using rel True by (simp add: Inv_def del: node.simps)
  next
    case False
    have ns: "i \<noteq> self_index" using False self rel by (auto simp: releases_def rd_def)
    define c where "c = pte_page (rd (d, i) s1)"
    have tp: "table_path [i]" using i ns by (simp add: table_path_def)
    have c1: "node s1 d [i] = Some c" using False by (simp add: c_def)
    let ?s2 = "free_tables d i c s1"
    let ?s3 = "page_decref c (wr (d, i) 0 ?s2)"
    note P = free_tables_releases [OF releases_wf [OF rel] d tp c1]
    have c2: "node ?s2 d ([] @ [i]) = Some c" using P tp c1 by (simp del: node.simps(2))
    have e2: "\<forall>k < 512. rd (c, k) ?s2 AND VALID = 0"
      using P node_child_None_iff [of ?s2 d i c] c2 by (simp del: node.simps(2))
    have wf2: "wf_spaces ?s2 D" using P releases_wf by blast
    have d2: "node ?s2 d [] = Some d" by simp
    have tpa: "table_path ([] @ [i])" using tp by simp
    note R = remove_table_releases [OF wf2 d tpa d2 c2 e2 refl]
    have "releases D d s ?s3"
      using releases_trans [OF releases_trans [OF rel] R(1)] P by blast
    moreover have "node ?s3 d [i'] = None" if "i' < Suc i" "i' \<noteq> self_index" for i'
    proof -
      have "table_path [i']" using that i by (simp add: table_path_def)
      then show ?thesis
        using that R(2) [of "[i']"] P inv [of i'] by (cases "i' = i") (simp_all del: node.simps)
    qed
    ultimately show ?thesis
      using False by (simp add: Inv_def Let_def pa2page_PTE_ADDR c_def [symmetric] del: node.simps)
  qed
  qed
  then show ?thesis by (simp add: Inv_def)
qed


section \<open>The directory itself\<close>

text \<open>The self map is not part of the tree.\<close>

lemma self_write_node:
  assumes wf: "wf_spaces s D" and d: "d \<in> D" and d': "d' \<in> D" and js: "table_path js \<or> leaf_path js"
  shows "node (wr (d, self_index) v s) d' js = node s d' js"
proof (rule node_cong)
  fix as a bs t assume p: "js = as @ a # bs" and t: "node s d' as = Some t"
  have "(t, a) \<noteq> (d, self_index)"
  proof
    assume "(t, a) = (d, self_index)"
    then have "as = []" "a = self_index"
      using wf_inj [OF wf d' d _ vpath_table(3) t, of] table_path_lengths(2) [OF js p] t by force+
    then show False using js p by (auto simp: table_path_def leaf_path_def)
  qed
  then show "rd (t, a) (wr (d, self_index) v s) = rd (t, a) s" by auto
qed

lemma self_write_same:
  assumes wf: "wf_spaces s D" and d: "d \<in> D" and s'_def: "s' = wr (d, self_index) v s"
  shows "wf_spaces s' D" "is_table s' D q = is_table s D q" "uses s' d q = uses s d q"
    "d' \<in> D \<Longrightarrow> leaf_path js \<Longrightarrow> leaf_entry s' d' js = leaf_entry s d' js"
proof -
  have N: "node s' d' js = node s d' js" if "d' \<in> D" "table_path js \<or> leaf_path js" for d' js
    unfolding s'_def by (rule self_write_node [OF wf d that])
  have tab: "is_table s' D q = is_table s D q" for q
    unfolding is_table_def using N by (metis (no_types, lifting))
  have map: "mappings s' D q = mappings s D q" for q
    using N by (auto simp: mappings_def)
  have ent: "leaf_entry s' d' js = leaf_entry s d' js" if d': "d' \<in> D" and js: "leaf_path js" for d' js
  proof -
    obtain a b k where jk: "js = [a, b, k]" "table_path [a, b]"
      using leaf_path_cases [OF js] by blast
    have "t3 \<noteq> d" if "node s d' [a, b] = Some t3" for t3
      using wf_inj [OF wf d' d jk(2) vpath_table(3) that] by force
    then have "rd (t3, k) s' = rd (t3, k) s" if "node s d' [a, b] = Some t3" for t3
      using that by (simp add: s'_def)
    then show ?thesis
      using N [OF d', of "[a, b]"] jk
      by (auto simp: leaf_entry_def simp del: node.simps split: option.splits)
  qed
  show "wf_spaces s' D"
  proof (rule wf_spacesI)
    show "d1 = d2 \<and> is = js" if "d1 \<in> D" "d2 \<in> D" "table_path is" "table_path js"
      "node s' d1 is = Some q" "node s' d2 js = Some q" for d1 d2 "is" js q
      using that N [of d1 "is"] N [of d2 js] wf_inj [OF wf, of d1 d2 "is" js q] by simp
    show "\<not> is_table s' D q" if "d1 \<in> D" "leaf_path is" "node s' d1 is = Some q" for d1 "is" q
      using that N [of d1 "is"] wf_leaf_not_table [OF wf, of d1 "is" q] tab by simp
    show "pa2page e = pte_page e" if "d1 \<in> D" "leaf_path is" "leaf_entry s' d1 is = Some e" for d1 "is" e
      using that wf_entry [OF wf] by (simp add: ent)
  qed (use wf_finite [OF wf] wf_table_ref [OF wf] wf_ref_used [OF wf] wf_card [OF wf] tab map
      in \<open>auto simp: s'_def\<close>)
  show "is_table s' D q = is_table s D q" by (rule tab)
  show "uses s' d q = uses s d q" using N [OF d] by (auto simp: uses_def)
  show "d' \<in> D \<Longrightarrow> leaf_path js \<Longrightarrow> leaf_entry s' d' js = leaf_entry s d' js" by (rule ent)
qed

text \<open>What the address space looked like is gone; the rest of memory keeps its meaning.\<close>

definition space_freed :: "nat set \<Rightarrow> nat \<Rightarrow> 'a pmem_scheme \<Rightarrow> 'b pmem_scheme \<Rightarrow> bool" where
  "space_freed D d s s' \<longleftrightarrow>
     wf_spaces s' (D - {d}) \<and> page_pa s' = page_pa s \<and>
     (\<forall>q. page_ref s' q = page_ref s q - of_nat (card (uses s d q))) \<and>
     (\<forall>q. page_used s' q \<longleftrightarrow> page_used s q \<and> (uses s d q = {} \<or> page_ref s' q > 0)) \<and>
     (\<forall>d' \<in> D - {d}. \<forall>js. leaf_path js \<longrightarrow> leaf_entry s' d' js = leaf_entry s d' js) \<and>
     (\<forall>q. \<not> is_table s D q \<longrightarrow> ram s' q = ram s q)"

lemma wf_spaces_subset:
  assumes wf: "wf_spaces s D" and sub: "D' \<subseteq> D"
  shows "wf_spaces s D'"
proof -
  have tab: "is_table s D' q \<Longrightarrow> is_table s D q" for q using sub unfolding is_table_def by blast
  have "mappings s D' q \<subseteq> mappings s D q" for q using sub by (auto simp: mappings_def)
  then have card: "card (mappings s D' q) \<le> card (mappings s D q)" for q
    using finite_mappings [OF wf_finite [OF wf]] by (intro card_mono)
  show ?thesis
  proof (rule wf_spacesI)
    show "finite D'" using finite_subset [OF sub wf_finite [OF wf]] .
    show "d1 = d2 \<and> is = js" if "d1 \<in> D'" "d2 \<in> D'" "table_path is" "table_path js"
      "node s d1 is = Some q" "node s d2 js = Some q" for d1 d2 "is" js q
      using that wf_inj [OF wf, of d1 d2 "is" js q] sub by blast
    show "\<not> is_table s D' q" if "d1 \<in> D'" "leaf_path is" "node s d1 is = Some q" for d1 "is" q
      using that wf_leaf_not_table [OF wf, of d1 "is" q] tab sub by blast
    show "page_ref s q > 0" if "is_table s D' q" for q using that tab wf_table_ref [OF wf] by blast
    show "card (mappings s D' q) \<le> unat (page_ref s q)" for q
      using card [of q] wf_card [OF wf, of q] by linarith
    show "pa2page e = pte_page e" if "d1 \<in> D'" "leaf_path is" "leaf_entry s d1 is = Some e" for d1 "is" e
      using that wf_entry [OF wf] sub by blast
  qed (rule wf_ref_used [OF wf])
qed

lemma free_space:
  assumes wf: "wf_spaces s D" and d: "d \<in> D"
  shows "space_freed D d s (page_decref d (free_dir d (wr (d, self_index) 0 s)))"
proof -
  let ?s0 = "wr (d, self_index) 0 s"
  let ?s1 = "free_dir d ?s0"
  let ?s2 = "page_decref d ?s1"
  note S = self_write_same [OF wf d, of ?s0 0, OF refl]
  have P: "releases D d ?s0 ?s1" "\<And>i. i < 512 \<Longrightarrow> i \<noteq> self_index \<Longrightarrow> node ?s1 d [i] = None"
    using free_dir_releases [OF S(1) d] by auto
  note wf1 = releases_wf [OF P(1)]
  have none: "node ?s1 d js = None" if path: "table_path js \<or> leaf_path js" and ne: "js \<noteq> []" for js
  proof -
    obtain i ks where js: "js = [i] @ ks" using ne by (cases js) auto
    have "i < 512" "i \<noteq> self_index" using path js by (auto simp: table_path_def leaf_path_def)
    then have "node ?s1 d [i] = None" by (rule P(2))
    then show ?thesis unfolding js by (subst node_append) simp
  qed
  have root: "table_path []" by (simp add: table_path_def)
  have uses1: "uses ?s1 d q = (if q = d then {[]} else {})" for q
  proof -
    have "js \<in> uses ?s1 d q \<longleftrightarrow> js = [] \<and> q = d" for js
      using none [of js] root by (cases "js = []") (auto simp: uses_def)
    then show ?thesis by auto
  qed
  have ram2: "ram ?s2 = ram ?s1" by (simp add: page_decref_fields)
  have N2: "node ?s2 d' js = node ?s1 d' js" for d' js
    by (rule node_cong) (simp add: rd_def ram2)
  have L2: "leaf_entry ?s2 d' js = leaf_entry ?s1 d' js" for d' js
    by (simp add: leaf_entry_def N2 rd_def ram2 split: option.split)
  have ref2: "page_ref ?s2 q = page_ref ?s1 q - of_nat (card (uses ?s1 d q))" for q
    by (simp add: page_decref_fields uses1)
  have bal: "page_ref ?s2 q = page_ref s q - of_nat (card (uses s d q))" for q
    using P(1) S(3) by (simp add: ref2 releases_def)
  have d0: "page_ref ?s1 d > 0" by (rule wf_table_ref [OF wf1 node_self [OF d]])
  have du: "uses s d d \<noteq> {}" using root by (auto simp: uses_def intro!: exI [of _ "[]"])
  have u1: "page_used ?s1 q \<longleftrightarrow> page_used s q \<and> (uses ?s1 d q = uses s d q \<or> page_ref ?s1 q > 0)" for q
    using P(1) S(3) by (simp add: releases_def)
  have used: "page_used ?s2 q \<longleftrightarrow> page_used s q \<and> (uses s d q = {} \<or> page_ref ?s2 q > 0)" for q
    using u1 [of q] du d0 by (auto simp: page_decref_fields uses1)
  have "wf_spaces ?s2 (D - {d})"
  proof -
    have sub: "wf_spaces ?s1 (D - {d})" by (rule wf_spaces_subset [OF wf1]) auto
    have nd: "\<not> is_table ?s1 (D - {d}) d"
    proof
      assume "is_table ?s1 (D - {d}) d"
      then obtain d' js where "d' \<in> D - {d}" "table_path js" "node ?s1 d' js = Some d"
        unfolding is_table_def by blast
      moreover have "node ?s1 d [] = Some d" by simp
      ultimately show False using wf_inj [OF wf1, of d' d js "[]" d] root d by auto
    qed
    have mapd: "mappings ?s1 (D - {d}) d = {}"
      using wf_leaf_not_table [OF wf1] node_self [OF d] by (auto simp: mappings_def)
    have tab: "is_table ?s2 (D - {d}) q = is_table ?s1 (D - {d}) q" for q
      by (simp add: is_table_def N2)
    have map: "mappings ?s2 (D - {d}) q = mappings ?s1 (D - {d}) q" for q
      by (simp add: mappings_def N2)
    have refd: "page_ref ?s2 q = (if q = d then page_ref ?s1 q - 1 else page_ref ?s1 q)" for q
      by (simp add: page_decref_fields)
    show ?thesis
    proof (rule wf_spacesI)
      show "d1 = d2 \<and> is = js" if "d1 \<in> D - {d}" "d2 \<in> D - {d}" "table_path is" "table_path js"
        "node ?s2 d1 is = Some q" "node ?s2 d2 js = Some q" for d1 d2 "is" js q
        using that wf_inj [OF sub, of d1 d2 "is" js q] by (simp add: N2)
      show "\<not> is_table ?s2 (D - {d}) q" if "d1 \<in> D - {d}" "leaf_path is" "node ?s2 d1 is = Some q" for d1 "is" q
        using that wf_leaf_not_table [OF sub, of d1 "is" q] by (simp add: tab N2)
      show "page_ref ?s2 q > 0" if "is_table ?s2 (D - {d}) q" for q
        using that wf_table_ref [OF sub, of q] nd by (auto simp: tab refd)
      show "page_used ?s2 q" if "page_ref ?s2 q > 0" for q
        using that wf_ref_used [OF sub, of q] d0 by (cases "q = d") (auto simp: refd page_decref_fields wf_ref_used [OF wf1])
      show "card (mappings ?s2 (D - {d}) q) \<le> unat (page_ref ?s2 q)" for q
        using wf_card [OF sub, of q] mapd by (cases "q = d") (auto simp: map refd)
      show "pa2page e = pte_page e" if "d1 \<in> D - {d}" "leaf_path is" "leaf_entry ?s2 d1 is = Some e" for d1 "is" e
        using that wf_entry [OF sub] by (simp add: L2)
    qed (use wf_finite [OF wf] in simp)
  qed
  moreover have "leaf_entry ?s2 d' js = leaf_entry s d' js" if "d' \<in> D - {d}" "leaf_path js" for d' js
    using that P(1) S(4) by (simp add: L2 releases_def)
  moreover have "ram ?s2 q = ram s q" if "\<not> is_table s D q" for q
  proof -
    have "q \<noteq> d" using that node_self [OF d] by auto
    then have "ram ?s0 q = ram s q" by (simp add: wr_def)
    then show ?thesis using that P(1) S(2) by (simp add: ram2 releases_def)
  qed
  ultimately show ?thesis
    using bal used P(1) by (simp add: space_freed_def page_decref_fields releases_def)
qed

end
