(* ===== verification/Frames.thy ===== *)
theory Frames
  imports Env
begin

text \<open>
  Physical memory inside the kernel state. The operations of pmap.c and the loader change nothing
  but physical memory (\<open>pmem.more\<close> is the rest of the state), and what the page tables mean depends
  on physical memory alone.
\<close>

section \<open>The rest of the state\<close>

lemma more_basic [simp, field_simps_os]:
  "pmem.more (wr l v s) = pmem.more s" "pmem.more (set_ref p r s) = pmem.more s"
  "pmem.more (page_free p s) = pmem.more s" "pmem.more (page_decref p s) = pmem.more s"
  "pmem.more (set_pbyte a b s) = pmem.more s"
  by (simp_all add: wr_def set_ref_def page_free_def page_decref_def set_pbyte_def Let_def)

lemma more_page_alloc [simp, field_simps_os]: "pmem.more (snd (page_alloc s)) = pmem.more s"
  by (simp add: page_alloc_def Let_def split: option.split prod.split)

lemma more_page_allocD: "page_alloc s = (r, s') \<Longrightarrow> pmem.more s' = pmem.more s"
  using more_page_alloc [of s] by simp

lemma more_walk_level: "walk_level a va c s = (r, s') \<Longrightarrow> pmem.more s' = pmem.more s"
  by (auto simp: walk_level_def Let_def dest!: more_page_allocD split: if_splits prod.splits option.splits)

lemma more_pgdir_walk: "pgdir_walk d va c s = (r, s') \<Longrightarrow> pmem.more s' = pmem.more s"
  by (auto simp: pgdir_walk_def dest!: more_walk_level split: prod.splits sum.splits)

lemma more_page_remove [simp, field_simps_os]: "pmem.more (page_remove d va s) = pmem.more s"
  by (simp add: page_remove_def Let_def split: option.split prod.split)

lemma more_page_insert: "page_insert d p va perm s = (r, s') \<Longrightarrow> pmem.more s' = pmem.more s"
  by (auto simp: page_insert_def Let_def dest!: more_pgdir_walk
      split: walk.splits prod.splits if_splits)

lemma more_snd_page_insert [simp, field_simps_os]: "pmem.more (snd (page_insert d p va perm s)) = pmem.more s"
  using more_page_insert [of d p va perm s] by (cases "page_insert d p va perm s") simp

lemma more_copies [simp, field_simps_os]:
  "pmem.more (kbcopy src dst len s) = pmem.more s" "pmem.more (kbzero a len s) = pmem.more s"
  by (rule bcopy_frame bzero_frame; simp)+

lemma fold_frame: "(\<And>x s. f (g x s) = f s) \<Longrightarrow> f (fold g xs s) = f s"
  by (induction xs arbitrary: s) auto

lemma more_free_dir [simp, field_simps_os]: "pmem.more (free_dir d s) = pmem.more s"
proof -
  have p: "pmem.more (free_pages d i j t s) = pmem.more s" for i j t and s :: "'a pmem_scheme"
    unfolding free_pages_def by (rule fold_frame) simp
  have t: "pmem.more (free_tables d i t s) = pmem.more s" for i t and s :: "'a pmem_scheme"
    unfolding free_tables_def by (rule fold_frame) (simp add: Let_def p)
  show ?thesis unfolding free_dir_def by (rule fold_frame) (simp add: Let_def t)
qed

text \<open>The kernel state has the same fields when the rest is the same.\<close>

lemma kstate_more:
  assumes "pmem.more s = pmem.more (s' :: kstate)"
  shows "envs s = envs s'" "curenv s = curenv s'" "free_link s = free_link s'"
    "sched_link s = sched_link s'" "next_env_id s = next_env_id s'" "count s = count s'"
    "point s = point s'" "tf_cpu s = tf_cpu s'" "User_pgdir s = User_pgdir s'"
  using assms by (cases s; cases s'; simp)+

lemmas kstate_frames [simp, field_simps_os] =
  kstate_more [OF more_basic(1)] kstate_more [OF more_basic(2)] kstate_more [OF more_basic(3)]
  kstate_more [OF more_basic(4)] kstate_more [OF more_basic(5)] kstate_more [OF more_page_alloc]
  kstate_more [OF more_page_remove] kstate_more [OF more_snd_page_insert]
  kstate_more [OF more_copies(1)] kstate_more [OF more_copies(2)] kstate_more [OF more_free_dir]

section \<open>Meaning of physical memory\<close>

definition same_mem :: "'a pmem_scheme \<Rightarrow> 'b pmem_scheme \<Rightarrow> bool" where
  "same_mem s s' \<longleftrightarrow> Kern_vis s' = Kern_vis s \<and> page_pa s' = page_pa s \<and>
     page_ref s' = page_ref s \<and> ram s' = ram s"

lemma same_mem_node: "same_mem s s' \<Longrightarrow> node s' d is = node s d is"
  by (induction "is" arbitrary: d) (simp_all add: same_mem_def rd_def)

lemma same_mem_simps:
  assumes "same_mem s s'"
  shows "page_used s' q = page_used s q" "page_ref s' = page_ref s" "page_pa s' = page_pa s"
    "ram s' = ram s" "is_table s' D q = is_table s D q" "mappings s' D q = mappings s D q"
    "leaf_entry s' d js = leaf_entry s d js" "vmap s' d va = vmap s d va"
    "wf_spaces s' D = wf_spaces s D" "pa_ok s' = pa_ok s"
proof -
  note N = same_mem_node [OF assms]
  show f: "page_used s' q = page_used s q" "page_ref s' = page_ref s" "page_pa s' = page_pa s"
    "ram s' = ram s" for q
    using assms by (simp_all add: same_mem_def page_used_def)
  show t: "is_table s' D q = is_table s D q" and m: "mappings s' D q = mappings s D q" for q
    by (simp_all add: is_table_def mappings_def N)
  show l: "leaf_entry s' d js = leaf_entry s d js" for d js
    by (simp add: leaf_entry_def N rd_def f split: option.split)
  show "vmap s' d va = vmap s d va" by (simp add: vmap_def l)
  show "wf_spaces s' D = wf_spaces s D" by (simp add: wf_spaces_def N t m l f)
  show "pa_ok s' = pa_ok s" by (simp add: pa_ok_def f)
qed

lemma same_mem_refl: "same_mem s s"
  by (simp add: same_mem_def)

lemma same_mem_kstate [simp]:
  "same_mem s (set_env e v t) = same_mem s t" "same_mem s (t\<lparr>envs := x1\<rparr>) = same_mem s t"
  "same_mem s (t\<lparr>curenv := x2\<rparr>) = same_mem s t" "same_mem s (t\<lparr>free_link := x3\<rparr>) = same_mem s t"
  "same_mem s (t\<lparr>sched_link := x4\<rparr>) = same_mem s t" "same_mem s (t\<lparr>next_env_id := x5\<rparr>) = same_mem s t"
  "same_mem s (t\<lparr>tf_cpu := x6\<rparr>) = same_mem s t"
  by (simp_all add: same_mem_def set_env_def)

lemma set_env_fields [simp, field_simps_os]:
  "envs (set_env e v s) = (envs s)(e := v)" "curenv (set_env e v s) = curenv s"
  "free_link (set_env e v s) = free_link s" "sched_link (set_env e v s) = sched_link s"
  "point (set_env e v s) = point s" "count (set_env e v s) = count s"
  "next_env_id (set_env e v s) = next_env_id s" "tf_cpu (set_env e v s) = tf_cpu s"
  "ram (set_env e v s) = ram s" "page_ref (set_env e v s) = page_ref s"
  "page_pa (set_env e v s) = page_pa s" "Kern_vis (set_env e v s) = Kern_vis s"
  "User_pgdir (set_env e v s) = User_pgdir s"
  by (simp_all add: set_env_def)

end
