(* ===== verification/Sched.thy ===== *)
theory Sched
  imports Env Memory
begin

text \<open>
  The scheduler (kernel/sched.c) and \<open>env_destroy\<close> of kernel/env.c, which yields. The two lists
  behind \<open>point\<close> and the flip between them implement one ring of environments: the model is
  related to a scheduler that rotates a single list.
\<close>

section \<open>The code\<close>

text \<open>
  The loop of \<open>sched_yield\<close>. It does not return when \<open>LIST_INSERT_TAIL\<close> does not, or when no
  environment it meets is runnable with a non-zero priority: then the result is \<open>None\<close>.
\<close>

definition sched_flip :: "kstate \<Rightarrow> kstate" where
  "sched_flip s = (if list_empty (point s) (sched_link s) then s\<lparr>point := 1 - point s\<rparr> else s)"

definition sched_enqueue :: "nat option \<Rightarrow> kstate \<Rightarrow> kstate option" where
  "sched_enqueue next s =
    (case next of
       None \<Rightarrow> Some s
     | Some e \<Rightarrow> map_option (\<lambda>l. s\<lparr>sched_link := l\<rparr>) (list_insert_tail (1 - point s) e (sched_link s)))"

partial_function (option) sched_loop :: "nat option \<Rightarrow> kstate \<Rightarrow> nat kres option" where
  "sched_loop next s =
    (if count s = 0 \<or> next = None \<or> status (envs s (the next)) \<noteq> ENV_RUNNABLE then
       (case sched_enqueue next s of
          None \<Rightarrow> None
        | Some s1 \<Rightarrow>
            (let s2 = sched_flip s1
             in case lh_first (sched_link s2) (point s2) of
                  None \<Rightarrow> Some (Panic ''No Env is RUNNABLE'' s2)
                | Some e \<Rightarrow>
                    (case list_remove e (sched_link s2) of
                       None \<Rightarrow> Some (null_deref s2)
                     | Some l \<Rightarrow>
                         sched_loop (Some e) (s2\<lparr>sched_link := l, count := pri (envs s2 e)\<rparr>))))
     else Some (Ret (the next) s))"

definition sched_yield :: "kstate \<Rightarrow> unit kres" where
  "sched_yield s =
    obind (of_opt (sched_loop (curenv s) s)) (\<lambda>e s1. env_run e (s1\<lparr>count := count s1 - 1\<rparr>))"

definition env_destroy :: "nat \<Rightarrow> kstate \<Rightarrow> unit kres" where
  "env_destroy e s =
    obind (env_free e s) (\<lambda>_ s1.
      if curenv s1 = Some e then sched_yield (s1\<lparr>curenv := None\<rparr>) else Ret () s1)"

section \<open>The ring\<close>

text \<open>
  \<open>ring s r\<close>: the environments that wait, in the order in which the scheduler takes them. The list
  at \<open>point\<close> comes first; environments are appended to the other one, or to the list at \<open>point\<close>
  itself while that is empty and about to be flipped.
\<close>

definition ring :: "kstate \<Rightarrow> nat list \<Rightarrow> bool" where
  "ring s r \<longleftrightarrow> point s \<le> 1 \<and> distinct r \<and>
     (\<exists>xs ys. r = xs @ ys \<and> repr (point s) xs (sched_link s) \<and> repr (1 - point s) ys (sched_link s))"

definition eligible :: "kstate \<Rightarrow> nat \<Rightarrow> bool" where
  "eligible s e \<longleftrightarrow> status (envs s e) = ENV_RUNNABLE \<and> pri (envs s e) \<noteq> 0"

text \<open>The state but for what the loop changes.\<close>

definition same_but_sched :: "kstate \<Rightarrow> kstate \<Rightarrow> bool" where
  "same_but_sched s s' \<longleftrightarrow> (\<exists>l c p. s' = s\<lparr>sched_link := l, count := c, point := p\<rparr>)"

lemma same_but_sched_refl: "same_but_sched s s"
  unfolding same_but_sched_def by (intro exI [of _ "sched_link s"] exI [of _ "count s"] exI [of _ "point s"]) simp

lemma same_but_sched_trans: "same_but_sched s t \<Longrightarrow> same_but_sched t u \<Longrightarrow> same_but_sched s u"
  unfolding same_but_sched_def
  by (intro exI [of _ "sched_link u"] exI [of _ "count u"] exI [of _ "point u"]) auto

lemma same_but_sched_fields:
  assumes "same_but_sched s s'"
  shows "envs s' = envs s" "curenv s' = curenv s" "eligible s' = eligible s"
  using assms by (auto simp: same_but_sched_def eligible_def fun_eq_iff)

text \<open>The steps of the loop, on the ring.\<close>

lemma ring_enqueue:
  assumes "ring s r" and "e \<notin> set r"
  shows "\<exists>s1. sched_enqueue (Some e) s = Some s1 \<and> ring s1 (r @ [e]) \<and> same_but_sched s s1"
proof -
  obtain xs ys where r: "r = xs @ ys" "point s \<le> 1" "distinct r"
    and x: "repr (point s) xs (sched_link s)" and y: "repr (1 - point s) ys (sched_link s)"
    using assms(1) unfolding ring_def by blast
  obtain l where l: "list_insert_tail (1 - point s) e (sched_link s) = Some l"
    "repr (1 - point s) (ys @ [e]) l" "repr (point s) xs l"
  proof -
    have "1 - point s \<noteq> point s" using r(2) by (cases "point s") auto
    moreover have "distinct (ys @ xs)" "e \<notin> set (ys @ xs)" using r assms(2) by auto
    ultimately show ?thesis using lq.push_tail [OF y x] that by blast
  qed
  have "same_but_sched s (s\<lparr>sched_link := l\<rparr>)"
    unfolding same_but_sched_def
    by (intro exI [of _ l] exI [of _ "count s"] exI [of _ "point s"]) simp
  then show ?thesis
    using l r assms(2) by (auto simp: sched_enqueue_def ring_def)
qed

lemma ring_take:
  assumes "ring s (e # r)"
  shows "\<exists>l. lh_first (sched_link (sched_flip s)) (point (sched_flip s)) = Some e \<and>
    list_remove e (sched_link (sched_flip s)) = Some l \<and>
    (\<forall>c. ring (sched_flip s\<lparr>sched_link := l, count := c\<rparr>) r \<and>
      same_but_sched s (sched_flip s\<lparr>sched_link := l, count := c\<rparr>))"
proof -
  obtain xs ys where r: "e # r = xs @ ys" "point s \<le> 1" "distinct (e # r)"
    and x: "repr (point s) xs (sched_link s)" and y: "repr (1 - point s) ys (sched_link s)"
    using assms unfolding ring_def by blast
  define k where "k = point (sched_flip s)"
  have sl: "sched_link (sched_flip s) = sched_link s" by (simp add: sched_flip_def)
  obtain xs' ys' where r': "r = xs' @ ys'" and k: "k \<le> 1"
    and hx: "repr k (e # xs') (sched_link s)" and hy: "repr (1 - k) ys' (sched_link s)"
  proof (cases xs)
    case Nil
    then have "k = 1 - point s" using repr_empty [OF x] by (simp add: k_def sched_flip_def)
    with Nil r x y show ?thesis by (intro that [of r "[]"]) auto
  next
    case (Cons a zs)
    then have "k = point s" using repr_empty [OF x] by (simp add: k_def sched_flip_def)
    with Cons r x y show ?thesis by (intro that [of zs ys]) auto
  qed
  have "k \<noteq> 1 - k" using k by (cases k) auto
  moreover have "distinct (e # xs' @ ys')" using r(3) r' by simp
  ultimately obtain l where l: "list_remove e (sched_link s) = Some l" "repr k xs' l" "repr (1 - k) ys' l"
    using lq.unlink_first [OF hx hy] by blast
  have "same_but_sched s (sched_flip s\<lparr>sched_link := l, count := c\<rparr>)" for c
    unfolding same_but_sched_def
    by (intro exI [of _ l] exI [of _ c] exI [of _ k]) (simp add: k_def sched_flip_def)
  moreover have "ring (sched_flip s\<lparr>sched_link := l, count := c\<rparr>) r" for c
    using l k r(3) r' by (auto simp: ring_def k_def [symmetric])
  ultimately show ?thesis
    using l(1) lq.first_Cons [OF hx] by (simp add: sl k_def)
qed

lemma ring_Nil: "ring s [] \<Longrightarrow> lh_first (sched_link (sched_flip s)) (point (sched_flip s)) = None"
  by (auto simp: ring_def repr_Nil sched_flip_def)

text \<open>The environments that wait once \<open>next\<close> has been queued again.\<close>

definition waiting :: "nat option \<Rightarrow> nat list \<Rightarrow> nat list" where
  "waiting next r = (case next of None \<Rightarrow> r | Some e \<Rightarrow> r @ [e])"

definition loops :: "nat option \<Rightarrow> kstate \<Rightarrow> bool" where
  "loops next s \<longleftrightarrow> count s = 0 \<or> next = None \<or> status (envs s (the next)) \<noteq> ENV_RUNNABLE"

lemma sched_loop_done: "\<not> loops next s \<Longrightarrow> sched_loop next s = Some (Ret (the next) s)"
  by (subst sched_loop.simps) (auto simp: loops_def)

lemma enqueue_waiting:
  assumes "ring s r" and "distinct (waiting next r)"
  shows "\<exists>s1. sched_enqueue next s = Some s1 \<and> ring s1 (waiting next r) \<and> same_but_sched s s1"
proof (cases "next")
  case None
  then show ?thesis using assms by (simp add: sched_enqueue_def waiting_def same_but_sched_refl)
next
  case (Some e)
  then show ?thesis using assms ring_enqueue [OF assms(1), of e] by (simp add: waiting_def)
qed

lemma sched_loop_step:
  assumes "ring s r" and "distinct (waiting next r)" and "loops next s"
  shows "case waiting next r of
      [] \<Rightarrow> \<exists>m s'. sched_loop next s = Some (Panic m s')
    | x # rest \<Rightarrow> \<exists>s'. sched_loop next s = sched_loop (Some x) s' \<and> ring s' rest \<and>
        same_but_sched s s' \<and> count s' = pri (envs s x)"
proof -
  obtain s1 where s1: "sched_enqueue next s = Some s1" and ring1: "ring s1 (waiting next r)"
    and same: "same_but_sched s s1"
    using enqueue_waiting [OF assms(1,2)] by blast
  show ?thesis
  proof (cases "waiting next r")
    case Nil
    then show ?thesis
      using s1 ring1 assms(3) ring_Nil [of s1]
      by (subst sched_loop.simps) (simp add: loops_def Let_def)
  next
    case (Cons x rest)
    obtain l where l: "lh_first (sched_link (sched_flip s1)) (point (sched_flip s1)) = Some x"
      "list_remove x (sched_link (sched_flip s1)) = Some l"
      "\<forall>c. ring (sched_flip s1\<lparr>sched_link := l, count := c\<rparr>) rest \<and>
        same_but_sched s1 (sched_flip s1\<lparr>sched_link := l, count := c\<rparr>)"
      using ring_take ring1 unfolding Cons by blast
    let ?s = "sched_flip s1\<lparr>sched_link := l, count := pri (envs s x)\<rparr>"
    have "envs (sched_flip s1) = envs s"
      using same_but_sched_fields(1) [OF same] by (simp add: sched_flip_def)
    then have "sched_loop next s = sched_loop (Some x) ?s"
      using s1 l(1,2) assms(3) by (subst sched_loop.simps) (simp add: loops_def Let_def)
    moreover have "ring ?s rest" "same_but_sched s ?s" "count ?s = pri (envs s x)"
      using l(3) same_but_sched_trans [OF same] by auto
    ultimately show ?thesis unfolding Cons by auto
  qed
qed

lemma loops_iff_not_eligible:
  "count s = pri (envs s x) \<Longrightarrow> loops (Some x) s \<longleftrightarrow> \<not> eligible s x"
  by (auto simp: loops_def eligible_def)

lemma sched_loop_picks:
  assumes "ring s r" and "waiting next r = as @ x # bs" and "distinct (waiting next r)"
    and "loops next s" and "eligible s x" and "\<forall>a \<in> set as. \<not> eligible s a"
  shows "\<exists>s'. sched_loop next s = Some (Ret x s') \<and> ring s' (bs @ as) \<and>
    same_but_sched s s' \<and> count s' = pri (envs s x)"
  using assms
proof (induction as arbitrary: s r "next" bs)
  case Nil
  obtain s1 where s1: "sched_loop next s = sched_loop (Some x) s1" "ring s1 bs" "same_but_sched s s1"
    "count s1 = pri (envs s x)"
    using sched_loop_step [OF Nil.prems(1,3,4)] Nil.prems(2) by auto
  then have "\<not> loops (Some x) s1"
    using Nil.prems(5) loops_iff_not_eligible [of s1 x] same_but_sched_fields [OF s1(3)] by simp
  then show ?case using s1 sched_loop_done by auto
next
  case (Cons a as)
  obtain s1 where s1: "sched_loop next s = sched_loop (Some a) s1" "ring s1 (as @ x # bs)"
    "same_but_sched s s1" "count s1 = pri (envs s a)"
    using sched_loop_step [OF Cons.prems(1,3,4)] Cons.prems(2) by auto
  note F = same_but_sched_fields [OF s1(3)]
  have lp: "loops (Some a) s1"
    using Cons.prems(6) loops_iff_not_eligible [of s1 a] s1(4) F by simp
  have w: "waiting (Some a) (as @ x # bs) = as @ x # (bs @ [a])" by (simp add: waiting_def)
  have "distinct (as @ x # (bs @ [a]))" using Cons.prems(2,3) by auto
  from Cons.IH [OF s1(2) w _ lp] this Cons.prems(5,6) F w
  obtain s' where "sched_loop (Some a) s1 = Some (Ret x s')" "ring s' ((bs @ [a]) @ as)"
    "same_but_sched s1 s'" "count s' = pri (envs s1 x)" by auto
  then show ?case using s1 F same_but_sched_trans [OF s1(3)] by auto
qed

text \<open>Without an eligible environment the loop goes round for ever.\<close>

lemma sched_loop_hangs:
  assumes "ring s r" and "distinct (waiting next r)" and "waiting next r \<noteq> []"
    and "loops next s" and "\<forall>a \<in> set (waiting next r). \<not> eligible s a"
  shows "sched_loop next s = None"
proof (rule ccontr)
  assume "sched_loop next s \<noteq> None"
  then obtain y where y: "sched_loop next s = Some y" by blast
  have "\<not> (ring s r \<and> distinct (waiting next r) \<and> waiting next r \<noteq> [] \<and> loops next s \<and>
    (\<forall>a \<in> set (waiting next r). \<not> eligible s a))" for r
    using y
  proof (induction "next" s y arbitrary: r rule: sched_loop.raw_induct [rotated 1, consumes 1])
    case (1 f n t y)
    show ?case
    proof
      assume A: "ring t r \<and> distinct (waiting n r) \<and> waiting n r \<noteq> [] \<and> loops n t \<and>
        (\<forall>a \<in> set (waiting n r). \<not> eligible t a)"
      obtain x rest where w: "waiting n r = x # rest" using A by (cases "waiting n r") auto
      obtain s1 where s1: "sched_enqueue n t = Some s1" and ring1: "ring s1 (x # rest)"
        and same: "same_but_sched t s1"
        using enqueue_waiting [of t r n] A w by auto
      obtain l where l: "lh_first (sched_link (sched_flip s1)) (point (sched_flip s1)) = Some x"
        "list_remove x (sched_link (sched_flip s1)) = Some l"
        "\<forall>c. ring (sched_flip s1\<lparr>sched_link := l, count := c\<rparr>) rest \<and>
          same_but_sched s1 (sched_flip s1\<lparr>sched_link := l, count := c\<rparr>)"
        using ring_take [OF ring1] by blast
      let ?s = "sched_flip s1\<lparr>sched_link := l, count := pri (envs (sched_flip s1) x)\<rparr>"
      have f: "f (Some x) ?s = Some y"
        using "1"(2) A s1 l(1,2) by (simp add: loops_def Let_def)
      have S: "same_but_sched t ?s" "ring ?s rest" using l(3) same_but_sched_trans [OF same] by auto
      note F = same_but_sched_fields [OF S(1)]
      have "loops (Some x) ?s"
        using A w loops_iff_not_eligible [of ?s x] F same_but_sched_fields(1) [OF same]
        by (simp add: sched_flip_def)
      moreover have "distinct (waiting (Some x) rest)" "waiting (Some x) rest \<noteq> []"
        "\<forall>a \<in> set (waiting (Some x) rest). \<not> eligible ?s a"
        using A w F by (auto simp: waiting_def)
      ultimately show False using "1"(1) [OF f, of rest] S(2) by simp
    qed
  qed
  with assms show False by blast
qed

section \<open>Properties\<close>

text \<open>
  The scheduler over one ring: the first of the waiting environments that satisfies \<open>P\<close>, and the
  ring that is left when those before it go to the end.
\<close>

definition rotate_to :: "(nat \<Rightarrow> bool) \<Rightarrow> nat list \<Rightarrow> (nat \<times> nat list) option" where
  "rotate_to P w =
    (case dropWhile (\<lambda>a. \<not> P a) w of
       [] \<Rightarrow> None
     | x # bs \<Rightarrow> Some (x, bs @ takeWhile (\<lambda>a. \<not> P a) w))"

text \<open>
  The processor now runs \<open>x\<close>: its registers, its address space and its time slice are installed,
  the interrupted environment's registers are in its trap frame, and nothing else has changed.
\<close>

definition switched :: "kstate \<Rightarrow> nat \<Rightarrow> kstate \<Rightarrow> bool" where
  "switched s x s' \<longleftrightarrow>
     curenv s' = Some x \<and> User_pgdir s' = pgdir_pa (envs s x) \<and>
     tf_cpu s' = (if curenv s = Some x then tf_cpu s else tf (envs s x))\<lparr>count_down := 62500 * 2\<rparr> \<and>
     (\<forall>e. e \<noteq> x \<longrightarrow> envs s' e =
        (if curenv s = Some e then envs s e\<lparr>tf := tf_cpu s\<rparr> else envs s e)) \<and>
     (\<exists>n. envs s' x = envs s x\<lparr>env_runs := n, tf := tf_cpu s'\<rparr>) \<and>
     ram s' = ram s \<and> page_ref s' = page_ref s \<and> page_pa s' = page_pa s \<and> Kern_vis s' = Kern_vis s \<and>
     free_link s' = free_link s \<and> next_env_id s' = next_env_id s"

lemma save_context_fields:
  "ram (save_context s) = ram s" "page_ref (save_context s) = page_ref s"
  "page_pa (save_context s) = page_pa s" "Kern_vis (save_context s) = Kern_vis s"
  "free_link (save_context s) = free_link s" "next_env_id (save_context s) = next_env_id s"
  "sched_link (save_context s) = sched_link s" "point (save_context s) = point s"
  "count (save_context s) = count s"
  "envs (save_context s) e = (if curenv s = Some e then envs s e\<lparr>tf := tf_cpu s\<rparr> else envs s e)"
  by (auto simp: save_context_def set_env_def split: option.split)

lemma env_run_switches:
  "\<exists>s'. env_run x s = Eret s' \<and> switched s x s' \<and> sched_link s' = sched_link s \<and>
     point s' = point s \<and> count s' = count s"
proof -
  define s0 where "s0 = save_context s"
  note f = save_context_fields [of s, folded s0_def]
  define t where "t = (tf (envs s0 x))\<lparr>count_down := 62500 * 2\<rparr>"
  define n where "n = env_runs (envs s0 x) + 1"
  obtain s' where run: "env_run x s = Eret s'" by (simp add: env_run_def Let_def)
  then have s': "curenv s' = Some x" "User_pgdir s' = pgdir_pa (envs s0 x)" "tf_cpu s' = t"
    "envs s' x = envs s0 x\<lparr>env_runs := n, tf := t\<rparr>" "e \<noteq> x \<Longrightarrow> envs s' e = envs s0 e"
    "ram s' = ram s" "page_ref s' = page_ref s" "page_pa s' = page_pa s" "Kern_vis s' = Kern_vis s"
    "free_link s' = free_link s" "next_env_id s' = next_env_id s" "sched_link s' = sched_link s"
    "point s' = point s" "count s' = count s" for e
    using f(1-9) by (auto simp: env_run_def Let_def set_env_def s0_def [symmetric] t_def n_def)
  have "envs s' x = envs s x\<lparr>env_runs := n, tf := tf_cpu s'\<rparr>"
    unfolding s'(3,4) f(10) by simp
  then have n: "\<exists>n. envs s' x = envs s x\<lparr>env_runs := n, tf := tf_cpu s'\<rparr>" by blast
  have "switched s x s'" unfolding switched_def
  proof (intro conjI allI impI)
    show "\<exists>n. envs s' x = envs s x\<lparr>env_runs := n, tf := tf_cpu s'\<rparr>" by (rule n)
    show "tf_cpu s' = (if curenv s = Some x then tf_cpu s else tf (envs s x))\<lparr>count_down := 62500 * 2\<rparr>"
      unfolding s'(3) t_def f(10) by simp
    show "envs s' e = (if curenv s = Some e then envs s e\<lparr>tf := tf_cpu s\<rparr> else envs s e)" if "e \<noteq> x" for e
      unfolding s'(5) [OF that] by (rule f(10))
    show "User_pgdir s' = pgdir_pa (envs s x)" unfolding s'(2) f(10) by simp
  qed (rule s')+
  then show ?thesis using run s' by blast
qed

lemma switched_same_but_sched:
  assumes "same_but_sched s t" and "switched (t\<lparr>count := c\<rparr>) x s'"
  shows "switched s x s'"
proof -
  obtain l c' p where "t = s\<lparr>sched_link := l, count := c', point := p\<rparr>"
    using assms(1) unfolding same_but_sched_def by blast
  then have E: "envs (t\<lparr>count := c\<rparr>) = envs s" "curenv (t\<lparr>count := c\<rparr>) = curenv s"
    "tf_cpu (t\<lparr>count := c\<rparr>) = tf_cpu s" "ram (t\<lparr>count := c\<rparr>) = ram s"
    "page_ref (t\<lparr>count := c\<rparr>) = page_ref s" "page_pa (t\<lparr>count := c\<rparr>) = page_pa s"
    "Kern_vis (t\<lparr>count := c\<rparr>) = Kern_vis s" "free_link (t\<lparr>count := c\<rparr>) = free_link s"
    "next_env_id (t\<lparr>count := c\<rparr>) = next_env_id s"
    by simp_all
  show ?thesis using assms(2) unfolding switched_def E .
qed

lemma rotate_to_split:
  "rotate_to P w = Some (x, r') \<longleftrightarrow>
     (\<exists>as bs. w = as @ x # bs \<and> P x \<and> (\<forall>a \<in> set as. \<not> P a) \<and> r' = bs @ as)"
proof
  assume "rotate_to P w = Some (x, r')"
  then obtain bs where d: "dropWhile (\<lambda>a. \<not> P a) w = x # bs" and r: "r' = bs @ takeWhile (\<lambda>a. \<not> P a) w"
    by (auto simp: rotate_to_def split: list.splits)
  have "w = takeWhile (\<lambda>a. \<not> P a) w @ x # bs" using d by (metis takeWhile_dropWhile_id)
  moreover have "P x" using d hd_dropWhile [of "\<lambda>a. \<not> P a" w] by simp
  moreover have "\<forall>a \<in> set (takeWhile (\<lambda>a. \<not> P a) w). \<not> P a" by (auto dest: set_takeWhileD)
  ultimately show "\<exists>as bs. w = as @ x # bs \<and> P x \<and> (\<forall>a \<in> set as. \<not> P a) \<and> r' = bs @ as"
    using r by blast
qed (auto simp: rotate_to_def dropWhile_append takeWhile_append)

lemma rotate_to_None: "rotate_to P w = None \<longleftrightarrow> (\<forall>a \<in> set w. \<not> P a)"
proof (cases "dropWhile (\<lambda>a. \<not> P a) w")
  case Nil
  then have "\<forall>a \<in> set w. \<not> P a" by (simp add: dropWhile_eq_Nil_conv)
  then show ?thesis unfolding rotate_to_def Nil by simp
next
  case (Cons x bs)
  then have "\<not> (\<forall>a \<in> set w. \<not> P a)" by (metis dropWhile_eq_Nil_conv list.distinct(1))
  with Cons show ?thesis by (simp add: rotate_to_def)
qed

lemma sched_yield_cases:
  assumes "ring s r" and "distinct (waiting (curenv s) r)" and "loops (curenv s) s"
  shows "case rotate_to (eligible s) (waiting (curenv s) r) of
      Some (x, r') \<Rightarrow> \<exists>s'. sched_yield s = Eret s' \<and> switched s x s' \<and> ring s' r' \<and>
        count s' = pri (envs s x) - 1
    | None \<Rightarrow> if waiting (curenv s) r = [] then \<exists>m s'. sched_yield s = Panic m s' else sched_yield s = Hang"
proof (cases "rotate_to (eligible s) (waiting (curenv s) r)")
  case None
  then have no: "\<forall>a \<in> set (waiting (curenv s) r). \<not> eligible s a" by (simp add: rotate_to_None)
  show ?thesis
  proof (cases "waiting (curenv s) r = []")
    case True
    then show ?thesis using sched_loop_step [OF assms] None by (auto simp: sched_yield_def)
  next
    case False
    then show ?thesis using sched_loop_hangs [OF assms(1,2) False assms(3) no] None
      by (simp add: sched_yield_def)
  qed
next
  case (Some xr)
  obtain x r' where xr: "xr = (x, r')" by (cases xr)
  obtain as bs where w: "waiting (curenv s) r = as @ x # bs" "eligible s x" "\<forall>a \<in> set as. \<not> eligible s a"
    and r': "r' = bs @ as"
    using Some xr rotate_to_split by blast
  obtain t where t: "sched_loop (curenv s) s = Some (Ret x t)" "ring t r'" "same_but_sched s t"
    "count t = pri (envs s x)"
    using sched_loop_picks [OF assms(1) w(1) assms(2,3) w(2,3)] r' by blast
  obtain s' where s': "env_run x (t\<lparr>count := count t - 1\<rparr>) = Eret s'"
    "switched (t\<lparr>count := count t - 1\<rparr>) x s'" "sched_link s' = sched_link t" "point s' = point t"
    "count s' = count t - 1"
    using env_run_switches [of x "t\<lparr>count := count t - 1\<rparr>"] by auto
  have "sched_yield s = Eret s'" using t(1) s'(1) by (simp add: sched_yield_def)
  moreover have "switched s x s'" by (rule switched_same_but_sched [OF t(3) s'(2)])
  moreover have "ring s' r'" using t(2) s'(3,4) by (simp add: ring_def)
  ultimately show ?thesis using Some xr s'(5) t(4) by auto
qed

lemma sched_yield_round_robin_lemma:
  assumes "ring s r" and "distinct (waiting (curenv s) r)"
  shows "if loops (curenv s) s then
      (case rotate_to (eligible s) (waiting (curenv s) r) of
         Some (x, r') \<Rightarrow> \<exists>s'. sched_yield s = Eret s' \<and> switched s x s' \<and> ring s' r' \<and>
           count s' = pri (envs s x) - 1
       | None \<Rightarrow> if waiting (curenv s) r = [] then \<exists>m s'. sched_yield s = Panic m s'
           else sched_yield s = Hang)
    else \<exists>s'. sched_yield s = Eret s' \<and> switched s (the (curenv s)) s' \<and> ring s' r \<and>
      count s' = count s - 1"
proof (cases "loops (curenv s) s")
  case True
  then show ?thesis using sched_yield_cases [OF assms] by simp
next
  case False
  let ?x = "the (curenv s)"
  obtain s' where s': "env_run ?x (s\<lparr>count := count s - 1\<rparr>) = Eret s'"
    "switched (s\<lparr>count := count s - 1\<rparr>) ?x s'" "sched_link s' = sched_link s" "point s' = point s"
    "count s' = count s - 1"
    using env_run_switches [of ?x "s\<lparr>count := count s - 1\<rparr>"] by auto
  then have "sched_yield s = Eret s'" using sched_loop_done [OF False] by (simp add: sched_yield_def)
  then show ?thesis
    using False s' switched_same_but_sched [OF same_but_sched_refl s'(2)] assms(1)
    by (auto simp: ring_def)
qed

text \<open>An example: environments 1 and 2 wait and can run.\<close>

definition null_tf :: trapframe where
  "null_tf = \<lparr>far_el1 = 0, sp_el0 = 0, elr_el1 = 0, spsr_el1 = 0, count_down = 0, regs = (\<lambda>_. 0)\<rparr>"

definition null_env :: env where
  "null_env = \<lparr>tf = null_tf, env_id = 0, parent_id = 0, status = 0, pgdir = None, pgdir_pa = 0, pri = 0,
     ipc_value = 0, ipc_from = 0, ipc_recving = 0, ipc_dstva = 0, ipc_perm = 0, pgfault_handler = 0,
     xstacktop = 0, env_runs = 0\<rparr>"

definition demo_kernel :: kstate where
  "demo_kernel = \<lparr>Kern_vis = Kern_vis demo_mem, page_pa = page_pa demo_mem, page_ref = page_ref demo_mem,
     ram = ram demo_mem,
     envs = (\<lambda>e. if e = 1 \<or> e = 2 then null_env\<lparr>status := ENV_RUNNABLE, pri := 1\<rparr> else null_env),
     curenv = None, free_link = demo_links, sched_link = demo_links, next_env_id = 0, count = 0,
     point = 0, tf_cpu = null_tf, User_pgdir = 0\<rparr>"

lemma demo_kernel_ring: "ring demo_kernel [1, 2]" "waiting (curenv demo_kernel) [1, 2] = [1, 2]"
  "loops (curenv demo_kernel) demo_kernel" "eligible demo_kernel 1" "eligible demo_kernel 2"
proof -
  have "point demo_kernel = 0" "sched_link demo_kernel = demo_links" by (simp_all add: demo_kernel_def)
  then show "ring demo_kernel [1, 2]"
    unfolding ring_def using demo_links_repr by (intro conjI exI [of _ "[1, 2]"] exI [of _ "[]"]) auto
qed (simp_all add: demo_kernel_def waiting_def loops_def eligible_def)

text \<open>C11: \<open>sched_yield\<close> is round robin over one ring with priorities as time slices. While the current
  environment is runnable and has turns left it goes on; otherwise it is queued last, the first
  environment of the ring that is runnable with a non-zero priority runs for as many turns as its
  priority, and those passed over keep their order at the end. The kernel panics when nobody waits
  and loops for ever when nobody who waits can run.\<close>

theorem sched_yield_round_robin:
  assumes "ring s r" and "distinct (waiting (curenv s) r)"
  shows "if loops (curenv s) s then
      (case rotate_to (eligible s) (waiting (curenv s) r) of
         Some (x, r') \<Rightarrow> \<exists>s'. sched_yield s = Eret s' \<and> switched s x s' \<and> ring s' r' \<and>
           count s' = pri (envs s x) - 1
       | None \<Rightarrow> if waiting (curenv s) r = [] then \<exists>m s'. sched_yield s = Panic m s'
           else sched_yield s = Hang)
    else \<exists>s'. sched_yield s = Eret s' \<and> switched s (the (curenv s)) s' \<and> ring s' r \<and>
      count s' = count s - 1"
  by (rule sched_yield_round_robin_lemma [OF assms])

lemma sched_yield_round_robin_witness:
  "\<exists>s'. sched_yield demo_kernel = Eret s' \<and> curenv s' = Some 1 \<and> ring s' [2]"
  using sched_yield_round_robin [OF demo_kernel_ring(1)] demo_kernel_ring
  by (auto simp: rotate_to_def switched_def)

text \<open>C12: no runnable environment starves. Whenever the processor changes hands, a waiting environment
  that could run is either the one that runs now or has come strictly nearer to the front of the
  ring, so it runs after at most as many changes as there are environments before it.\<close>

theorem sched_yield_progress:
  assumes "ring s r" and "distinct (waiting (curenv s) r)" and "loops (curenv s) s"
    and "e \<in> set (waiting (curenv s) r)" and "eligible s e"
  shows "\<exists>s' r'. sched_yield s = Eret s' \<and> ring s' r' \<and>
    (curenv s' = Some e \<or> e \<in> set r' \<and>
       length (takeWhile (\<lambda>x. x \<noteq> e) r') < length (takeWhile (\<lambda>x. x \<noteq> e) (waiting (curenv s) r)))"
proof -
  obtain x r' where rt: "rotate_to (eligible s) (waiting (curenv s) r) = Some (x, r')"
    using assms(4,5) rotate_to_None [of "eligible s" "waiting (curenv s) r"] by fastforce
  then obtain s' where s': "sched_yield s = Eret s'" "switched s x s'" "ring s' r'"
    using sched_yield_cases [OF assms(1-3)] by auto
  obtain as bs where w: "waiting (curenv s) r = as @ x # bs" "\<forall>a \<in> set as. \<not> eligible s a" "r' = bs @ as"
    using rt rotate_to_split by blast
  have "e \<in> set r' \<and> length (takeWhile (\<lambda>x. x \<noteq> e) r') < length (takeWhile (\<lambda>x. x \<noteq> e) (waiting (curenv s) r))"
    if "e \<noteq> x"
  proof -
    have "e \<in> set bs" "e \<notin> set as" using w assms(4,5) that by auto
    then obtain cs ds where "bs = cs @ e # ds" "e \<notin> set cs" using split_list_first by metis
    then show ?thesis using that w(1,3) \<open>e \<notin> set as\<close> by (simp add: takeWhile_append)
  qed
  then show ?thesis using s' by (auto simp: switched_def)
qed

lemma sched_yield_progress_witness:
  "\<exists>s' r'. sched_yield demo_kernel = Eret s' \<and> ring s' r' \<and> (curenv s' = Some 2 \<or> 2 \<in> set r')"
  using sched_yield_progress [OF demo_kernel_ring(1), of 2] demo_kernel_ring by auto

end
