(* ===== verification/EnvProps.thy ===== *)
theory EnvProps
  imports Release Frames Sched
begin

text \<open>
  What kernel/env.c promises: the identifiers it hands out, the address space that a new environment
  starts with, and what freeing an environment gives back.
\<close>

section \<open>The free list\<close>

lemma env_init_loop:
  assumes "distinct xs" and "set xs \<inter> set ys = {}" and "repr 0 ys (free_link s)"
    and "\<forall>i \<in> set ys. status (envs s i) = ENV_FREE"
  defines "s' \<equiv> fold (\<lambda>i s. let s' = set_env i (envs s i\<lparr>status := ENV_FREE\<rparr>) s
      in s'\<lparr>free_link := list_insert_head 0 i (free_link s')\<rparr>) xs s"
  shows "repr 0 (rev xs @ ys) (free_link s') \<and> (\<forall>i \<in> set xs \<union> set ys. status (envs s' i) = ENV_FREE) \<and>
    sched_link s' = sched_link s"
  using assms(1-4) unfolding s'_def
proof (induction xs arbitrary: ys s)
  case Nil
  then show ?case by simp
next
  case (Cons x xs)
  let ?s = "(set_env x (envs s x\<lparr>status := ENV_FREE\<rparr>) s)\<lparr>free_link := list_insert_head 0 x (free_link s)\<rparr>"
  have "repr 0 (x # ys) (free_link ?s)"
    using insert_head_repr [OF Cons.prems(3), of x] Cons.prems(2) by simp
  from Cons.IH [OF _ _ this] Cons.prems show ?case by (simp add: Let_def)
qed

lemma env_init_lists:
  "repr 0 [0..<NENV] (free_link (env_init s)) \<and> repr 0 [] (sched_link (env_init s)) \<and>
   repr 1 [] (sched_link (env_init s)) \<and> (\<forall>e < NENV. status (envs (env_init s) e) = ENV_FREE)"
proof -
  let ?s = "s\<lparr>free_link := list_init 0 (free_link s),
      sched_link := list_init 1 (list_init 0 (sched_link s))\<rparr>"
  have "repr 0 [] (free_link ?s)" by (simp add: repr_init)
  from env_init_loop [OF _ _ this, of "rev [0..<NENV]"]
  show ?thesis by (auto simp: env_init_def Let_def repr_Nil list_init_def)
qed

section \<open>Identifiers\<close>

lemma ENVX_id:
  assumes "e < NENV"
  shows "ENVX (push_bit 11 n OR of_nat e) = e"
proof -
  have m: "(1023 :: u32) = mask 10" by (simp add: mask_eq_exp_minus_1)
  have "(push_bit 11 n OR of_nat e :: u32) AND 1023 = of_nat e"
  proof -
    have "(push_bit 11 n :: u32) AND mask 10 = 0"
      by (rule bit_word_eqI) (auto simp: bit_simps)
    moreover have "(of_nat e :: u32) AND mask 10 = of_nat e"
      using assms by (simp add: take_bit_of_nat take_bit_nat_eq_self flip: take_bit_eq_mask)
    ultimately show ?thesis by (simp add: m bit.conj_disj_distrib2)
  qed
  then show ?thesis
    using assms by (simp add: ENVX_def of_nat_inverse [OF refl])
qed

lemma id_counter:
  assumes "e < NENV"
  shows "drop_bit 11 (push_bit 11 n OR of_nat e :: u32) = take_bit 21 n"
proof -
  have "take_bit 10 e = e" using assms by (simp add: take_bit_nat_eq_self)
  then have small: "bit e k \<Longrightarrow> k < 10" for k by (metis bit_take_bit_iff)
  show ?thesis
    by (rule bit_word_eqI) (auto simp: bit_simps dest: small)
qed



section \<open>Freeing\<close>

lemma pa2page_of_page:
  assumes "d < 2 ^ 18"
  shows "pa2page (of_nat (d * 4096)) = d"
proof -
  have "push_bit 12 (of_nat d) = (of_nat (d * 4096) :: u64)" by (simp add: push_bit_eq_mult mult.commute)
  then show ?thesis using pa2page_flags [OF assms, of 0] by simp
qed

lemma env_free_result:
  assumes "wf_spaces s D" and "d \<in> D" and "d < 2 ^ 18" and "pgdir (envs s e) = Some d"
    and "pgdir_pa (envs s e) = of_nat (d * 4096)"
  shows "\<exists>s'. env_free e s = Ret () s' \<and> wf_spaces s' (D - {d}) \<and>
    (\<forall>q. page_ref s' q = page_ref s q - of_nat (card (uses s d q)) \<and>
       (page_used s' q \<longleftrightarrow> page_used s q \<and> (uses s d q = {} \<or> page_ref s' q > 0))) \<and>
    (\<forall>d' \<in> D - {d}. \<forall>va. user_va va \<longrightarrow> vmap s' d' va = vmap s d' va) \<and>
    (\<forall>q. \<not> is_table s D q \<longrightarrow> ram s' q = ram s q) \<and>
    envs s' = (envs s)(e := envs s e\<lparr>pgdir := None, pgdir_pa := 0, status := ENV_FREE\<rparr>) \<and>
    curenv s' = curenv s \<and> sched_link s' = sched_link s \<and> point s' = point s \<and> page_pa s' = page_pa s \<and>
    free_link s' = list_insert_head 0 e (free_link s)"
proof -
  let ?s1 = "free_dir d (wr (d, self_index) 0 s)"
  let ?s2 = "set_env e (envs ?s1 e\<lparr>pgdir := None, pgdir_pa := 0\<rparr>) ?s1"
  let ?s3 = "page_decref d ?s2"
  let ?s4 = "set_env e (envs ?s3 e\<lparr>status := ENV_FREE\<rparr>) ?s3"
  let ?s5 = "?s4\<lparr>free_link := list_insert_head 0 e (free_link ?s4)\<rparr>"
  have pa: "pa2page (of_nat d * 4096) = d" using pa2page_of_page [OF assms(3)] by simp
  have run: "env_free e s = Ret () ?s5"
    using assms(4,5) by (simp add: env_free_def deref_def Let_def pa flip: self_index_def)
  have F: "space_freed D d s (page_decref d ?s1)" by (rule free_space [OF assms(1,2)])
  have same: "same_mem (page_decref d ?s1) ?s5"
    by (simp add: same_mem_def page_decref_def page_free_def set_ref_def)
  note S = same_mem_simps [OF same]
  have "wf_spaces ?s5 (D - {d}) \<and>
    (\<forall>q. page_ref ?s5 q = page_ref s q - of_nat (card (uses s d q)) \<and>
       (page_used ?s5 q \<longleftrightarrow> page_used s q \<and> (uses s d q = {} \<or> page_ref ?s5 q > 0))) \<and>
    (\<forall>d' \<in> D - {d}. \<forall>va. user_va va \<longrightarrow> vmap ?s5 d' va = vmap s d' va) \<and>
    (\<forall>q. \<not> is_table s D q \<longrightarrow> ram ?s5 q = ram s q)"
    using F unfolding S space_freed_def by (simp add: vmap_def)
  moreover have "envs ?s5 = (envs s)(e := envs s e\<lparr>pgdir := None, pgdir_pa := 0, status := ENV_FREE\<rparr>)"
    "curenv ?s5 = curenv s" "sched_link ?s5 = sched_link s" "point ?s5 = point s"
    "free_link ?s5 = list_insert_head 0 e (free_link s)"
    by simp_all
  moreover have "page_pa ?s5 = page_pa s" using F unfolding S space_freed_def by blast
  ultimately show ?thesis using run by blast
qed

text \<open>C13: \<open>env_free\<close> gives back exactly what the environment held. Each page loses one reference for each
  of its uses in the environment's address space (as a mapped page, as a table or as the directory) and
  is freed when none is left; the address spaces that remain stay well formed and unchanged, no other
  page is written, and the environment is free and first on the free list.\<close>

theorem env_free_gives_back:
  assumes "wf_spaces s D" and "d \<in> D" and "d < 2 ^ 18" and "pgdir (envs s e) = Some d"
    and "pgdir_pa (envs s e) = of_nat (d * 4096)"
  shows "\<exists>s'. env_free e s = Ret () s' \<and> wf_spaces s' (D - {d}) \<and>
    (\<forall>q. page_ref s' q = page_ref s q - of_nat (card (uses s d q)) \<and>
       (page_used s' q \<longleftrightarrow> page_used s q \<and> (uses s d q = {} \<or> page_ref s' q > 0))) \<and>
    (\<forall>d' \<in> D - {d}. \<forall>va. user_va va \<longrightarrow> vmap s' d' va = vmap s d' va) \<and>
    (\<forall>q. \<not> is_table s D q \<longrightarrow> ram s' q = ram s q) \<and>
    envs s' = (envs s)(e := envs s e\<lparr>pgdir := None, pgdir_pa := 0, status := ENV_FREE\<rparr>) \<and>
    curenv s' = curenv s \<and> sched_link s' = sched_link s \<and>
    free_link s' = list_insert_head 0 e (free_link s)"
  using env_free_result [OF assms] by blast

end
