(* ===== verification/NewSpace.thy ===== *)
theory NewSpace
  imports EnvProps
begin

text \<open>
  The address space of a new environment: what \<open>env_setup_vm\<close> and \<open>env_alloc\<close> of kernel/env.c
  establish.
\<close>

section \<open>Inserting at an address without a mapping\<close>

lemma insert_unmapped_frame:
  assumes wf: "wf_spaces s D" and pa: "pa_ok s" and d: "d \<in> D" and va: "user_va va"
    and pp: "page_used s pp" "\<not> is_table s D pp" and None: "vmap s d va = None"
    and ins: "page_insert d pp va perm s = (r, s')"
  shows "page_pa s' = page_pa s \<and> (\<forall>q. page_used s q \<longrightarrow> page_used s' q \<and>
    page_ref s' q = page_ref s q + (if r = 0 \<and> q = pp then 1 else 0) \<and>
    (\<not> is_table s D q \<longrightarrow> \<not> is_table s' D q))"
proof -
  have lf: "leaf_path (vpath va)" and tp: "table_path [GET_L1_INDEX va, GET_L2_INDEX va]"
    using va by simp_all
  have fr: "page_insert d pp va perm s = (case pgdir_walk d va True s of
        (WPte pte, s1) \<Rightarrow> (0, set_ref pp (page_ref s1 pp + 1) (wr pte (pte_for s1 pp perm) s1))
      | (_, s1) \<Rightarrow> (-1, s1))"
    using None
    by (auto simp: page_insert_def Let_def vmap_unfold pgdir_walk_lookup pte_for_def
        split: option.splits walk.splits prod.splits if_splits)
  obtain w s1 where w: "pgdir_walk d va True s = (w, s1)" by fastforce
  have W: "wf_spaces s1 D" "only_tables_added s s1 D"
    and wc: "w = WFail \<or> (\<exists>t. w = WPte (t, GET_L3_INDEX va) \<and>
      node s1 d [GET_L1_INDEX va, GET_L2_INDEX va] = Some t)"
    using pgdir_walk_create [OF wf pa d va w] by auto
  from wc show ?thesis
  proof (elim disjE exE conjE)
    assume "w = WFail"
    then show ?thesis using W ins by (auto simp: fr w only_tables_added_def)
  next
    fix t assume wt: "w = WPte (t, GET_L3_INDEX va)"
      and t: "node s1 d [GET_L1_INDEX va, GET_L2_INDEX va] = Some t"
    have s': "r = 0" "s' = set_ref pp (page_ref s1 pp + 1) (wr (t, GET_L3_INDEX va) (pte_for s1 pp perm) s1)"
      using ins by (simp_all add: fr w wt)
    have rds: "rd l s' = rd l s1" if "l \<noteq> (t, GET_L3_INDEX va)" for l using that by (auto simp: s')
    have "node s' d' js = node s1 d' js" if "d' \<in> D" "table_path js" for d' js
      by (rule leaf_write_nodes [OF W(1) d tp t rds that])
    then have "is_table s' D q = is_table s1 D q" for q
      unfolding is_table_def by (metis (no_types, lifting))
    then show ?thesis using W(2) pp by (auto simp: s' only_tables_added_def)
  qed
qed

section \<open>The pages of the kernel image\<close>

lemma vpath_low:
  assumes "k < 2 ^ 18"
  shows "vpath (push_bit 12 (of_nat k)) = [0, k div 512, k mod 512]"
proof -
  have kd: "k div 512 < 512" using assms by simp
  have k: "k = push_bit 9 (k div 512) OR k mod 512"
  proof -
    have "push_bit 9 (drop_bit 9 k) OR take_bit 9 k = k"
      by (rule bit_eqI) (auto simp: bit_simps)
    then show ?thesis by (simp add: drop_bit_eq_div take_bit_eq_mod)
  qed
  have "push_bit 12 (of_nat k) = va_of 0 (k div 512) (k mod 512)"
  proof -
    have "(of_nat k :: u64) = push_bit 9 (of_nat (k div 512)) OR of_nat (k mod 512)"
      by (subst k) (simp add: of_nat_or_eq of_nat_push_bit)
    then show ?thesis by (simp add: va_of_def push_bit_or)
  qed
  then show ?thesis using vpath_va_of [of 0 "k div 512" "k mod 512"] kd by simp
qed

definition low_perm :: u64 where "low_perm = PTE_RW OR PTE_USER OR PTE_LIBRARY"

lemma low_perm_ok: "perm_ok low_perm"
  by (simp add: low_perm_def perm_ok_def)

text \<open>The kernel pages are in use, are no tables and have room for one more reference.\<close>

definition kernel_pages_ok :: "'a pmem_scheme \<Rightarrow> nat set \<Rightarrow> nat \<Rightarrow> bool" where
  "kernel_pages_ok s D n \<longleftrightarrow> n \<le> 2 ^ 18 \<and>
     (\<forall>i < n. page_used s i \<and> \<not> is_table s D i \<and> page_ref s i \<noteq> -1)"

lemma map_kernel_pages:
  fixes s :: "'a pmem_scheme"
  assumes wf: "wf_spaces s D" and pa: "pa_ok s" and d: "d \<in> D" and k: "kernel_pages_ok s D n"
    and empty: "\<And>js. leaf_path js \<Longrightarrow> leaf_entry s d js = None"
  defines "s' \<equiv> fold (\<lambda>i s. snd (page_insert d i (push_bit 12 (of_nat i)) low_perm s)) [0..<n] s"
  shows "wf_spaces s' D \<and> pa_ok s' \<and>
    (\<forall>d' \<in> D - {d}. \<forall>js. leaf_path js \<longrightarrow> leaf_entry s' d' js = leaf_entry s d' js) \<and>
    (\<forall>js. leaf_path js \<longrightarrow> leaf_entry s' d js = None \<or>
      (\<exists>i < n. js = vpath (push_bit 12 (of_nat i)) \<and> leaf_entry s' d js = Some (pte_for s i low_perm))) \<and>
    (\<forall>q. page_used s q \<longrightarrow> page_used s' q \<and> (\<not> is_table s D q \<longrightarrow> ram s' q = ram s q \<and>
       \<not> is_table s' D q \<and> (page_ref s' q = page_ref s q \<or> q < n \<and> page_ref s' q = page_ref s q + 1)))"
proof -
  define Inv where "Inv m t \<longleftrightarrow> wf_spaces t D \<and> pa_ok t \<and> page_pa t = page_pa s \<and>
    (\<forall>d' \<in> D - {d}. \<forall>js. leaf_path js \<longrightarrow> leaf_entry t d' js = leaf_entry s d' js) \<and>
    (\<forall>js. leaf_path js \<longrightarrow> leaf_entry t d js = None \<or>
      (\<exists>i < m. js = vpath (push_bit 12 (of_nat i)) \<and> leaf_entry t d js = Some (pte_for s i low_perm))) \<and>
    (\<forall>q. page_used s q \<longrightarrow> page_used t q \<and> (\<not> is_table s D q \<longrightarrow> \<not> is_table t D q \<and> ram t q = ram s q)) \<and>
    (\<forall>q. page_used s q \<longrightarrow> page_ref t q = page_ref s q \<or> q < m \<and> page_ref t q = page_ref s q + 1)" for m and t :: "'a pmem_scheme"
  have "Inv n s'" unfolding s'_def
  proof (rule fold_upt_inv [where P = Inv])
    show "Inv 0 s" using wf pa empty by (simp add: Inv_def)
    fix m t assume m: "m < n" and I: "Inv m t"
    let ?va = "push_bit 12 (of_nat m) :: u64"
    have m18: "m < 2 ^ 18" using m k by (simp add: kernel_pages_ok_def)
    have va: "user_va ?va"
      using vpath_low [OF m18] by (simp add: user_va_def vpath_def self_index_eq)
    have wft: "wf_spaces t D" and pat: "pa_ok t" and papa: "page_pa t = page_pa s" using I by (simp_all add: Inv_def)
    have um: "page_used t m" "\<not> is_table t D m" "page_ref t m \<noteq> -1"
      using I k m by (auto simp: Inv_def kernel_pages_ok_def)
    have rm: "page_ref t m = page_ref s m" using I k m by (auto simp: Inv_def kernel_pages_ok_def)
    have none: "vmap t d ?va = None"
    proof (rule ccontr)
      assume "vmap t d ?va \<noteq> None"
      moreover have "leaf_path (vpath ?va)" using va by simp
      ultimately obtain i where "i < m" "vpath ?va = vpath (push_bit 12 (of_nat i))"
        using I by (auto simp: Inv_def vmap_def)
      then have "m div 512 = i div 512" "m mod 512 = i mod 512"
        using vpath_low [OF m18] vpath_low [of i] m18 by simp_all
      then have "m = i" by (metis div_mult_mod_eq)
      with \<open>i < m\<close> show False by simp
    qed
    obtain r u where u: "page_insert d m ?va low_perm t = (r, u)" by fastforce
    have ins: "inserts t D d ?va (pte_for t m low_perm) (r, u)"
      using page_insert_inserts [OF wft pat d va low_perm_ok m18 um] u by simp
    note fr = insert_unmapped_frame [OF wft pat d va um(1,2) none u]
    have pt: "pte_for t m low_perm = pte_for s m low_perm" by (simp add: pte_for_def papa)
    have "Inv (Suc m) u" unfolding Inv_def
    proof (intro conjI ballI allI impI)
      show "wf_spaces u D" "pa_ok u" using ins by (simp_all add: inserts_def)
      show "page_pa u = page_pa s" using fr papa by simp
      show "leaf_entry u d' js = leaf_entry s d' js" if "d' \<in> D - {d}" "leaf_path js" for d' js
        using ins I that by (simp add: inserts_def Inv_def)
      show "leaf_entry u d js = None \<or> (\<exists>i < Suc m. js = vpath (push_bit 12 (of_nat i)) \<and>
          leaf_entry u d js = Some (pte_for s i low_perm))" if js: "leaf_path js" for js
      proof (cases "r = 0 \<and> js = vpath ?va")
        case True
        then show ?thesis using ins d js pt by (auto simp: inserts_def)
      next
        case False
        then have "leaf_entry u d js = leaf_entry t d js" using ins d js by (auto simp: inserts_def)
        then show ?thesis using I js less_SucI unfolding Inv_def by metis
      qed
      show "page_used u q" if "page_used s q" for q using that I fr by (simp add: Inv_def)
      show "\<not> is_table u D q" "ram u q = ram s q" if "page_used s q" "\<not> is_table s D q" for q
        using that I fr ins by (simp_all add: Inv_def inserts_def)
      show "page_ref u q = page_ref s q \<or> q < Suc m \<and> page_ref u q = page_ref s q + 1" if "page_used s q" for q
        using that I fr rm less_SucI unfolding Inv_def by (cases "q = m") auto
    qed
    then show "Inv (Suc m) (snd (page_insert d m ?va low_perm t))" using u by simp
  qed
  then show ?thesis by (simp add: Inv_def)
qed


section \<open>Creating an environment\<close>

text \<open>
  A new environment in slot \<open>e\<close>: its directory \<open>p\<close> is a fresh page, the address space maps at most
  pages of the kernel image, each at its own address, and no other address space has changed.
\<close>

definition fresh_space :: "kstate \<Rightarrow> nat set \<Rightarrow> nat \<Rightarrow> nat \<Rightarrow> nat \<Rightarrow> kstate \<Rightarrow> bool" where
  "fresh_space s D n e p s' \<longleftrightarrow>
     p < 2 ^ 18 \<and> \<not> page_used s p \<and> p \<notin> D \<and> wf_spaces s' (insert p D) \<and> pa_ok s' \<and>
     pgdir (envs s' e) = Some p \<and> pgdir_pa (envs s' e) = of_nat (p * 4096) \<and>
     (\<forall>e'. e' \<noteq> e \<longrightarrow> envs s' e' = envs s e') \<and> User_pgdir s' = User_pgdir s \<and>
     (\<forall>d' \<in> D. \<forall>va. user_va va \<longrightarrow> vmap s' d' va = vmap s d' va) \<and>
     (\<forall>va. user_va va \<longrightarrow> vmap s' p va = None \<or>
        (\<exists>i < n. vpath va = vpath (push_bit 12 (of_nat i)) \<and> vmap s' p va = Some (pte_for s i low_perm))) \<and>
     (\<forall>q. page_used s q \<longrightarrow> page_used s' q \<and> (\<not> is_table s D q \<longrightarrow> ram s' q = ram s q \<and>
        \<not> is_table s' (insert p D) q \<and>
        (page_ref s' q = page_ref s q \<or> q < n \<and> page_ref s' q = page_ref s q + 1)))"

lemma env_setup_vm_fresh:
  assumes wf: "wf_spaces s D" and pa: "pa_ok s" and k: "kernel_pages_ok s D (unat (ie div 4096))"
  shows "(\<exists>p s'. env_setup_vm ie e s = Ret () s' \<and>
      fresh_space s D (unat (ie div 4096)) e p s' \<and> free_link s' = free_link s \<and>
      curenv s' = curenv s \<and> next_env_id s' = next_env_id s \<and> sched_link s' = sched_link s \<and>
      point s' = point s \<and> (\<exists>x y. envs s' e = envs s e\<lparr>pgdir := x, pgdir_pa := y\<rparr>)) \<or>
    (page_alloc s = (None, s) \<and> (\<exists>m. env_setup_vm ie e s = Panic m s))"
proof -
  let ?n = "unat (ie div 4096)"
  obtain po s1 where al: "page_alloc s = (po, s1)" by (cases "page_alloc s")
  show ?thesis
  proof (cases po)
    case None
    then show ?thesis using al page_alloc_None [of s s1] by (simp add: env_setup_vm_def)
  next
    case (Some p)
    note F = page_alloc_fresh [OF al [unfolded Some]] and A = page_alloc_spaces [OF wf pa al [unfolded Some]]
    let ?s2 = "set_ref p (page_ref s1 p + 1) s1"
    have ram2: "ram ?s2 p = (\<lambda>_. 0)" using F(5) by simp
    have zero: "fold (\<lambda>i. wr (p, i) 0) xs ?s2 = ?s2" for xs
    proof (induction xs)
      case (Cons x xs)
      have "wr (p, x) 0 ?s2 = ?s2" using ram2 by (simp add: wr_def fun_upd_idem)
      then show ?case using Cons by simp
    qed simp
    let ?s4 = "wr (p, GET_L1_INDEX UVPT) (page_pa ?s2 p OR PTE_RW OR PTE_USER) ?s2"
    let ?s5 = "set_env e (envs s e\<lparr>pgdir := Some p, pgdir_pa := of_nat (p * 4096)\<rparr>) ?s4"
    let ?f = "\<lambda>i s. snd (page_insert p i (push_bit 12 (of_nat i)) low_perm s)"
    define s5 where "s5 = ?s5"
    define s6 where "s6 = fold ?f [0..<?n] s5"
    have envs1: "envs s1 = envs s" "free_link s1 = free_link s" "curenv s1 = curenv s"
      "next_env_id s1 = next_env_id s" "sched_link s1 = sched_link s" "point s1 = point s"
      "User_pgdir s1 = User_pgdir s"
      using kstate_more [OF more_page_allocD [OF al]] by simp_all
    have run: "env_setup_vm ie e s = Ret () s6"
      using al Some envs1 by (simp add: env_setup_vm_def Let_def zero low_perm_def s5_def s6_def)
    have new: "new_dir s ?s4 p" unfolding new_dir_def
      using F ram2 A(5) by (simp add: self_index_def) (simp add: wr_def)
    note N = new_dir_wf [OF wf new] new_dir_notin [OF wf new] new_dir_entries [OF wf new]
      new_dir_is_table [OF wf new]
    have same: "same_mem ?s4 s5" by (simp add: s5_def same_mem_refl)
    note S = same_mem_simps [OF same]
    have pa5: "pa_ok s5" unfolding S using pa F(8) by (simp add: pa_ok_def)
    have k5: "kernel_pages_ok s5 (insert p D) ?n"
      using k new unfolding kernel_pages_ok_def S N(6) new_dir_def by auto
    have wf5: "wf_spaces s5 (insert p D)" unfolding S by (rule N(1))
    have empty5: "leaf_entry s5 p js = None" if "leaf_path js" for js
      unfolding S by (rule N(4) [OF that])
    have M: "wf_spaces s6 (insert p D) \<and> pa_ok s6 \<and>
      (\<forall>d' \<in> insert p D - {p}. \<forall>js. leaf_path js \<longrightarrow> leaf_entry s6 d' js = leaf_entry s5 d' js) \<and>
      (\<forall>js. leaf_path js \<longrightarrow> leaf_entry s6 p js = None \<or> (\<exists>i < ?n.
        js = vpath (push_bit 12 (of_nat i)) \<and> leaf_entry s6 p js = Some (pte_for s5 i low_perm))) \<and>
      (\<forall>q. page_used s5 q \<longrightarrow> page_used s6 q \<and>
        (\<not> is_table s5 (insert p D) q \<longrightarrow> ram s6 q = ram s5 q \<and> \<not> is_table s6 (insert p D) q \<and>
          (page_ref s6 q = page_ref s5 q \<or> q < ?n \<and> page_ref s6 q = page_ref s5 q + 1)))"
      unfolding s6_def by (rule map_kernel_pages [OF wf5 pa5 insertI1 k5 empty5])
    have pte: "pte_for s5 i low_perm = pte_for s i low_perm" for i using F(8) by (simp add: pte_for_def s5_def)
    have more6: "pmem.more s6 = pmem.more s5" unfolding s6_def by (rule fold_frame) simp
    note K = kstate_more [OF more6]
    have E: "envs s6 = (envs s)(e := envs s e\<lparr>pgdir := Some p, pgdir_pa := of_nat (p * 4096)\<rparr>)"
      "free_link s6 = free_link s" "curenv s6 = curenv s" "next_env_id s6 = next_env_id s"
      "sched_link s6 = sched_link s" "point s6 = point s" "User_pgdir s6 = User_pgdir s"
      by (simp_all add: K s5_def envs1)
    have "leaf_entry s6 d' js = leaf_entry s d' js" if "d' \<in> D" "leaf_path js" for d' js
      using M N(2,5) that unfolding S by auto
    moreover have "page_used s6 q \<and> (\<not> is_table s D q \<longrightarrow> ram s6 q = ram s q \<and> \<not> is_table s6 (insert p D) q \<and>
        (page_ref s6 q = page_ref s q \<or> q < ?n \<and> page_ref s6 q = page_ref s q + 1))" if "page_used s q" for q
    proof -
      have "q \<noteq> p" "page_used ?s4 q" "ram ?s4 q = ram s q" using that new by (auto simp: new_dir_def)
      moreover from this have "page_ref ?s4 q = page_ref s q" using F(7) by simp
      ultimately show ?thesis using M N(6) unfolding S by auto
    qed
    moreover have "leaf_entry s6 p js = None \<or> (\<exists>i < ?n. js = vpath (push_bit 12 (of_nat i)) \<and>
        leaf_entry s6 p js = Some (pte_for s i low_perm))" if "leaf_path js" for js
      using M that unfolding pte by blast
    moreover have "wf_spaces s6 (insert p D)" "pa_ok s6" using M by blast+
    ultimately have "fresh_space s D ?n e p s6"
      using F(1,2) N(2) by (simp add: fresh_space_def E vmap_def)
    moreover have "\<exists>x y. envs s6 e = envs s e\<lparr>pgdir := x, pgdir_pa := y\<rparr>"
      by (intro exI) (simp add: E)
    ultimately show ?thesis using run E by blast
  qed
qed


lemma env_alloc_steps:
  assumes wf: "wf_spaces s D" and pa: "pa_ok s" and k: "kernel_pages_ok s D (unat (ie div 4096))"
    and fl: "repr 0 (e # es) (free_link s)"
  shows "(\<exists>p s'. env_alloc ie parent s = Ret (0, Some e) s' \<and>
      fresh_space s D (unat (ie div 4096)) e p s' \<and> repr 0 es (free_link s') \<and>
      sched_link s' = sched_link s \<and> curenv s' = curenv s \<and> point s' = point s \<and>
      env_id (envs s' e) = push_bit 11 (next_env_id s + 1) OR of_nat e \<and>
      status (envs s' e) = ENV_RUNNABLE \<and> parent_id (envs s' e) = ucast parent \<and>
      ipc_recving (envs s' e) = ipc_recving (envs s e) \<and>
      pgfault_handler (envs s' e) = pgfault_handler (envs s e) \<and>
      xstacktop (envs s' e) = xstacktop (envs s e)) \<or>
    (page_alloc s = (None, s) \<and> (\<exists>m s'. env_alloc ie parent s = Panic m s' \<and> page_alloc s' = (None, s')))"
proof -
  have fst: "lh_first (free_link s) 0 = Some e" using fl by (rule repr_first)
  obtain l where l: "list_remove e (free_link s) = Some l" "repr 0 es l"
    using remove_repr [OF fl, of e] by auto
  let ?s = "s\<lparr>free_link := l\<rparr>"
  have same: "same_mem s ?s" by (simp add: same_mem_refl)
  note S = same_mem_simps [OF same]
  have "kernel_pages_ok ?s D n = kernel_pages_ok s D n" for n by (simp add: kernel_pages_ok_def S)
  from env_setup_vm_fresh [of ?s D ie e, unfolded S this, OF wf pa k] show ?thesis
  proof (elim disjE exE conjE)
    fix p s1 x y
    assume r: "env_setup_vm ie e ?s = Ret () s1"
      and f: "fresh_space ?s D (unat (ie div 4096)) e p s1"
      and k1: "free_link s1 = free_link ?s" "curenv s1 = curenv ?s" "next_env_id s1 = next_env_id ?s"
        "sched_link s1 = sched_link ?s" "point s1 = point ?s" "envs s1 e = envs ?s e\<lparr>pgdir := x, pgdir_pa := y\<rparr>"
    let ?id = "push_bit 11 (next_env_id s + 1) OR of_nat e"
    let ?s2 = "s1\<lparr>next_env_id := next_env_id s + 1\<rparr>"
    let ?v = "envs s1 e"
    let ?s3 = "set_env e (?v\<lparr>env_id := ?id, status := ENV_RUNNABLE, parent_id := ucast parent,
        tf := (tf ?v)\<lparr>spsr_el1 := 0x340, sp_el0 := USTACKTOP\<rparr>\<rparr>) ?s2"
    have run: "env_alloc ie parent s = Ret (0, Some e) ?s3"
      using fst l(1) r k1 by (simp add: env_alloc_def mkenvid_def Let_def)
    have same3: "same_mem s1 ?s3" by (simp add: same_mem_refl)
    note S3 = same_mem_simps [OF same3]
    have pte: "pte_for ?s i low_perm = pte_for s i low_perm" for i by (simp add: pte_for_def)
    have "fresh_space s D (unat (ie div 4096)) e p ?s3"
      using f unfolding fresh_space_def S S3 pte by simp
    then show ?thesis using run l(2) k1
      by (intro disjI1 exI [of _ p] exI [of _ ?s3]) simp
  next
    fix m assume "page_alloc ?s = (None, ?s)" "env_setup_vm ie e ?s = Panic m ?s"
    moreover have "page_alloc ?s = (None, ?s) \<Longrightarrow> page_alloc s = (None, s)"
      by (simp add: page_alloc_None)
    ultimately show ?thesis using fst l(1) by (simp add: env_alloc_def)
  qed
qed


section \<open>An example\<close>

lemma demo_kernel_mem: "same_mem demo_mem demo_kernel"
  by (simp add: same_mem_def demo_kernel_def)

lemma demo_kernel_wf: "wf_spaces demo_kernel {2000}" "pa_ok demo_kernel"
  "kernel_pages_ok demo_kernel {2000} 3" "repr 0 [1, 2] (free_link demo_kernel)"
proof -
  note S = same_mem_simps [OF demo_kernel_mem]
  show "wf_spaces demo_kernel {2000}" "pa_ok demo_kernel" unfolding S by (rule demo_mem_wf)+
  show "repr 0 [1, 2] (free_link demo_kernel)" using demo_links_repr by (simp add: demo_kernel_def)
  have used: "page_used demo_mem i" if "i < 3" for i
    using that demo_boot_used [of i] by (simp add: demo_mem_def demo_space_def page_used_ram)
  have ref: "page_ref demo_mem i \<noteq> -1" if "i < 3" for i
    using that by (simp add: demo_mem_def demo_space_def demo_boot_def init_boot_pt_ref zero_mem_def)
  have tab: "\<not> is_table demo_mem {2000} i" if "i < 3" for i
  proof -
    have "is_table demo_space {2000} q \<longleftrightarrow> q = 2000" for q
    proof -
      have "is_table demo_boot {} q = False" by (simp add: is_table_def)
      then show ?thesis using new_dir_is_table [OF boot_wf demo_space_new, of q] by (simp add: demo_boot_def)
    qed
    then show ?thesis using that same_tables_wf(3) [OF demo_space_wf, of demo_mem i] by (simp add: demo_mem_def)
  qed
  show "kernel_pages_ok demo_kernel {2000} 3"
    using used ref tab unfolding kernel_pages_ok_def S by simp
qed


lemma env_free_gives_back_witness:
  "\<exists>s'. env_free 1 (demo_kernel\<lparr>envs := (envs demo_kernel)(1 := null_env\<lparr>pgdir := Some 2000, pgdir_pa := 8192000\<rparr>)\<rparr>) =
     Ret () s' \<and> wf_spaces s' {}"
proof -
  let ?s = "demo_kernel\<lparr>envs := (envs demo_kernel)(1 := null_env\<lparr>pgdir := Some 2000, pgdir_pa := 8192000\<rparr>)\<rparr>"
  have "same_mem demo_kernel ?s" by (simp add: same_mem_refl)
  from same_mem_simps(9) [OF this] have "wf_spaces ?s {2000}" using demo_kernel_wf(1) by simp
  from env_free_gives_back [OF this, of 2000 1] show ?thesis by auto
qed

end
