(* ===== verification/Syscall.thy ===== *)
theory Syscall
  imports NewSpace
begin

text \<open>
  System calls: every handler of kernel/syscall_all.c and their dispatch in
  kernel/exception_handler.c. A handler's result for user mode is register 0 of the trap frame at
  \<open>*TRAPSP\<close>, field \<open>tf_cpu\<close>. The UART and the SD card are reached through the operations of \<open>devices\<close>,
  the addresses the linker chose through \<open>kconsts\<close>; both are parameters.
\<close>

section \<open>Parameters\<close>

record kconsts =
  init_end_addr :: u64
  envs_addr :: u64
  Kern_pgdir :: nat

record devices =
  printcharc :: "u8 \<Rightarrow> kstate \<Rightarrow> unit kres"
  readcharc :: "kstate \<Rightarrow> u64 kres"
  sd_readblock :: "u32 \<Rightarrow> u64 \<Rightarrow> kstate \<Rightarrow> u32 kres"
  sd_writeblock :: "u64 \<Rightarrow> u32 \<Rightarrow> kstate \<Rightarrow> u32 kres"

section \<open>The handlers (kernel/syscall_all.c)\<close>

definition set_reg0 :: "u64 \<Rightarrow> kstate \<Rightarrow> kstate" where
  "set_reg0 v s = s\<lparr>tf_cpu := (tf_cpu s)\<lparr>regs := (regs (tf_cpu s))(0 := v)\<rparr>\<rparr>"

text \<open>\<open>(*TRAPSP)->regs[0] = r; return;\<close> with \<open>r\<close> an \<open>int\<close>, sign-extended to the register.\<close>

definition answer :: "int \<Rightarrow> kstate \<Rightarrow> unit kres" where
  "answer r s = Ret () (set_reg0 (of_int r) s)"

text \<open>The idiom \<open>if ((r = envid2env(..)) < 0) { regs[0] = r; return; }\<close> followed by code that uses the environment.\<close>

definition with_env :: "u32 \<Rightarrow> bool \<Rightarrow> (nat \<Rightarrow> kstate \<Rightarrow> unit kres) \<Rightarrow> kstate \<Rightarrow> unit kres" where
  "with_env envid checkperm f s =
    obind (envid2env envid checkperm s) (\<lambda>(r, e) s1.
      if r < 0 then answer r s1 else deref e f s1)"

definition sys_putchar :: "devices \<Rightarrow> u64 \<Rightarrow> kstate \<Rightarrow> unit kres" where
  "sys_putchar dev c s = printcharc dev (ucast c) s"

definition sys_getc :: "devices \<Rightarrow> kstate \<Rightarrow> unit kres" where
  "sys_getc dev s = obind (readcharc dev s) (\<lambda>c s1. Ret () (set_reg0 c s1))"

definition sys_getenvid :: "kstate \<Rightarrow> unit kres" where
  "sys_getenvid s = deref (curenv s) (\<lambda>c s. Ret () (set_reg0 (ucast (env_id (envs s c))) s)) s"

definition sys_yield :: "kstate \<Rightarrow> unit kres" where
  "sys_yield s = sched_yield s"

definition sys_env_destroy :: "u32 \<Rightarrow> kstate \<Rightarrow> unit kres" where
  "sys_env_destroy envid s =
    with_env envid True (\<lambda>e s1. obind (env_destroy e s1) (\<lambda>_ s2. answer 0 s2)) s"

definition sys_set_pgfault_handler :: "u32 \<Rightarrow> u64 \<Rightarrow> u64 \<Rightarrow> kstate \<Rightarrow> unit kres" where
  "sys_set_pgfault_handler envid func xtop s =
    with_env envid True (\<lambda>e s1.
      answer 0 (set_env e (envs s1 e\<lparr>pgfault_handler := func, xstacktop := xtop\<rparr>) s1)) s"

definition sys_mem_alloc :: "u32 \<Rightarrow> u64 \<Rightarrow> u64 \<Rightarrow> kstate \<Rightarrow> unit kres" where
  "sys_mem_alloc envid va perm s =
    (if va \<ge> KERNBASE then answer (-1) s
     else with_env envid True (\<lambda>e s1.
       (case page_alloc s1 of
          (None, s2) \<Rightarrow> answer (-1) s2
        | (Some pp, s2) \<Rightarrow>
            deref (pgdir (envs s2 e)) (\<lambda>pd s2.
              (case page_insert pd pp va perm s2 of
                 (r, s3) \<Rightarrow> if r < 0 then answer r s3 else answer 0 s3)) s2)) s)"

definition sys_mem_map :: "u32 \<Rightarrow> u64 \<Rightarrow> u32 \<Rightarrow> u64 \<Rightarrow> u64 \<Rightarrow> kstate \<Rightarrow> unit kres" where
  "sys_mem_map srcid srcva dstid dstva perm s =
    (let round_srcva = ROUNDDOWN srcva BY2PG; round_dstva = ROUNDDOWN dstva BY2PG
     in if srcva \<ge> KERNBASE \<or> dstva \<ge> KERNBASE then answer (-1) s
        else with_env srcid False (\<lambda>src s1. with_env dstid False (\<lambda>dst s2.
          deref (pgdir (envs s2 src)) (\<lambda>spd s2.
            (case page_lookup spd round_srcva s2 of
               None \<Rightarrow> answer (-1) s2
             | Some (_, pte) \<Rightarrow>
                 (let ppage = pa2page (PTE_ADDR (rd pte s2))
                  in deref (pgdir (envs s2 dst)) (\<lambda>dpd s2.
                       (case page_insert dpd ppage round_dstva perm s2 of
                          (r, s3) \<Rightarrow> if r < 0 then answer r s3 else answer 0 s3)) s2))) s2) s1) s)"

text \<open>On success \<open>sys_mem_unmap\<close> leaves register 0, the number of the call, as it is.\<close>

definition sys_mem_unmap :: "u32 \<Rightarrow> u64 \<Rightarrow> kstate \<Rightarrow> unit kres" where
  "sys_mem_unmap envid va s =
    (if va \<ge> KERNBASE then answer (-1) s
     else with_env envid False (\<lambda>e s1.
       deref (pgdir (envs s1 e)) (\<lambda>pd s1. Ret () (page_remove pd va s1)) s1) s)"

definition sys_env_alloc :: "kconsts \<Rightarrow> kstate \<Rightarrow> unit kres" where
  "sys_env_alloc kc s =
    deref (curenv s) (\<lambda>c s.
      obind (env_alloc (init_end_addr kc) (ucast (env_id (envs s c))) s) (\<lambda>(r, new) s1.
        if r < 0 then answer r s1
        else deref new (\<lambda>e s1.
          (let s2 = set_env e (envs s1 e\<lparr>status := ENV_NOT_RUNNABLE, pri := pri (envs s1 c),
                      parent_id := env_id (envs s1 c), tf := (tf_cpu s1)\<lparr>regs := (regs (tf_cpu s1))(0 := 0)\<rparr>\<rparr>) s1
           in case list_insert_tail 0 e (sched_link s2) of
                None \<Rightarrow> Hang
              | Some l \<Rightarrow>
                  (let s3 = s2\<lparr>sched_link := l\<rparr>
                   in Ret () (set_reg0 (ucast (env_id (envs s3 e))) s3)))) s1)) s"

definition sys_set_env_status :: "u32 \<Rightarrow> u32 \<Rightarrow> kstate \<Rightarrow> unit kres" where
  "sys_set_env_status envid st s =
    (if st \<noteq> ENV_RUNNABLE \<and> st \<noteq> ENV_NOT_RUNNABLE \<and> st \<noteq> ENV_FREE then answer (-1) s
     else with_env envid True (\<lambda>e s1.
       obind (if st = ENV_FREE then env_destroy e s1 else Ret () s1) (\<lambda>_ s2.
         answer 0 (set_env e (envs s2 e\<lparr>status := st\<rparr>) s2))) s)"

definition sys_set_trapframe :: "kstate \<Rightarrow> unit kres" where
  "sys_set_trapframe s = Ret () (set_reg0 0 s)"

text \<open>The message is a user string; it is only printed.\<close>

definition sys_panic :: "kstate \<Rightarrow> unit kres" where
  "sys_panic s = Panic ''%s'' s"

definition sys_ipc_recv :: "u64 \<Rightarrow> kstate \<Rightarrow> unit kres" where
  "sys_ipc_recv dstva s =
    (if dstva \<ge> KERNBASE then Ret () s
     else deref (curenv s) (\<lambda>c s.
       sys_yield (set_env c (envs s c\<lparr>ipc_recving := 1, ipc_dstva := dstva,
                               status := ENV_NOT_RUNNABLE\<rparr>) s)) s)"

definition sys_ipc_can_send :: "u32 \<Rightarrow> u64 \<Rightarrow> u64 \<Rightarrow> u64 \<Rightarrow> kstate \<Rightarrow> unit kres" where
  "sys_ipc_can_send envid v srcva perm s =
    (if srcva \<ge> KERNBASE then answer (-1) s
     else with_env envid False (\<lambda>e s1.
       if ipc_recving (envs s1 e) = 0 then answer (- E_IPC_NOT_RECV) s1
       else deref (curenv s1) (\<lambda>c s1.
         (let s2 = set_env e (envs s1 e\<lparr>ipc_value := v, ipc_from := ucast (env_id (envs s1 c)),
                     ipc_perm := perm, ipc_recving := 0, status := ENV_RUNNABLE\<rparr>) s1
          in if srcva \<noteq> 0 then
               deref (pgdir (envs s2 c)) (\<lambda>cpd s2.
                 (case page_lookup cpd srcva s2 of
                    None \<Rightarrow> answer (-1) s2
                  | Some (p, _) \<Rightarrow>
                      deref (pgdir (envs s2 e)) (\<lambda>epd s2.
                        answer 0 (snd (page_insert epd p (ipc_dstva (envs s2 e)) perm s2))) s2)) s2
             else answer 0 s2)) s1) s)"

definition sys_get_envs :: "kconsts \<Rightarrow> kstate \<Rightarrow> unit kres" where
  "sys_get_envs kc s = Ret () (set_reg0 (envs_addr kc) s)"

definition sys_write_sd :: "devices \<Rightarrow> u64 \<Rightarrow> u32 \<Rightarrow> kstate \<Rightarrow> unit kres" where
  "sys_write_sd dev va secno s =
    (if va \<ge> KERNBASE then answer (- E_INVAL) s
     else obind (sd_writeblock dev va secno s) (\<lambda>r s1.
       if r = 0 then answer (- E_INVAL) s1 else answer 0 s1))"

definition sys_read_sd :: "devices \<Rightarrow> u64 \<Rightarrow> u32 \<Rightarrow> kstate \<Rightarrow> unit kres" where
  "sys_read_sd dev va secno s =
    (if va \<ge> KERNBASE then answer (- E_INVAL) s
     else obind (sd_readblock dev secno va s) (\<lambda>r s1.
       if r = 0 then answer (- E_INVAL) s1 else answer 0 s1))"

definition sys_get_pageref :: "u32 \<Rightarrow> kstate \<Rightarrow> unit kres" where
  "sys_get_pageref num s =
    (if num \<ge> 0x40000 then answer (- E_INVAL) s
     else Ret () (set_reg0 (ucast (page_ref s (unat num))) s))"

section \<open>Dispatch (kernel/exception_handler.c)\<close>

text \<open>
  \<open>syscall_init\<close> leaves entry 14 (\<open>SYS_cgetc\<close>) and entries 20 to 31 zero; calling one is a jump to
  address 0, which the kernel may not execute, so it takes the default branch of its own exception
  handler. \<open>wild\<close> stands for a call through whatever lies behind the array.
\<close>

definition syscall_handlers :: "devices \<Rightarrow> kconsts \<Rightarrow> nat \<Rightarrow> u64 list \<Rightarrow> kstate \<Rightarrow> unit kres" where
  "syscall_handlers dev kc n a s =
    (if n = 0 then sys_putchar dev (a ! 0) s
     else if n = 1 then sys_getenvid s
     else if n = 2 then sys_yield s
     else if n = 3 then sys_env_destroy (ucast (a ! 0)) s
     else if n = 4 then sys_set_pgfault_handler (ucast (a ! 0)) (a ! 1) (a ! 2) s
     else if n = 5 then sys_mem_alloc (ucast (a ! 0)) (a ! 1) (a ! 2) s
     else if n = 6 then sys_mem_map (ucast (a ! 0)) (a ! 1) (ucast (a ! 2)) (a ! 3) (a ! 4) s
     else if n = 7 then sys_mem_unmap (ucast (a ! 0)) (a ! 1) s
     else if n = 8 then sys_env_alloc kc s
     else if n = 9 then sys_set_env_status (ucast (a ! 0)) (ucast (a ! 1)) s
     else if n = 10 then sys_set_trapframe s
     else if n = 11 then sys_panic s
     else if n = 12 then sys_ipc_can_send (ucast (a ! 0)) (a ! 1) (a ! 2) (a ! 3) s
     else if n = 13 then sys_ipc_recv (a ! 0) s
     else if n = 15 then sys_get_envs kc s
     else if n = 16 then sys_write_sd dev (a ! 0) (ucast (a ! 1)) s
     else if n = 17 then sys_read_sd dev (a ! 0) (ucast (a ! 1)) s
     else if n = 18 then sys_get_pageref (ucast (a ! 0)) s
     else if n = 19 then sys_getc dev s
     else Panic ''[KERNEL]I don t know what the error is TAT!'' s)"

text \<open>
  \<open>page_fault_handler\<close> copies the trap frame, 36 words, below the exception stack's top, through the
  user's address space. A missing page is supplied by \<open>page_out\<close>; a store to a read-only page
  faults again for ever, since \<open>page_out\<close> finds the entry valid.
\<close>

fun tf_words :: "trapframe \<Rightarrow> u64 list" where
  "tf_words t = [far_el1 t, sp_el0 t, elr_el1 t, spsr_el1 t, count_down t] @ map (regs t) [0..<31]"

definition le_bytes :: "u64 \<Rightarrow> u8 list" where
  "le_bytes w = map (\<lambda>i. ucast (drop_bit (8 * i) w)) [0..<8]"

definition user_page :: "u64 \<Rightarrow> kstate \<Rightarrow> u64 option" where
  "user_page va s = vmap s (pte_page (User_pgdir s)) va"

definition put_user :: "u64 \<Rightarrow> u8 \<Rightarrow> kstate \<Rightarrow> unit kres" where
  "put_user va b s =
    (case user_page va s of
       None \<Rightarrow> Hang
     | Some e \<Rightarrow>
         if e AND PTE_RO \<noteq> 0 then Hang
         else Ret () (set_pbyte (pte_page e * 4096 + unat va mod 4096) b s))"

definition store_user :: "kconsts \<Rightarrow> u64 \<Rightarrow> u8 \<Rightarrow> kstate \<Rightarrow> unit kres" where
  "store_user kc va b s =
    (if user_page va s = None then
       obind (page_out (pte_page (User_pgdir s)) (Kern_pgdir kc) va s) (\<lambda>_ s1. put_user va b s1)
     else put_user va b s)"

fun store_user_bytes :: "kconsts \<Rightarrow> u64 \<Rightarrow> u8 list \<Rightarrow> kstate \<Rightarrow> unit kres" where
  "store_user_bytes kc va [] s = Ret () s"
| "store_user_bytes kc va (b # bs) s =
    obind (store_user kc va b s) (\<lambda>_ s1. store_user_bytes kc (va + 1) bs s1)"

definition page_fault_handler :: "kconsts \<Rightarrow> kstate \<Rightarrow> unit kres" where
  "page_fault_handler kc s =
    deref (curenv s) (\<lambda>c s.
      (let xtop = xstacktop (envs s c) - 288
       in obind (store_user_bytes kc xtop (concat (map le_bytes (tf_words (tf_cpu s)))) s)
            (\<lambda>_ s1. Ret () (s1\<lparr>tf_cpu := (tf_cpu s1)\<lparr>sp_el0 := xtop,
                                 elr_el1 := pgfault_handler (envs s1 c)\<rparr>\<rparr>)))) s"

definition synchronous_exception_handler ::
    "devices \<Rightarrow> kconsts \<Rightarrow> (u64 \<Rightarrow> kstate \<Rightarrow> unit kres) \<Rightarrow> u64 \<Rightarrow> u64 \<Rightarrow> kstate \<Rightarrow> unit kres" where
  "synchronous_exception_handler dev kc wild esr far s =
    (let EC = drop_bit 26 (esr AND 0xfc000000);
         DFSC = esr AND 0x3f;
         fault = (\<lambda>s. page_out (pte_page (User_pgdir s)) (Kern_pgdir kc) far s)
     in if EC = 0x24 then
          (if DFSC \<in> {0xd, 0xe, 0xf} then page_fault_handler kc s
           else if DFSC \<in> {4, 5, 6, 7} then fault s
           else Panic ''[KERNEL]I don t know what the data abort error is TAT!'' s)
        else if EC = 0x25 then fault s
        else if EC = 0x15 then
          (let x0 = regs (tf_cpu s) 0
           in if x0 < 32 then
                syscall_handlers dev kc (unat x0) (map (regs (tf_cpu s)) [1, 2, 3, 4, 5]) s
              else wild x0 s)
        else Panic ''[KERNEL]I don t know what the error is TAT!'' s)"

end
