(* ===== verification/Counts.thy ===== *)
theory Counts
  imports NewSpace
begin

text \<open>What \<open>page_insert\<close> (mm/pmap.c) does to reference counts, to the bitmap and to the set of tables, and what
  \<open>page_lookup\<close> finds.\<close>

definition insert_counts :: "'a pmem_scheme \<Rightarrow> nat set \<Rightarrow> nat option \<Rightarrow> nat \<Rightarrow> int \<times> 'a pmem_scheme \<Rightarrow> bool" where
  "insert_counts s D old pp res \<longleftrightarrow> page_pa (snd res) = page_pa s \<and>
     (\<forall>q. page_used s q \<longrightarrow> \<not> is_table s D q \<longrightarrow>
        \<not> is_table (snd res) D q \<and>
        page_ref (snd res) q =
          (if fst res = 0 \<and> old \<noteq> Some pp
           then page_ref s q - (if old = Some q then 1 else 0) + (if q = pp then 1 else 0)
           else page_ref s q) \<and>
        (page_used (snd res) q \<longleftrightarrow>
           \<not> (fst res = 0 \<and> old \<noteq> Some pp \<and> old = Some q \<and> page_ref s q = 1))) \<and>
     (\<forall>q. page_used s q \<longrightarrow> is_table s D q \<longrightarrow> page_used (snd res) q)"

lemma pred_pos: "x - 1 > 0 \<longleftrightarrow> x \<noteq> 1" for x :: u32
  by (auto simp: word_gt_0)

lemma node_is_table_cong:
  assumes "\<And>l. rd l s' = rd l s"
  shows "is_table s' D q = is_table s D q"
proof -
  have "node s' d js = node s d js" for d js by (rule node_cong) (simp add: assms)
  then show ?thesis by (simp add: is_table_def)
qed

lemma leaf_write_tables:
  assumes "wf_spaces s D" and "d \<in> D" and "user_va va" and "node s d [GET_L1_INDEX va, GET_L2_INDEX va] = Some t"
    and "\<And>l. l \<noteq> (t, k) \<Longrightarrow> rd l s' = rd l s"
  shows "is_table s' D q = is_table s D q"
proof -
  have "node s' d' js = node s d' js" if "d' \<in> D" "table_path js" for d' js
    by (rule leaf_write_nodes [OF assms(1,2) vpath_table(1) [OF assms(3)] assms(4,5) that])
  then show ?thesis unfolding is_table_def by (metis (no_types, lifting))
qed

lemma page_insert_counts:
  assumes wf: "wf_spaces s D" and pa: "pa_ok s" and d: "d \<in> D" and va: "user_va va"
    and pp: "page_used s pp" "\<not> is_table s D pp"
  shows "insert_counts s D (map_option pte_page (vmap s d va)) pp (page_insert d pp va perm s)"
proof (cases "vmap s d va")
  case None
  obtain r s' where ins: "page_insert d pp va perm s = (r, s')" by fastforce
  from insert_unmapped_frame [OF wf pa d va pp None ins] None show ?thesis
    by (auto simp: insert_counts_def ins)
next
  case (Some e)
  have lf: "leaf_path (vpath va)" using va by simp
  have pe: "pa2page e = pte_page e" using wf_entry [OF wf d lf] Some by (simp add: vmap_def)
  obtain t where t: "node s d [GET_L1_INDEX va, GET_L2_INDEX va] = Some t"
    and e: "rd (t, GET_L3_INDEX va) s = e" "e AND VALID \<noteq> 0" "\<not> is_table s D (pte_page e)"
    by (rule page_remove_mapped [OF wf d va Some])
  show ?thesis
  proof (cases "pte_page e = pp")
    case True
    then have "page_insert d pp va perm s = (0, wr (t, GET_L3_INDEX va) (pte_for s pp perm) s)"
      using t e pe by (auto simp: page_insert_def pgdir_walk_lookup Let_def pte_for_def simp del: node.simps)
    moreover have "is_table (wr (t, GET_L3_INDEX va) (pte_for s pp perm) s) D q = is_table s D q" for q
      by (rule leaf_write_tables [OF wf d va t, where k = "GET_L3_INDEX va"]) simp
    ultimately show ?thesis using Some True by (simp add: insert_counts_def)
  next
    case False
    let ?s1 = "page_remove d va s"
    have t1: "node ?s1 d [GET_L1_INDEX va, GET_L2_INDEX va] = Some t"
      using page_remove_wf(4) [OF wf d va vpath_table(1) [OF va]] t by (simp del: node.simps)
    have "page_insert d pp va perm s = (0, set_ref pp (page_ref ?s1 pp + 1)
      (wr (t, GET_L3_INDEX va) (pte_for ?s1 pp perm) ?s1))"
      using t e pe False pgdir_walk_exists [OF t1]
      by (auto simp: page_insert_def pgdir_walk_lookup Let_def pte_for_def simp del: node.simps)
    moreover have "is_table (wr (t, GET_L3_INDEX va) (pte_for ?s1 pp perm) ?s1) D q = is_table s D q" for q
      using leaf_write_tables [OF page_remove_wf(1) [OF wf d va] d va t1, of "GET_L3_INDEX va"
          "wr (t, GET_L3_INDEX va) (pte_for ?s1 pp perm) ?s1" q] page_remove_wf(2) [OF wf d va, of q] by simp
    moreover have "is_table (set_ref x y u) D q = is_table u D q" for x y q and u :: "'a pmem_scheme"
      by (rule node_is_table_cong) simp
    ultimately show ?thesis
      using page_remove_frame [OF wf d va] False Some e(3)
      by (auto simp: insert_counts_def pred_pos split: if_splits)
  qed
qed

lemma pte_page_bound: "pte_page e < 2 ^ 18"
proof -
  have "unat (PTE_ADDR e) \<le> unat (0x3ffff000 :: u64)"
    unfolding PTE_ADDR_def by (metis word_and_le1 word_le_nat_alt)
  then show ?thesis by (simp add: pte_page_def)
qed

lemma mapped_page:
  assumes wf: "wf_spaces s D" and d: "d \<in> D" and va: "user_va va" and l: "page_lookup d va s = Some (p, pte)"
  shows "p = pte_page (rd pte s)" "p < 2 ^ 18" "page_used s p" "\<not> is_table s D p"
proof -
  have v: "vmap s d va = Some (rd pte s)" and p: "p = pa2page (rd pte s)"
    using page_lookup_vmap [of d va s] l
    by (auto simp: page_lookup_def pgdir_walk_lookup vmap_unfold Let_def split: option.splits if_splits)
  have lf: "leaf_path (vpath va)" using va by simp
  show pp: "p = pte_page (rd pte s)" using wf_entry [OF wf d lf] v p by (simp add: vmap_def)
  show "p < 2 ^ 18" using pte_page_bound pp by simp
  have n: "node s d (vpath va) = Some p" using v lf pp by (simp add: node_leaf vmap_def)
  show "page_used s p" by (rule wf_ref_used [OF wf wf_mapped_ref [OF wf d lf n]])
  show "\<not> is_table s D p" by (rule wf_leaf_not_table [OF wf d lf n])
qed

end
