(* ===== verification/KernelInv.thy ===== *)
theory KernelInv
  imports Syscall Counts
begin

text \<open>
  The invariant of the kernel and its preservation by the system calls of kernel/syscall_all.c.
\<close>

section \<open>The invariant\<close>

definition live :: "kstate \<Rightarrow> nat set" where
  "live s = {e. e < NENV \<and> status (envs s e) \<noteq> ENV_FREE}"

definition dirs :: "kstate \<Rightarrow> nat set" where
  "dirs s = {d. \<exists>e \<in> live s. pgdir (envs s e) = Some d}"

text \<open>
  Every slot of the environment table is either on the free list or live; the live environments are
  the current one and, exactly once, those that wait in the ring. Each live environment has a
  directory of its own, and the directories are a well-formed set of address spaces.
\<close>

definition queues_ok :: "kstate \<Rightarrow> bool" where
  "queues_ok s \<longleftrightarrow> (\<exists>fl r. repr 0 fl (free_link s) \<and> set fl = {e. e < NENV} - live s \<and> ring s r \<and>
     distinct (waiting (curenv s) r) \<and> set (waiting (curenv s) r) = live s)"

definition dirs_ok :: "kstate \<Rightarrow> bool" where
  "dirs_ok s \<longleftrightarrow>
     (\<forall>e \<in> live s. \<exists>d. pgdir (envs s e) = Some d \<and> d < 2 ^ 18 \<and> pgdir_pa (envs s e) = of_nat (d * 4096)) \<and>
     (\<forall>e \<in> live s. \<forall>e' \<in> live s. pgdir (envs s e) = pgdir (envs s e') \<longrightarrow> e = e')"

text \<open>The translation of user addresses is that of the current environment.\<close>

definition user_ok :: "kstate \<Rightarrow> bool" where
  "user_ok s \<longleftrightarrow> (\<forall>c. curenv s = Some c \<longrightarrow> User_pgdir s = pgdir_pa (envs s c))"

definition kinv :: "kstate \<Rightarrow> bool" where
  "kinv s \<longleftrightarrow> queues_ok s \<and> dirs_ok s \<and> user_ok s \<and> wf_spaces s (dirs s) \<and> pa_ok s"

text \<open>What the invariant depends on.\<close>

definition same_env_view :: "env \<Rightarrow> env \<Rightarrow> bool" where
  "same_env_view v w \<longleftrightarrow> (status w = ENV_FREE \<longleftrightarrow> status v = ENV_FREE) \<and> pgdir w = pgdir v \<and>
     pgdir_pa w = pgdir_pa v"

lemma same_env_view_live:
  assumes "\<And>e. same_env_view (envs s e) (envs s' e)"
  shows "live s' = live s" "dirs s' = dirs s" "dirs_ok s' = dirs_ok s"
proof -
  show l: "live s' = live s" using assms by (auto simp: live_def same_env_view_def)
  show "dirs s' = dirs s" using assms by (simp add: dirs_def l same_env_view_def)
  show "dirs_ok s' = dirs_ok s" using assms by (simp add: dirs_ok_def l same_env_view_def)
qed

lemma kinv_cong:
  assumes inv: "kinv s" and mem: "same_mem s s'" and env: "\<And>e. same_env_view (envs s e) (envs s' e)"
    and q: "free_link s' = free_link s" "sched_link s' = sched_link s" "point s' = point s"
      "curenv s' = curenv s" "User_pgdir s' = User_pgdir s"
  shows "kinv s'"
proof -
  note L = same_env_view_live [OF env] and S = same_mem_simps [OF mem]
  have "queues_ok s' = queues_ok s" by (simp add: queues_ok_def ring_def q L(1))
  moreover have "user_ok s' = user_ok s" using env by (simp add: user_ok_def q same_env_view_def)
  ultimately show ?thesis using inv by (simp add: kinv_def L S)
qed

lemma kinv_mem:
  assumes inv: "kinv s" and more: "pmem.more s' = pmem.more s" and "wf_spaces s' (dirs s)" and "pa_ok s'"
  shows "kinv s'"
proof -
  note K = kstate_more [OF more]
  have L: "live s' = live s" "dirs s' = dirs s" by (simp_all add: live_def dirs_def K)
  have "queues_ok s' = queues_ok s" "dirs_ok s' = dirs_ok s" "user_ok s' = user_ok s"
    by (simp_all add: queues_ok_def dirs_ok_def user_ok_def ring_def K L)
  then show ?thesis using assms by (simp add: kinv_def L)
qed

lemma kinv_set_reg0: "kinv s \<Longrightarrow> kinv (set_reg0 v s)"
  by (erule kinv_cong) (simp_all add: set_reg0_def same_env_view_def same_mem_refl)

lemma kinv_answer: "kinv s \<Longrightarrow> out_inv kinv (answer r s)"
  by (simp add: answer_def kinv_set_reg0)

lemma kinv_set_env:
  assumes "kinv s" and "same_env_view (envs s e) v"
  shows "kinv (set_env e v s)"
  using assms(1)
  by (rule kinv_cong) (use assms(2) in \<open>auto simp: same_env_view_def same_mem_refl set_env_def\<close>)

lemma kinv_dir:
  assumes "kinv s" and "e \<in> live s"
  obtains d where "pgdir (envs s e) = Some d" and "d \<in> dirs s" and "d < 2 ^ 18"
    and "pgdir_pa (envs s e) = of_nat (d * 4096)"
  using assms unfolding kinv_def dirs_ok_def dirs_def by blast

lemma kinv_spaces: "kinv s \<Longrightarrow> wf_spaces s (dirs s)" "kinv s \<Longrightarrow> pa_ok s"
  by (simp_all add: kinv_def)

lemma kinv_cur: "kinv s \<Longrightarrow> curenv s = Some c \<Longrightarrow> c \<in> live s"
  by (auto simp: kinv_def queues_ok_def waiting_def)

section \<open>Finding the environment\<close>

lemma deref_inv: "(\<And>x. p = Some x \<Longrightarrow> out_inv P (f x s)) \<Longrightarrow> out_inv P (deref p f s)"
  by (simp add: deref_def null_deref_def split: option.split)

lemma envid2env_result:
  assumes "kinv s"
  shows "(\<exists>r e. envid2env envid c s = Ret (r, e) s \<and> (r < 0 \<or>
      (\<forall>x. e = Some x \<longrightarrow> x \<in> live s \<and> (envid = 0 \<and> curenv s = Some x \<or> envid \<noteq> 0 \<and> ENVX envid = x)))) \<or>
    (\<exists>m s'. envid2env envid c s = Panic m s')"
proof -
  have "ENVX envid < NENV"
  proof -
    have "unat (envid AND 1023) \<le> unat (1023 :: u32)" by (metis word_and_le1 word_le_nat_alt)
    then show ?thesis by (simp add: ENVX_def)
  qed
  then show ?thesis
    using kinv_cur [OF assms]
    by (auto simp: envid2env_def deref_def null_deref_def Let_def live_def split: option.split)
qed

lemma with_env_inv:
  assumes inv: "kinv s"
    and f: "\<And>e. e \<in> live s \<Longrightarrow> envid = 0 \<and> curenv s = Some e \<or> envid \<noteq> 0 \<and> ENVX envid = e \<Longrightarrow> out_inv kinv (f e s)"
  shows "out_inv kinv (with_env envid c f s)"
  using envid2env_result [OF inv, of envid c] f kinv_answer [OF inv]
  by (auto simp: with_env_def intro!: deref_inv)

section \<open>Memory calls\<close>

lemma user_va_ROUNDDOWN: "user_va (ROUNDDOWN va 4096) = user_va va"
proof -
  have "drop_bit 30 (va AND NOT (mask 12)) = drop_bit 30 (va :: u64)"
    by (rule bit_word_eqI) (auto simp: bit_simps dest: bit_imp_le_length)
  then show ?thesis by (simp add: user_va_def GET_L1_INDEX_def ROUNDDOWN_def mask12)
qed

lemma page_insert_kinv:
  assumes inv: "kinv s" and d: "d \<in> dirs s" and "user_va va" "perm_ok perm"
    and "p < 2 ^ 18" "page_used s p" "\<not> is_table s (dirs s) p" "page_ref s p \<noteq> -1"
  shows "kinv (snd (page_insert d p va perm s))"
proof -
  have "inserts s (dirs s) d va (pte_for s p perm) (page_insert d p va perm s)"
    using page_insert_inserts [OF kinv_spaces [OF inv] d assms(3-8)] .
  then show ?thesis
    by (intro kinv_mem [OF inv]) (simp_all add: inserts_def)
qed

lemma page_alloc_kinv:
  assumes inv: "kinv s" and al: "page_alloc s = (r, s1)"
  shows "kinv s1" "dirs s1 = dirs s" "envs s1 = envs s" "curenv s1 = curenv s"
    "\<And>p. r = Some p \<Longrightarrow> p < 2 ^ 18 \<and> page_used s1 p \<and> \<not> is_table s1 (dirs s) p \<and> page_ref s1 p = 0"
proof -
  note K = kstate_more [OF more_page_allocD [OF al]]
  show "envs s1 = envs s" "curenv s1 = curenv s" by (simp_all add: K)
  show "dirs s1 = dirs s" by (simp add: dirs_def live_def K)
  have "wf_spaces s1 (dirs s) \<and> pa_ok s1"
  proof (cases r)
    case None
    then show ?thesis using al page_alloc_None [of s s1] kinv_spaces [OF inv] by simp
  next
    case (Some p)
    then show ?thesis using page_alloc_spaces [OF kinv_spaces [OF inv]] al by blast
  qed
  then show "kinv s1" by (intro kinv_mem [OF inv more_page_allocD [OF al]]) auto
  show "p < 2 ^ 18 \<and> page_used s1 p \<and> \<not> is_table s1 (dirs s) p \<and> page_ref s1 p = 0" if "r = Some p" for p
    using page_alloc_spaces [OF kinv_spaces [OF inv], of p s1] page_alloc_fresh [of s p s1] al that by simp
qed

lemma sys_mem_alloc_kinv:
  assumes "kinv s" and "user_va va" and "perm_ok perm"
  shows "out_inv kinv (sys_mem_alloc envid va perm s)"
proof -
  have "out_inv kinv (case page_alloc s of
          (None, s2) \<Rightarrow> answer (-1) s2
        | (Some pp, s2) \<Rightarrow>
            deref (pgdir (envs s2 e)) (\<lambda>pd s2.
              (case page_insert pd pp va perm s2 of
                 (r, s3) \<Rightarrow> if r < 0 then answer r s3 else answer 0 s3)) s2)" if e: "e \<in> live s" for e
  proof (cases "page_alloc s")
    case (Pair r s2)
    note A = page_alloc_kinv [OF assms(1) Pair]
    show ?thesis
    proof (cases r)
      case None
      then show ?thesis using Pair A(1) by (simp add: kinv_answer)
    next
      case (Some p)
      obtain d where d: "pgdir (envs s e) = Some d" "d \<in> dirs s" by (rule kinv_dir [OF assms(1) e])
      have "kinv (snd (page_insert d p va perm s2))"
        using A(2) A(5) [OF Some] d assms by (intro page_insert_kinv [OF A(1)]) simp_all
      then show ?thesis
        using Pair Some d A(3) by (auto simp: deref_def kinv_answer split: prod.split)
    qed
  qed
  then show ?thesis unfolding sys_mem_alloc_def
    using assms(1) by (auto intro!: with_env_inv kinv_answer)
qed


lemma sys_mem_unmap_kinv:
  assumes "kinv s" and "user_va va"
  shows "out_inv kinv (sys_mem_unmap envid va s)"
proof -
  have "out_inv kinv (deref (pgdir (envs s e)) (\<lambda>pd s1. Ret () (page_remove pd va s1)) s)" if e: "e \<in> live s" for e
  proof -
    obtain d where d: "pgdir (envs s e) = Some d" "d \<in> dirs s" by (rule kinv_dir [OF assms(1) e])
    have "kinv (page_remove d va s)"
      using page_remove_wf(1) [OF kinv_spaces(1) [OF assms(1)] d(2) assms(2)] kinv_spaces(2) [OF assms(1)]
        page_remove_frame(1) [OF kinv_spaces(1) [OF assms(1)] d(2) assms(2)]
      by (intro kinv_mem [OF assms(1)]) (simp_all add: pa_ok_def)
    then show ?thesis using d(1) by (simp add: deref_def)
  qed
  then show ?thesis unfolding sys_mem_unmap_def using assms(1) by (auto intro!: with_env_inv kinv_answer)
qed

text \<open>Mapping a page that some live environment has mapped.\<close>

lemma map_found_kinv:
  assumes inv: "kinv s" and d: "d \<in> dirs s" "user_va va" "page_lookup d va s = Some (p, pte)"
    and d': "d' \<in> dirs s" "user_va va'" "perm_ok perm" and max: "\<forall>q. page_ref s q \<noteq> -1"
  shows "kinv (snd (page_insert d' p va' perm s))"
  using mapped_page [OF kinv_spaces(1) [OF inv] d] max
  by (intro page_insert_kinv [OF inv d']) simp_all

lemma sys_mem_map_kinv:
  assumes inv: "kinv s" and va: "user_va srcva" "user_va dstva" "perm_ok perm"
    and max: "\<forall>q. page_ref s q \<noteq> -1"
  shows "out_inv kinv (sys_mem_map srcid srcva dstid dstva perm s)"
proof -
  have "out_inv kinv (deref (pgdir (envs s src)) (\<lambda>spd s2.
            (case page_lookup spd (ROUNDDOWN srcva BY2PG) s2 of
               None \<Rightarrow> answer (-1) s2
             | Some (_, pte) \<Rightarrow>
                 (let ppage = pa2page (PTE_ADDR (rd pte s2))
                  in deref (pgdir (envs s2 dst)) (\<lambda>dpd s2.
                       (case page_insert dpd ppage (ROUNDDOWN dstva BY2PG) perm s2 of
                          (r, s3) \<Rightarrow> if r < 0 then answer r s3 else answer 0 s3)) s2))) s)"
    if e: "src \<in> live s" "dst \<in> live s" for src dst
  proof -
    obtain d where d: "pgdir (envs s src) = Some d" "d \<in> dirs s" by (rule kinv_dir [OF inv e(1)])
    obtain d' where d': "pgdir (envs s dst) = Some d'" "d' \<in> dirs s" by (rule kinv_dir [OF inv e(2)])
    note uv = user_va_ROUNDDOWN [THEN iffD2]
    show ?thesis
    proof (cases "page_lookup d (ROUNDDOWN srcva 4096) s")
      case None
      then show ?thesis using d inv by (simp add: deref_def kinv_answer)
    next
      case (Some pl)
      obtain p pte where pl: "pl = (p, pte)" by (cases pl)
      have "p = pte_page (rd pte s)"
        using mapped_page(1) [OF kinv_spaces(1) [OF inv] d(2) uv [OF va(1)]] Some pl by simp
      then have "kinv (snd (page_insert d' (pte_page (rd pte s)) (ROUNDDOWN dstva 4096) perm s))"
        using map_found_kinv [OF inv d(2) uv [OF va(1)] _ d'(2) uv [OF va(2)] va(3) max] Some pl by simp
      then show ?thesis
        using d d' Some pl by (auto simp: deref_def Let_def pa2page_PTE_ADDR kinv_answer split: prod.split)
    qed
  qed
  then show ?thesis
    unfolding sys_mem_map_def Let_def using inv by (auto intro!: with_env_inv kinv_answer)
qed

lemma sys_ipc_can_send_kinv:
  assumes inv: "kinv s" and va: "user_va srcva" "perm_ok perm" "\<forall>e. user_va (ipc_dstva (envs s e))"
    and max: "\<forall>q. page_ref s q \<noteq> -1"
  shows "out_inv kinv (sys_ipc_can_send envid v srcva perm s)"
proof -
  have "out_inv kinv (if ipc_recving (envs s e) = 0 then answer (- E_IPC_NOT_RECV) s
       else deref (curenv s) (\<lambda>c s1.
         (let s2 = set_env e (envs s1 e\<lparr>ipc_value := v, ipc_from := ucast (env_id (envs s1 c)),
                     ipc_perm := perm, ipc_recving := 0, status := ENV_RUNNABLE\<rparr>) s1
          in if srcva \<noteq> 0 then
               deref (pgdir (envs s2 c)) (\<lambda>cpd s2.
                 (case page_lookup cpd srcva s2 of
                    None \<Rightarrow> answer (-1) s2
                  | Some (p, _) \<Rightarrow>
                      deref (pgdir (envs s2 e)) (\<lambda>epd s2.
                        answer 0 (snd (page_insert epd p (ipc_dstva (envs s2 e)) perm s2))) s2)) s2
             else answer 0 s2)) s)" if e: "e \<in> live s" for e
  proof (cases "ipc_recving (envs s e) = 0")
    case True
    then show ?thesis using inv by (simp add: kinv_answer)
  next
    case False
    have "out_inv kinv (let s2 = set_env e (envs s e\<lparr>ipc_value := v, ipc_from := ucast (env_id (envs s c)),
                     ipc_perm := perm, ipc_recving := 0, status := ENV_RUNNABLE\<rparr>) s
          in if srcva \<noteq> 0 then
               deref (pgdir (envs s2 c)) (\<lambda>cpd s2.
                 (case page_lookup cpd srcva s2 of
                    None \<Rightarrow> answer (-1) s2
                  | Some (p, _) \<Rightarrow>
                      deref (pgdir (envs s2 e)) (\<lambda>epd s2.
                        answer 0 (snd (page_insert epd p (ipc_dstva (envs s2 e)) perm s2))) s2)) s2
             else answer 0 s2)" if c: "curenv s = Some c" for c
    proof -
      define s2 where "s2 = set_env e (envs s e\<lparr>ipc_value := v, ipc_from := ucast (env_id (envs s c)),
                     ipc_perm := perm, ipc_recving := 0, status := ENV_RUNNABLE\<rparr>) s"
      have view: "same_env_view (envs s x) (envs s2 x)" for x
        using e by (simp add: s2_def same_env_view_def live_def)
      have inv2: "kinv s2" unfolding s2_def
        by (rule kinv_set_env [OF inv]) (use e in \<open>simp add: same_env_view_def live_def\<close>)
      note L = same_env_view_live [OF view]
      have ref2: "page_ref s2 = page_ref s" by (simp add: s2_def)
      have e2: "e \<in> live s2" "c \<in> live s2" using e kinv_cur [OF inv c] by (simp_all add: L)
      obtain d where d: "pgdir (envs s2 c) = Some d" "d \<in> dirs s2" by (rule kinv_dir [OF inv2 e2(2)])
      obtain d' where d': "pgdir (envs s2 e) = Some d'" "d' \<in> dirs s2" by (rule kinv_dir [OF inv2 e2(1)])
      have dst: "user_va (ipc_dstva (envs s2 e))" using va(3) by (simp add: s2_def)
      have "out_inv kinv (answer 0 (snd (page_insert d' p (ipc_dstva (envs s2 e)) perm s2)))"
        if "page_lookup d srcva s2 = Some (p, pte)" for p pte
        using map_found_kinv [OF inv2 d(2) va(1) that d'(2) dst va(2)] max ref2 by (simp add: kinv_answer)
      then show ?thesis
        unfolding Let_def s2_def [symmetric]
        using d d' inv2 by (auto simp: deref_def kinv_answer split: option.split)
    qed
    then show ?thesis using False by (simp add: deref_inv)
  qed
  then show ?thesis unfolding sys_ipc_can_send_def
    using inv by (auto intro!: with_env_inv kinv_answer)
qed


section \<open>Scheduling calls\<close>

lemma switched_view:
  assumes "switched s x s'"
  shows "same_env_view (envs s e) (envs s' e)" "same_mem s s'" "free_link s' = free_link s"
proof -
  obtain n where n: "envs s' x = envs s x\<lparr>env_runs := n, tf := tf_cpu s'\<rparr>"
    using assms unfolding switched_def by blast
  have o: "envs s' e = (if curenv s = Some e then envs s e\<lparr>tf := tf_cpu s\<rparr> else envs s e)" if "e \<noteq> x"
    using assms that unfolding switched_def by blast
  show "same_env_view (envs s e) (envs s' e)"
    by (cases "e = x") (simp_all add: n o same_env_view_def)
  show "same_mem s s'" "free_link s' = free_link s"
    using assms unfolding switched_def same_mem_def by blast+
qed

lemma sched_yield_kinv:
  assumes inv: "kinv s"
  shows "out_inv kinv (sched_yield s)"
proof -
  obtain fl r where fl: "repr 0 fl (free_link s)" "set fl = {e. e < NENV} - live s" and r: "ring s r"
    and w: "distinct (waiting (curenv s) r)" "set (waiting (curenv s) r) = live s"
    using inv unfolding kinv_def queues_ok_def by blast
  have step: "kinv s'" if sw: "switched s x s'" and r': "ring s' r'" "distinct (waiting (Some x) r')"
    "set (waiting (Some x) r') = live s" for x s' r'
  proof -
    note V = switched_view [OF sw] and L = same_env_view_live [OF switched_view(1) [OF sw]]
      and S = same_mem_simps [OF switched_view(2) [OF sw]]
    have "curenv s' = Some x" using sw by (simp add: switched_def)
    then have "queues_ok s'"
      unfolding queues_ok_def L V(3) using fl r' by (intro exI [of _ fl] exI [of _ r']) simp
    moreover have "user_ok s'"
      using sw V(1) [of x] by (simp add: user_ok_def switched_def same_env_view_def)
    ultimately show ?thesis using inv by (simp add: kinv_def L S)
  qed
  show ?thesis
  proof (cases "loops (curenv s) s")
    case False
    then obtain c where c: "curenv s = Some c" by (auto simp: loops_def)
    obtain s' where "sched_yield s = Eret s'" "switched s c s'" "ring s' r"
      using sched_yield_round_robin_lemma [OF r w(1)] False c by auto
    then show ?thesis using step [of c s' r] w c by simp
  next
    case True
    show ?thesis
    proof (cases "rotate_to (eligible s) (waiting (curenv s) r)")
      case None
      then show ?thesis using sched_yield_cases [OF r w(1) True] by (auto split: if_splits)
    next
      case (Some xr)
      obtain x r' where xr: "xr = (x, r')" by (cases xr)
      obtain s' where s': "sched_yield s = Eret s'" "switched s x s'" "ring s' r'"
        using sched_yield_cases [OF r w(1) True] Some xr by auto
      obtain as bs where "waiting (curenv s) r = as @ x # bs" "r' = bs @ as"
        using Some xr rotate_to_split by blast
      then have "distinct (waiting (Some x) r')" "set (waiting (Some x) r') = live s"
        using w by (auto simp: waiting_def)
      then show ?thesis using step [OF s'(2,3)] s'(1) by simp
    qed
  qed
qed

lemma sys_ipc_recv_kinv:
  assumes "kinv s"
  shows "out_inv kinv (sys_ipc_recv dstva s)"
proof -
  have "kinv (set_env c (envs s c\<lparr>ipc_recving := 1, ipc_dstva := dstva, status := ENV_NOT_RUNNABLE\<rparr>) s)"
    if "curenv s = Some c" for c
    by (rule kinv_set_env [OF assms])
      (use kinv_cur [OF assms that] in \<open>simp add: same_env_view_def live_def\<close>)
  then show ?thesis
    using assms by (auto simp: sys_ipc_recv_def sys_yield_def intro!: deref_inv sched_yield_kinv)
qed

lemma sys_set_pgfault_handler_kinv:
  "kinv s \<Longrightarrow> out_inv kinv (sys_set_pgfault_handler envid func xtop s)"
  by (auto simp: sys_set_pgfault_handler_def same_env_view_def
      intro!: with_env_inv kinv_answer kinv_set_env)

section \<open>Ending and starting environments\<close>

lemma env_destroy_current_kinv:
  assumes inv: "kinv s" and c: "curenv s = Some c"
  shows "out_inv kinv (env_destroy c s)"
proof -
  have cl: "c \<in> live s" by (rule kinv_cur [OF inv c])
  obtain d where d: "pgdir (envs s c) = Some d" "d \<in> dirs s" "d < 2 ^ 18"
    "pgdir_pa (envs s c) = of_nat (d * 4096)" by (rule kinv_dir [OF inv cl])
  obtain fl r where fl: "repr 0 fl (free_link s)" "set fl = {e. e < NENV} - live s" and r: "ring s r"
    and w: "distinct (waiting (curenv s) r)" "set (waiting (curenv s) r) = live s"
    using inv unfolding kinv_def queues_ok_def by blast
  obtain s1 where run: "env_free c s = Ret () s1" and wf1: "wf_spaces s1 (dirs s - {d})"
    and e1: "envs s1 = (envs s)(c := envs s c\<lparr>pgdir := None, pgdir_pa := 0, status := ENV_FREE\<rparr>)"
    and q1: "curenv s1 = curenv s" "sched_link s1 = sched_link s" "point s1 = point s"
      "free_link s1 = list_insert_head 0 c (free_link s)" and pa1: "page_pa s1 = page_pa s"
    using env_free_result [OF kinv_spaces(1) [OF inv] d(2,3,1,4)] by blast
  let ?s = "s1\<lparr>curenv := None\<rparr>"
  have L: "live ?s = live s - {c}" by (auto simp: live_def e1)
  have others: "pgdir (envs s e) \<noteq> Some d" if "e \<in> live s - {c}" for e
    using inv that cl d(1) unfolding kinv_def dirs_ok_def by force
  have D: "dirs ?s = dirs s - {d}"
    using others d(1) by (auto simp: dirs_def L e1)
  have same: "same_mem s1 ?s" by (simp add: same_mem_refl)
  note S = same_mem_simps [OF same]
  have "wf_spaces ?s (dirs ?s)" "pa_ok ?s"
    unfolding S D using wf1 kinv_spaces(2) [OF inv] by (simp_all add: pa_ok_def pa1)
  moreover have "dirs_ok ?s"
    using inv unfolding kinv_def dirs_ok_def L by (simp add: e1)
  moreover have "queues_ok ?s"
  proof -
    have "c < NENV" "c \<notin> set fl" using cl fl(2) by (auto simp: live_def)
    then have f: "repr 0 (c # fl) (free_link ?s)" "set (c # fl) = {e. e < NENV} - live ?s"
      using insert_head_repr [OF fl(1)] fl(2) L q1(4) by auto
    have "ring ?s r" using r by (simp add: ring_def q1)
    moreover have "distinct (waiting (curenv ?s) r)" "set (waiting (curenv ?s) r) = live ?s"
      using w c L by (auto simp: waiting_def)
    ultimately show ?thesis unfolding queues_ok_def using f by blast
  qed
  moreover have "user_ok ?s" by (simp add: user_ok_def)
  ultimately have "kinv ?s" by (simp add: kinv_def)
  then show ?thesis using run q1(1) c by (simp add: env_destroy_def sched_yield_kinv)
qed

lemma env_destroy_current_leaves:
  assumes "kinv s" and "curenv s = Some c"
  shows "\<not> (\<exists>s'. env_destroy c s = Ret () s')"
proof
  assume "\<exists>s'. env_destroy c s = Ret () s'"
  then obtain s' where "env_destroy c s = Ret () s'" ..
  moreover have "curenv s1 = curenv s" if "env_free c s = Ret () s1" for s1
    using that by (auto simp: env_free_def deref_def null_deref_def Let_def split: option.splits)
  moreover have "sched_yield t \<noteq> Ret () u" for t u
    by (auto simp: sched_yield_def outcome_simps env_run_def Let_def)
  ultimately show False using assms(2) by (auto simp: env_destroy_def outcome_simps)
qed


lemma env_destroy_current_then:
  assumes "kinv s" and "curenv s = Some c"
  shows "out_inv kinv (obind (env_destroy c s) f)"
  using env_destroy_current_kinv [OF assms] env_destroy_current_leaves [OF assms]
  by (cases "env_destroy c s") auto

lemma sys_env_destroy_kinv:
  assumes "kinv s" and "envid \<noteq> 0 \<longrightarrow> curenv s = Some (ENVX envid)"
  shows "out_inv kinv (sys_env_destroy envid s)"
  unfolding sys_env_destroy_def
  by (rule with_env_inv [OF assms(1)]) (use assms in \<open>auto intro: env_destroy_current_then\<close>)

lemma sys_set_env_status_kinv:
  assumes "kinv s" and "st = ENV_FREE \<and> envid \<noteq> 0 \<longrightarrow> curenv s = Some (ENVX envid)"
  shows "out_inv kinv (sys_set_env_status envid st s)"
proof -
  have body: "out_inv kinv (obind (if st = ENV_FREE then env_destroy e s else Ret () s) (\<lambda>_ s2.
      answer 0 (set_env e (envs s2 e\<lparr>status := st\<rparr>) s2)))"
    if e: "e \<in> live s" "envid = 0 \<and> curenv s = Some e \<or> envid \<noteq> 0 \<and> ENVX envid = e" for e
  proof (cases "st = ENV_FREE")
    case True
    then have "curenv s = Some e" using assms(2) e(2) by (cases "envid = 0") (auto simp: ENVX_def)
    then show ?thesis using True by (simp add: env_destroy_current_then [OF assms(1)])
  next
    case False
    then have "kinv (set_env e (envs s e\<lparr>status := st\<rparr>) s)"
      using e by (intro kinv_set_env [OF assms(1)]) (simp add: same_env_view_def live_def)
    then show ?thesis using False by (simp add: kinv_answer)
  qed
  show ?thesis unfolding sys_set_env_status_def
    by (simp only: kinv_answer [OF assms(1)] split: if_split) (intro conjI impI TrueI with_env_inv [OF assms(1)] body)
qed

lemma ring_insert_list0:
  assumes "ring s r" and "e \<notin> set r"
  shows "\<exists>l r'. list_insert_tail 0 e (sched_link s) = Some l \<and> ring (s\<lparr>sched_link := l\<rparr>) r' \<and>
    set r' = insert e (set r)"
proof -
  obtain xs ys where r: "r = xs @ ys" "point s \<le> 1" "distinct r"
    and x: "repr (point s) xs (sched_link s)" and y: "repr (1 - point s) ys (sched_link s)"
    using assms(1) unfolding ring_def by blast
  show ?thesis
  proof (cases "point s = 0")
    case True
    obtain l where l: "list_insert_tail 0 e (sched_link s) = Some l" "repr 0 (xs @ [e]) l" "repr 1 ys l"
      using lq.push_tail [of 0 xs "sched_link s" 1 ys e] x y True r assms(2) by auto
    have "ring (s\<lparr>sched_link := l\<rparr>) ((xs @ [e]) @ ys)"
      unfolding ring_def using True l r assms(2)
      by (intro conjI exI [of _ "xs @ [e]"] exI [of _ ys]) auto
    then show ?thesis using l(1) r(1) by (intro exI [of _ l] exI [of _ "(xs @ [e]) @ ys"]) auto
  next
    case False
    then have p: "point s = 1" using r(2) by simp
    obtain l where l: "list_insert_tail 0 e (sched_link s) = Some l" "repr 0 (ys @ [e]) l" "repr 1 xs l"
      using lq.push_tail [of 0 ys "sched_link s" 1 xs e] x y p r assms(2) by auto
    have "ring (s\<lparr>sched_link := l\<rparr>) (xs @ ys @ [e])"
      unfolding ring_def using p l r assms(2)
      by (intro conjI exI [of _ xs] exI [of _ "ys @ [e]"]) auto
    then show ?thesis using l(1) r(1) by (intro exI [of _ l] exI [of _ "xs @ ys @ [e]"]) auto
  qed
qed

lemma fresh_space_kinv:
  assumes inv: "kinv s" and f: "fresh_space s (dirs s) n e p s1" and e: "e < NENV" "e \<notin> live s"
    and st: "status (envs s1 e) \<noteq> ENV_FREE" "curenv s1 = curenv s"
    and q: "repr 0 fl (free_link s1)" "set fl = {e. e < NENV} - insert e (live s)"
      "ring s1 r" "distinct (waiting (curenv s1) r)" "set (waiting (curenv s1) r) = insert e (live s)"
  shows "kinv s1"
proof -
  have o: "envs s1 e' = envs s e'" if "e' \<noteq> e" for e' using f that by (simp add: fresh_space_def)
  have pd: "pgdir (envs s1 e) = Some p" "pgdir_pa (envs s1 e) = of_nat (p * 4096)" "p < 2 ^ 18"
    "p \<notin> dirs s" using f by (simp_all add: fresh_space_def)
  have L: "live s1 = insert e (live s)" unfolding live_def using o e st by (auto, metis+)
  have oe: "pgdir (envs s1 e') = pgdir (envs s e')" "pgdir_pa (envs s1 e') = pgdir_pa (envs s e')"
    if "e' \<in> live s" for e'
  proof -
    have ne: "e' \<noteq> e" using that e(2) by blast
    show "pgdir (envs s1 e') = pgdir (envs s e')" "pgdir_pa (envs s1 e') = pgdir_pa (envs s e')"
      by (simp_all add: o [OF ne])
  qed
  have D: "dirs s1 = insert p (dirs s)" using pd(1) oe by (auto simp: dirs_def L)
  have "dirs_ok s1"
  proof -
    have ne: "pgdir (envs s e') \<noteq> Some p" if "e' \<in> live s" for e' using pd(4) that by (auto simp: dirs_def)
    have "dirs_ok s" using inv by (simp add: kinv_def)
    then show ?thesis unfolding dirs_ok_def L using pd oe ne by (auto simp del: of_nat_mult)
  qed
  moreover have "queues_ok s1" unfolding queues_ok_def L using q by blast
  moreover have "wf_spaces s1 (dirs s1)" "pa_ok s1" using f by (simp_all add: D fresh_space_def)
  moreover have "user_ok s1"
    using inv f oe(2) kinv_cur [OF inv] by (simp add: user_ok_def kinv_def fresh_space_def st(2))
  ultimately show ?thesis by (simp add: kinv_def)
qed

lemma free_slot:
  assumes "repr 0 (e # es) (free_link s)" and "set (e # es) = {e. e < NENV} - live s"
  shows "e < NENV" "e \<notin> live s" "set es = {e. e < NENV} - insert e (live s)"
proof -
  have "e \<in> {e. e < NENV} - live s" using assms(2) by auto
  then show "e < NENV" "e \<notin> live s" by blast+
  have "distinct (e # es)" using repr_distinct [OF assms(1)] .
  then show "set es = {e. e < NENV} - insert e (live s)" using assms(2) by auto
qed

lemma fresh_space_queued:
  assumes inv: "kinv s" and f: "fresh_space s (dirs s) n e p s1" and st: "status (envs s1 e) \<noteq> ENV_FREE"
    and fl: "repr 0 (e # es) (free_link s)" "set (e # es) = {e. e < NENV} - live s"
    and q: "repr 0 es (free_link s1)" "sched_link s1 = sched_link s" "curenv s1 = curenv s" "point s1 = point s"
  obtains l where "list_insert_tail 0 e (sched_link s1) = Some l" and "kinv (s1\<lparr>sched_link := l\<rparr>)"
proof -
  obtain r where r: "ring s r" and w: "distinct (waiting (curenv s) r)" "set (waiting (curenv s) r) = live s"
    using inv unfolding kinv_def queues_ok_def by blast
  note e = free_slot [OF fl]
  have "ring s1 r" using r q by (simp add: ring_def)
  moreover have "e \<notin> set r" using e(2) w(2) by (auto simp: waiting_def split: option.splits)
  ultimately obtain l r' where l: "list_insert_tail 0 e (sched_link s1) = Some l"
    "ring (s1\<lparr>sched_link := l\<rparr>) r'" "set r' = insert e (set r)"
    using ring_insert_list0 by blast
  define t where "t = s1\<lparr>sched_link := l\<rparr>"
  have same: "same_mem s1 t" by (simp add: t_def same_mem_def)
  have ft: "fresh_space s (dirs s) n e p t"
    using f unfolding fresh_space_def same_mem_simps [OF same] by (simp add: t_def)
  have "kinv t"
  proof (rule fresh_space_kinv [OF inv ft e(1,2)])
    show "status (envs t e) \<noteq> ENV_FREE" "curenv t = curenv s" by (simp_all add: t_def st q)
    show "repr 0 es (free_link t)" using q(1) by (simp add: t_def)
    show "set es = {e. e < NENV} - insert e (live s)" by (rule e(3))
    show "ring t r'" using l(2) by (simp add: t_def)
    have "distinct r'" using l(2) by (simp add: ring_def)
    moreover have "curenv s = Some a \<Longrightarrow> a \<noteq> e" for a using kinv_cur [OF inv] e(2) by auto
    ultimately show "distinct (waiting (curenv t) r')" "set (waiting (curenv t) r') = insert e (live s)"
      using w l(3) q(3) by (auto simp: t_def waiting_def split: option.splits)
  qed
  then show thesis using that l(1) by (simp add: t_def)
qed

lemma sys_env_alloc_kinv:
  assumes inv: "kinv s" and k: "kernel_pages_ok s (dirs s) (unat (init_end_addr kc div 4096))"
  shows "out_inv kinv (sys_env_alloc kc s)"
proof -
  let ?ie = "init_end_addr kc"
  obtain fl where fl: "repr 0 fl (free_link s)" "set fl = {e. e < NENV} - live s"
    using inv unfolding kinv_def queues_ok_def by blast
  have body: "out_inv kinv (obind (env_alloc ?ie (ucast (env_id (envs s c))) s) (\<lambda>(r, new) s1.
        if r < 0 then answer r s1
        else deref new (\<lambda>e s1.
          (let s2 = set_env e (envs s1 e\<lparr>status := ENV_NOT_RUNNABLE, pri := pri (envs s1 c),
                      parent_id := env_id (envs s1 c), tf := (tf_cpu s1)\<lparr>regs := (regs (tf_cpu s1))(0 := 0)\<rparr>\<rparr>) s1
           in case list_insert_tail 0 e (sched_link s2) of
                None \<Rightarrow> Hang
              | Some l \<Rightarrow>
                  (let s3 = s2\<lparr>sched_link := l\<rparr>
                   in Ret () (set_reg0 (ucast (env_id (envs s3 e))) s3)))) s1))" for c
  proof (cases fl)
    case Nil
    then have "env_alloc ?ie (ucast (env_id (envs s c))) s = Ret (-1, None) s"
      using fl(1) by (simp add: env_alloc_def repr_Nil)
    then show ?thesis using inv by (simp add: kinv_answer)
  next
    case (Cons e es)
    from env_alloc_steps [OF kinv_spaces [OF inv] k fl(1) [unfolded Cons], of "ucast (env_id (envs s c))"]
    show ?thesis
    proof (elim disjE exE conjE)
      fix p s1
      assume run: "env_alloc ?ie (ucast (env_id (envs s c))) s = Ret (0, Some e) s1"
        and f: "fresh_space s (dirs s) (unat (?ie div 4096)) e p s1"
        and q: "repr 0 es (free_link s1)" "sched_link s1 = sched_link s" "curenv s1 = curenv s" "point s1 = point s"
      let ?v = "envs s1 e\<lparr>status := ENV_NOT_RUNNABLE, pri := pri (envs s1 c),
          parent_id := env_id (envs s1 c), tf := (tf_cpu s1)\<lparr>regs := (regs (tf_cpu s1))(0 := 0)\<rparr>\<rparr>"
      let ?s2 = "set_env e ?v s1"
      have same: "same_mem s1 ?s2" by (simp add: same_mem_refl)
      have "fresh_space s (dirs s) (unat (?ie div 4096)) e p ?s2"
        using f unfolding fresh_space_def same_mem_simps [OF same] by simp
      then obtain l where "list_insert_tail 0 e (sched_link ?s2) = Some l" "kinv (?s2\<lparr>sched_link := l\<rparr>)"
        by (rule fresh_space_queued [OF inv _ _ fl [unfolded Cons]]) (use q in simp_all)
      then show ?thesis
        using run by (simp add: deref_def Let_def kinv_set_reg0)
    qed auto
  qed
  show ?thesis unfolding sys_env_alloc_def by (rule deref_inv) (rule body)
qed

section \<open>All system calls\<close>

text \<open>
  What the parameters promise: talking to a device keeps the invariant. The other conditions are on
  the arguments a program passes; they are the ones the handlers do not check.
\<close>

definition devices_ok :: "devices \<Rightarrow> bool" where
  "devices_ok dev \<longleftrightarrow>
     (\<forall>c s. kinv s \<longrightarrow> out_inv kinv (printcharc dev c s)) \<and>
     (\<forall>s. kinv s \<longrightarrow> out_inv kinv (readcharc dev s)) \<and>
     (\<forall>n va s. kinv s \<longrightarrow> out_inv kinv (sd_readblock dev n va s)) \<and>
     (\<forall>n va s. kinv s \<longrightarrow> out_inv kinv (sd_writeblock dev va n s))"

definition tame :: "kconsts \<Rightarrow> nat \<Rightarrow> u64 list \<Rightarrow> kstate \<Rightarrow> bool" where
  "tame kc n a s \<longleftrightarrow>
     (let id = ucast (a ! 0) :: u32
      in (n = 3 \<or> n = 9 \<and> (ucast (a ! 1) :: u32) = ENV_FREE) \<and> id \<noteq> 0 \<longrightarrow> curenv s = Some (ENVX id)) \<and>
     (n = 5 \<longrightarrow> user_va (a ! 1) \<and> perm_ok (a ! 2)) \<and>
     (n = 6 \<longrightarrow> user_va (a ! 1) \<and> user_va (a ! 3) \<and> perm_ok (a ! 4)) \<and>
     (n = 7 \<longrightarrow> user_va (a ! 1)) \<and>
     (n = 8 \<longrightarrow> kernel_pages_ok s (dirs s) (unat (init_end_addr kc div 4096))) \<and>
     (n = 12 \<longrightarrow> user_va (a ! 2) \<and> perm_ok (a ! 3) \<and> (\<forall>e. user_va (ipc_dstva (envs s e)))) \<and>
     (n = 6 \<or> n = 12 \<longrightarrow> (\<forall>q. page_ref s q \<noteq> -1))"

lemma sys_sd_kinv:
  assumes "kinv s" and "devices_ok dev"
  shows "out_inv kinv (sys_write_sd dev va n s)" "out_inv kinv (sys_read_sd dev va n s)"
    "out_inv kinv (sys_getc dev s)" "out_inv kinv (sys_putchar dev c s)"
  unfolding sys_write_sd_def sys_read_sd_def sys_getc_def sys_putchar_def
  using assms unfolding devices_ok_def
  by (auto intro!: kinv_answer kinv_set_reg0 out_inv_obind)

lemma sys_simple_kinv:
  assumes "kinv s"
  shows "out_inv kinv (sys_getenvid s)" "out_inv kinv (sys_set_trapframe s)" "out_inv kinv (sys_panic s)"
    "out_inv kinv (sys_get_envs kc s)" "out_inv kinv (sys_get_pageref num s)" "out_inv kinv (sys_yield s)"
  using assms
  by (auto simp: sys_getenvid_def sys_set_trapframe_def sys_panic_def sys_get_envs_def sys_get_pageref_def
      sys_yield_def intro!: deref_inv kinv_set_reg0 kinv_answer sched_yield_kinv)

lemmas sys_kinv = sys_mem_alloc_kinv sys_mem_unmap_kinv sys_mem_map_kinv sys_ipc_can_send_kinv
  sys_ipc_recv_kinv sys_set_pgfault_handler_kinv sys_env_destroy_kinv sys_set_env_status_kinv
  sys_env_alloc_kinv sys_sd_kinv sys_simple_kinv

lemma syscall_handlers_kinv:
  assumes "kinv s" and "devices_ok dev" and "tame kc n a s"
  shows "out_inv kinv (syscall_handlers dev kc n a s)"
  using assms sys_kinv unfolding syscall_handlers_def tame_def Let_def
  by simp

end
