(* ===== verification/Exceptions.thy ===== *)
theory Exceptions
  imports KernelInv
begin

text \<open>
  Exceptions from user mode (kernel/exception_handler.c): page faults, faults reflected to the
  program's own handler, and system calls keep the invariant of \<open>KernelInv\<close>.
\<close>

section \<open>Page faults\<close>

lemma pte_page_of_nat: "d < 2 ^ 18 \<Longrightarrow> pte_page (of_nat (d * 4096)) = d"
  using pte_page_flags [of d 0] by (simp add: push_bit_eq_mult mult.commute)

lemma more_page_out_level: "out_inv (\<lambda>s'. pmem.more s' = pmem.more s) (page_out_level va l3 a s)"
  by (auto simp: page_out_level_def Let_def dest!: more_page_allocD split: prod.split option.split)

lemma more_page_out:
  "out_inv (\<lambda>s'. pmem.more s' = pmem.more s) (page_out d kd va s)"
proof -
  have step: "out_inv (\<lambda>s'. pmem.more s' = m) (page_out_level va l3 a t)" if "pmem.more t = m" for l3 a t m
    using more_page_out_level [of t va l3 a] that by simp
  show ?thesis
    unfolding page_out_def Let_def by (auto intro!: out_inv_obind step)
qed

definition fault_va :: "u64 \<Rightarrow> bool" where
  "fault_va va \<longleftrightarrow> user_va va \<and> VADDR va \<ge> BY2PG \<and> va AND push_bit 39 1 = 0 \<and> va < KERNBASE"

lemma user_dir:
  assumes "kinv s" and "curenv s = Some c"
  shows "pte_page (User_pgdir s) \<in> dirs s"
proof -
  obtain d where d: "pgdir (envs s c) = Some d" "d \<in> dirs s" "d < 2 ^ 18"
    "pgdir_pa (envs s c) = of_nat (d * 4096)" by (rule kinv_dir [OF assms(1) kinv_cur [OF assms]])
  have "User_pgdir s = of_nat (d * 4096)" using assms d(4) by (simp add: kinv_def user_ok_def)
  then show ?thesis using pte_page_of_nat [OF d(3)] d(2) by simp
qed

lemma fault_kinv:
  assumes inv: "kinv s" and c: "curenv s = Some c" and va: "fault_va va" and n: "user_page va s = None"
  shows "out_inv (\<lambda>s'. kinv s' \<and> pmem.more s' = pmem.more s) (page_out (pte_page (User_pgdir s)) kd va s)"
proof -
  let ?d = "pte_page (User_pgdir s)"
  have "(\<exists>n s'. page_out ?d kd va s = Ret () s' \<and> maps_fresh s (dirs s) ?d va (TABLE OR PTE_USER) n s') \<or>
    (\<exists>m s'. page_out ?d kd va s = Panic m s' \<and> page_alloc s' = (None, s'))"
    using va n unfolding fault_va_def user_page_def
    by (intro page_out_maps [OF kinv_spaces [OF inv] user_dir [OF inv c]]) auto
  then show ?thesis
    using more_page_out [of s ?d kd va] kinv_mem [OF inv] unfolding maps_fresh_def by auto
qed

lemma put_user_kinv:
  assumes inv: "kinv s" and c: "curenv s = Some c" and va: "fault_va va"
  shows "out_inv (\<lambda>s'. kinv s' \<and> pmem.more s' = pmem.more s) (put_user va b s)"
proof (cases "user_page va s")
  case None
  then show ?thesis by (simp add: put_user_def)
next
  case (Some e)
  let ?d = "pte_page (User_pgdir s)" and ?a = "pte_page e * 4096 + unat va mod 4096"
  have d: "?d \<in> dirs s" by (rule user_dir [OF inv c])
  have u: "user_va va" using va by (simp add: fault_va_def)
  have lf: "leaf_path (vpath va)" using u by simp
  have "node s ?d (vpath va) = Some (pte_page e)" using Some lf by (simp add: user_page_def node_leaf vmap_def)
  then have nt: "\<not> is_table s (dirs s) (pte_page e)"
    by (rule wf_leaf_not_table [OF kinv_spaces(1) [OF inv] d lf])
  have "?a div 4096 = pte_page e" by simp
  then have same: "ram (set_pbyte ?a b s) t = ram s t" if "is_table s (dirs s) t" for t
    using nt that by (metis set_pbyte_fields(5))
  have "kinv (set_pbyte ?a b s)"
    using same_tables_wf [OF kinv_spaces [OF inv], of "set_pbyte ?a b s"] same
    by (intro kinv_mem [OF inv]) simp_all
  then show ?thesis using Some by (simp add: put_user_def)
qed

lemma store_user_kinv:
  assumes inv: "kinv s" and c: "curenv s = Some c" and va: "fault_va va"
  shows "out_inv (\<lambda>s'. kinv s' \<and> pmem.more s' = pmem.more s) (store_user kc va b s)"
proof (cases "user_page va s")
  case (Some e)
  then show ?thesis using put_user_kinv [OF assms] by (simp add: store_user_def)
next
  case None
  have "out_inv (\<lambda>s'. kinv s' \<and> pmem.more s' = pmem.more s) (put_user va b t)"
    if "kinv t" "pmem.more t = pmem.more s" for t
    using put_user_kinv [OF that(1) _ va, of c b] c that(2) kstate_more(2) [OF that(2)] by simp
  then show ?thesis
    unfolding store_user_def using None fault_kinv [OF inv c va None]
    by (auto intro!: out_inv_obind)
qed

lemma store_user_bytes_kinv:
  assumes "kinv s" and "curenv s = Some c" and "\<And>i. i < length bs \<Longrightarrow> fault_va (va + of_nat i)"
  shows "out_inv (\<lambda>s'. kinv s' \<and> pmem.more s' = pmem.more s) (store_user_bytes kc va bs s)"
  using assms
proof (induction bs arbitrary: va s)
  case (Cons b bs)
  have f: "fault_va (va + 1 + of_nat i)" if "i < length bs" for i
    using Cons.prems(3) [of "Suc i"] that by (simp add: algebra_simps)
  have "out_inv (\<lambda>s'. kinv s' \<and> pmem.more s' = pmem.more s) (store_user_bytes kc (va + 1) bs t)"
    if "kinv t" "pmem.more t = pmem.more s" for t
    using Cons.IH [OF that(1) _ f] Cons.prems(2) that(2) kstate_more(2) [OF that(2)] by simp
  then show ?case
    using store_user_kinv [OF Cons.prems(1,2), of va kc b] Cons.prems(3) [of 0]
    by (auto intro!: out_inv_obind)
qed simp


lemma length_le_bytes: "length (concat (map le_bytes ws)) = 8 * length ws"
  by (induction ws) (simp_all add: le_bytes_def)

lemma page_fault_handler_kinv:
  assumes inv: "kinv s"
    and va: "\<And>c i. curenv s = Some c \<Longrightarrow> i < 288 \<Longrightarrow> fault_va (xstacktop (envs s c) - 288 + of_nat i)"
  shows "out_inv kinv (page_fault_handler kc s)"
proof -
  let ?w = "\<lambda>s. concat (map le_bytes (tf_words (tf_cpu s)))"
  have l: "length (?w s) = 288" unfolding length_le_bytes by simp
  have frame: "kinv (t\<lparr>tf_cpu := v\<rparr>)" if "kinv t" for t v
    by (rule kinv_cong [OF that]) (simp_all add: same_env_view_def same_mem_refl)
  have "out_inv kinv (obind (store_user_bytes kc (xstacktop (envs s c) - 288) (?w s) s)
      (\<lambda>_ s1. Ret () (s1\<lparr>tf_cpu := (tf_cpu s1)\<lparr>sp_el0 := x, elr_el1 := h s1\<rparr>\<rparr>)))"
    if c: "curenv s = Some c" for c x h
  proof -
    have "out_inv (\<lambda>s'. kinv s' \<and> pmem.more s' = pmem.more s)
        (store_user_bytes kc (xstacktop (envs s c) - 288) (?w s) s)"
      by (rule store_user_bytes_kinv [OF inv c]) (use va [OF c] l in simp)
    then show ?thesis using frame by (cases "store_user_bytes kc (xstacktop (envs s c) - 288) (?w s) s") auto
  qed
  then show ?thesis unfolding page_fault_handler_def Let_def by (intro deref_inv)
qed

text \<open>
  The limits within which the handler is correct. A fault is reported for an address that user mode
  may use and that has no valid entry, the exception stack lies in such addresses, and the number
  of a system call is one of the table.
\<close>

definition tame_exception :: "kconsts \<Rightarrow> u64 \<Rightarrow> u64 \<Rightarrow> kstate \<Rightarrow> bool" where
  "tame_exception kc esr far s \<longleftrightarrow>
     (let EC = drop_bit 26 (esr AND 0xfc000000); DFSC = esr AND 0x3f; x = regs (tf_cpu s)
      in (EC = 0x24 \<and> DFSC \<in> {0xd, 0xe, 0xf} \<longrightarrow>
           (\<forall>c i. curenv s = Some c \<longrightarrow> i < 288 \<longrightarrow> fault_va (xstacktop (envs s c) - 288 + of_nat i))) \<and>
         (EC = 0x24 \<and> DFSC \<in> {4, 5, 6, 7} \<or> EC = 0x25 \<longrightarrow>
           curenv s \<noteq> None \<and> fault_va far \<and> user_page far s = None) \<and>
         (EC = 0x15 \<longrightarrow> x 0 < 32 \<and> tame kc (unat (x 0)) (map x [1, 2, 3, 4, 5]) s))"


section \<open>An example\<close>

lemma env_init_same_mem: "same_mem s (env_init s)"
proof -
  define t where "t = s\<lparr>free_link := list_init 0 (free_link s), sched_link := list_init 1 (list_init 0 (sched_link s))\<rparr>"
  define g where "g = (\<lambda>i s. let s' = set_env i (envs s i\<lparr>status := ENV_FREE\<rparr>) s
                    in s'\<lparr>free_link := list_insert_head 0 i (free_link s')\<rparr>)"
  have e: "env_init s = fold g (rev [0..<NENV]) t" unfolding env_init_def Let_def g_def t_def ..
  have "ram (fold g xs t) = ram t" "page_ref (fold g xs t) = page_ref t" "page_pa (fold g xs t) = page_pa t"
    "Kern_vis (fold g xs t) = Kern_vis t" for xs
    by (rule fold_frame; simp add: g_def Let_def)+
  then show ?thesis unfolding e by (simp add: same_mem_def t_def)
qed

text \<open>One environment with an address space, about to allocate a page of memory for itself.\<close>

definition demo_run :: kstate where
  "demo_run = (env_init demo_kernel)
     \<lparr>envs := (envs (env_init demo_kernel))(0 := null_env\<lparr>status := ENV_RUNNABLE, pri := 1, pgdir := Some 2000,
        pgdir_pa := 8192000\<rparr>),
      free_link := the (list_remove 0 (free_link (env_init demo_kernel))),
      curenv := Some 0, User_pgdir := 8192000, point := 0,
      tf_cpu := null_tf\<lparr>regs := (\<lambda>_. 0)(0 := 5, 2 := 0x400000, 3 := PTE_USER)\<rparr>\<rparr>"

lemma demo_run_kinv: "kinv demo_run"
proof -
  let ?i = "env_init demo_kernel"
  have I: "repr 0 [0..<NENV] (free_link ?i)" "repr 0 [] (sched_link ?i)" "repr 1 [] (sched_link ?i)"
    "\<forall>e < NENV. status (envs ?i e) = ENV_FREE" using env_init_lists [of demo_kernel] by simp_all
  have "[0..<NENV] = 0 # [1..<NENV]" by (subst upt_rec) (simp del: upt_rec_numeral)
  then obtain l where l: "list_remove 0 (free_link ?i) = Some l" "repr 0 [1..<NENV] l"
    using remove_repr [OF I(1), of 0] by (auto simp del: upt_rec_numeral)
  have live: "live demo_run = {0}" using I(4) by (auto simp: live_def demo_run_def null_env_def)
  have dirs: "dirs demo_run = {2000}" by (simp add: dirs_def live) (simp add: demo_run_def null_env_def)
  have "same_mem demo_kernel demo_run"
    using env_init_same_mem [of demo_kernel] by (simp add: demo_run_def same_mem_def)
  note S = same_mem_simps [OF this]
  have "ring demo_run []"
    unfolding ring_def using I by (intro conjI exI [of _ "[]"]) (simp_all add: demo_run_def)
  moreover have "free_link demo_run = l" by (simp add: demo_run_def l(1))
  moreover have "set [1..<NENV] = {e. e < NENV} - live demo_run" by (auto simp: live simp del: upt_rec_numeral)
  moreover have "waiting (curenv demo_run) [] = [0]" by (simp add: waiting_def demo_run_def)
  ultimately have "queues_ok demo_run"
    unfolding queues_ok_def using l(2) live by (intro exI [of _ "[1..<NENV]"] exI [of _ "[]"]) simp
  moreover have "dirs_ok demo_run" by (simp add: dirs_ok_def live) (simp add: demo_run_def null_env_def)
  moreover have "user_ok demo_run" by (simp add: user_ok_def demo_run_def null_env_def)
  ultimately show ?thesis using demo_kernel_wf by (simp add: kinv_def dirs S)
qed

text \<open>Devices that do nothing.\<close>

definition demo_devices :: devices where
  "demo_devices = \<lparr>printcharc = (\<lambda>_ s. Ret () s), readcharc = (\<lambda>s. Ret 0 s),
     sd_readblock = (\<lambda>_ _ s. Ret 1 s), sd_writeblock = (\<lambda>_ _ s. Ret 1 s)\<rparr>"

definition demo_consts :: kconsts where
  "demo_consts = \<lparr>init_end_addr = 0x80000, envs_addr = 0, Kern_pgdir = 0\<rparr>"


end
