(* ===== verification/Ulib.thy ===== *)
theory Ulib
  imports Bytes
begin

text \<open>
  The C library of user programs: user/string.c, and \<open>user_bcopy\<close> and \<open>user_bzero\<close> of user/fork.c, over
  any byte memory. A loop over a string that has no end does not return (\<open>None\<close>). Plain \<open>char\<close> is
  unsigned on this machine.
\<close>

section \<open>Strings (user/string.c)\<close>

partial_function (option) strlen_from :: "('s \<Rightarrow> nat \<Rightarrow> u8) \<Rightarrow> 's \<Rightarrow> nat \<Rightarrow> nat \<Rightarrow> nat option" where
  "strlen_from get s p n = (if get s p = 0 then Some n else strlen_from get s (p + 1) (n + 1))"

definition strlen :: "('s \<Rightarrow> nat \<Rightarrow> u8) \<Rightarrow> nat \<Rightarrow> 's \<Rightarrow> nat option" where
  "strlen get p s = strlen_from get s p 0"

partial_function (option) strcpy ::
    "('s \<Rightarrow> nat \<Rightarrow> u8) \<Rightarrow> (nat \<Rightarrow> u8 \<Rightarrow> 's \<Rightarrow> 's) \<Rightarrow> nat \<Rightarrow> nat \<Rightarrow> 's \<Rightarrow> 's option" where
  "strcpy get put dst src s =
    (let c = get s src; s' = put dst c s
     in if c \<noteq> 0 then strcpy get put (dst + 1) (src + 1) s' else Some s')"

text \<open>The result is a pointer, here \<open>None\<close> when it is 0.\<close>

partial_function (option) strchr :: "('s \<Rightarrow> nat \<Rightarrow> u8) \<Rightarrow> nat \<Rightarrow> u8 \<Rightarrow> 's \<Rightarrow> nat option option" where
  "strchr get p c s =
    (if get s p = 0 then Some None
     else if get s p = c then Some (Some p)
     else strchr get (p + 1) c s)"

fun memcpy :: "('s \<Rightarrow> nat \<Rightarrow> u8) \<Rightarrow> (nat \<Rightarrow> u8 \<Rightarrow> 's \<Rightarrow> 's) \<Rightarrow> nat \<Rightarrow> nat \<Rightarrow> nat \<Rightarrow> 's \<Rightarrow> 's" where
  "memcpy get put dst src 0 s = s"
| "memcpy get put dst src (Suc len) s = memcpy get put (dst + 1) (src + 1) len (put dst (get s src) s)"

partial_function (option) strcmp :: "('s \<Rightarrow> nat \<Rightarrow> u8) \<Rightarrow> nat \<Rightarrow> nat \<Rightarrow> 's \<Rightarrow> int option" where
  "strcmp get p q s =
    (if get s p \<noteq> 0 \<and> get s p = get s q then strcmp get (p + 1) (q + 1) s
     else if get s p < get s q then Some (-1)
     else if get s p > get s q then Some 1
     else Some 0)"

text \<open>
  \<open>strcat\<close> appends at the static pointer \<open>ret\<close>, which nothing ever sets; \<open>r\<close> is its value. The result is
  the new memory; the returned pointer is \<open>r\<close>.
\<close>

partial_function (option) copy_chars ::
    "('s \<Rightarrow> nat \<Rightarrow> u8) \<Rightarrow> (nat \<Rightarrow> u8 \<Rightarrow> 's \<Rightarrow> 's) \<Rightarrow> nat \<Rightarrow> nat \<Rightarrow> 's \<Rightarrow> (nat \<times> 's) option" where
  "copy_chars get put t p s =
    (if get s p = 0 then Some (t, s) else copy_chars get put (t + 1) (p + 1) (put t (get s p) s))"

definition strcat ::
    "('s \<Rightarrow> nat \<Rightarrow> u8) \<Rightarrow> (nat \<Rightarrow> u8 \<Rightarrow> 's \<Rightarrow> 's) \<Rightarrow> nat \<Rightarrow> nat \<Rightarrow> nat \<Rightarrow> 's \<Rightarrow> 's option" where
  "strcat get put r p q s =
    (case copy_chars get put r p s of
       None \<Rightarrow> None
     | Some (t, s1) \<Rightarrow>
         (case copy_chars get put t q s1 of
            None \<Rightarrow> None
          | Some (t, s2) \<Rightarrow> Some (put t 0 s2)))"

section \<open>Copying and clearing (user/fork.c)\<close>

text \<open>The loops are those of the kernel's \<open>bcopy\<close>; the word loop runs only when both ends are aligned.\<close>

definition user_bcopy ::
    "('s \<Rightarrow> nat \<Rightarrow> u8) \<Rightarrow> (nat \<Rightarrow> u8 \<Rightarrow> 's \<Rightarrow> 's) \<Rightarrow> nat \<Rightarrow> nat \<Rightarrow> nat \<Rightarrow> 's \<Rightarrow> 's" where
  "user_bcopy get put src dst len s =
    (if src mod 4 = 0 \<and> dst mod 4 = 0 then bcopy_from get put src dst len s
     else bcopy_bytes get put src dst len s)"

text \<open>The counter of \<open>user_bzero\<close> is an \<open>int\<close>, the parameter is not.\<close>

definition user_bzero :: "(nat \<Rightarrow> u8 \<Rightarrow> 's \<Rightarrow> 's) \<Rightarrow> nat \<Rightarrow> u64 \<Rightarrow> 's \<Rightarrow> 's" where
  "user_bzero put p n s = bzero_bytes put p (nat (sint (ucast n :: u32))) s"

section \<open>Strings in memory\<close>

definition cstr :: "('s \<Rightarrow> nat \<Rightarrow> u8) \<Rightarrow> 's \<Rightarrow> nat \<Rightarrow> u8 list \<Rightarrow> bool" where
  "cstr get s p xs \<longleftrightarrow> 0 \<notin> set xs \<and> (\<forall>i < length xs. get s (p + i) = xs ! i) \<and> get s (p + length xs) = 0"

lemma cstr_Nil [simp]: "cstr get s p [] \<longleftrightarrow> get s p = 0"
  by (simp add: cstr_def)

lemma cstr_Cons [simp]: "cstr get s p (x # xs) \<longleftrightarrow> x \<noteq> 0 \<and> get s p = x \<and> cstr get s (p + 1) xs"
  by (auto simp: cstr_def nth_Cons less_Suc_eq_0_disj split: nat.splits)

lemma cstr_unique: "cstr get s p xs \<Longrightarrow> cstr get s p ys \<Longrightarrow> xs = ys"
proof (induction xs arbitrary: p ys)
  case Nil
  then show ?case by (cases ys) auto
next
  case (Cons x xs)
  then show ?case by (cases ys) auto
qed

lemma strlen_from_cstr: "cstr get s p xs \<Longrightarrow> strlen_from get s p n = Some (n + length xs)"
proof (induction xs arbitrary: p n)
  case Nil
  then show ?case by (subst strlen_from.simps) simp
next
  case (Cons x xs)
  then show ?case by (subst strlen_from.simps) simp
qed

lemma strlen_cstr: "cstr get s p xs \<Longrightarrow> strlen get p s = Some (length xs)"
  by (simp add: strlen_def strlen_from_cstr)

text \<open>The order that \<open>strcmp\<close> computes.\<close>

fun str_order :: "u8 list \<Rightarrow> u8 list \<Rightarrow> int" where
  "str_order [] [] = 0"
| "str_order [] (y # ys) = -1"
| "str_order (x # xs) [] = 1"
| "str_order (x # xs) (y # ys) = (if x < y then -1 else if y < x then 1 else str_order xs ys)"

lemma str_order_0: "str_order xs ys = 0 \<longleftrightarrow> xs = ys"
  by (induction xs ys rule: str_order.induct) auto

lemma strcmp_cstr: "cstr get s p xs \<Longrightarrow> cstr get s q ys \<Longrightarrow> strcmp get p q s = Some (str_order xs ys)"
proof (induction xs ys arbitrary: p q rule: str_order.induct)
  case (2 y ys)
  then show ?case by (subst strcmp.simps) (auto simp: word_neq_0_conv)
next
  case (3 x xs)
  then show ?case by (subst strcmp.simps) (auto simp: word_neq_0_conv)
next
  case (4 x xs y ys)
  then show ?case by (subst strcmp.simps) auto
qed (subst strcmp.simps; simp)

lemma strchr_cstr:
  "cstr get s p xs \<Longrightarrow> strchr get p c s = Some (if c \<in> set xs then Some (p + length (takeWhile (\<lambda>x. x \<noteq> c) xs)) else None)"
proof (induction xs arbitrary: p)
  case Nil
  then show ?case by (subst strchr.simps) simp
next
  case (Cons x xs)
  then show ?case by (subst strchr.simps) auto
qed

context byte_mem
begin

lemma cstr_put: "a < p \<or> p + length xs < a \<Longrightarrow> cstr get (put a v s) p xs = cstr get s p xs"
proof -
  assume a: "a < p \<or> p + length xs < a"
  have "get (put a v s) (p + i) = get s (p + i)" if "i \<le> length xs" for i
  proof -
    have "p + i \<noteq> a" using a that by linarith
    then show ?thesis by (simp add: get_put)
  qed
  then show ?thesis by (simp add: cstr_def)
qed

text \<open>A copy that does not run into its own source.\<close>

lemma strcpy_cstr:
  assumes "cstr get s src xs" and "dst + length xs < src \<or> src + length xs < dst"
  shows "\<exists>s'. strcpy get put dst src s = Some s' \<and> cstr get s' dst xs \<and>
    (\<forall>b. b < dst \<or> dst + length xs < b \<longrightarrow> get s' b = get s b)"
  using assms
proof (induction xs arbitrary: src dst s)
  case Nil
  then show ?case by (subst strcpy.simps) (auto simp: get_put)
next
  case (Cons x xs)
  let ?s = "put dst x s"
  have "cstr get ?s (src + 1) xs" using Cons.prems by (subst cstr_put) auto
  moreover have "dst + 1 + length xs < src + 1 \<or> src + 1 + length xs < dst + 1" using Cons.prems(2) by auto
  ultimately obtain s' where s': "strcpy get put (dst + 1) (src + 1) ?s = Some s'" "cstr get s' (dst + 1) xs"
    "\<forall>b. b < dst + 1 \<or> dst + 1 + length xs < b \<longrightarrow> get s' b = get ?s b"
    using Cons.IH by blast
  have "get s' dst = x" using s'(3) by (simp add: get_put)
  then show ?case using Cons.prems(1) s' by (subst strcpy.simps) (auto simp: get_put)
qed

lemma get_user_bcopy:
  assumes "src + len \<le> dst \<or> dst + len \<le> src"
  shows "get (user_bcopy get put src dst len s) b =
    (if dst \<le> b \<and> b < dst + len then get s (src + (b - dst)) else get s b)"
  unfolding user_bcopy_def using get_bcopy_bytes [OF assms] get_bcopy_from [OF assms] by simp

lemma get_memcpy:
  assumes "src + len \<le> dst \<or> dst + len \<le> src"
  shows "get (memcpy get put dst src len s) b =
    (if dst \<le> b \<and> b < dst + len then get s (src + (b - dst)) else get s b)"
proof -
  have "memcpy get put dst src len s = bcopy_bytes get put src dst len s"
    by (induction len arbitrary: src dst s) simp_all
  then show ?thesis using get_bcopy_bytes [OF assms] by simp
qed

end

end
