(* ===== verification/Umem.thy ===== *)
theory Umem
  imports Ulib Pmap
begin

text \<open>
  The address space of a user program as the program sees it, and the system calls by which it
  changes it (user/syscall_lib.c). What the kernel decides, whether there is a page left for a
  request, is the list \<open>grants\<close>, one entry for each request. Reading an unmapped page gives zeros and
  writing one maps it, as the kernel's page fault handler does.
\<close>

record umem =
  ubytes :: "nat \<Rightarrow> u8"
  uperm :: "nat \<Rightarrow> u64 option"
  grants :: "bool list"

abbreviation (input) UKERNBASE :: nat where "UKERNBASE \<equiv> 0xffffff8000000000"

definition uget :: "'a umem_scheme \<Rightarrow> nat \<Rightarrow> u8" where
  "uget s a = ubytes s a"

definition touch :: "nat \<Rightarrow> 'a umem_scheme \<Rightarrow> 'a umem_scheme" where
  "touch a s = (if uperm s (a div 4096) = None
     then s\<lparr>uperm := (uperm s)(a div 4096 \<mapsto> TABLE OR PTE_USER OR VALID)\<rparr> else s)"

definition uput :: "nat \<Rightarrow> u8 \<Rightarrow> 'a umem_scheme \<Rightarrow> 'a umem_scheme" where
  "uput a v s = (let t = touch a s in t\<lparr>ubytes := (ubytes t)(a := v)\<rparr>)"

lemma touch_fields [simp, field_simps_os]:
  "ubytes (touch a s) = ubytes s" "grants (touch a s) = grants s"
  "umem.more (touch a s) = umem.more s"
  by (simp_all add: touch_def)

lemma uput_fields [simp, field_simps_os]:
  "ubytes (uput a v s) = (ubytes s)(a := v)" "grants (uput a v s) = grants s"
  "umem.more (uput a v s) = umem.more s"
  by (simp_all add: uput_def Let_def)

lemma uput_mapped: "uperm s (a div 4096) \<noteq> None \<Longrightarrow> uput a v s = s\<lparr>ubytes := (ubytes s)(a := v)\<rparr>"
  by (auto simp: uput_def touch_def Let_def)

interpretation um: byte_mem uget uput
  by unfold_locales (simp add: uget_def)

section \<open>System calls on the caller's own address space (user/syscall_lib.c)\<close>

definition syscall_mem_alloc :: "nat \<Rightarrow> u64 \<Rightarrow> 'a umem_scheme \<Rightarrow> int \<times> 'a umem_scheme" where
  "syscall_mem_alloc va perm s =
    (if va \<ge> UKERNBASE then (-1, s)
     else case grants s of
       True # g \<Rightarrow>
         (0, s\<lparr>ubytes := (\<lambda>a. if a div 4096 = va div 4096 then 0 else ubytes s a),
               uperm := (uperm s)(va div 4096 \<mapsto> perm OR VALID), grants := g\<rparr>)
     | g \<Rightarrow> (-1, s\<lparr>grants := tl g\<rparr>))"

text \<open>A page mapped onto itself changes its permissions. \<open>syscall_mem_unmap\<close> returns its own number.\<close>

definition syscall_mem_map_self :: "nat \<Rightarrow> u64 \<Rightarrow> 'a umem_scheme \<Rightarrow> int \<times> 'a umem_scheme" where
  "syscall_mem_map_self va perm s =
    (if va \<ge> UKERNBASE \<or> uperm s (va div 4096) = None then (-1, s)
     else (0, s\<lparr>uperm := (uperm s)(va div 4096 \<mapsto> perm OR VALID)\<rparr>))"

definition syscall_mem_unmap :: "nat \<Rightarrow> 'a umem_scheme \<Rightarrow> int \<times> 'a umem_scheme" where
  "syscall_mem_unmap va s =
    (if va \<ge> UKERNBASE then (-1, s)
     else (7, s\<lparr>ubytes := (\<lambda>a. if a div 4096 = va div 4096 then 0 else ubytes s a),
                uperm := (uperm s)(va div 4096 := None)\<rparr>))"

end
