(* ===== verification/Sd.thy ===== *)
theory Sd
  imports Umem
begin

text \<open>
  The file system server's state and its access to the SD card: fs/sd_card.c. The card is an array of
  512-byte sectors, some of which may fail; the system calls move one sector between the card and the
  server's memory.
\<close>

text \<open>\<open>super\<close>, \<open>nbitmap\<close> and \<open>bitmap\<close> are the global variables of fs/fs.c; a null pointer is 0.\<close>

record fsrv = umem +
  card :: "nat \<Rightarrow> nat \<Rightarrow> u8"
  card_ok :: "nat \<Rightarrow> bool"
  super :: nat
  nbitmap :: u64
  bitmap :: nat

type_synonym ('r, 'a) fres = "('r, 'a fsrv_scheme) outcome"

definition syscall_read_sd :: "nat \<Rightarrow> u32 \<Rightarrow> 'a fsrv_scheme \<Rightarrow> int \<times> 'a fsrv_scheme" where
  "syscall_read_sd dst secno s =
    (if dst \<ge> UKERNBASE \<or> \<not> card_ok s (unat secno) then (- E_INVAL, s)
     else (0, touch dst s\<lparr>ubytes := (\<lambda>a. if dst \<le> a \<and> a < dst + 512 then card s (unat secno) (a - dst)
                                   else ubytes s a)\<rparr>))"

definition syscall_write_sd :: "nat \<Rightarrow> u32 \<Rightarrow> 'a fsrv_scheme \<Rightarrow> int \<times> 'a fsrv_scheme" where
  "syscall_write_sd src secno s =
    (if src \<ge> UKERNBASE \<or> \<not> card_ok s (unat secno) then (- E_INVAL, s)
     else (0, s\<lparr>card := (card s)(unat secno := (\<lambda>i. if i < 512 then uget s (src + i) else card s (unat secno) i))\<rparr>))"

abbreviation (input) sec_offset :: u32 where "sec_offset \<equiv> 2048 + 3000000"

text \<open>The two loops; sector numbers are passed as \<open>u32\<close>.\<close>

function sd_read_loop :: "u64 \<Rightarrow> u64 \<Rightarrow> nat \<Rightarrow> nat \<Rightarrow> 'a fsrv_scheme \<Rightarrow> (unit, 'a) fres" where
  "sd_read_loop current_section end_section dst offset s =
    (if current_section < end_section then
       (case syscall_read_sd (dst + offset) (ucast current_section) s of
          (r, s1) \<Rightarrow> if r < 0 then Panic ''sd read error!'' s1
                    else sd_read_loop (current_section + 1) end_section dst (offset + 512) s1)
     else Ret () s)"
  by auto

function sd_write_loop :: "u64 \<Rightarrow> u64 \<Rightarrow> nat \<Rightarrow> nat \<Rightarrow> 'a fsrv_scheme \<Rightarrow> (unit, 'a) fres" where
  "sd_write_loop current_section end_section src offset s =
    (if current_section < end_section then
       (case syscall_write_sd (src + offset) (ucast current_section) s of
          (r, s1) \<Rightarrow> if r < 0 then Panic ''sd write error!'' s1
                    else sd_write_loop (current_section + 1) end_section src (offset + 512) s1)
     else Ret () s)"
  by auto

lemma section_next: "i < n \<Longrightarrow> unat (i + 1 :: u64) = Suc (unat i)"
proof -
  assume "i < n"
  moreover have "unat n < 2 ^ 64" using unsigned_less [of n] by simp
  ultimately have "unat i + 1 < 2 ^ 64" by (simp add: word_less_nat_alt)
  then show ?thesis using unat_add_lem [of i 1] by simp
qed

lemma section_progress: "i < n \<Longrightarrow> unat n - unat (i + 1) < unat n - unat (i :: u64)"
  using section_next [of i n] by (simp add: word_less_nat_alt)

termination sd_read_loop
  by (relation "measure (\<lambda>(i, n, d, x, s). unat n - unat i)") (auto simp: section_progress)

termination sd_write_loop
  by (relation "measure (\<lambda>(i, n, d, x, s). unat n - unat i)") (auto simp: section_progress)

declare sd_read_loop.simps [simp del] sd_write_loop.simps [simp del]

definition sd_read :: "u32 \<Rightarrow> nat \<Rightarrow> u32 \<Rightarrow> 'a fsrv_scheme \<Rightarrow> (unit, 'a) fres" where
  "sd_read secno dst nsecs s =
    sd_read_loop (ucast (secno + sec_offset)) (ucast (secno + nsecs + sec_offset)) dst 0 s"

definition sd_write :: "u32 \<Rightarrow> nat \<Rightarrow> u32 \<Rightarrow> 'a fsrv_scheme \<Rightarrow> (unit, 'a) fres" where
  "sd_write secno src nsecs s =
    sd_write_loop (ucast (secno + sec_offset)) (ucast (secno + nsecs + sec_offset)) src 0 s"

end
