(* ===== verification/Fs.thy ===== *)
theory Fs
  imports Sd
begin

text \<open>
  The file system: fs/fs.c over the byte memory of the server, with \<open>struct Super\<close> and \<open>struct File\<close> of
  include/fs.h laid out as the compiler does. Pointers are addresses. \<open>user_panic\<close> prints and
  loops for ever (\<open>Panic\<close>). The progress messages of \<open>read_super\<close> and \<open>read_bitmap\<close> are left out.
\<close>

section \<open>Layout (fs/fs.h, include/fs.h)\<close>

abbreviation (input) BY2BLK :: nat where "BY2BLK \<equiv> 4096"
abbreviation (input) SECT2BLK :: "'a :: len word" where "SECT2BLK \<equiv> 8"
abbreviation (input) DISKMAP :: nat where "DISKMAP \<equiv> 0x200000000"
abbreviation (input) DISKMAX :: u32 where "DISKMAX \<equiv> 0x40000000"
abbreviation (input) BIT2BLK :: u64 where "BIT2BLK \<equiv> 0x8000"
abbreviation (input) NDIRECT :: u32 where "NDIRECT \<equiv> 10"
abbreviation (input) NINDIRECT :: u32 where "NINDIRECT \<equiv> 1024"
abbreviation (input) MAXNAMELEN :: nat where "MAXNAMELEN \<equiv> 128"
abbreviation (input) BY2FILE :: nat where "BY2FILE \<equiv> 256"
abbreviation (input) FILE2BLK :: nat where "FILE2BLK \<equiv> 16"
abbreviation (input) FS_MAGIC :: u32 where "FS_MAGIC \<equiv> 0x19260817"
abbreviation (input) FTYPE_DIR :: u32 where "FTYPE_DIR \<equiv> 1"

definition s_magic :: "nat \<Rightarrow> 'a umem_scheme \<Rightarrow> u32" where "s_magic p s = ld32 uget s p"
definition s_nblocks :: "nat \<Rightarrow> 'a umem_scheme \<Rightarrow> u32" where "s_nblocks p s = ld32 uget s (p + 4)"
definition s_root :: "nat \<Rightarrow> nat" where "s_root p = p + 8"

definition f_size :: "nat \<Rightarrow> 'a umem_scheme \<Rightarrow> u32" where "f_size f s = ld32 uget s (f + 128)"
definition f_type :: "nat \<Rightarrow> 'a umem_scheme \<Rightarrow> u32" where "f_type f s = ld32 uget s (f + 132)"
definition f_direct :: "nat \<Rightarrow> u32 \<Rightarrow> nat" where "f_direct f i = f + 136 + 4 * unat i"
definition f_indirect :: "nat \<Rightarrow> 'a umem_scheme \<Rightarrow> u32" where "f_indirect f s = ld32 uget s (f + 176)"
definition f_dir :: "nat \<Rightarrow> 'a umem_scheme \<Rightarrow> u64" where "f_dir f s = ld64 uget s (f + 184)"

definition set_f_size :: "nat \<Rightarrow> u32 \<Rightarrow> 'a umem_scheme \<Rightarrow> 'a umem_scheme" where
  "set_f_size f v s = st32 uput (f + 128) v s"
definition set_f_type :: "nat \<Rightarrow> u32 \<Rightarrow> 'a umem_scheme \<Rightarrow> 'a umem_scheme" where
  "set_f_type f v s = st32 uput (f + 132) v s"
definition set_f_indirect :: "nat \<Rightarrow> u32 \<Rightarrow> 'a umem_scheme \<Rightarrow> 'a umem_scheme" where
  "set_f_indirect f v s = st32 uput (f + 176) v s"
definition set_f_dir :: "nat \<Rightarrow> u64 \<Rightarrow> 'a umem_scheme \<Rightarrow> 'a umem_scheme" where
  "set_f_dir f v s = st64 uput (f + 184) v s"

section \<open>The block cache\<close>

definition diskaddr :: "u32 \<Rightarrow> 'a fsrv_scheme \<Rightarrow> (nat, 'a) fres" where
  "diskaddr blockno s =
    (if super s \<noteq> 0 \<and> blockno \<ge> s_nblocks (super s) s
     then Panic ''diskaddr() : blockno is too large!'' s
     else Ret (DISKMAP + unat blockno * BY2BLK) s)"

definition va_is_mapped :: "nat \<Rightarrow> 'a umem_scheme \<Rightarrow> bool" where
  "va_is_mapped va s \<longleftrightarrow> uperm s (va div 4096) \<noteq> None"

definition block_is_mapped :: "u32 \<Rightarrow> 'a fsrv_scheme \<Rightarrow> (nat, 'a) fres" where
  "block_is_mapped blockno s =
    obind (diskaddr blockno s) (\<lambda>va s. Ret (if va_is_mapped va s then va else 0) s)"

definition va_is_dirty :: "nat \<Rightarrow> bool" where "va_is_dirty va = True"

definition block_is_dirty :: "u32 \<Rightarrow> 'a fsrv_scheme \<Rightarrow> (bool, 'a) fres" where
  "block_is_dirty blockno s =
    obind (diskaddr blockno s) (\<lambda>va s. Ret (va_is_mapped va s \<and> va_is_dirty va) s)"

definition map_block :: "u32 \<Rightarrow> 'a fsrv_scheme \<Rightarrow> (int, 'a) fres" where
  "map_block blockno s =
    obind (block_is_mapped blockno s) (\<lambda>m s.
      if m \<noteq> 0 then Ret 0 s
      else obind (diskaddr blockno s) (\<lambda>va s.
        case syscall_mem_alloc va (VALID OR PTE_RW OR PTE_USER) s of (r, s) \<Rightarrow> Ret r s))"

definition block_is_free :: "u32 \<Rightarrow> 'a fsrv_scheme \<Rightarrow> bool" where
  "block_is_free blockno s =
    (if super s = 0 \<or> blockno \<ge> s_nblocks (super s) s then False
     else ld64 uget s (bitmap s + 8 * (unat blockno div 64)) AND push_bit (unat blockno mod 64) 1 \<noteq> 0)"

text \<open>\<open>write_block\<close> takes a \<open>u64\<close> and passes it on as a \<open>u32\<close>.\<close>

definition write_block :: "u64 \<Rightarrow> 'a fsrv_scheme \<Rightarrow> (unit, 'a) fres" where
  "write_block blockno s =
    obind (block_is_mapped (ucast blockno) s) (\<lambda>m s.
      if m = 0 then Panic ''write unmapped block'' s
      else obind (diskaddr (ucast blockno) s) (\<lambda>va s.
        obind (sd_write (ucast (blockno * SECT2BLK)) va SECT2BLK s) (\<lambda>_ s.
          case syscall_mem_map_self va (VALID OR PTE_RW OR PTE_LIBRARY OR PTE_USER) s of (r, s) \<Rightarrow> Ret () s)))"

definition unmap_block :: "u32 \<Rightarrow> 'a fsrv_scheme \<Rightarrow> (unit, 'a) fres" where
  "unmap_block blockno s =
    obind (block_is_mapped blockno s) (\<lambda>addr s.
      if addr = 0 then Ret () s
      else obind (if \<not> block_is_free blockno s
                  then obind (block_is_dirty blockno s)
                         (\<lambda>d s. if d then write_block (ucast blockno) s else Ret () s)
                  else Ret () s) (\<lambda>_ s.
        case syscall_mem_unmap addr s of (r, s) \<Rightarrow>
          obind (block_is_mapped blockno s)
            (\<lambda>m s. if m \<noteq> 0 then Panic ''assertion failed'' s else Ret () s)))"

text \<open>\<open>read_block\<close> returns its result with \<open>*blk\<close> and \<open>*isnew\<close>. A failed allocation is not noticed.\<close>

definition read_block :: "u32 \<Rightarrow> 'a fsrv_scheme \<Rightarrow> (int \<times> nat \<times> bool, 'a) fres" where
  "read_block blockno s =
    (if super s \<noteq> 0 \<and> blockno \<ge> s_nblocks (super s) s then Panic ''reading non-existent block'' s
     else if bitmap s \<noteq> 0 \<and> block_is_free blockno s then Panic ''reading free block'' s
     else obind (diskaddr blockno s) (\<lambda>va s.
       obind (block_is_mapped blockno s) (\<lambda>m s.
         if m \<noteq> 0 then Ret (0, va, False) s
         else case syscall_mem_alloc va (VALID OR PTE_RW OR PTE_USER) s of (r, s) \<Rightarrow>
           obind (sd_read (blockno * SECT2BLK) va SECT2BLK s) (\<lambda>_ s. Ret (0, va, True) s))))"

section \<open>The bitmap\<close>

definition free_block :: "u32 \<Rightarrow> 'a fsrv_scheme \<Rightarrow> (unit, 'a) fres" where
  "free_block blockno s =
    (if blockno = 0 \<or> super s \<noteq> 0 \<and> blockno \<ge> s_nblocks (super s) s
     then Panic ''free block with wrong blockno!'' s
     else let a = bitmap s + 8 * (unat blockno div 64)
          in Ret () (st64 uput a (ld64 uget s a OR push_bit (unat blockno mod 64) 1) s))"

text \<open>The loop of \<open>alloc_block_num\<close> stops at the first block whose bit is set.\<close>

definition bit_is_set :: "nat \<Rightarrow> 'a fsrv_scheme \<Rightarrow> bool" where
  "bit_is_set b s \<longleftrightarrow> ld64 uget s (bitmap s + 8 * (b div 64)) AND push_bit (b mod 64) 1 \<noteq> 0"

definition alloc_block_num :: "'a fsrv_scheme \<Rightarrow> (int, 'a) fres" where
  "alloc_block_num s =
    (case find (\<lambda>b. bit_is_set b s) [3..<unat (s_nblocks (super s) s)] of
       Some b \<Rightarrow>
         (let a = bitmap s + 8 * (b div 64)
          in Ret (sint (of_nat b :: u32)) (st64 uput a (ld64 uget s a AND NOT (push_bit (b mod 64) 1)) s))
     | None \<Rightarrow> Ret (- E_NO_DISK) s)"

definition alloc_block :: "'a fsrv_scheme \<Rightarrow> (int, 'a) fres" where
  "alloc_block s =
    obind (alloc_block_num s) (\<lambda>bno s.
      if bno < 0 then Ret bno s
      else obind (map_block (of_int bno) s) (\<lambda>r s.
        if r < 0 then obind (free_block (of_int bno) s) (\<lambda>_ s. Ret r s) else Ret bno s))"

section \<open>Starting up\<close>

definition read_super :: "'a fsrv_scheme \<Rightarrow> (unit, 'a) fres" where
  "read_super s =
    obind (read_block 1 s) (\<lambda>(r, blk, _) s.
      if r < 0 then Panic ''cannot read superblock'' s
      else let s = s\<lparr>super := blk\<rparr>
           in if s_magic (super s) s \<noteq> FS_MAGIC then Panic ''bad file system magic number'' s
              else if s_nblocks (super s) s > DISKMAX div 4096 then Panic ''file system is too large'' s
              else Ret () s)"

definition uassert :: "bool \<Rightarrow> 's \<Rightarrow> (unit, 's) outcome" where
  "uassert b s = (if b then Ret () s else Panic ''assertion failed'' s)"

definition read_bitmap :: "'a fsrv_scheme \<Rightarrow> (unit, 'a) fres" where
  "read_bitmap s =
    (let s = s\<lparr>nbitmap := ROUND (ucast (s_nblocks (super s) s)) BIT2BLK div BIT2BLK\<rparr>;
         is = [0..<unat (nbitmap s)]
     in obind (each is (\<lambda>i s. obind (read_block (of_nat i + 2) s) (\<lambda>_ s. Ret () s)) s) (\<lambda>_ s.
        obind (diskaddr 2 s) (\<lambda>va s.
        let s = s\<lparr>bitmap := va\<rparr>
        in obind (uassert (\<not> block_is_free 0 s) s) (\<lambda>_ s.
           obind (uassert (\<not> block_is_free 1 s) s) (\<lambda>_ s.
             each is (\<lambda>i s. uassert (\<not> block_is_free (of_nat i + 2) s) s) s)))))"

text \<open>The test of \<open>write_block\<close> on the superblock; \<open>smashed\<close> is the literal it writes there.\<close>

definition smashed :: "u8 list" where "smashed = [79, 79, 80, 83, 33, 10, 0]"

fun put_bytes :: "nat \<Rightarrow> u8 list \<Rightarrow> 'a umem_scheme \<Rightarrow> 'a umem_scheme" where
  "put_bytes p [] s = s"
| "put_bytes p (b # bs) s = put_bytes (p + 1) bs (uput p b s)"

definition check_write_block :: "'a fsrv_scheme \<Rightarrow> (unit, 'a) fres" where
  "check_write_block s =
    (let s = s\<lparr>super := 0\<rparr>
     in obind (read_block 0 s) (\<lambda>_ s.
        obind (diskaddr 1 s) (\<lambda>va1 s. obind (diskaddr 0 s) (\<lambda>va0 s.
        let s = put_bytes va1 smashed (user_bcopy uget uput va1 va0 4096 s)
        in obind (write_block 1 s) (\<lambda>_ s.
           obind (block_is_mapped 1 s) (\<lambda>m s.
           obind (uassert (m \<noteq> 0) s) (\<lambda>_ s.
           case syscall_mem_unmap va1 s of (r, s) \<Rightarrow>
             obind (block_is_mapped 1 s) (\<lambda>m s.
             obind (uassert (m = 0) s) (\<lambda>_ s.
             obind (read_block 1 s) (\<lambda>_ s.
             obind (uassert (map (uget s) [va1..<va1 + 7] = smashed) s) (\<lambda>_ s.
             obind (write_block 1 (user_bcopy uget uput va0 va1 4096 s)) (\<lambda>_ s.
               Ret () (s\<lparr>super := va1\<rparr>)))))))))))))"

definition fs_init :: "'a fsrv_scheme \<Rightarrow> (unit, 'a) fres" where
  "fs_init s =
    obind (read_super s) (\<lambda>_ s. obind (check_write_block s) (\<lambda>_ s. read_bitmap s))"

end
