(* ===== verification/Fsfile.thy ===== *)
theory Fsfile
  imports Fs
begin

text \<open>
  Files, directories and paths of fs/fs.c. A slot of the block table is a \<open>u32\<close> that the code reads and
  writes through a \<open>u64\<close> pointer; the model does the same. Output parameters are further results.
\<close>

section \<open>Blocks of a file\<close>

text \<open>\<open>file_block_walk\<close> returns its result and \<open>*ppdiskbno\<close>.\<close>

definition indirect_block :: "nat \<Rightarrow> bool \<Rightarrow> 'a fsrv_scheme \<Rightarrow> (int, 'a) fres" where
  "indirect_block f alloc s =
    (if f_indirect f s = 0 then
       if \<not> alloc then Ret (- E_NOT_FOUND) s
       else obind (alloc_block s) (\<lambda>r s.
         if r < 0 then Ret r s else Ret 0 (set_f_indirect f (of_int r) s))
     else Ret 0 s)"

definition file_block_walk :: "nat \<Rightarrow> u32 \<Rightarrow> bool \<Rightarrow> 'a fsrv_scheme \<Rightarrow> (int \<times> nat, 'a) fres" where
  "file_block_walk f filebno alloc s =
    (if filebno < NDIRECT then Ret (0, f_direct f filebno) s
     else if filebno < NINDIRECT then
       obind (indirect_block f alloc s) (\<lambda>r s.
         if r < 0 then Ret (r, 0) s
         else obind (read_block (f_indirect f s) s) (\<lambda>(r, blk, _) s.
           if r < 0 then Ret (r, 0) s else Ret (0, blk + 4 * unat filebno) s))
     else Ret (- E_INVAL, 0) s)"

definition file_map_block :: "nat \<Rightarrow> u32 \<Rightarrow> bool \<Rightarrow> 'a fsrv_scheme \<Rightarrow> (int \<times> u32, 'a) fres" where
  "file_map_block f filebno alloc s =
    obind (file_block_walk f filebno alloc s) (\<lambda>(r, ptr) s.
      if r < 0 then Ret (r, 0) s
      else obind (if ld64 uget s ptr = 0 then
                    if \<not> alloc then Ret (- E_NOT_FOUND) s
                    else obind (alloc_block s) (\<lambda>r s.
                      if r < 0 then Ret r s else Ret 0 (st64 uput ptr (of_int r) s))
                  else Ret 0 s) (\<lambda>r s.
        if r < 0 then Ret (r, 0) s else Ret (0, ucast (ld64 uget s ptr)) s))"

definition file_clear_block :: "nat \<Rightarrow> u32 \<Rightarrow> 'a fsrv_scheme \<Rightarrow> (int, 'a) fres" where
  "file_clear_block f filebno s =
    obind (file_block_walk f filebno False s) (\<lambda>(r, ptr) s.
      if r < 0 then Ret r s
      else if ld64 uget s ptr \<noteq> 0 then
        obind (free_block (ucast (ld64 uget s ptr)) s) (\<lambda>_ s. Ret 0 (st64 uput ptr 0 s))
      else Ret 0 s)"

definition file_get_block :: "nat \<Rightarrow> u32 \<Rightarrow> 'a fsrv_scheme \<Rightarrow> (int \<times> nat, 'a) fres" where
  "file_get_block f filebno s =
    obind (file_map_block f filebno True s) (\<lambda>(r, diskbno) s.
      if r < 0 then Ret (r, 0) s
      else obind (read_block diskbno s) (\<lambda>(r, blk, _) s.
        if r < 0 then Ret (r, 0) s else Ret (0, blk) s))"

definition file_dirty :: "nat \<Rightarrow> u32 \<Rightarrow> 'a fsrv_scheme \<Rightarrow> (int, 'a) fres" where
  "file_dirty f offset s =
    obind (file_get_block f (offset div 4096) s) (\<lambda>(r, blk) s.
      if r < 0 then Ret r s else Ret 0 (uput blk (uget s blk) s))"

section \<open>Directories\<close>

definition nblocks_of :: "u32 \<Rightarrow> u32" where
  "nblocks_of n = ucast (ROUND (ucast n) 4096 div 4096)"

text \<open>The entries of one block; \<open>None\<close> when a comparison does not end.\<close>

fun dir_scan :: "nat \<Rightarrow> nat \<Rightarrow> nat list \<Rightarrow> 'a umem_scheme \<Rightarrow> nat option option" where
  "dir_scan blk name [] s = Some None"
| "dir_scan blk name (j # js) s =
    (case strcmp uget (blk + BY2FILE * j) name s of
       None \<Rightarrow> None
     | Some r \<Rightarrow> if r = 0 then Some (Some (blk + BY2FILE * j)) else dir_scan blk name js s)"

fun dir_lookup_from :: "nat \<Rightarrow> nat \<Rightarrow> nat list \<Rightarrow> 'a fsrv_scheme \<Rightarrow> (int \<times> nat, 'a) fres" where
  "dir_lookup_from dir name [] s = Ret (- E_NOT_FOUND, 0) s"
| "dir_lookup_from dir name (i # bs) s =
    obind (file_get_block dir (of_nat i) s) (\<lambda>(r, blk) s.
      if r < 0 then Ret (r, 0) s
      else case dir_scan blk name [0..<FILE2BLK] s of
        None \<Rightarrow> Hang
      | Some (Some f) \<Rightarrow> Ret (0, f) (set_f_dir f (of_nat dir) s)
      | Some None \<Rightarrow> dir_lookup_from dir name bs s)"

definition dir_lookup :: "nat \<Rightarrow> nat \<Rightarrow> 'a fsrv_scheme \<Rightarrow> (int \<times> nat, 'a) fres" where
  "dir_lookup dir name s = dir_lookup_from dir name [0..<unat (nblocks_of (f_size dir s))] s"

fun dir_free_from :: "nat \<Rightarrow> nat list \<Rightarrow> 'a fsrv_scheme \<Rightarrow> (int \<times> nat option, 'a) fres" where
  "dir_free_from dir [] s = Ret (0, None) s"
| "dir_free_from dir (i # bs) s =
    obind (file_get_block dir (of_nat i) s) (\<lambda>(r, blk) s.
      if r < 0 then Ret (r, None) s
      else case find (\<lambda>j. uget s (blk + BY2FILE * j) = 0) [0..<FILE2BLK] of
        Some j \<Rightarrow> Ret (0, Some (blk + BY2FILE * j)) s
      | None \<Rightarrow> dir_free_from dir bs s)"

definition dir_alloc_file :: "nat \<Rightarrow> 'a fsrv_scheme \<Rightarrow> (int \<times> nat, 'a) fres" where
  "dir_alloc_file dir s =
    (let nblock = nblocks_of (f_size dir s)
     in obind (dir_free_from dir [0..<unat nblock] s) (\<lambda>(r, ff) s.
       if r < 0 then Ret (r, 0) s
       else case ff of
         Some f \<Rightarrow> Ret (0, f) s
       | None \<Rightarrow>
           obind (file_get_block dir nblock (set_f_size dir (f_size dir s + 4096) s)) (\<lambda>(r, blk) s.
             if r < 0 then Ret (r, 0) s else Ret (0, blk) s)))"

section \<open>Paths\<close>

abbreviation (input) slash :: u8 where "slash \<equiv> 47"

partial_function (option) skip_slash :: "nat \<Rightarrow> 'a umem_scheme \<Rightarrow> nat option" where
  "skip_slash p s = (if uget s p = slash then skip_slash (p + 1) s else Some p)"

partial_function (option) skip_name :: "nat \<Rightarrow> 'a umem_scheme \<Rightarrow> nat option" where
  "skip_name p s = (if uget s p \<noteq> slash \<and> uget s p \<noteq> 0 then skip_name (p + 1) s else Some p)"

text \<open>
  The loop of \<open>walk_path\<close>. \<open>name\<close> is the address of its buffer, \<open>lastelem\<close> the caller's, 0 for none. The
  results are the return value, \<open>*pdir\<close> and \<open>*pfile\<close>.
\<close>

partial_function (option) walk_loop ::
    "nat \<Rightarrow> nat \<Rightarrow> nat \<Rightarrow> nat \<Rightarrow> nat \<Rightarrow> 'a fsrv_scheme \<Rightarrow> (int \<times> nat \<times> nat, 'a) fres option" where
  "walk_loop name lastelem path dir file s =
    (if uget s path = 0 then Some (Ret (0, dir, file) s)
     else case skip_name path s of
       None \<Rightarrow> None
     | Some e \<Rightarrow>
         if e - path \<ge> MAXNAMELEN then Some (Ret (- E_BAD_PATH, 0, 0) s)
         else let s = uput (name + (e - path)) 0 (user_bcopy uget uput path name (e - path) s)
         in case skip_slash e s of
              None \<Rightarrow> None
            | Some path' \<Rightarrow>
                if f_type file s \<noteq> FTYPE_DIR then Some (Ret (- E_NOT_FOUND, 0, 0) s)
                else case dir_lookup file name s of
                  Ret (r, f) s \<Rightarrow>
                    if r < 0 then
                      if r = - E_NOT_FOUND \<and> uget s path' = 0 then
                        if lastelem \<noteq> 0 then
                          (case strcpy uget uput lastelem name s of
                             None \<Rightarrow> None
                           | Some s \<Rightarrow> Some (Ret (r, file, 0) s))
                        else Some (Ret (r, file, 0) s)
                      else Some (Ret (r, 0, 0) s)
                    else walk_loop name lastelem path' file f s
                | Eret s \<Rightarrow> Some (Eret s)
                | Panic m s \<Rightarrow> Some (Panic m s)
                | Hang \<Rightarrow> None)"

definition walk_path ::
    "nat \<Rightarrow> nat \<Rightarrow> nat \<Rightarrow> 'a fsrv_scheme \<Rightarrow> (int \<times> nat \<times> nat, 'a) fres" where
  "walk_path name path lastelem s =
    (case skip_slash path s of
       None \<Rightarrow> Hang
     | Some path \<Rightarrow> of_opt (walk_loop name lastelem path 0 (s_root (super s)) (uput name 0 s)))"

text \<open>\<open>file_open\<close> and the others have their own name buffer on the stack, below that of \<open>walk_path\<close>.\<close>

definition file_open :: "nat \<Rightarrow> nat \<Rightarrow> 'a fsrv_scheme \<Rightarrow> (int \<times> nat, 'a) fres" where
  "file_open wname path s =
    obind (walk_path wname path 0 s) (\<lambda>(r, _, f) s. Ret (r, f) s)"

definition file_create :: "nat \<Rightarrow> nat \<Rightarrow> nat \<Rightarrow> u32 \<Rightarrow> 'a fsrv_scheme \<Rightarrow> (int \<times> nat, 'a) fres" where
  "file_create wname name path filetype s =
    obind (walk_path wname path name s) (\<lambda>(r, dir, _) s.
      if r = 0 then Ret (- E_FILE_EXISTS, 0) s
      else if r \<noteq> - E_NOT_FOUND \<or> dir = 0 then Ret (r, 0) s
      else obind (dir_alloc_file dir s) (\<lambda>(ra, f) s.
        if ra < 0 then Ret (r, 0) s
        else case strcpy uget uput f name s of
          None \<Rightarrow> Hang
        | Some s \<Rightarrow> Ret (0, f) (set_f_type f filetype s)))"

section \<open>Sizes, flushing and removing\<close>

definition clear_blocks :: "nat \<Rightarrow> u32 \<Rightarrow> u32 \<Rightarrow> 'a fsrv_scheme \<Rightarrow> (unit, 'a) fres" where
  "clear_blocks f from to s =
    each [unat from..<unat to] (\<lambda>b s. obind (file_clear_block f (of_nat b) s) (\<lambda>_ s. Ret () s)) s"

definition file_truncate :: "nat \<Rightarrow> u64 \<Rightarrow> 'a fsrv_scheme \<Rightarrow> (unit, 'a) fres" where
  "file_truncate f newsize s =
    (let old_nblocks = nblocks_of (f_size f s);
         new_nblocks = (if newsize = 0 then 0 else ucast (ROUND newsize 4096 div 4096))
     in obind (if new_nblocks < NDIRECT then
                 obind (clear_blocks f new_nblocks old_nblocks s) (\<lambda>_ s.
                   if f_indirect f s \<noteq> 0 then
                     obind (free_block (f_indirect f s) s) (\<lambda>_ s. Ret () (set_f_indirect f 0 s))
                   else Ret () s)
               else clear_blocks f new_nblocks old_nblocks s) (\<lambda>_ s.
        Ret () (set_f_size f (ucast newsize) s)))"

definition file_flush :: "nat \<Rightarrow> 'a fsrv_scheme \<Rightarrow> (unit, 'a) fres" where
  "file_flush f s =
    each [0..<unat (nblocks_of (f_size f s))] (\<lambda>bno s.
      obind (file_map_block f (of_nat bno) False s) (\<lambda>(r, diskno) s.
        if r < 0 then Ret () s
        else obind (block_is_dirty diskno s) (\<lambda>d s.
          if d then write_block (ucast diskno) s else Ret () s))) s"

definition flush_dir :: "nat \<Rightarrow> 'a fsrv_scheme \<Rightarrow> (unit, 'a) fres" where
  "flush_dir f s = (if f_dir f s \<noteq> 0 then file_flush (unat (f_dir f s)) s else Ret () s)"

definition file_set_size :: "nat \<Rightarrow> u64 \<Rightarrow> 'a fsrv_scheme \<Rightarrow> (int, 'a) fres" where
  "file_set_size f newsize s =
    obind (if ucast (f_size f s) > newsize then file_truncate f newsize s else Ret () s) (\<lambda>_ s.
      obind (flush_dir f (set_f_size f (ucast newsize) s)) (\<lambda>_ s. Ret 0 s))"

definition fs_sync :: "'a fsrv_scheme \<Rightarrow> (unit, 'a) fres" where
  "fs_sync s =
    each [0..<unat (s_nblocks (super s) s)] (\<lambda>i s.
      obind (block_is_dirty (of_nat i) s) (\<lambda>d s.
        if d then write_block (of_nat i) s else Ret () s)) s"

definition file_close :: "nat \<Rightarrow> 'a fsrv_scheme \<Rightarrow> (unit, 'a) fres" where
  "file_close f s = obind (file_flush f s) (\<lambda>_ s. flush_dir f s)"

definition file_remove :: "nat \<Rightarrow> nat \<Rightarrow> 'a fsrv_scheme \<Rightarrow> (int, 'a) fres" where
  "file_remove wname path s =
    obind (walk_path wname path 0 s) (\<lambda>(r, _, f) s.
      if r < 0 then Ret r s
      else obind (file_truncate f 0 s) (\<lambda>_ s.
        obind (file_flush f (uput f 0 s)) (\<lambda>_ s.
        obind (flush_dir f s) (\<lambda>_ s. Ret 0 s))))"

end
