(* ===== verification/Fsblocks.thy ===== *)
theory Fsblocks
  imports Fsfile
begin

text \<open>What the block cache and the bitmap of fs/fs.c promise.\<close>

section \<open>Sectors\<close>

definition card_page :: "nat \<Rightarrow> nat \<Rightarrow> (nat \<Rightarrow> u8) \<Rightarrow> (nat \<Rightarrow> nat \<Rightarrow> u8) \<Rightarrow> nat \<Rightarrow> nat \<Rightarrow> u8" where
  "card_page k0 n m c = (\<lambda>k i. if k0 \<le> k \<and> k < k0 + n \<and> i < 512 then m (512 * (k - k0) + i) else c k i)"


lemma section_nat:
  assumes "k < 2 ^ 32"
  shows "unat (of_nat k :: u64) = k" "unat (ucast (of_nat k :: u64) :: u32) = k"
  using assms by (simp_all add: unsigned_ucast_eq unsigned_of_nat take_bit_nat_eq_self)

lemma sd_write_loop_ok:
  assumes "\<And>i. i < n \<Longrightarrow> card_ok s (k + i)" and "k + n < 2 ^ 32" and "src + off + 512 * n \<le> UKERNBASE"
  shows "sd_write_loop (of_nat k) (of_nat (k + n)) src off s =
    Ret () (s\<lparr>card := card_page k n (\<lambda>i. uget s (src + off + i)) (card s)\<rparr>)"
  using assms
proof (induction n arbitrary: k off s)
  case 0
  have "card_page k 0 m c = c" for m c by (auto simp: card_page_def fun_eq_iff)
  then show ?case by (subst sd_write_loop.simps) simp
next
  case (Suc n)
  have u: "unat (of_nat k :: u64) = k" "unat (of_nat (k + Suc n) :: u64) = k + Suc n"
    "unat (ucast (of_nat k :: u64) :: u32) = k"
    using Suc.prems(2) section_nat [of k] section_nat [of "k + Suc n"]
    by (simp_all add: unsigned_of_nat take_bit_nat_eq_self)
  then have lt: "(of_nat k :: u64) < of_nat (k + Suc n)" by (simp add: word_less_nat_alt)
  let ?s = "s\<lparr>card := (card s)(k := (\<lambda>i. if i < 512 then uget s (src + off + i) else card s k i))\<rparr>"
  have w: "syscall_write_sd (src + off) (ucast (of_nat k :: u64)) s = (0, ?s)"
    unfolding syscall_write_sd_def u(3) using Suc.prems(1) [of 0] Suc.prems(3) by simp
  have "sd_write_loop (of_nat (Suc k)) (of_nat (Suc k + n)) src (off + 512) ?s =
    Ret () (?s\<lparr>card := card_page (Suc k) n (\<lambda>i. uget ?s (src + (off + 512) + i)) (card ?s)\<rparr>)"
    by (rule Suc.IH) (use Suc.prems(1) [of "Suc _"] Suc.prems(2,3) in auto)
  moreover have "card_page (Suc k) n (\<lambda>i. uget ?s (src + (off + 512) + i)) (card ?s) =
    card_page k (Suc n) (\<lambda>i. uget s (src + off + i)) (card s)"
  proof (intro ext)
    fix k' i
    consider "k' < k" | "k' = k" | d where "k' = Suc k + d" using le_Suc_ex [of "Suc k" k'] by (meson linorder_less_linear Suc_leI)
    then show "card_page (Suc k) n (\<lambda>i. uget ?s (src + (off + 512) + i)) (card ?s) k' i =
      card_page k (Suc n) (\<lambda>i. uget s (src + off + i)) (card s) k' i"
      by cases (simp_all add: card_page_def uget_def algebra_simps)
  qed
  ultimately show ?case
    using lt w by (subst sd_write_loop.simps) (simp add: algebra_simps)
qed


definition mem_sectors :: "nat \<Rightarrow> nat \<Rightarrow> nat \<Rightarrow> (nat \<Rightarrow> nat \<Rightarrow> u8) \<Rightarrow> (nat \<Rightarrow> u8) \<Rightarrow> nat \<Rightarrow> u8" where
  "mem_sectors a0 n k c m = (\<lambda>a. if a0 \<le> a \<and> a < a0 + 512 * n
     then c (k + (a - a0) div 512) ((a - a0) mod 512) else m a)"

lemma touch_mapped [simp]: "uperm s (a div 4096) \<noteq> None \<Longrightarrow> touch a s = s"
  by (auto simp: touch_def)

lemma sd_read_loop_ok:
  assumes "\<And>i. i < n \<Longrightarrow> card_ok s (k + i)" and "k + n < 2 ^ 32" and "dst + off + 512 * n \<le> UKERNBASE"
    and "\<And>i. i < n \<Longrightarrow> uperm s ((dst + off + 512 * i) div 4096) \<noteq> None"
  shows "sd_read_loop (of_nat k) (of_nat (k + n)) dst off s =
    Ret () (s\<lparr>ubytes := mem_sectors (dst + off) n k (card s) (ubytes s)\<rparr>)"
  using assms
proof (induction n arbitrary: k off s)
  case 0
  have "mem_sectors a 0 k c m = m" for a c m by (auto simp: mem_sectors_def fun_eq_iff)
  then show ?case by (subst sd_read_loop.simps) simp
next
  case (Suc n)
  have u: "unat (of_nat k :: u64) = k" "unat (of_nat (k + Suc n) :: u64) = k + Suc n"
    "unat (ucast (of_nat k :: u64) :: u32) = k"
    using Suc.prems(2) section_nat [of k] section_nat [of "k + Suc n"]
    by (simp_all add: unsigned_of_nat take_bit_nat_eq_self)
  then have lt: "(of_nat k :: u64) < of_nat (k + Suc n)" by (simp add: word_less_nat_alt)
  let ?s = "s\<lparr>ubytes := (\<lambda>a. if dst + off \<le> a \<and> a < dst + off + 512 then card s k (a - (dst + off)) else ubytes s a)\<rparr>"
  have w: "syscall_read_sd (dst + off) (ucast (of_nat k :: u64)) s = (0, ?s)"
    unfolding syscall_read_sd_def u(3) using Suc.prems(1) [of 0] Suc.prems(3) Suc.prems(4) [of 0] by simp
  have "sd_read_loop (of_nat (Suc k)) (of_nat (Suc k + n)) dst (off + 512) ?s =
    Ret () (?s\<lparr>ubytes := mem_sectors (dst + (off + 512)) n (Suc k) (card ?s) (ubytes ?s)\<rparr>)"
  proof (rule Suc.IH)
    fix i assume "i < n"
    then show "card_ok ?s (Suc k + i)" "uperm ?s ((dst + (off + 512) + 512 * i) div 4096) \<noteq> None"
      using Suc.prems(1) [of "Suc i"] Suc.prems(4) [of "Suc i"] by (simp_all add: add.assoc add.left_commute)
  qed (use Suc.prems(2,3) in auto)
  moreover have "mem_sectors (dst + (off + 512)) n (Suc k) (card ?s) (ubytes ?s) =
    mem_sectors (dst + off) (Suc n) k (card s) (ubytes s)"
  proof
    fix a
    consider "a < dst + off" | "dst + off \<le> a" "a < dst + off + 512" | "dst + off + 512 \<le> a" by linarith
    then show "mem_sectors (dst + (off + 512)) n (Suc k) (card ?s) (ubytes ?s) a =
      mem_sectors (dst + off) (Suc n) k (card s) (ubytes s) a"
    proof cases
      case 3
      then obtain b where "a = dst + off + 512 + b" using le_Suc_ex by blast
      then show ?thesis by (simp add: mem_sectors_def div_add_self1)
    qed (simp_all add: mem_sectors_def)
  qed
  ultimately show ?case
    using lt w by (subst sd_read_loop.simps) (simp add: algebra_simps)
qed


section \<open>Blocks\<close>

definition block_va :: "u32 \<Rightarrow> nat" where "block_va b = DISKMAP + unat b * 4096"
definition first_sector :: "u32 \<Rightarrow> nat" where "first_sector b = 3002048 + 8 * unat b"

lemma sector_words:
  assumes "unat b < 2 ^ 18"
  shows "ucast (b * 8 + (2048 + 3000000) :: u32) = (of_nat (first_sector b) :: u64)"
    "ucast (b * 8 + 8 + (2048 + 3000000) :: u32) = (of_nat (first_sector b + 8) :: u64)"
proof -
  have *: "unat (of_nat n :: u32) = n" if "n < 2 ^ 32" for n
    using that by (simp add: unsigned_of_nat take_bit_nat_eq_self)
  have e: "b * 8 + (2048 + 3000000) = (of_nat (first_sector b) :: u32)"
    "b * 8 + 8 + (2048 + 3000000) = (of_nat (first_sector b + 8) :: u32)"
    by (simp_all add: first_sector_def)
  have c: "ucast x = (of_nat (unat x) :: u64)" for x :: u32 by simp
  have l: "first_sector b < 2 ^ 32" "first_sector b + 8 < 2 ^ 32" using assms by (simp_all add: first_sector_def)
  show "ucast (b * 8 + (2048 + 3000000) :: u32) = (of_nat (first_sector b) :: u64)"
    "ucast (b * 8 + 8 + (2048 + 3000000) :: u32) = (of_nat (first_sector b + 8) :: u64)"
    unfolding c e *[OF l(1)] *[OF l(2)] by (rule refl)+
qed

lemma sd_write_block:
  assumes "unat b < 2 ^ 18" and "\<And>i. i < 8 \<Longrightarrow> card_ok s (first_sector b + i)" and "va + 4096 \<le> UKERNBASE"
  shows "sd_write (b * 8) va 8 s =
    Ret () (s\<lparr>card := card_page (first_sector b) 8 (\<lambda>i. uget s (va + i)) (card s)\<rparr>)"
  unfolding sd_write_def sector_words [OF assms(1)]
  using sd_write_loop_ok [of 8 s "first_sector b" va 0] assms by (simp add: first_sector_def)

lemma sd_read_block:
  assumes "unat b < 2 ^ 18" and "\<And>i. i < 8 \<Longrightarrow> card_ok s (first_sector b + i)" and "va + 4096 \<le> UKERNBASE"
    and "va mod 4096 = 0" and "uperm s (va div 4096) \<noteq> None"
  shows "sd_read (b * 8) va 8 s =
    Ret () (s\<lparr>ubytes := mem_sectors va 8 (first_sector b) (card s) (ubytes s)\<rparr>)"
proof -
  have "(va + 512 * i) div 4096 = va div 4096" if "i < 8" for i
  proof -
    obtain q where "va = 4096 * q" using assms(4) by auto
    then show ?thesis using that by simp
  qed
  then show ?thesis
    unfolding sd_read_def sector_words [OF assms(1)]
    using sd_read_loop_ok [of 8 s "first_sector b" va 0] assms by (simp add: first_sector_def)
qed


section \<open>Stores in the server's memory\<close>

lemma fsrv_touch [simp, field_simps_os]:
  "card (touch a s) = card s" "card_ok (touch a s) = card_ok s" "super (touch a s) = super s"
  "nbitmap (touch a s) = nbitmap s" "bitmap (touch a s) = bitmap s"
  by (simp_all add: touch_def)

lemma fsrv_uput [simp, field_simps_os]:
  "card (uput a v s) = card s" "card_ok (uput a v s) = card_ok s" "super (uput a v s) = super s"
  "nbitmap (uput a v s) = nbitmap s" "bitmap (uput a v s) = bitmap s"
  by (simp_all add: uput_def Let_def)

lemma uperm_uput: "uperm (uput a v s) p = (if p = a div 4096 \<and> uperm s p = None
    then Some (TABLE OR PTE_USER OR VALID) else uperm s p)"
  by (auto simp: uput_def touch_def Let_def)

lemma fsrv_st32 [simp, field_simps_os]:
  "card (st32 uput a v s) = card s" "card_ok (st32 uput a v s) = card_ok s" "super (st32 uput a v s) = super s"
  "nbitmap (st32 uput a v s) = nbitmap s" "bitmap (st32 uput a v s) = bitmap s" "grants (st32 uput a v s) = grants s"
  by (simp_all add: st32_def st16_def)

lemma fsrv_st64 [simp, field_simps_os]:
  "card (st64 uput a v s) = card s" "card_ok (st64 uput a v s) = card_ok s" "super (st64 uput a v s) = super s"
  "nbitmap (st64 uput a v s) = nbitmap s" "bitmap (st64 uput a v s) = bitmap s" "grants (st64 uput a v s) = grants s"
  by (simp_all add: st64_def)

lemma mapped_uput: "uperm s p = Some x \<Longrightarrow> uperm (uput a v s) p = Some x"
  by (simp add: uperm_uput)

lemma mapped_st32: "uperm s p = Some x \<Longrightarrow> uperm (st32 uput a v s) p = Some x"
  unfolding st32_def st16_def by (intro mapped_uput)

lemma mapped_st64: "uperm s p = Some x \<Longrightarrow> uperm (st64 uput a v s) p = Some x"
  unfolding st64_def by (intro mapped_st32)

lemma ld32_st64_other: "a + 8 \<le> b \<or> b + 4 \<le> a \<Longrightarrow> ld32 uget (st64 uput a v s) b = ld32 uget s b"
proof (rule um.ld32_cong)
  fix i :: nat
  assume "a + 8 \<le> b \<or> b + 4 \<le> a" "i < 4"
  then have "\<not> (a \<le> b + i \<and> b + i < a + 8)" by linarith
  then show "uget (st64 uput a v s) (b + i) = uget s (b + i)" by (simp only: um.get_st64 if_False)
qed

text \<open>A word on one mapped page.\<close>

lemma uperm_touch_uput:
  "b div 4096 = p \<Longrightarrow> uperm (touch (p * 4096) (uput b w t)) = uperm (touch (p * 4096) t)"
  by (auto simp: touch_def uput_def Let_def)

lemma uperm_st32:
  assumes "uperm s p = Some x" and "\<And>i. i < 4 \<Longrightarrow> (a + i) div 4096 = p"
  shows "uperm (st32 uput a v s) = uperm s"
proof -
  have "uperm (touch (p * 4096) (st32 uput a v s)) = uperm (touch (p * 4096) s)"
  proof (rule st32_frame [where f = "\<lambda>t. uperm (touch (p * 4096) t)"])
    fix b w and t :: "'a umem_scheme"
    assume "a \<le> b" "b < a + 4"
    then have "b div 4096 = p" using assms(2) [of "b - a"] by simp
    then show "uperm (touch (p * 4096) (uput b w t)) = uperm (touch (p * 4096) t)" by (rule uperm_touch_uput)
  qed
  then show ?thesis using assms(1) mapped_st32 [OF assms(1)] by simp
qed

lemma uperm_st64:
  assumes "uperm s p = Some x" and "\<And>i. i < 8 \<Longrightarrow> (a + i) div 4096 = p"
  shows "uperm (st64 uput a v s) = uperm s"
proof -
  have "uperm (st32 uput a w s) = uperm s" for w using assms by (intro uperm_st32) auto
  moreover from this have "uperm (st32 uput (a + 4) w' (st32 uput a w s)) = uperm (st32 uput a w s)" for w w'
    using assms(1) assms(2) [of "4 + _"] by (intro uperm_st32 [where p = p and x = x]) (auto simp: add.assoc)
  ultimately show ?thesis by (simp add: st64_def)
qed

section \<open>The bitmap as a set\<close>

definition nblk :: "'a fsrv_scheme \<Rightarrow> nat" where "nblk s = unat (s_nblocks (super s) s)"

definition free_set :: "'a fsrv_scheme \<Rightarrow> nat set" where
  "free_set s = {b. 3 \<le> b \<and> b < nblk s \<and> bit_is_set b s}"

text \<open>Both blocks that the server keeps pointers into are where \<open>fs_init\<close> leaves them,
  cached with the whole bitmap.\<close>

definition nbm :: "'a fsrv_scheme \<Rightarrow> nat" where "nbm s = (nblk s + 32767) div 32768"

definition fs_ok :: "'a fsrv_scheme \<Rightarrow> bool" where
  "fs_ok s \<longleftrightarrow> super s = DISKMAP + 4096 \<and> bitmap s = DISKMAP + 8192 \<and> 3 \<le> nblk s \<and> nblk s \<le> 2 ^ 18 \<and>
     (\<forall>p. 0x200001 \<le> p \<and> p < 0x200002 + nbm s \<longrightarrow> uperm s p \<noteq> None)"

lemma bit_is_set_bit: "bit_is_set b s = bit (ld64 uget s (bitmap s + 8 * (b div 64))) (b mod 64)"
  by (simp add: bit_is_set_def and_exp_eq_0_iff_not_bit push_bit_of_1)

lemma block_is_free_set:
  "fs_ok s \<Longrightarrow> block_is_free b s \<longleftrightarrow> unat b < nblk s \<and> bit_is_set (unat b) s"
  by (auto simp: block_is_free_def bit_is_set_def fs_ok_def nblk_def word_le_nat_alt)

text \<open>Writing one word of the bitmap.\<close>

lemma bitmap_write:
  assumes "fs_ok s" and s': "s' = st64 uput (bitmap s + 8 * (b div 64)) w s"
  shows "fs_ok s'" "nblk s' = nblk s"
    "bit_is_set c s' = (if c div 64 = b div 64 then bit w (c mod 64) else bit_is_set c s)"
proof -
  have "ld32 uget s' (super s + 4) = ld32 uget s (super s + 4)"
    unfolding s' by (rule ld32_st64_other) (use assms(1) in \<open>simp add: fs_ok_def\<close>)
  then show n: "nblk s' = nblk s" by (simp add: nblk_def s_nblocks_def s')
  have "uperm s' p \<noteq> None" if "uperm s p \<noteq> None" for p using that mapped_st64 unfolding s' by blast
  then show "fs_ok s'" using assms(1) n by (simp add: fs_ok_def nbm_def s')
  show "bit_is_set c s' = (if c div 64 = b div 64 then bit w (c mod 64) else bit_is_set c s)"
  proof (cases "c div 64 = b div 64")
    case True
    then show ?thesis by (simp add: bit_is_set_bit s' um.ld64_st64)
  next
    case False
    then have "8 * (b div 64) + 8 \<le> 8 * (c div 64) \<or> 8 * (c div 64) + 8 \<le> 8 * (b div 64)" by linarith
    then have "ld64 uget s' (bitmap s + 8 * (c div 64)) = ld64 uget s (bitmap s + 8 * (c div 64))"
      unfolding s' by (intro um.ld64_st64_other) linarith
    then show ?thesis using False by (simp add: bit_is_set_bit s')
  qed
qed

lemma set_bit_word: "bit ((x :: u64) OR push_bit m 1) k \<longleftrightarrow> bit x k \<or> k = m \<and> m < 64"
  by (auto simp: bit_simps dest: bit_imp_le_length)

lemma clear_bit_word: "bit ((x :: u64) AND NOT (push_bit m 1)) k \<longleftrightarrow> bit x k \<and> k \<noteq> m"
  by (auto simp: bit_simps dest: bit_imp_le_length)

lemma same_bit: "c div 64 = b div 64 \<and> c mod 64 = b mod 64 \<longleftrightarrow> c = (b :: nat)"
  by (metis div_mult_mod_eq)

definition bm_write :: "'a fsrv_scheme \<Rightarrow> 'a fsrv_scheme \<Rightarrow> bool" where
  "bm_write s s' \<longleftrightarrow> (\<exists>b w. b < nblk s \<and> s' = st64 uput (bitmap s + 8 * (b div 64)) w s)"

lemma free_block_set:
  assumes "fs_ok s" and "b \<noteq> 0" and "unat b < nblk s"
  shows "\<exists>s'. free_block b s = Ret () s' \<and> fs_ok s' \<and> nblk s' = nblk s \<and> bm_write s s' \<and>
    (\<forall>c. bit_is_set c s' \<longleftrightarrow> c = unat b \<or> bit_is_set c s)"
proof -
  let ?a = "bitmap s + 8 * (unat b div 64)"
  let ?s = "st64 uput ?a (ld64 uget s ?a OR push_bit (unat b mod 64) 1) s"
  note W = bitmap_write [OF assms(1) refl, of "unat b"]
  have "bit_is_set c ?s \<longleftrightarrow> c = unat b \<or> bit_is_set c s" for c
  proof -
    have "bit_is_set c ?s = (if c div 64 = unat b div 64
        then bit (ld64 uget s ?a OR push_bit (unat b mod 64) 1) (c mod 64) else bit_is_set c s)"
      by (rule bitmap_write(3) [OF assms(1) refl])
    then show ?thesis
      using same_bit [of c "unat b"] unfolding set_bit_word by (auto simp: bit_is_set_bit)
  qed
  moreover have "free_block b s = Ret () ?s"
    using assms by (auto simp: free_block_def Let_def fs_ok_def nblk_def word_le_nat_alt)
  moreover have "bm_write s ?s" using assms(3) unfolding bm_write_def by blast
  ultimately show ?thesis using W(1,2) by blast
qed

lemma find_upt_Some:
  assumes "find P [a..<n] = Some b"
  shows "a \<le> b" "b < n" "P b" "\<And>c. a \<le> c \<Longrightarrow> c < b \<Longrightarrow> \<not> P c"
proof -
  obtain i where i: "i < n - a" "P ([a..<n] ! i)" "b = [a..<n] ! i" "\<forall>j<i. \<not> P ([a..<n] ! j)"
    using assms by (auto simp: find_Some_iff)
  then have b: "b = a + i" by simp
  show "a \<le> b" "b < n" "P b" using i b by auto
  show "\<not> P c" if "a \<le> c" "c < b" for c
  proof -
    have "[a..<n] ! (c - a) = c" "c - a < i" using that b i(1) by auto
    then show ?thesis using i(4) by metis
  qed
qed

lemma alloc_block_num_set:
  assumes "fs_ok s"
  shows "if free_set s = {} then alloc_block_num s = Ret (- E_NO_DISK) s
    else \<exists>s'. alloc_block_num s = Ret (int (Min (free_set s))) s' \<and> fs_ok s' \<and> nblk s' = nblk s \<and> bm_write s s' \<and>
      (\<forall>c. bit_is_set c s' \<longleftrightarrow> c \<noteq> Min (free_set s) \<and> bit_is_set c s)"
proof (cases "find (\<lambda>b. bit_is_set b s) [3..<nblk s]")
  case None
  then have "free_set s = {}" by (auto simp: find_None_iff free_set_def)
  then show ?thesis using None by (simp add: alloc_block_num_def nblk_def)
next
  case (Some b)
  note F = find_upt_Some [OF Some]
  have fin: "finite (free_set s)" by (simp add: free_set_def)
  have m: "Min (free_set s) = b"
    by (rule Min_eqI [OF fin]) (use F in \<open>auto simp: free_set_def not_less [symmetric]\<close>)
  have ne: "free_set s \<noteq> {}" using F by (auto simp: free_set_def)
  let ?a = "bitmap s + 8 * (b div 64)"
  let ?s = "st64 uput ?a (ld64 uget s ?a AND NOT (push_bit (b mod 64) 1)) s"
  note W = bitmap_write [OF assms refl, of b]
  have "bit_is_set c ?s \<longleftrightarrow> c \<noteq> b \<and> bit_is_set c s" for c
  proof -
    have "bit_is_set c ?s = (if c div 64 = b div 64
        then bit (ld64 uget s ?a AND NOT (push_bit (b mod 64) 1)) (c mod 64) else bit_is_set c s)"
      by (rule bitmap_write(3) [OF assms(1) refl])
    then show ?thesis
      using same_bit [of c b] unfolding clear_bit_word by (auto simp: bit_is_set_bit)
  qed
  moreover have "b < 2 ^ 18" using F(2) assms by (simp add: fs_ok_def)
  then have "sint (of_nat b :: u32) = int b" by (simp add: signed_of_nat signed_take_bit_int_eq_self)
  then have "alloc_block_num s = Ret (int b) ?s"
    using Some by (simp add: alloc_block_num_def Let_def nblk_def)
  moreover have "bm_write s ?s" using F(2) unfolding bm_write_def by blast
  ultimately show ?thesis using W(1,2) ne m by auto
qed


section \<open>A pool of blocks\<close>

text \<open>What the users of the bitmap rely on.\<close>

fun take_many :: "('s \<Rightarrow> nat option \<times> 's) \<Rightarrow> nat \<Rightarrow> 's \<Rightarrow> nat list \<times> 's" where
  "take_many tk 0 s = ([], s)"
| "take_many tk (Suc n) s =
    (case tk s of
       (None, t) \<Rightarrow> ([], t)
     | (Some b, t) \<Rightarrow> (case take_many tk n t of (bs, u) \<Rightarrow> (b # bs, u)))"

locale block_pool =
  fixes ok :: "'s \<Rightarrow> bool" and free :: "'s \<Rightarrow> nat set"
    and tk :: "'s \<Rightarrow> nat option \<times> 's" and give :: "nat \<Rightarrow> 's \<Rightarrow> 's" and pool :: "'s \<Rightarrow> nat set"
  assumes tk_None: "ok s \<Longrightarrow> tk s = (None, t) \<Longrightarrow> t = s \<and> free s = {}"
    and tk_Some: "ok s \<Longrightarrow> tk s = (Some b, t) \<Longrightarrow>
      ok t \<and> pool t = pool s \<and> b \<in> free s \<and> free t = free s - {b}"
    and give: "ok s \<Longrightarrow> b \<in> pool s \<Longrightarrow> ok (give b s) \<and> pool (give b s) = pool s \<and> free (give b s) = insert b (free s)"
    and free_pool: "free s \<subseteq> pool s"
begin

lemma take_many_distinct:
  assumes "ok s" and "take_many tk n s = (bs, t)"
  shows "ok t \<and> pool t = pool s \<and> distinct bs \<and> set bs \<subseteq> free s \<and> free t = free s - set bs \<and>
    (length bs = n \<or> length bs < n \<and> free t = {})"
  using assms
proof (induction n arbitrary: s bs)
  case (Suc n)
  show ?case
  proof (cases "tk s")
    case (Pair r u)
    show ?thesis
    proof (cases r)
      case None
      then show ?thesis using Suc.prems Pair tk_None [of s u] by auto
    next
      case (Some b)
      obtain cs where cs: "take_many tk n u = (cs, t)" "bs = b # cs"
        using Suc.prems(2) Pair Some by (auto split: prod.splits)
      have u: "ok u" "pool u = pool s" "b \<in> free s" "free u = free s - {b}"
        using tk_Some [of s b u] Suc.prems(1) Pair Some by auto
      show ?thesis using Suc.IH [OF u(1) cs(1)] u cs(2) by auto
    qed
  qed
qed simp

lemma give_all: "ok s \<Longrightarrow> set bs \<subseteq> pool s \<Longrightarrow> ok (fold give bs s) \<and> free (fold give bs s) = free s \<union> set bs"
proof (induction bs arbitrary: s)
  case (Cons b bs)
  then show ?case using give [of s b] by auto
qed simp

text \<open>Whatever is taken can be given back, and then the pool is as before.\<close>

lemma take_give:
  assumes "ok s" and "take_many tk n s = (bs, t)"
  shows "free (fold give bs t) = free s"
  using take_many_distinct [OF assms] give_all [of t bs] free_pool [of s] by auto

end

definition take_block :: "'a fsrv_scheme \<Rightarrow> nat option \<times> 'a fsrv_scheme" where
  "take_block s =
    (case alloc_block_num s of
       Ret r t \<Rightarrow> (if r < 0 then None else Some (nat r), t)
     | _ \<Rightarrow> (None, s))"

definition give_block :: "nat \<Rightarrow> 'a fsrv_scheme \<Rightarrow> 'a fsrv_scheme" where
  "give_block b s = (case free_block (of_nat b) s of Ret r t \<Rightarrow> t | _ \<Rightarrow> s)"

interpretation bmap: block_pool fs_ok free_set take_block give_block "\<lambda>s. {b. 3 \<le> b \<and> b < nblk s}"
proof
  fix s t :: "'a fsrv_scheme" and b
  assume ok: "fs_ok s"
  note A = alloc_block_num_set [OF ok]
  have E: "take_block s = (None, s)" if "free_set s = {}" using A that by (simp add: take_block_def)
  have S: "\<exists>s'. take_block s = (Some (Min (free_set s)), s') \<and> fs_ok s' \<and> nblk s' = nblk s \<and>
      (\<forall>c. bit_is_set c s' \<longleftrightarrow> c \<noteq> Min (free_set s) \<and> bit_is_set c s)" if "free_set s \<noteq> {}"
    using A that by (auto simp: take_block_def)
  show "take_block s = (None, t) \<Longrightarrow> t = s \<and> free_set s = {}"
    using E S by (cases "free_set s = {}") auto
  show "fs_ok t \<and> {b. 3 \<le> b \<and> b < nblk t} = {b. 3 \<le> b \<and> b < nblk s} \<and> b \<in> free_set s \<and> free_set t = free_set s - {b}"
    if "take_block s = (Some b, t)"
  proof -
    have ne: "free_set s \<noteq> {}" using that E by auto
    then obtain s' where s': "take_block s = (Some (Min (free_set s)), s')" "fs_ok s'" "nblk s' = nblk s"
      "\<And>c. bit_is_set c s' \<longleftrightarrow> c \<noteq> Min (free_set s) \<and> bit_is_set c s" using S by blast
    have "finite (free_set s)" by (simp add: free_set_def)
    then have "Min (free_set s) \<in> free_set s" using ne by (rule Min_in)
    moreover have "b = Min (free_set s)" "t = s'" using that s'(1) by simp_all
    ultimately show ?thesis using s' by (auto simp: free_set_def)
  qed
  show "fs_ok (give_block b s) \<and> {c. 3 \<le> c \<and> c < nblk (give_block b s)} = {c. 3 \<le> c \<and> c < nblk s} \<and>
      free_set (give_block b s) = insert b (free_set s)" if "b \<in> {b. 3 \<le> b \<and> b < nblk s}"
  proof -
    have "b < 2 ^ 18" using that ok by (simp add: fs_ok_def)
    then have u: "unat (of_nat b :: u32) = b" by (simp add: unsigned_of_nat take_bit_nat_eq_self)
    then have "(of_nat b :: u32) \<noteq> 0" using that by auto
    from free_block_set [OF ok this] that
    obtain s' where s': "free_block (of_nat b) s = Ret () s'" "fs_ok s'" "nblk s' = nblk s"
      "\<And>c. bit_is_set c s' \<longleftrightarrow> c = b \<or> bit_is_set c s" unfolding u by blast
    then have "give_block b s = s'" by (simp add: give_block_def)
    moreover have "free_set s' = insert b (free_set s)" using that s'(3,4) by (auto simp: free_set_def)
    ultimately show ?thesis using s'(2,3) by simp
  qed
qed (auto simp: free_set_def)

section \<open>What the superblock and the bitmap depend on\<close>

definition meta_end :: "'a fsrv_scheme \<Rightarrow> nat" where
  "meta_end s = DISKMAP + 8192 + 4096 * nbm s"

text \<open>The two words of the superblock that are read, and the bitmap.\<close>

definition in_meta :: "'a fsrv_scheme \<Rightarrow> nat \<Rightarrow> bool" where
  "in_meta s a \<longleftrightarrow> DISKMAP + 4096 \<le> a \<and> a < DISKMAP + 4104 \<or> DISKMAP + 8192 \<le> a \<and> a < meta_end s"

definition meta_same :: "'a fsrv_scheme \<Rightarrow> 'a fsrv_scheme \<Rightarrow> bool" where
  "meta_same s s' \<longleftrightarrow> super s' = super s \<and> bitmap s' = bitmap s \<and>
     (\<forall>a. in_meta s a \<longrightarrow> ubytes s' a = ubytes s a) \<and>
     (\<forall>p. 0x200001 \<le> p \<and> p < 0x200002 + nbm s \<and> uperm s p \<noteq> None \<longrightarrow> uperm s' p \<noteq> None)"

lemma bit_word_in_meta:
  assumes "c < nblk s" and "i < 8"
  shows "DISKMAP + 8192 + 8 * (c div 64) + i < meta_end s"
proof -
  have "c div 64 div 512 = c div 32768" by (simp add: div_mult2_eq [symmetric])
  moreover have "c div 32768 < (nblk s + 32767) div 32768" using assms(1) by (simp add: div_less_iff_less_mult)
  ultimately have "c div 64 < 512 * ((nblk s + 32767) div 32768)" by (simp add: div_less_iff_less_mult mult.commute)
  then show ?thesis using assms(2) by (simp add: meta_end_def nbm_def)
qed

lemma bm_write_frame:
  assumes ok: "fs_ok s" and w: "bm_write s s'"
  shows "card s' = card s" "card_ok s' = card_ok s" "super s' = super s" "bitmap s' = bitmap s"
    "nbitmap s' = nbitmap s" "grants s' = grants s" "uperm s' = uperm s"
    "\<And>a. \<not> in_meta s a \<Longrightarrow> uget s' a = uget s a"
proof -
  obtain b v where b: "b < nblk s" and s': "s' = st64 uput (bitmap s + 8 * (b div 64)) v s"
    using w by (auto simp: bm_write_def)
  show "card s' = card s" "card_ok s' = card_ok s" "super s' = super s" "bitmap s' = bitmap s"
    "nbitmap s' = nbitmap s" "grants s' = grants s" by (simp_all add: s')
  have bm: "bitmap s = DISKMAP + 8192" using ok by (simp add: fs_ok_def)
  note I = bit_word_in_meta [OF b, of "0"] bit_word_in_meta [OF b]
  show "uget s' a = uget s a" if "\<not> in_meta s a" for a
  proof -
    have "\<not> (bitmap s + 8 * (b div 64) \<le> a \<and> a < bitmap s + 8 * (b div 64) + 8)"
      using that bit_word_in_meta [OF b, of 7] unfolding bm in_meta_def by linarith
    then show ?thesis unfolding s' um.get_st64 by (simp only: if_False)
  qed
  define d where "d = b div 64"
  define q where "q = d div 512"
  define r where "r = d mod 512"
  have dq: "d = 512 * q + r" "r < 512" by (simp_all add: q_def r_def)
  have pg: "(bitmap s + 8 * (b div 64) + i) div 4096 = 0x200002 + q" if "i < 8" for i
  proof -
    have "bitmap s + 8 * d + i = 4096 * (0x200002 + q) + (8 * r + i)"
      using dq(1) unfolding bm by simp
    moreover have "8 * r + i < 4096" using dq(2) that by linarith
    ultimately have "(bitmap s + 8 * d + i) div 4096 = 0x200002 + q" by simp
    then show ?thesis unfolding d_def by simp
  qed
  have "4096 * (0x200002 + q) \<le> bitmap s + 8 * (b div 64) + 0" using pg [of 0] times_div_less_eq_dividend [of 4096 "bitmap s + 8 * (b div 64)"] by simp
  also have "\<dots> < 0x200002000 + 4096 * nbm s" using I(1) by (simp add: bm meta_end_def)
  finally have "q < nbm s" by simp
  then have "uperm s (0x200002 + q) \<noteq> None" using ok unfolding fs_ok_def by simp
  then obtain x where "uperm s (0x200002 + q) = Some x" by blast
  then show "uperm s' = uperm s" unfolding s' using pg by (rule uperm_st64)
qed

lemma meta_same_fs:
  assumes ok: "fs_ok s" and m: "meta_same s s'"
  shows "fs_ok s'" "nblk s' = nblk s" "\<And>c. c < nblk s \<Longrightarrow> bit_is_set c s' = bit_is_set c s"
    "\<And>b. block_is_free b s' = block_is_free b s" "\<And>b. diskaddr b s = Ret (block_va b) s \<Longrightarrow> diskaddr b s' = Ret (block_va b) s'"
proof -
  have p: "super s' = super s" "bitmap s' = bitmap s" "super s = DISKMAP + 4096" "bitmap s = DISKMAP + 8192"
    using ok m by (simp_all add: fs_ok_def meta_same_def)
  have "uget s' (super s + 4 + i) = uget s (super s + 4 + i)" if "i < 4" for i
    using m ok that by (simp add: meta_same_def uget_def fs_ok_def in_meta_def)
  then have sn: "s_nblocks (super s') s' = s_nblocks (super s) s"
    unfolding s_nblocks_def p(1) by (rule um.ld32_cong)
  then show n: "nblk s' = nblk s" by (simp add: nblk_def)
  show ok': "fs_ok s'" using ok n p m by (simp add: fs_ok_def nbm_def meta_same_def)
  show b: "bit_is_set c s' = bit_is_set c s" if "c < nblk s" for c
  proof -
    have "uget s' (bitmap s + 8 * (c div 64) + i) = uget s (bitmap s + 8 * (c div 64) + i)" if "i < 8" for i
      using m bit_word_in_meta [OF \<open>c < nblk s\<close> that] unfolding p(4)
      by (simp add: meta_same_def uget_def in_meta_def)
    then have "ld64 uget s' (bitmap s + 8 * (c div 64)) = ld64 uget s (bitmap s + 8 * (c div 64))"
      by (rule um.ld64_cong)
    then show ?thesis by (simp add: bit_is_set_def p(2))
  qed
  show "block_is_free b s' = block_is_free b s" for b
    using b [of "unat b"] unfolding block_is_free_set [OF ok] block_is_free_set [OF ok'] n by blast
  show "diskaddr b s' = Ret (block_va b) s'" if "diskaddr b s = Ret (block_va b) s" for b
    using that sn [unfolded p(1)] by (auto simp: diskaddr_def p(1) block_va_def split: if_splits)
qed

end
