(* ===== verification/Fsprops.thy ===== *)
theory Fsprops
  imports Fsblocks
begin

text \<open>
  Properties of the file system: blocks survive eviction from the cache, the bitmap hands out each
  block once, files grow block by block, and what truncation does to the block table.
\<close>

section \<open>Blocks in the cache\<close>

abbreviation block_mapped :: "u32 \<Rightarrow> 'a fsrv_scheme \<Rightarrow> bool" where
  "block_mapped b s \<equiv> uperm s (block_va b div 4096) \<noteq> None"

lemma block_va_facts:
  "block_va b mod 4096 = 0" "block_va b \<noteq> 0" "block_va b div 4096 = 0x200000 + unat b"
  "block_va b + 4096 \<le> UKERNBASE" "\<not> block_va b \<ge> UKERNBASE"
proof -
  have "unat b < 2 ^ 32" using unsigned_less [of b] by simp
  then show "block_va b + 4096 \<le> UKERNBASE" "\<not> block_va b \<ge> UKERNBASE" by (simp_all add: block_va_def)
qed (simp_all add: block_va_def)

lemma diskaddr_ok: "fs_ok s \<Longrightarrow> unat b < nblk s \<Longrightarrow> diskaddr b s = Ret (block_va b) s"
  by (simp add: diskaddr_def block_va_def nblk_def fs_ok_def word_le_nat_alt)

lemma block_is_mapped_ok:
  "fs_ok s \<Longrightarrow> unat b < nblk s \<Longrightarrow> block_is_mapped b s = Ret (if block_mapped b s then block_va b else 0) s"
  by (simp add: block_is_mapped_def diskaddr_ok va_is_mapped_def)

text \<open>A block that holds neither the superblock nor the bitmap.\<close>

definition data_block :: "'a fsrv_scheme \<Rightarrow> u32 \<Rightarrow> bool" where
  "data_block s b \<longleftrightarrow> 2 + nbm s \<le> unat b \<and> unat b < nblk s"

lemma data_block_meta:
  assumes "data_block s b" and "a div 4096 = block_va b div 4096"
  shows "\<not> in_meta s a"
proof -
  have "4096 * (a div 4096) + 0 = block_va b"
    using mult_div_mod_eq [of 4096 "block_va b"] unfolding block_va_facts(1) assms(2) .
  then have "block_va b \<le> a" using times_div_less_eq_dividend [of 4096 a] by linarith
  moreover have "meta_end s \<le> block_va b" using assms(1) by (simp add: meta_end_def data_block_def block_va_def)
  ultimately show ?thesis using assms(1) by (simp add: in_meta_def meta_end_def)
qed

definition sectors_ok :: "u32 \<Rightarrow> 'a fsrv_scheme \<Rightarrow> bool" where
  "sectors_ok b s \<longleftrightarrow> (\<forall>i < 8. card_ok s (first_sector b + i))"

lemma write_block_ok:
  assumes ok: "fs_ok s" and b: "unat b < nblk s" "block_mapped b s" and sec: "sectors_ok b s"
  shows "write_block (ucast b) s = Ret () (s
    \<lparr>card := card_page (first_sector b) 8 (\<lambda>i. uget s (block_va b + i)) (card s),
     uperm := (uperm s)(block_va b div 4096 \<mapsto> VALID OR PTE_RW OR PTE_LIBRARY OR PTE_USER OR VALID)\<rparr>)"
proof -
  have l: "unat b < 2 ^ 18" using ok b(1) by (simp add: fs_ok_def)
  have c: "ucast (ucast b :: u64) = b" by (rule bit_word_eqI) (simp add: bit_simps)
  have "ucast (push_bit 3 (ucast b :: u64)) = push_bit 3 b" by (rule bit_word_eqI) (auto simp: bit_simps)
  then have c8: "ucast ((ucast b :: u64) * 8) = b * 8" by (simp add: push_bit_eq_mult mult.commute)
  show ?thesis
    using sd_write_block [OF l, of s "block_va b"] sec block_va_facts [of b] b(2)
    by (auto simp: write_block_def c c8 block_is_mapped_ok [OF ok b(1)] diskaddr_ok [OF ok b(1)] sectors_ok_def
        syscall_mem_map_self_def)
qed


text \<open>What \<open>read_block\<close> brings into an unmapped block.\<close>

definition loaded :: "u32 \<Rightarrow> bool list \<Rightarrow> 'a fsrv_scheme \<Rightarrow> 'a fsrv_scheme" where
  "loaded b g s = s
     \<lparr>ubytes := mem_sectors (block_va b) 8 (first_sector b) (card s)
        (\<lambda>a. if a div 4096 = block_va b div 4096 then 0 else ubytes s a),
      uperm := (uperm s)(block_va b div 4096 \<mapsto> VALID OR PTE_RW OR PTE_USER OR VALID), grants := g\<rparr>"

lemma read_block_ok:
  assumes ok: "fs_ok s" and b: "unat b < nblk s" "\<not> block_is_free b s"
  shows "block_mapped b s \<Longrightarrow> read_block b s = Ret (0, block_va b, False) s"
    "\<not> block_mapped b s \<Longrightarrow> sectors_ok b s \<Longrightarrow> grants s = True # g \<Longrightarrow>
       read_block b s = Ret (0, block_va b, True) (loaded b g s)"
proof -
  have l: "unat b < 2 ^ 18" using ok b(1) by (simp add: fs_ok_def)
  have c: "\<not> (super s \<noteq> 0 \<and> s_nblocks (super s) s \<le> b)" using b(1) by (simp add: nblk_def word_le_nat_alt)
  show "block_mapped b s \<Longrightarrow> read_block b s = Ret (0, block_va b, False) s"
    using c b block_va_facts(2) [of b]
    by (simp add: read_block_def diskaddr_ok [OF ok b(1)] block_is_mapped_ok [OF ok b(1)])
  assume m: "\<not> block_mapped b s" "sectors_ok b s" "grants s = True # g"
  let ?s = "s\<lparr>ubytes := (\<lambda>a. if a div 4096 = block_va b div 4096 then 0 else ubytes s a),
      uperm := (uperm s)(block_va b div 4096 \<mapsto> VALID OR PTE_RW OR PTE_USER OR VALID), grants := g\<rparr>"
  have "syscall_mem_alloc (block_va b) (VALID OR PTE_RW OR PTE_USER) s = (0, ?s)"
    using m block_va_facts(5) [of b] by (simp add: syscall_mem_alloc_def)
  moreover have "sd_read (b * 8) (block_va b) 8 ?s = Ret () (loaded b g s)"
    using sd_read_block [OF l, of ?s "block_va b"] m(2) block_va_facts [of b]
    by (simp add: sectors_ok_def loaded_def)
  ultimately show "read_block b s = Ret (0, block_va b, True) (loaded b g s)"
    using c b m block_va_facts(2) [of b]
    by (simp add: read_block_def diskaddr_ok [OF ok b(1)] block_is_mapped_ok [OF ok b(1)])
qed

lemma card_page_sector:
  "i < 4096 \<Longrightarrow> card_page k 8 m c (k + i div 512) (i mod 512) = m i"
  by (simp add: card_page_def div_less_iff_less_mult)

text \<open>The state after a block is written out, and after it is dropped from the cache then.\<close>

definition saved :: "u32 \<Rightarrow> 'a fsrv_scheme \<Rightarrow> 'a fsrv_scheme" where
  "saved b s = s\<lparr>card := card_page (first_sector b) 8 (\<lambda>i. uget s (block_va b + i)) (card s),
     uperm := (uperm s)(block_va b div 4096 \<mapsto> VALID OR PTE_RW OR PTE_LIBRARY OR PTE_USER OR VALID)\<rparr>"

definition dropped :: "u32 \<Rightarrow> 'a fsrv_scheme \<Rightarrow> 'a fsrv_scheme" where
  "dropped b s = (saved b s)\<lparr>ubytes := (\<lambda>a. if a div 4096 = block_va b div 4096 then 0 else ubytes (saved b s) a),
     uperm := (uperm (saved b s))(block_va b div 4096 := None)\<rparr>"

lemma dropped_fs:
  assumes ok: "fs_ok s" and b: "data_block s b"
  shows "fs_ok (dropped b s)" and "nblk (dropped b s) = nblk s" and "block_is_free b (dropped b s) = block_is_free b s"
proof -
  have "a div 4096 \<noteq> block_va b div 4096" if "in_meta s a" for a using data_block_meta [OF b, of a] that by auto
  then have "meta_same s (dropped b s)"
    using b by (auto simp: meta_same_def dropped_def saved_def block_va_facts(3) data_block_def)
  from meta_same_fs [OF ok this] show "fs_ok (dropped b s)" "nblk (dropped b s) = nblk s"
    "block_is_free b (dropped b s) = block_is_free b s" by blast+
qed

lemma unmap_block_drops:
  assumes ok: "fs_ok s" and b: "data_block s b" "\<not> block_is_free b s" "block_mapped b s" and sec: "sectors_ok b s"
  shows "unmap_block b s = Ret () (dropped b s)"
proof -
  have bn: "unat b < nblk s" using b(1) by (simp add: data_block_def)
  note D = dropped_fs [OF ok b(1)]
  have w: "write_block (ucast b) s = Ret () (saved b s)"
    unfolding saved_def by (rule write_block_ok [OF ok bn b(3) sec])
  have d: "block_is_dirty b s = Ret True s"
    using b(3) by (simp add: block_is_dirty_def diskaddr_ok [OF ok bn] va_is_mapped_def va_is_dirty_def)
  have u: "syscall_mem_unmap (block_va b) (saved b s) = (7, dropped b s)"
    using block_va_facts(5) [of b] by (simp add: syscall_mem_unmap_def dropped_def)
  have "\<not> block_mapped b (dropped b s)" by (simp add: dropped_def)
  then show ?thesis
    using b(2,3) d w u block_va_facts(2) [of b] bn D(2)
    by (simp add: unmap_block_def block_is_mapped_ok [OF ok bn] block_is_mapped_ok [OF D(1)])
qed

lemma loaded_dropped:
  "uget (loaded b g (dropped b s)) a = uget s a"
proof (cases "block_va b \<le> a \<and> a < block_va b + 4096")
  case True
  then obtain i where "a = block_va b + i" "i < 4096" by (auto simp: le_iff_add)
  then show ?thesis
    using card_page_sector [of i "first_sector b" "\<lambda>i. uget s (block_va b + i)" "card s"]
    by (simp add: loaded_def uget_def mem_sectors_def dropped_def saved_def)
next
  case False
  then have "a div 4096 \<noteq> block_va b div 4096"
    using block_va_facts(1) [of b] mult_div_mod_eq [of 4096 "block_va b"] mult_div_mod_eq [of 4096 a]
      mod_less_divisor [of 4096 a] by linarith
  then show ?thesis using False by (auto simp: loaded_def uget_def mem_sectors_def dropped_def saved_def)
qed

text \<open>C17: evicting a block from the cache and reading it again brings back what it held.
  \<open>unmap_block\<close> on a used, cached data block writes it to the card and removes it from memory; a later
  \<open>read_block\<close> maps it again, and then every byte of the server's memory is as it was.\<close>

theorem block_cache_roundtrip:
  assumes ok: "fs_ok s" and b: "data_block s b" "\<not> block_is_free b s" "block_mapped b s"
    and sec: "sectors_ok b s" and g: "grants s = True # g"
  shows "\<exists>s1 s2. unmap_block b s = Ret () s1 \<and> \<not> block_mapped b s1 \<and>
    read_block b s1 = Ret (0, block_va b, True) s2 \<and> block_mapped b s2 \<and> uget s2 = uget s \<and> card s2 = card s1"
proof -
  let ?s = "dropped b s"
  note D = dropped_fs [OF ok b(1)]
  have bn: "unat b < nblk ?s" and fr: "\<not> block_is_free b ?s" using b(1,2) D(2,3) by (simp_all add: data_block_def)
  have un: "\<not> block_mapped b ?s" by (simp add: dropped_def)
  have "sectors_ok b ?s" and "grants ?s = True # g" using sec g by (simp_all add: sectors_ok_def dropped_def saved_def)
  then have "read_block b ?s = Ret (0, block_va b, True) (loaded b g ?s)"
    by (rule read_block_ok(2) [OF D(1) bn fr un])
  moreover have "uget (loaded b g ?s) = uget s" using loaded_dropped by blast
  moreover have "block_mapped b (loaded b g ?s)" "card (loaded b g ?s) = card ?s" by (simp_all add: loaded_def)
  ultimately show ?thesis using unmap_block_drops [OF ok b sec] un by blast
qed


section \<open>Taking a block\<close>

definition took :: "'a fsrv_scheme \<Rightarrow> nat \<Rightarrow> 'a fsrv_scheme \<Rightarrow> bool" where
  "took s b s' \<longleftrightarrow> fs_ok s' \<and> nblk s' = nblk s \<and>
     (\<forall>c < nblk s. bit_is_set c s' \<longleftrightarrow> c \<noteq> b \<and> bit_is_set c s) \<and> uperm s' (0x200000 + b) \<noteq> None \<and>
     (\<forall>p. p \<noteq> 0x200000 + b \<longrightarrow> uperm s' p = uperm s p) \<and>
     (\<forall>a. \<not> in_meta s a \<longrightarrow> uget s' a =
        (if a div 4096 = 0x200000 + b \<and> uperm s (0x200000 + b) = None then 0 else uget s a)) \<and>
     card s' = card s \<and> card_ok s' = card_ok s \<and> super s' = super s \<and> bitmap s' = bitmap s"

lemma unat_block: "b < 2 ^ 18 \<Longrightarrow> unat (of_nat b :: u32) = b"
  by (simp add: unsigned_of_nat take_bit_nat_eq_self)

lemma alloc_block_took:
  assumes ok: "fs_ok s" and ne: "free_set s \<noteq> {}" and b: "b = Min (free_set s)"
    and d: "data_block s (of_nat b)" and g: "uperm s (0x200000 + b) \<noteq> None \<or> grants s = True # g"
  shows "\<exists>s'. alloc_block s = Ret (int b) s' \<and> took s b s'"
proof -
  have "b \<in> free_set s" unfolding b by (rule Min_in [OF _ ne]) (simp add: free_set_def)
  then have bn: "b < nblk s" by (simp add: free_set_def)
  then have l: "b < 2 ^ 18" using ok by (simp add: fs_ok_def)
  note ub = unat_block [OF l]
  let ?b = "of_nat b :: u32"
  have pg: "block_va ?b div 4096 = 0x200000 + b" using block_va_facts(3) [of ?b] ub by simp
  obtain s1 where s1: "alloc_block_num s = Ret (int b) s1" "fs_ok s1" "nblk s1 = nblk s" "bm_write s s1"
    "\<And>c. bit_is_set c s1 \<longleftrightarrow> c \<noteq> b \<and> bit_is_set c s"
    using alloc_block_num_set [OF ok] ne b by auto
  note F = bm_write_frame [OF ok s1(4)]
  have bn1: "unat ?b < nblk s1" using bn s1(3) ub by simp
  show ?thesis
  proof (cases "uperm s (0x200000 + b)")
    case (Some x)
    then have "map_block ?b s1 = Ret 0 s1"
      using block_va_facts(2) [of ?b] F(7) pg
      by (simp add: map_block_def block_is_mapped_ok [OF s1(2) bn1])
    then have "alloc_block s = Ret (int b) s1" by (simp add: alloc_block_def s1(1))
    moreover have "took s b s1" unfolding took_def using s1 F Some by simp
    ultimately show ?thesis by blast
  next
    case None
    then have g1: "grants s1 = True # g" using g F(6) by simp
    let ?s = "s1\<lparr>ubytes := (\<lambda>a. if a div 4096 = block_va ?b div 4096 then 0 else ubytes s1 a),
      uperm := (uperm s1)(block_va ?b div 4096 \<mapsto> VALID OR PTE_RW OR PTE_USER OR VALID), grants := g\<rparr>"
    have "syscall_mem_alloc (block_va ?b) (VALID OR PTE_RW OR PTE_USER) s1 = (0, ?s)"
      using g1 block_va_facts(5) [of ?b] by (simp add: syscall_mem_alloc_def)
    then have "map_block ?b s1 = Ret 0 ?s"
      using None F(7) pg
      by (simp add: map_block_def block_is_mapped_ok [OF s1(2) bn1] diskaddr_ok [OF s1(2) bn1])
    then have r: "alloc_block s = Ret (int b) ?s" by (simp add: alloc_block_def s1(1))
    have "in_meta s1 a = in_meta s a" for a by (simp add: in_meta_def meta_end_def nbm_def s1(3))
    then have nm: "a div 4096 \<noteq> block_va ?b div 4096" if "in_meta s1 a" for a
      using data_block_meta [OF d, of a] that by auto
    have "meta_same s1 ?s" using nm by (auto simp: meta_same_def)
    note M = meta_same_fs [OF s1(2) this]
    have "took s b ?s"
      unfolding took_def
    proof (intro conjI allI impI)
      show "fs_ok ?s" "nblk ?s = nblk s" using M(1,2) s1(3) by simp_all
      show "bit_is_set c ?s \<longleftrightarrow> c \<noteq> b \<and> bit_is_set c s" if "c < nblk s" for c
        using M(3) [of c] s1(3,5) that by simp
      show "uget ?s a = (if a div 4096 = 0x200000 + b \<and> uperm s (0x200000 + b) = None then 0 else uget s a)"
        if "\<not> in_meta s a" for a using F(8) [OF that] None pg by (simp add: uget_def)
      show "uperm ?s p = uperm s p" if "p \<noteq> 0x200000 + b" for p using that pg F(7) by simp
    qed (simp_all add: F pg)
    with r show ?thesis by blast
  qed
qed


section \<open>Growing a file\<close>

text \<open>Entry \<open>i\<close> of the block table; entry 10 is \<open>f_indirect\<close>.\<close>

definition slot :: "nat \<Rightarrow> nat \<Rightarrow> 'a umem_scheme \<Rightarrow> u32" where
  "slot f i s = ld32 uget s (f + 136 + 4 * i)"

definition file_at :: "'a fsrv_scheme \<Rightarrow> nat \<Rightarrow> bool" where
  "file_at s f \<longleftrightarrow> (\<forall>i < 256. \<not> in_meta s (f + i) \<and> uperm s ((f + i) div 4096) \<noteq> None)"

text \<open>A file whose first \<open>k\<close> blocks exist, and no others.\<close>

definition has_blocks :: "nat \<Rightarrow> nat \<Rightarrow> 'a umem_scheme \<Rightarrow> bool" where
  "has_blocks f k s \<longleftrightarrow> (\<forall>i < k. slot f i s \<noteq> 0) \<and> (\<forall>i. k \<le> i \<and> i \<le> 10 \<longrightarrow> slot f i s = 0)"

lemma slot_word: "ld64 uget s (f + 136 + 4 * i) = ucast (slot f i s) OR push_bit 32 (ucast (slot f (i + 1) s))"
  by (simp add: slot_def ld64_def add.assoc)

lemma slot_cong:
  fixes s s' :: "'a umem_scheme"
  assumes "\<And>j. j < 256 \<Longrightarrow> uget s' (f + j) = uget s (f + j)" and "i \<le> 10"
  shows "slot f i s' = slot f i s"
  unfolding slot_def
proof (rule um.ld32_cong)
  fix j :: nat
  assume "j < 4"
  then show "uget s' (f + 136 + 4 * i + j) = uget s (f + 136 + 4 * i + j)"
    using assms(1) [of "136 + 4 * i + j"] assms(2) by (simp add: add.assoc)
qed

lemma slot_store:
  "slot f j (st64 uput (f + 136 + 4 * i) v s) =
    (if j = i then ucast v else if j = i + 1 then ucast (drop_bit 32 v) else slot f j s)"
proof -
  consider "j = i" | "j = i + 1" | "f + 136 + 4 * i + 8 \<le> f + 136 + 4 * j \<or> f + 136 + 4 * j + 4 \<le> f + 136 + 4 * i"
    by linarith
  then show ?thesis
  proof cases
    case 1
    then show ?thesis by (simp add: slot_def um.ld32_st64_halves)
  next
    case 2
    then have "f + 136 + 4 * j = f + 136 + 4 * i + 4" by simp
    then show ?thesis using 2 by (simp only: slot_def um.ld32_st64_halves) simp
  next
    case 3
    then show ?thesis unfolding slot_def by (subst ld32_st64_other) auto
  qed
qed

lemma f_direct_slot: "k < 10 \<Longrightarrow> f_direct f (of_nat k) = f + 136 + 4 * k"
  by (simp add: f_direct_def unsigned_of_nat take_bit_nat_eq_self)

lemma of_nat_block: "b < 2 ^ 18 \<Longrightarrow> (of_nat b :: u64) = ucast (of_nat b :: u32)"
  by (rule word_unat_eq_iff [THEN iffD2]) (simp add: unsigned_ucast_eq unsigned_of_nat take_bit_nat_eq_self)

text \<open>A store inside a file keeps the state of the file system.\<close>

lemma store_in_file:
  assumes ok: "fs_ok s" and f: "file_at s f" and i: "i \<le> 10"
  shows "meta_same s (st64 uput (f + 136 + 4 * i) v s)"
proof -
  let ?s = "st64 uput (f + 136 + 4 * i) v s"
  have u: "uget ?s a = uget s a" if "in_meta s a" for a
  proof -
    have "\<not> (f + 136 + 4 * i \<le> a \<and> a < f + 136 + 4 * i + 8)"
    proof
      assume "f + 136 + 4 * i \<le> a \<and> a < f + 136 + 4 * i + 8"
      then have "a - f < 256" "f + (a - f) = a" using i by auto
      then show False using f that unfolding file_at_def by metis
    qed
    then show ?thesis unfolding um.get_st64 by (simp only: if_False)
  qed
  then show "meta_same s ?s"
    unfolding meta_same_def using mapped_st64 [of s] by (auto simp: uget_def)
qed


text \<open>The block \<open>b\<close> has just been allocated; its number goes to the slot \<open>k\<close>, which clears the next.\<close>

lemma new_slot:
  assumes f: "file_at s f" and t: "took s b s1" and k: "k < 10" and b: "b \<in> free_set s"
    and ok: "fs_ok s" and st: "s2 = st64 uput (f + 136 + 4 * k) (of_nat b) s1"
  shows "fs_ok s2" and "nblk s2 = nblk s" and "\<And>c. c < nblk s \<Longrightarrow> bit_is_set c s2 \<longleftrightarrow> c \<noteq> b \<and> bit_is_set c s"
    and "\<And>i. i \<le> 10 \<Longrightarrow> slot f i s2 = (if i = k then of_nat b else if i = k + 1 then 0 else slot f i s)"
    and "block_mapped (of_nat b) s2"
    and "\<And>a. \<not> in_meta s a \<Longrightarrow> \<not> (f + 136 + 4 * k \<le> a \<and> a < f + 144 + 4 * k) \<Longrightarrow> a div 4096 \<noteq> 0x200000 + b \<Longrightarrow> uget s2 a = uget s a"
    and "file_at s2 f"
proof -
  have l: "b < 2 ^ 18" using b ok by (auto simp: free_set_def fs_ok_def)
  have fp: "(f + j) div 4096 \<noteq> 0x200000 + b \<or> uperm s (0x200000 + b) \<noteq> None" if "j < 256" for j
    using f that by (auto simp: file_at_def)
  have uf: "uget s1 (f + j) = uget s (f + j)" if "j < 256" for j
    using t f fp [OF that] that by (auto simp: took_def file_at_def)
  have im: "in_meta s1 a = in_meta s a" for a using t by (simp add: took_def in_meta_def meta_end_def nbm_def)
  have ok1: "fs_ok s1" and n1: "nblk s1 = nblk s" using t by (simp_all add: took_def)
  have "uperm s1 p \<noteq> None" if "uperm s p \<noteq> None" for p
    using t that by (cases "p = 0x200000 + b") (simp_all add: took_def)
  then have f1: "file_at s1 f" using f by (simp add: file_at_def im)
  note M = meta_same_fs [OF ok1 store_in_file [OF ok1 f1, of k "of_nat b"], folded st]
  show "fs_ok s2" and n2: "nblk s2 = nblk s" using M(1,2) k n1 by simp_all
  have "in_meta s2 a = in_meta s1 a" for a using n2 n1 by (simp add: in_meta_def meta_end_def nbm_def)
  moreover have "uperm s2 p \<noteq> None" if "uperm s1 p \<noteq> None" for p using that mapped_st64 st by blast
  ultimately show "file_at s2 f" using f1 by (simp add: file_at_def)
  show "bit_is_set c s2 \<longleftrightarrow> c \<noteq> b \<and> bit_is_set c s" if "c < nblk s" for c
    using M(3) [of c] k n1 t that by (simp add: took_def)
  have lo: "ucast (of_nat b :: u64) = (of_nat b :: u32)"
    unfolding of_nat_block [OF l] by (rule bit_word_eqI) (simp add: bit_simps)
  have hi: "ucast (drop_bit 32 (of_nat b :: u64)) = (0 :: u32)"
    unfolding of_nat_block [OF l] by (intro bit_word_eqI) (auto simp: bit_simps dest: bit_imp_le_length)
  show "slot f i s2 = (if i = k then of_nat b else if i = k + 1 then 0 else slot f i s)" if "i \<le> 10" for i
    unfolding st slot_store hi lo using slot_cong [OF uf that] by simp
  show "block_mapped (of_nat b) s2"
    unfolding st using t mapped_st64 [of s1 "0x200000 + b"] block_va_facts(3) [of "of_nat b"] unat_block [OF l]
    by (auto simp: took_def)
  show "uget s2 a = uget s a"
    if "\<not> in_meta s a" "\<not> (f + 136 + 4 * k \<le> a \<and> a < f + 144 + 4 * k)" "a div 4096 \<noteq> 0x200000 + b" for a
  proof -
    have "uget s2 a = uget s1 a" unfolding st using that(2) by (auto simp: um.get_st64)
    then show ?thesis using that t by (simp add: took_def)
  qed
qed

text \<open>The way to the slot, and what happens at it with and without a free block.\<close>

lemma get_block_at_slot:
  assumes k: "has_blocks f k s" "k < 10"
  shows "alloc_block_num s = Ret e s \<Longrightarrow> e < 0 \<Longrightarrow> file_get_block f (of_nat k) s = Ret (e, 0) s"
    and "alloc_block s = Ret (int b) s1 \<Longrightarrow> b < 2 ^ 18 \<Longrightarrow>
      read_block (of_nat b) (st64 uput (f + 136 + 4 * k) (of_nat b) s1) = Ret (0, v, n) s2 \<Longrightarrow> file_get_block f (of_nat k) s = Ret (0, v) s2"
proof -
  have kd: "(of_nat k :: u32) < 10" using k(2) by (simp add: word_less_nat_alt unsigned_of_nat take_bit_nat_eq_self)
  have w0: "ld64 uget s (f + 136 + 4 * k) = 0" using k by (simp add: slot_word has_blocks_def)
  have walk: "file_block_walk f (of_nat k) True s = Ret (0, f + 136 + 4 * k) s"
    using kd by (simp add: file_block_walk_def f_direct_slot [OF k(2)])
  show "alloc_block_num s = Ret e s \<Longrightarrow> e < 0 \<Longrightarrow> file_get_block f (of_nat k) s = Ret (e, 0) s"
    using w0 by (simp add: file_get_block_def file_map_block_def walk alloc_block_def)
  assume a: "alloc_block s = Ret (int b) s1" and l: "b < 2 ^ 18"
    and r: "read_block (of_nat b) (st64 uput (f + 136 + 4 * k) (of_nat b) s1) = Ret (0, v, n) s2"
  have "ucast (of_nat b :: u64) = (of_nat b :: u32)"
    unfolding of_nat_block [OF l] by (rule bit_word_eqI) (simp add: bit_simps)
  then have "file_map_block f (of_nat k) True s = Ret (0, of_nat b) (st64 uput (f + 136 + 4 * k) (of_nat b) s1)"
    using w0 a by (simp add: file_map_block_def walk um.ld64_st64)
  then show "file_get_block f (of_nat k) s = Ret (0, v) s2" using r by (simp add: file_get_block_def)
qed

lemma get_block_appends:
  assumes ok: "fs_ok s" and f: "file_at s f" and k: "has_blocks f k s" "k < 10"
    and d: "\<forall>b \<in> free_set s. data_block s (of_nat b)" and g: "grants s = True # g"
  shows "if free_set s = {} then file_get_block f (of_nat k) s = Ret (- E_NO_DISK, 0) s
    else let b = Min (free_set s) in \<exists>s'. file_get_block f (of_nat k) s = Ret (0, block_va (of_nat b)) s' \<and>
      fs_ok s' \<and> file_at s' f \<and> nblk s' = nblk s \<and> free_set s' = free_set s - {b} \<and> has_blocks f (k + 1) s' \<and> slot f k s' = of_nat b \<and>
      (\<forall>i < k. slot f i s' = slot f i s) \<and>
      (\<forall>a. \<not> in_meta s a \<and> \<not> (f + 136 + 4 * k \<le> a \<and> a < f + 144 + 4 * k) \<and> a div 4096 \<noteq> 0x200000 + b \<longrightarrow>
        uget s' a = uget s a)"
proof (cases "free_set s = {}")
  case True
  then have "alloc_block_num s = Ret (- E_NO_DISK) s" using alloc_block_num_set [OF ok] by simp
  then show ?thesis using True get_block_at_slot(1) [OF k] by simp
next
  case False
  define b where "b = Min (free_set s)"
  have bf: "b \<in> free_set s" unfolding b_def by (rule Min_in [OF _ False]) (simp add: free_set_def)
  then have bn: "b < nblk s" "b \<noteq> 0" by (auto simp: free_set_def)
  then have l: "b < 2 ^ 18" using ok by (simp add: fs_ok_def)
  note ub = unat_block [OF l]
  obtain s1 where s1: "alloc_block s = Ret (int b) s1" "took s b s1"
    using alloc_block_took [OF ok False b_def _] d bf g by blast
  define s2 where "s2 = st64 uput (f + 136 + 4 * k) (of_nat b) s1"
  note N = new_slot [OF f s1(2) k(2) bf ok s2_def]
  have "\<not> block_is_free (of_nat b) s2" using N(2,3) bn ub by (simp add: block_is_free_set [OF N(1)])
  then have "read_block (of_nat b) s2 = Ret (0, block_va (of_nat b), False) s2"
    using read_block_ok(1) [OF N(1), of "of_nat b"] N(2,5) bn ub by simp
  then have get: "file_get_block f (of_nat k) s = Ret (0, block_va (of_nat b)) s2"
    using get_block_at_slot(2) [OF k s1(1) l, of "block_va (of_nat b)" False s2] by (simp add: s2_def)
  have "(of_nat b :: u32) \<noteq> 0" using ub bn(2) by auto
  then have "has_blocks f (k + 1) s2" using k N(4) by (auto simp: has_blocks_def)
  moreover have "\<forall>i < k. slot f i s2 = slot f i s" "slot f k s2 = of_nat b" using k(2) N(4) by simp_all
  moreover have "free_set s2 = free_set s - {b}" using N(2,3) by (auto simp: free_set_def)
  ultimately show ?thesis
    using False get N(1,2,6,7) unfolding b_def [symmetric] Let_def by (intro if_not_P [THEN iffD2] exI [of _ s2]) auto
qed

text \<open>C18: reading the first missing block of a file appends one block. With \<open>k\<close> direct blocks and at
  least one free block, \<open>file_get_block\<close> on block \<open>k\<close> takes the lowest free block from the bitmap, stores
  its number as entry \<open>k\<close> and returns where it is cached; all earlier entries stay, and no other byte of
  the file or of another block changes. On a full disk it returns \<open>-E_NO_DISK\<close> and changes nothing.\<close>

theorem file_get_block_appends:
  assumes ok: "fs_ok s" and f: "file_at s f" and k: "has_blocks f k s" "k < 10"
    and d: "\<forall>b \<in> free_set s. data_block s (of_nat b)" and g: "grants s = True # g"
  shows "if free_set s = {} then file_get_block f (of_nat k) s = Ret (- E_NO_DISK, 0) s
    else let b = Min (free_set s) in \<exists>s'. file_get_block f (of_nat k) s = Ret (0, block_va (of_nat b)) s' \<and>
      fs_ok s' \<and> free_set s' = free_set s - {b} \<and> has_blocks f (k + 1) s' \<and> slot f k s' = of_nat b \<and>
      (\<forall>i < k. slot f i s' = slot f i s) \<and>
      (\<forall>a. \<not> in_meta s a \<and> \<not> (f + 136 + 4 * k \<le> a \<and> a < f + 144 + 4 * k) \<and> a div 4096 \<noteq> 0x200000 + b \<longrightarrow>
        uget s' a = uget s a)"
  using get_block_appends [OF assms] by (auto simp: Let_def split: if_splits)


section \<open>Truncating a file\<close>

text \<open>Clearing an entry through the 64-bit pointer clears the next one too.\<close>

lemma clear_entry:
  assumes ok: "fs_ok s" and f: "file_at s f" and k: "k < 10" and w: "slot f k s \<noteq> 0 \<or> slot f (k + 1) s \<noteq> 0"
  shows "slot f k s = 0 \<Longrightarrow> \<exists>m. file_clear_block f (of_nat k) s = Panic m s"
    "slot f k s \<noteq> 0 \<Longrightarrow> unat (slot f k s) < nblk s \<Longrightarrow>
      \<exists>s'. file_clear_block f (of_nat k) s = Ret 0 s' \<and> fs_ok s' \<and> nblk s' = nblk s \<and> file_at s' f \<and>
        (\<forall>c < nblk s. bit_is_set c s' \<longleftrightarrow> c = unat (slot f k s) \<or> bit_is_set c s) \<and>
        (\<forall>i \<le> 10. slot f i s' = (if i = k \<or> i = k + 1 then 0 else slot f i s)) \<and>
        f_size f s' = f_size f s"
proof -
  let ?k = "of_nat k :: u32" and ?p = "f + 136 + 4 * k" and ?b = "slot f k s"
  have kd: "?k < 10" using k by (simp add: word_less_nat_alt unsigned_of_nat take_bit_nat_eq_self)
  have walk: "file_block_walk f ?k False s = Ret (0, ?p) s"
    using kd by (simp add: file_block_walk_def f_direct_slot [OF k])
  have nz: "ld64 uget s ?p \<noteq> 0"
  proof
    assume "ld64 uget s ?p = 0"
    then have z: "ucast ?b OR push_bit 32 (ucast (slot f (k + 1) s)) = (0 :: u64)" by (simp add: slot_word)
    then have "ucast (ucast ?b OR push_bit 32 (ucast (slot f (k + 1) s)) :: u64) = (0 :: u32)"
      "ucast (drop_bit 32 (ucast ?b OR push_bit 32 (ucast (slot f (k + 1) s)) :: u64)) = (0 :: u32)" by simp_all
    moreover have "ucast (ucast ?b OR push_bit 32 (ucast (slot f (k + 1) s)) :: u64) = ?b"
      "ucast (drop_bit 32 (ucast ?b OR push_bit 32 (ucast (slot f (k + 1) s)) :: u64)) = slot f (k + 1) s"
      by (rule bit_word_eqI; auto simp: bit_simps dest: bit_imp_le_length)+
    ultimately show False using w by simp
  qed
  have lo: "ucast (ld64 uget s ?p) = ?b"
    unfolding slot_word by (rule bit_word_eqI) (auto simp: bit_simps)
  show "\<exists>m. file_clear_block f ?k s = Panic m s" if "?b = 0"
    using nz lo that by (simp add: file_clear_block_def walk free_block_def)
  assume b: "?b \<noteq> 0" "unat ?b < nblk s"
  obtain s1 where s1: "free_block ?b s = Ret () s1" "fs_ok s1" "nblk s1 = nblk s" "bm_write s s1"
    "\<And>c. bit_is_set c s1 \<longleftrightarrow> c = unat ?b \<or> bit_is_set c s"
    using free_block_set [OF ok b] by blast
  note F = bm_write_frame [OF ok s1(4)]
  let ?s = "st64 uput ?p 0 s1"
  have im: "in_meta s1 a = in_meta s a" for a by (simp add: in_meta_def meta_end_def nbm_def s1(3))
  have uf: "uget s1 (f + j) = uget s (f + j)" if "j < 256" for j using F(8) f that by (simp add: file_at_def)
  have f1: "file_at s1 f" using f F(7) by (simp add: file_at_def im)
  note M = meta_same_fs [OF s1(2) store_in_file [OF s1(2) f1, of k 0]]
  have r: "file_clear_block f ?k s = Ret 0 ?s" using nz lo s1(1) by (simp add: file_clear_block_def walk)
  have n: "nblk ?s = nblk s" using M(2) k s1(3) by simp
  have "uperm ?s p \<noteq> None" if "uperm s1 p \<noteq> None" for p using mapped_st64 [of s1 p] that by blast
  moreover have "in_meta ?s a = in_meta s a" for a by (simp add: in_meta_def meta_end_def nbm_def n)
  ultimately have "file_at ?s f" using f1 im by (simp add: file_at_def)
  moreover have "slot f i ?s = (if i = k \<or> i = k + 1 then 0 else slot f i s)" if "i \<le> 10" for i
    using slot_cong [OF uf that] by (simp add: slot_store)
  moreover have "f_size f ?s = f_size f s"
  proof -
    have "f_size f ?s = f_size f s1" unfolding f_size_def by (rule ld32_st64_other) simp
    also have "\<dots> = f_size f s" unfolding f_size_def by (rule um.ld32_cong) (use uf [of "128 + _"] in \<open>simp add: add.assoc\<close>)
    finally show ?thesis .
  qed
  moreover have "fs_ok ?s" using M(1) k by simp
  moreover have "\<forall>c < nblk s. bit_is_set c ?s \<longleftrightarrow> c = unat ?b \<or> bit_is_set c s" using M(3) k s1(3,5) by simp
  ultimately show "\<exists>s'. file_clear_block f ?k s = Ret 0 s' \<and> fs_ok s' \<and> nblk s' = nblk s \<and> file_at s' f \<and>
        (\<forall>c < nblk s. bit_is_set c s' \<longleftrightarrow> c = unat ?b \<or> bit_is_set c s) \<and>
        (\<forall>i \<le> 10. slot f i s' = (if i = k \<or> i = k + 1 then 0 else slot f i s)) \<and>
        f_size f s' = f_size f s"
    using r n by blast
qed

text \<open>C21: a file with three or more blocks cannot be truncated to nothing: the server stops. Clearing
  entry 0 clears entry 1 with it, so at entry 1 the code reads a non-zero double word whose low half is 0
  and frees block 0, which \<open>free_block\<close> refuses with a panic. The same happens on removing such a file.\<close>

theorem file_truncate_three_blocks_panics:
  assumes "fs_ok s" and "file_at s f" and "3 \<le> unat (nblocks_of (f_size f s))"
    and "slot f 0 s \<noteq> 0" and "unat (slot f 0 s) < nblk s" and "slot f 2 s \<noteq> 0"
  shows "\<exists>m s'. file_truncate f 0 s = Panic m s'"
proof -
  obtain s1 where s1: "file_clear_block f 0 s = Ret 0 s1" "fs_ok s1" "file_at s1 f"
    "slot f 1 s1 = 0" "slot f 2 s1 \<noteq> 0"
    using clear_entry(2) [OF assms(1,2), of 0] assms(4-6) by auto
  obtain m where m: "file_clear_block f 1 s1 = Panic m s1"
    using clear_entry(1) [OF s1(2,3), of 1] s1(4,5) by (auto simp: numeral_2_eq_2)
  obtain bs where "[0..<unat (nblocks_of (f_size f s))] = 0 # 1 # bs"
    using assms(3) by (metis One_nat_def Suc_leD Suc_le_lessD numeral_3_eq_3 upt_conv_Cons zero_less_Suc less_le_trans)
  then have "clear_blocks f 0 (nblocks_of (f_size f s)) s = Panic m s1"
    by (simp add: clear_blocks_def s1(1) m)
  then show ?thesis by (simp add: file_truncate_def)
qed

text \<open>The shape of a file: its blocks are the first slots, and they are different data blocks that are in use.\<close>

definition file_ok :: "nat \<Rightarrow> nat \<Rightarrow> 'a fsrv_scheme \<Rightarrow> bool" where
  "file_ok f k s \<longleftrightarrow> fs_ok s \<and> file_at s f \<and> k \<le> 10 \<and> has_blocks f k s \<and>
     (\<forall>i < k. data_block s (slot f i s) \<and> unat (slot f i s) \<notin> free_set s) \<and>
     (\<forall>i < k. \<forall>j < k. slot f i s = slot f j s \<longrightarrow> i = j)"

lemma data_block_cong: "nblk t = nblk s \<Longrightarrow> data_block t b = data_block s b"
  by (simp add: data_block_def nbm_def)

lemma append_keeps_shape:
  assumes f: "file_ok f k s" and k: "k < 10" and d: "\<forall>b \<in> free_set s. data_block s (of_nat b)" and g: "grants s = True # g"
    and r: "file_get_block f (of_nat k) s = Ret (r, v) t"
  shows "file_ok f (if r < 0 then k else k + 1) t"
proof (cases "free_set s = {}")
  case True
  then show ?thesis using get_block_appends [of s f k g] assms by (auto simp: file_ok_def)
next
  case False
  define b where "b = Min (free_set s)"
  have bf: "b \<in> free_set s" unfolding b_def by (rule Min_in [OF _ False]) (simp add: free_set_def)
  then have "b < 2 ^ 18" using f by (auto simp: free_set_def file_ok_def fs_ok_def)
  note ub = unat_block [OF this]
  have t: "r = 0" "fs_ok t" "file_at t f" "nblk t = nblk s" "free_set t = free_set s - {b}" "has_blocks f (k + 1) t"
    "slot f k t = of_nat b" "\<forall>i < k. slot f i t = slot f i s"
    using get_block_appends [of s f k g] False f k d g r by (auto simp: file_ok_def Let_def b_def)
  have s: "data_block s (slot f i s)" "unat (slot f i s) \<notin> free_set s" if "i < k" for i
    using f that by (simp_all add: file_ok_def)
  have new: "slot f i s \<noteq> of_nat b" if "i < k" for i using s(2) [OF that] bf ub by metis
  have "data_block t (slot f i t) \<and> unat (slot f i t) \<notin> free_set t" if "i < k + 1" for i
    using that s [of i] t(5,7,8) bf d ub data_block_cong [OF t(4)] by (cases "i = k") auto
  moreover have "i = j" if "i < k + 1" "j < k + 1" "slot f i t = slot f j t" for i j
    using that new [of i] new [of j] t(7,8) f by (cases "i = k"; cases "j = k") (auto simp: file_ok_def)
  ultimately show ?thesis using t k by (simp add: file_ok_def)
qed

lemma clear_keeps_shape:
  assumes f: "file_ok f (Suc k) s" and r: "file_clear_block f (of_nat k) s = Ret r t"
  shows "file_ok f k t"
proof -
  have k: "k < 10" and z: "slot f (k + 1) s = 0" and nz: "slot f k s \<noteq> 0" and b: "unat (slot f k s) < nblk s"
    using f by (auto simp: file_ok_def has_blocks_def data_block_def)
  obtain u where "file_clear_block f (of_nat k) s = Ret 0 u" "fs_ok u" "nblk u = nblk s" "file_at u f"
    "\<forall>c < nblk s. bit_is_set c u \<longleftrightarrow> c = unat (slot f k s) \<or> bit_is_set c s"
    "\<forall>i \<le> 10. slot f i u = (if i = k \<or> i = k + 1 then 0 else slot f i s)"
    using clear_entry(2) [of s f k] f k nz b unfolding file_ok_def by blast
  then have t: "fs_ok t" "nblk t = nblk s" "file_at t f" "\<forall>c < nblk s. bit_is_set c t \<longleftrightarrow> c = unat (slot f k s) \<or> bit_is_set c s"
    "\<forall>i \<le> 10. slot f i t = (if i = k \<or> i = k + 1 then 0 else slot f i s)" using r by simp_all
  have same: "slot f i t = slot f i s" if "i < k" for i using t(5) that k by simp
  have "data_block t (slot f i t) \<and> unat (slot f i t) \<notin> free_set t" if "i < k" for i
  proof -
    have "unat (slot f i s) \<noteq> unat (slot f k s)"
      using f that unfolding file_ok_def word_unat_eq_iff [symmetric] by (metis less_Suc_eq nat_neq_iff)
    then show ?thesis using f that t(2,4) data_block_cong [OF t(2)] by (auto simp: file_ok_def free_set_def same)
  qed
  moreover have "has_blocks f k t" using f k z t(5) same by (auto simp: has_blocks_def file_ok_def)
  moreover have "i = j" if "i < k" "j < k" "slot f i t = slot f j t" for i j
    using that f same by (auto simp: file_ok_def)
  ultimately show ?thesis using t(1,3) k by (simp add: file_ok_def)
qed

text \<open>C19: a file keeps its shape when it grows and when its last block is cleared: its blocks stay the first slots,
  different from each other, data blocks of the disk and not free. A block that cannot be had leaves the shape as
  it was.\<close>

theorem file_shape_kept:
  assumes "file_ok f k s" and "\<forall>b \<in> free_set s. data_block s (of_nat b)" and "grants s = True # g"
  shows "(k < 10 \<and> file_get_block f (of_nat k) s = Ret (r, v) t \<longrightarrow> file_ok f (if r < 0 then k else k + 1) t) \<and>
    (k = Suc n \<and> file_clear_block f (of_nat n) s = Ret r' u \<longrightarrow> file_ok f n u)"
  using append_keeps_shape [OF assms(1) _ assms(2,3)] clear_keeps_shape assms(1) by blast

section \<open>An example\<close>

text \<open>
  A disk of 16 blocks of which 9 to 15 are free, with the first ten cached, a file of three blocks at
  0x3000 and one of two blocks at 0x4000.
\<close>

definition demo_fs :: fsrv where
  "demo_fs = \<lparr>ubytes = (\<lambda>a. if a = 0x200001004 then 16 else if a = 0x200002001 then 0xFE
       else if a = 0x3081 then 0x30 else if a = 0x3088 then 5 else if a = 0x308c then 6 else if a = 0x3090 then 7
       else if a = 0x4081 then 0x20 else if a = 0x4088 then 5 else if a = 0x408c then 6
       else if a = 0x200005000 then 77 else 0),
     uperm = (\<lambda>p. if p = 3 \<or> p = 4 \<or> 0x200000 \<le> p \<and> p < 0x20000a then Some VALID else None),
     grants = [True, True], card = (\<lambda>_ _. 0), card_ok = (\<lambda>_. True),
     super = 0x200001000, nbitmap = 1, bitmap = 0x200002000\<rparr>"

lemmas demo_fs_read = demo_fs_def ld64_def ld32_def ld16_def uget_def

lemma demo_fs_loads: "nblk demo_fs = 16" "nbm demo_fs = 1" "fs_ok demo_fs" "meta_end demo_fs = 0x200003000"
proof -
  show n: "nblk demo_fs = 16" by (simp add: nblk_def s_nblocks_def demo_fs_read)
  show m: "nbm demo_fs = 1" by (simp add: nbm_def n)
  show "fs_ok demo_fs" unfolding fs_ok_def n m by (auto simp: demo_fs_def)
  show "meta_end demo_fs = 0x200003000" by (simp add: meta_end_def m)
qed

lemma demo_fs_free: "free_set demo_fs = {9..<16}"
proof -
  have w: "ld64 uget demo_fs (bitmap demo_fs) = 0xFE00" by (simp add: demo_fs_read)
  have eq: "(0xFE00 :: u64) = push_bit 9 (mask 7)" by (simp add: mask_eq_exp_minus_1)
  have "bit (0xFE00 :: u64) b \<longleftrightarrow> 9 \<le> b" if "b < 16" for b
    using that unfolding eq by (auto simp: bit_simps)
  then have "bit_is_set b demo_fs \<longleftrightarrow> 9 \<le> b" if "b < 16" for b
    using that unfolding bit_is_set_bit by (simp add: w)
  then show ?thesis by (auto simp: free_set_def demo_fs_loads)
qed

lemma demo_fs_files: "file_at demo_fs 0x3000" "file_at demo_fs 0x4000"
  unfolding file_at_def in_meta_def demo_fs_loads by (auto simp: demo_fs_def)

lemma demo_fs_slots:
  "slot 0x3000 0 demo_fs = 5" "slot 0x3000 2 demo_fs = 7" "nblocks_of (f_size 0x3000 demo_fs) = 3"
  "slot 0x4000 0 demo_fs = 5" "slot 0x4000 1 demo_fs = 6" "nblocks_of (f_size 0x4000 demo_fs) = 2"
  by (simp_all add: slot_def f_size_def nblocks_of_def ROUND_def demo_fs_read)

lemma demo_fs_blocks: "has_blocks 0x4000 2 demo_fs"
proof -
  have "slot 0x4000 i demo_fs \<noteq> 0" if "i < 2" for i
    using that demo_fs_slots(4,5) by (auto simp: less_2_cases_iff)
  moreover have "slot 0x4000 i demo_fs = 0" if "2 \<le> i \<and> i \<le> 10" for i
    using that by (simp add: slot_def demo_fs_read)
  ultimately show ?thesis by (simp add: has_blocks_def)
qed

lemma demo_fs_min: "Min {9..<16 :: nat} = 9"
  by (rule Min_eqI) auto

lemma block_cache_roundtrip_witness:
  "\<exists>s1 s2. unmap_block 5 demo_fs = Ret () s1 \<and> read_block 5 s1 = Ret (0, block_va 5, True) s2 \<and> uget s2 0x200005000 = 77"
proof -
  have "5 \<notin> free_set demo_fs" by (simp add: demo_fs_free)
  then have "\<not> block_is_free 5 demo_fs"
    by (simp add: block_is_free_set [OF demo_fs_loads(3)] demo_fs_loads free_set_def)
  moreover have "data_block demo_fs 5" by (simp add: data_block_def demo_fs_loads)
  moreover have "block_mapped 5 demo_fs" by (simp add: block_va_facts(3)) (simp add: demo_fs_def)
  moreover have "sectors_ok 5 demo_fs" "grants demo_fs = True # [True]" by (simp_all add: sectors_ok_def demo_fs_def)
  ultimately obtain s1 s2 where "unmap_block 5 demo_fs = Ret () s1" "read_block 5 s1 = Ret (0, block_va 5, True) s2"
    "uget s2 = uget demo_fs"
    using block_cache_roundtrip [OF demo_fs_loads(3)] by blast
  moreover have "uget demo_fs 0x200005000 = 77" by (simp add: demo_fs_read)
  ultimately show ?thesis by auto
qed

lemma file_get_block_appends_witness:
  "\<exists>s'. file_get_block 0x4000 2 demo_fs = Ret (0, block_va 9) s' \<and> slot 0x4000 2 s' = 9 \<and> has_blocks 0x4000 3 s'"
proof -
  have "\<forall>b \<in> free_set demo_fs. data_block demo_fs (of_nat b)"
    by (auto simp: demo_fs_free data_block_def demo_fs_loads unat_block)
  moreover have "grants demo_fs = True # [True]" by (simp add: demo_fs_def)
  ultimately show ?thesis
    using file_get_block_appends [OF demo_fs_loads(3) demo_fs_files(2) demo_fs_blocks, of "[True]"]
    by (auto simp: demo_fs_free demo_fs_min Let_def)
qed

lemma demo_fs_shape: "file_ok 0x4000 2 demo_fs"
proof -
  have two: "(\<forall>i < 2. P i) \<longleftrightarrow> P 0 \<and> P 1" for P :: "nat \<Rightarrow> bool" by (auto simp: less_2_cases_iff)
  show ?thesis
    unfolding file_ok_def two using demo_fs_loads demo_fs_files demo_fs_blocks
    by (simp add: demo_fs_free demo_fs_slots data_block_def del: One_nat_def)
qed

lemma file_shape_kept_witness:
  "\<exists>v t u. file_get_block 0x4000 2 demo_fs = Ret (0, v) t \<and> file_ok 0x4000 3 t \<and>
     file_clear_block 0x4000 1 demo_fs = Ret 0 u \<and> file_ok 0x4000 1 u"
proof -
  have d: "\<forall>b \<in> free_set demo_fs. data_block demo_fs (of_nat b)"
    by (auto simp: demo_fs_free data_block_def demo_fs_loads unat_block)
  have g: "grants demo_fs = True # [True]" by (simp add: demo_fs_def)
  obtain v t where "file_get_block 0x4000 (of_nat 2) demo_fs = Ret (0, v) t"
    using get_block_appends [OF demo_fs_loads(3) demo_fs_files(2) demo_fs_blocks _ d g]
    by (auto simp: demo_fs_free demo_fs_min Let_def)
  moreover obtain u where "file_clear_block 0x4000 (of_nat 1) demo_fs = Ret 0 u"
    using clear_entry(2) [OF demo_fs_loads(3) demo_fs_files(2), of 1] by (auto simp: demo_fs_slots demo_fs_loads simp del: One_nat_def)
  ultimately show ?thesis
    using file_shape_kept [OF demo_fs_shape d g, of 0 v t 1 0 u] by (auto simp: numeral_2_eq_2 [symmetric] simp del: One_nat_def)
qed

lemma file_truncate_three_blocks_panics_witness:
  "\<exists>m s'. file_truncate 0x3000 0 demo_fs = Panic m s'"
  by (rule file_truncate_three_blocks_panics [OF demo_fs_loads(3) demo_fs_files(1)])
    (simp_all add: demo_fs_slots demo_fs_loads)

text \<open>C20: the bitmap is a pool of blocks: successive allocations give distinct free blocks until none is
  left, and freeing what was taken restores the set of free blocks.\<close>

theorem bitmap_is_a_pool:
  assumes "fs_ok s" and "take_many take_block n s = (bs, t)"
  shows "distinct bs \<and> set bs \<subseteq> free_set s \<and> free_set t = free_set s - set bs \<and>
    (length bs = n \<or> length bs < n \<and> free_set t = {}) \<and> free_set (fold give_block bs t) = free_set s"
  using bmap.take_many_distinct [OF assms] bmap.take_give [OF assms] by blast

lemma bitmap_is_a_pool_witness:
  "set (fst (take_many take_block 3 demo_fs)) \<subseteq> {9..<16}"
  using bitmap_is_a_pool [OF demo_fs_loads(3), of 3] demo_fs_free
  by (cases "take_many take_block 3 demo_fs") auto

end
