(* ===== verification/Serv.thy ===== *)
theory Serv
  imports Fsprops
begin

text \<open>
  The file server: fs/serv.c, with the message loop of user/ipc.c and \<open>pageref\<close> of user/pageref.c. What the
  other environments do is part of the state: \<open>inbox\<close> holds the requests in the order they arrive,
  \<open>sends\<close> the answers of \<open>syscall_ipc_can_send\<close>, \<open>shared\<close> how many other mappings a page of the server has.
\<close>

section \<open>State\<close>

record open_file =
  o_file :: nat
  o_fileid :: u32
  o_mode :: u32
  o_ff :: nat

record request =
  rq_from :: u32
  rq_value :: u64
  rq_perm :: u64
  rq_page :: "(nat \<Rightarrow> u8) option"

record serv = fsrv +
  opentab :: "nat \<Rightarrow> open_file"
  shared :: "nat \<Rightarrow> nat"
  inbox :: "request list"
  sends :: "int list"
  sent :: "(u32 \<times> u64 \<times> nat \<times> u64) list"

type_synonym 'r vres = "('r, serv) outcome"

text \<open>Where the compiler puts the buffers of the server's functions on its stack.\<close>

record frames =
  path_buf :: nat
  wname_buf :: nat
  cname_buf :: nat

abbreviation (input) MAXOPEN :: nat where "MAXOPEN \<equiv> 1024"
abbreviation (input) FILEVA :: nat where "FILEVA \<equiv> 0x60000000"
abbreviation (input) REQVA :: nat where "REQVA \<equiv> 0x0f000000"
abbreviation (input) MAXPATHLEN :: nat where "MAXPATHLEN \<equiv> 1024"
abbreviation (input) SHARED_PERM :: u64 where "SHARED_PERM \<equiv> VALID OR PTE_RW OR PTE_LIBRARY OR PTE_USER"

section \<open>Messages (user/ipc.c, user/pageref.c)\<close>

text \<open>The loop of \<open>ipc_send\<close>: it tries again as long as the receiver is not waiting.\<close>

fun ipc_try :: "int list \<Rightarrow> (int \<times> int list) option" where
  "ipc_try [] = None"
| "ipc_try (r # rs) = (if r = - E_IPC_NOT_RECV then ipc_try rs else Some (r, rs))"

definition ipc_send :: "u32 \<Rightarrow> u64 \<Rightarrow> nat \<Rightarrow> u64 \<Rightarrow> serv \<Rightarrow> unit vres" where
  "ipc_send whom val srcva perm s =
    (case ipc_try (sends s) of
       None \<Rightarrow> Hang
     | Some (r, rs) \<Rightarrow>
         if r = 0 then
           Ret () (s\<lparr>sends := rs, sent := sent s @ [(whom, val, srcva, perm)],
             shared := (if srcva \<noteq> 0 then (shared s)(srcva div 4096 := shared s (srcva div 4096) + 1) else shared s)\<rparr>)
         else Panic ''error in ipc_send'' s)"

text \<open>\<open>ipc_recv\<close> waits when there is no request; a page that comes with one is mapped at \<open>dstva\<close>.\<close>

definition ipc_recv :: "nat \<Rightarrow> serv \<Rightarrow> (u32 \<times> u64 \<times> u64) vres" where
  "ipc_recv dstva s =
    (case inbox s of
       [] \<Rightarrow> Hang
     | q # qs \<Rightarrow>
         (let s = s\<lparr>inbox := qs\<rparr>;
              s = (case rq_page q of
                     None \<Rightarrow> s
                   | Some pg \<Rightarrow> s\<lparr>ubytes := (\<lambda>a. if a div 4096 = dstva div 4096 then pg (a mod 4096) else ubytes s a),
                                 uperm := (uperm s)(dstva div 4096 \<mapsto> rq_perm q)\<rparr>)
          in Ret (rq_from q, rq_value q, rq_perm q) s))"

definition pageref :: "nat \<Rightarrow> serv \<Rightarrow> nat" where
  "pageref va s = (if uperm s (va div 4096) = None then 0 else 1 + shared s (va div 4096))"

section \<open>The table of open files (fs/serv.c)\<close>

definition serve_init :: "serv \<Rightarrow> serv" where
  "serve_init s = s\<lparr>opentab := (\<lambda>i. if i < MAXOPEN
     then (opentab s i)\<lparr>o_fileid := of_nat i, o_ff := FILEVA + i * 4096\<rparr> else opentab s i)\<rparr>"

text \<open>Cases 0 and 1 of the switch; the first falls through into the second.\<close>

definition open_take :: "nat \<Rightarrow> serv \<Rightarrow> (int \<times> nat) vres" where
  "open_take i s =
    (let t = (opentab s i)\<lparr>o_fileid := o_fileid (opentab s i) + of_nat MAXOPEN\<rparr>;
         s = s\<lparr>opentab := (opentab s)(i := t)\<rparr>
     in Ret (sint (o_fileid t), i) (user_bzero uput (o_ff t) 4096 s))"

fun open_alloc_from :: "nat list \<Rightarrow> serv \<Rightarrow> (int \<times> nat) vres" where
  "open_alloc_from [] s = Ret (- E_MAX_OPEN, 0) s"
| "open_alloc_from (i # xs) s =
    (let n = pageref (o_ff (opentab s i)) s
     in if n = 0 then
          (case syscall_mem_alloc (o_ff (opentab s i)) SHARED_PERM s of (r, s) \<Rightarrow>
             if r < 0 then Ret (r, 0) s else open_take i s)
        else if n = 1 then open_take i s
        else open_alloc_from xs s)"

definition open_alloc :: "serv \<Rightarrow> (int \<times> nat) vres" where
  "open_alloc s = open_alloc_from [0..<MAXOPEN] s"

definition open_lookup :: "u32 \<Rightarrow> serv \<Rightarrow> int \<times> nat" where
  "open_lookup fileid s =
    (let i = unat fileid mod MAXOPEN; t = opentab s i
     in if pageref (o_ff t) s = 1 \<or> o_fileid t \<noteq> fileid then (- E_INVAL, 0) else (0, i))"

section \<open>Requests\<close>

abbreviation (input) reply :: "u32 \<Rightarrow> int \<Rightarrow> serv \<Rightarrow> unit vres" where
  "reply envid r s \<equiv> ipc_send envid (of_int r) 0 0 s"

definition get_path :: "frames \<Rightarrow> nat \<Rightarrow> serv \<Rightarrow> serv" where
  "get_path fr src s = uput (path_buf fr + (MAXPATHLEN - 1)) 0 (user_bcopy uget uput src (path_buf fr) MAXPATHLEN s)"

text \<open>\<open>struct Filefd\<close>: \<open>fd_dev_id\<close> at 0, \<open>fd_omode\<close> at 16, \<open>f_fileid\<close> at 24, \<open>f_file\<close> at 32.\<close>

definition serve_open :: "frames \<Rightarrow> u32 \<Rightarrow> nat \<Rightarrow> serv \<Rightarrow> unit vres" where
  "serve_open fr envid rq s =
    obind (open_alloc (get_path fr rq s)) (\<lambda>(r, i) s.
      if r < 0 then reply envid r s
      else obind (file_open (wname_buf fr) (path_buf fr) s) (\<lambda>(r, f) s.
        if r < 0 then reply envid r s
        else
          (let s = s\<lparr>opentab := (opentab s)(i := (opentab s i)\<lparr>o_file := f\<rparr>)\<rparr>;
               ff = o_ff (opentab s i);
               s = memcpy uget uput (ff + 32) f 256 s;
               s = st32 uput (ff + 24) (o_fileid (opentab s i)) s;
               s = s\<lparr>opentab := (opentab s)(i := (opentab s i)\<lparr>o_mode := ld32 uget s (rq + 1024)\<rparr>)\<rparr>;
               s = st32 uput (ff + 16) (o_mode (opentab s i)) s;
               s = st32 uput ff 102 s
           in ipc_send envid 0 ff SHARED_PERM s)))"

definition with_open :: "u32 \<Rightarrow> nat \<Rightarrow> (nat \<Rightarrow> serv \<Rightarrow> unit vres) \<Rightarrow> serv \<Rightarrow> unit vres" where
  "with_open envid rq f s =
    (case open_lookup (ld32 uget s rq) s of
       (r, i) \<Rightarrow> if r < 0 then reply envid r s else f (o_file (opentab s i)) s)"

definition serve_map :: "u32 \<Rightarrow> nat \<Rightarrow> serv \<Rightarrow> unit vres" where
  "serve_map envid rq s =
    with_open envid rq (\<lambda>f s.
      obind (file_get_block f (ld32 uget s (rq + 4) div 4096) s) (\<lambda>(r, blk) s.
        if r < 0 then reply envid r s else ipc_send envid 0 blk SHARED_PERM s)) s"

definition serve_set_size :: "u32 \<Rightarrow> nat \<Rightarrow> serv \<Rightarrow> unit vres" where
  "serve_set_size envid rq s =
    with_open envid rq (\<lambda>f s.
      obind (file_set_size f (ucast (ld32 uget s (rq + 4))) s) (\<lambda>r s.
        if r < 0 then reply envid r s else reply envid 0 s)) s"

definition serve_close :: "u32 \<Rightarrow> nat \<Rightarrow> serv \<Rightarrow> unit vres" where
  "serve_close envid rq s =
    with_open envid rq (\<lambda>f s. obind (file_close f s) (\<lambda>_ s. reply envid 0 s)) s"

definition serve_remove :: "frames \<Rightarrow> u32 \<Rightarrow> nat \<Rightarrow> serv \<Rightarrow> unit vres" where
  "serve_remove fr envid rq s =
    obind (file_remove (wname_buf fr) (path_buf fr) (get_path fr rq s)) (\<lambda>r s.
      if r < 0 then reply envid r s else reply envid 0 s)"

text \<open>In \<open>struct Fsreq_create\<close> the type comes first.\<close>

definition serve_create :: "frames \<Rightarrow> u32 \<Rightarrow> nat \<Rightarrow> serv \<Rightarrow> unit vres" where
  "serve_create fr envid rq s =
    (let s = get_path fr (rq + 4) s
     in obind (file_create (wname_buf fr) (cname_buf fr) (path_buf fr) (ld32 uget s rq) s) (\<lambda>(r, _) s.
       if r < 0 then reply envid r s else reply envid 0 s))"

definition serve_dirty :: "u32 \<Rightarrow> nat \<Rightarrow> serv \<Rightarrow> unit vres" where
  "serve_dirty envid rq s =
    with_open envid rq (\<lambda>f s.
      obind (file_dirty f (ld32 uget s (rq + 4)) s) (\<lambda>r s.
        if r < 0 then reply envid r s else reply envid 0 s)) s"

definition serve_sync :: "u32 \<Rightarrow> serv \<Rightarrow> unit vres" where
  "serve_sync envid s = obind (fs_sync s) (\<lambda>_ s. reply envid 0 s)"

section \<open>The loop\<close>

definition dispatch :: "frames \<Rightarrow> u64 \<Rightarrow> u32 \<Rightarrow> serv \<Rightarrow> unit vres" where
  "dispatch fr req whom s =
    (if req = 1 then serve_open fr whom REQVA s
     else if req = 2 then serve_map whom REQVA s
     else if req = 3 then serve_set_size whom REQVA s
     else if req = 4 then serve_close whom REQVA s
     else if req = 5 then serve_dirty whom REQVA s
     else if req = 6 then serve_remove fr whom REQVA s
     else if req = 7 then serve_sync whom s
     else if req = 8 then serve_create fr whom REQVA s
     else Ret () s)"

definition serve_one :: "frames \<Rightarrow> serv \<Rightarrow> unit vres" where
  "serve_one fr s =
    obind (ipc_recv REQVA s) (\<lambda>(whom, req, perm) s.
      if perm AND VALID = 0 then Ret () s
      else obind (dispatch fr req whom s) (\<lambda>_ s.
        case syscall_mem_unmap REQVA s of (r, s) \<Rightarrow> Ret () s))"

text \<open>\<open>serve\<close> never returns; \<open>serve n\<close> is what its first \<open>n\<close> rounds do.\<close>

fun serve :: "frames \<Rightarrow> nat \<Rightarrow> serv \<Rightarrow> unit vres" where
  "serve fr 0 s = Ret () s"
| "serve fr (Suc n) s = obind (serve_one fr s) (\<lambda>_ s. serve fr n s)"

text \<open>\<open>fs_test\<close> of fs/test.c is a parameter.\<close>

definition umain :: "(serv \<Rightarrow> unit vres) \<Rightarrow> frames \<Rightarrow> nat \<Rightarrow> serv \<Rightarrow> unit vres" where
  "umain fs_test fr n s =
    obind (fs_init (serve_init s)) (\<lambda>_ s. obind (fs_test s) (\<lambda>_ s. serve fr n s))"

end
