(* ===== verification/Servprops.thy ===== *)
theory Servprops
  imports Serv
begin

text \<open>
  Properties of the file server: the file operations leave the server's own tables alone, every
  request that names an operation gets exactly one reply, and file identifiers are not reused.
\<close>

section \<open>The file operations and the rest of the state\<close>

abbreviation keeps_more :: "'a \<Rightarrow> ('r, 'a) fres \<Rightarrow> bool" where
  "keeps_more m \<equiv> out_inv (\<lambda>s. fsrv.more s = m)"

named_theorems keeps "operations that keep the rest of the server's state"

lemma more_umem [simp, field_simps_os]:
  "fsrv.more (touch a s) = fsrv.more s" "fsrv.more (uput a v s) = fsrv.more s"
  by (simp_all add: touch_def uput_def Let_def)

lemma more_stores [simp, field_simps_os]:
  "fsrv.more (st32 uput a w s) = fsrv.more s" "fsrv.more (st64 uput a x s) = fsrv.more s"
  by (simp_all add: st64_def st32_def st16_def)

lemma more_calls [simp]:
  "fsrv.more (snd (syscall_mem_alloc va p s)) = fsrv.more s"
  "fsrv.more (snd (syscall_mem_map_self va p s)) = fsrv.more s"
  "fsrv.more (snd (syscall_mem_unmap va s)) = fsrv.more s"
  "fsrv.more (snd (syscall_read_sd va n s)) = fsrv.more s"
  "fsrv.more (snd (syscall_write_sd va n s)) = fsrv.more s"
  by (simp_all add: syscall_mem_alloc_def syscall_mem_map_self_def syscall_mem_unmap_def
      syscall_read_sd_def syscall_write_sd_def split: list.split bool.split)

lemma more_call_eqs:
  "syscall_mem_alloc va p s = (r, s') \<Longrightarrow> fsrv.more s' = fsrv.more s"
  "syscall_mem_map_self va p s = (r, s') \<Longrightarrow> fsrv.more s' = fsrv.more s"
  "syscall_mem_unmap va s = (r, s') \<Longrightarrow> fsrv.more s' = fsrv.more s"
  "syscall_read_sd va n s = (r, s') \<Longrightarrow> fsrv.more s' = fsrv.more s"
  "syscall_write_sd va n s = (r, s') \<Longrightarrow> fsrv.more s' = fsrv.more s"
  using more_calls by (metis snd_conv)+

lemma more_bytes [simp]:
  "fsrv.more (user_bcopy uget uput src dst n s) = fsrv.more s"
  "fsrv.more (user_bzero uput dst k s) = fsrv.more s"
  "fsrv.more (put_bytes p bs s) = fsrv.more s"
  "fsrv.more (memcpy uget uput dst src l s) = fsrv.more s"
proof -
  have "bcopy_from uget uput src dst n s = bcopy uget uput src dst (int n) s" by (simp add: bcopy_def)
  then have "fsrv.more (bcopy_from uget uput src dst n s) = fsrv.more s"
    using bcopy_frame [of dst "int n" fsrv.more uput uget src s] by simp
  then show "fsrv.more (user_bcopy uget uput src dst n s) = fsrv.more s"
    using bcopy_bytes_frame [of dst n fsrv.more uput uget src s] by (simp add: user_bcopy_def)
  have "fsrv.more (bzero_bytes uput q j s) = fsrv.more s" for q j by (induction j arbitrary: q s) simp_all
  then show "fsrv.more (user_bzero uput dst k s) = fsrv.more s" by (simp add: user_bzero_def)
  show "fsrv.more (put_bytes p bs s) = fsrv.more s" by (induction bs arbitrary: p s) simp_all
  show "fsrv.more (memcpy uget uput dst src l s) = fsrv.more s" by (induction l arbitrary: dst src s) simp_all
qed

lemma more_strcpy: "strcpy uget uput d p s = Some s' \<Longrightarrow> fsrv.more s' = fsrv.more s"
proof -
  assume "strcpy uget uput d p s = Some s'"
  moreover have "g = uget \<and> w = uput \<longrightarrow> fsrv.more t = fsrv.more s" if "strcpy g w d p s = Some t" for g w t
    using that
    by (rule strcpy.raw_induct [rotated, where P = "\<lambda>g w d p s t. g = uget \<and> w = uput \<longrightarrow> fsrv.more t = fsrv.more s"])
      (auto simp: Let_def split: if_splits)
  ultimately show ?thesis by blast
qed

lemma sd_read_loop_keeps: "fsrv.more s = m \<Longrightarrow> keeps_more m (sd_read_loop i n d x s)"
proof (induction i n d x s rule: sd_read_loop.induct)
  case (1 i n d x s)
  obtain r s1 where c: "syscall_read_sd (d + x) (ucast i) s = (r, s1)" by (cases "syscall_read_sd (d + x) (ucast i) s")
  then show ?case using 1 more_call_eqs(4) [OF c] by (subst sd_read_loop.simps) auto
qed

lemma sd_write_loop_keeps: "fsrv.more s = m \<Longrightarrow> keeps_more m (sd_write_loop i n d x s)"
proof (induction i n d x s rule: sd_write_loop.induct)
  case (1 i n d x s)
  obtain r s1 where c: "syscall_write_sd (d + x) (ucast i) s = (r, s1)" by (cases "syscall_write_sd (d + x) (ucast i) s")
  then show ?case using 1 more_call_eqs(5) [OF c] by (subst sd_write_loop.simps) auto
qed

lemma sd_keeps [keeps]:
  assumes "fsrv.more s = m"
  shows "keeps_more m (sd_read a b n s)" "keeps_more m (sd_write a b n s)"
    "keeps_more m (diskaddr k s)"
  using assms by (auto simp: sd_read_def sd_write_def diskaddr_def intro: sd_read_loop_keeps sd_write_loop_keeps)

lemma free_block_keeps [keeps]: "fsrv.more s = m \<Longrightarrow> keeps_more m (free_block k s)"
  by (simp add: free_block_def Let_def)

lemma alloc_block_num_keeps [keeps]: "fsrv.more s = m \<Longrightarrow> keeps_more m (alloc_block_num s)"
  by (simp add: alloc_block_num_def Let_def split: option.split)

lemma block_is_mapped_keeps [keeps]: "fsrv.more s = m \<Longrightarrow> keeps_more m (block_is_mapped k s)"
  by (auto simp: block_is_mapped_def intro!: out_inv_obind keeps)

lemma block_is_dirty_keeps [keeps]: "fsrv.more s = m \<Longrightarrow> keeps_more m (block_is_dirty k s)"
  by (auto simp: block_is_dirty_def intro!: out_inv_obind keeps)

lemma map_block_keeps [keeps]: "fsrv.more s = m \<Longrightarrow> keeps_more m (map_block k s)"
  by (auto simp: map_block_def intro!: out_inv_obind keeps simp: split_beta)

lemma alloc_block_keeps [keeps]: "fsrv.more s = m \<Longrightarrow> keeps_more m (alloc_block s)"
  by (auto simp: alloc_block_def intro!: out_inv_obind keeps)

lemma read_block_keeps [keeps]: "fsrv.more s = m \<Longrightarrow> keeps_more m (read_block k s)"
  by (auto simp: read_block_def intro!: out_inv_obind keeps simp: split_beta)

lemma write_block_keeps [keeps]: "fsrv.more s = m \<Longrightarrow> keeps_more m (write_block k s)"
  by (auto simp: write_block_def intro!: out_inv_obind keeps simp: split_beta)

section \<open>Files\<close>

lemma more_accessors [simp]:
  "fsrv.more (set_f_size f n s) = fsrv.more s" "fsrv.more (set_f_type f n s) = fsrv.more s"
  "fsrv.more (set_f_indirect f n s) = fsrv.more s" "fsrv.more (set_f_dir f x s) = fsrv.more s"
  by (simp_all add: set_f_size_def set_f_type_def set_f_indirect_def set_f_dir_def)

lemma file_block_walk_keeps [keeps]: "fsrv.more s = m \<Longrightarrow> keeps_more m (file_block_walk f n al s)"
  by (auto simp: file_block_walk_def indirect_block_def split_beta intro!: out_inv_obind keeps)

lemma file_map_block_keeps [keeps]: "fsrv.more s = m \<Longrightarrow> keeps_more m (file_map_block f n al s)"
  by (auto simp: file_map_block_def split_beta intro!: out_inv_obind keeps)

lemma file_clear_block_keeps [keeps]: "fsrv.more s = m \<Longrightarrow> keeps_more m (file_clear_block f n s)"
  by (auto simp: file_clear_block_def split_beta intro!: out_inv_obind keeps)

lemma file_get_block_keeps [keeps]: "fsrv.more s = m \<Longrightarrow> keeps_more m (file_get_block f n s)"
  by (auto simp: file_get_block_def split_beta intro!: out_inv_obind keeps)

lemma file_dirty_keeps [keeps]: "fsrv.more s = m \<Longrightarrow> keeps_more m (file_dirty f n s)"
  by (auto simp: file_dirty_def split_beta intro!: out_inv_obind keeps)

lemma dir_lookup_keeps [keeps]: "fsrv.more s = m \<Longrightarrow> keeps_more m (dir_lookup d n s)"
proof -
  have "fsrv.more s = m \<Longrightarrow> keeps_more m (dir_lookup_from d n bs s)" for bs s
    by (induction bs arbitrary: s) (auto split: prod.split option.split intro!: out_inv_obind keeps)
  then show "fsrv.more s = m \<Longrightarrow> keeps_more m (dir_lookup d n s)" by (simp add: dir_lookup_def)
qed

lemma dir_alloc_file_keeps [keeps]: "fsrv.more s = m \<Longrightarrow> keeps_more m (dir_alloc_file d s)"
proof -
  have "fsrv.more s = m \<Longrightarrow> keeps_more m (dir_free_from d bs s)" for bs s
    by (induction bs arbitrary: s) (auto split: prod.split option.split intro!: out_inv_obind keeps)
  then show "fsrv.more s = m \<Longrightarrow> keeps_more m (dir_alloc_file d s)"
    by (auto simp: dir_alloc_file_def Let_def split: prod.split option.split intro!: out_inv_obind keeps)
qed

lemma walk_loop_keeps:
  "walk_loop nm le p d f s = Some r \<Longrightarrow> fsrv.more s = m \<Longrightarrow> keeps_more m r"
proof (induction nm le p d f s r rule: walk_loop.raw_induct [rotated, consumes 1, case_names 1])
  case (1 walk nm le p d f s r)
  let ?t = "\<lambda>e. uput (nm + (e - p)) 0 (user_bcopy uget uput p nm (e - p) s)"
  have d: "keeps_more m (dir_lookup f nm (?t e))" for e by (rule dir_lookup_keeps) (use 1 in simp)
  show ?case
  proof (cases "uget s p = 0")
    case True
    then show ?thesis using 1(2,3) by auto
  next
    case nz: False
    obtain e where e: "skip_name p s = Some e" using 1(2) nz by (auto split: option.splits)
    show ?thesis
    proof (cases "dir_lookup f nm (?t e)")
      case (Ret q u)
      then have "fsrv.more u = m" using d [of e] by simp
      then show ?thesis
        using 1 nz e Ret by (auto simp: Let_def split: if_splits option.splits prod.splits dest: more_strcpy)
    qed (use 1(2,3) nz e d [of e] in \<open>auto simp: Let_def split: if_splits option.splits\<close>)
  qed
qed

lemma each_keeps:
  "(\<And>i s. fsrv.more s = m \<Longrightarrow> keeps_more m (f i s)) \<Longrightarrow> fsrv.more s = m \<Longrightarrow> keeps_more m (each is f s)"
  by (induction "is" arbitrary: s) (auto intro!: out_inv_obind)

lemma clear_blocks_keeps [keeps]: "fsrv.more s = m \<Longrightarrow> keeps_more m (clear_blocks f a b s)"
  by (auto simp: clear_blocks_def intro!: each_keeps out_inv_obind keeps)

lemma file_truncate_keeps [keeps]: "fsrv.more s = m \<Longrightarrow> keeps_more m (file_truncate f n s)"
  by (auto simp: file_truncate_def Let_def intro!: out_inv_obind keeps)

lemma file_flush_keeps [keeps]: "fsrv.more s = m \<Longrightarrow> keeps_more m (file_flush f s)"
  by (auto simp: file_flush_def intro!: each_keeps out_inv_obind keeps split: prod.split)

lemma flush_dir_keeps [keeps]: "fsrv.more s = m \<Longrightarrow> keeps_more m (flush_dir f s)"
  by (auto simp: flush_dir_def intro!: keeps)

lemma file_set_size_keeps [keeps]: "fsrv.more s = m \<Longrightarrow> keeps_more m (file_set_size f n s)"
  by (auto simp: file_set_size_def intro!: out_inv_obind keeps)

lemma fs_sync_keeps [keeps]: "fsrv.more s = m \<Longrightarrow> keeps_more m (fs_sync s)"
  by (auto simp: fs_sync_def intro!: each_keeps out_inv_obind keeps)

lemma file_close_keeps [keeps]: "fsrv.more s = m \<Longrightarrow> keeps_more m (file_close f s)"
  by (auto simp: file_close_def intro!: out_inv_obind keeps)


lemma walk_path_keeps [keeps]: "fsrv.more s = m \<Longrightarrow> keeps_more m (walk_path nm p le s)"
  by (auto simp: walk_path_def of_opt_def split: option.split intro: walk_loop_keeps)

lemma file_open_keeps [keeps]: "fsrv.more s = m \<Longrightarrow> keeps_more m (file_open nm p s)"
  by (auto simp: file_open_def split: prod.split intro!: out_inv_obind keeps)

lemma file_create_keeps [keeps]: "fsrv.more s = m \<Longrightarrow> keeps_more m (file_create nm c p ft s)"
  by (auto simp: file_create_def split: prod.split option.split intro!: out_inv_obind keeps dest!: more_strcpy)

lemma file_remove_keeps [keeps]: "fsrv.more s = m \<Longrightarrow> keeps_more m (file_remove nm p s)"
  by (auto simp: file_remove_def split: prod.split intro!: out_inv_obind keeps)

section \<open>One reply for each request\<close>

lemma serv_more:
  assumes "fsrv.more s = fsrv.more t"
  shows "opentab s = opentab t" and "shared s = shared t" and "inbox s = inbox t"
    and "sends s = sends t" and "sent s = sent t"
  subgoal using assms by (cases s rule: serv.cases_scheme; cases t rule: serv.cases_scheme)
      (simp only: fsrv.simps serv.simps serv.ext_inject)
  subgoal using assms by (cases s rule: serv.cases_scheme; cases t rule: serv.cases_scheme)
      (simp only: fsrv.simps serv.simps serv.ext_inject)
  subgoal using assms by (cases s rule: serv.cases_scheme; cases t rule: serv.cases_scheme)
      (simp only: fsrv.simps serv.simps serv.ext_inject)
  subgoal using assms by (cases s rule: serv.cases_scheme; cases t rule: serv.cases_scheme)
      (simp only: fsrv.simps serv.simps serv.ext_inject)
  subgoal using assms by (cases s rule: serv.cases_scheme; cases t rule: serv.cases_scheme)
      (simp only: fsrv.simps serv.simps serv.ext_inject)
  done

text \<open>\<open>replies\<close>: if the handler comes back, it has sent exactly one message, to \<open>whom\<close>, and taken no request.\<close>

type_synonym message = "u32 \<times> u64 \<times> nat \<times> u64"

definition replied :: "u32 \<Rightarrow> serv \<Rightarrow> serv \<Rightarrow> bool" where
  "replied whom s0 s \<longleftrightarrow> inbox s = inbox s0 \<and> (\<exists>val va perm. sent s = sent s0 @ [(whom, val, va, perm)])"

fun replies :: "u32 \<Rightarrow> serv \<Rightarrow> 'r vres \<Rightarrow> bool" where
  "replies whom s0 (Ret r s) = replied whom s0 s"
| "replies whom s0 c = True"

definition same_mail :: "serv \<Rightarrow> serv \<Rightarrow> bool" where
  "same_mail s0 s \<longleftrightarrow> inbox s = inbox s0 \<and> sent s = sent s0"

lemma ipc_send_replies: "same_mail s0 s \<Longrightarrow> replies whom s0 (ipc_send whom val va perm s)"
  by (auto simp: ipc_send_def replied_def same_mail_def split: option.split)

lemma replies_after:
  assumes "same_mail s0 s" and "keeps_more (fsrv.more s) c"
    and "\<And>r t. same_mail s0 t \<Longrightarrow> replies whom s0 (f r t)"
  shows "replies whom s0 (obind c f)"
proof (cases c)
  case (Ret r t)
  then have "same_mail s0 t" using assms(1,2) serv_more(3,5) [of t s] by (simp add: same_mail_def)
  then show ?thesis using assms(3) Ret by simp
qed simp_all

lemma sent_umem [simp]:
  "sent (uput a v s) = sent s" "sent (st32 uput a w s) = sent s"
  "sent (user_bcopy uget uput src dst n s) = sent s" "sent (user_bzero uput dst k s) = sent s"
  "sent (memcpy uget uput dst src l s) = sent s"
  by (rule serv_more(5), simp)+

lemma inbox_umem [simp]:
  "inbox (uput a v s) = inbox s" "inbox (st32 uput a w s) = inbox s"
  "inbox (user_bcopy uget uput src dst n s) = inbox s" "inbox (user_bzero uput dst k s) = inbox s"
  "inbox (memcpy uget uput dst src l s) = inbox s"
  by (rule serv_more(3), simp)+

lemma opentab_umem [simp]:
  "opentab (uput a v s) = opentab s" "opentab (st32 uput a w s) = opentab s"
  "opentab (user_bcopy uget uput src dst n s) = opentab s" "opentab (user_bzero uput dst k s) = opentab s"
  "opentab (memcpy uget uput dst src l s) = opentab s"
  by (rule serv_more(1), simp)+

lemma same_mail_refl [simp]: "same_mail s s"
  by (simp add: same_mail_def)

lemma open_alloc_mail: "open_alloc s = Ret r t \<Longrightarrow> same_mail s t"
proof -
  have "open_alloc_from xs s = Ret r t \<Longrightarrow> same_mail s t" for xs
  proof (induction xs)
    case (Cons i xs)
    have "same_mail s u" if "syscall_mem_alloc va p s = (r, u)" for va p r u
      using serv_more(3,5) [OF more_call_eqs(1) [OF that]] by (simp add: same_mail_def)
    then show ?case using Cons by (auto simp: open_take_def Let_def same_mail_def split: prod.splits if_splits)
  qed simp
  then show "open_alloc s = Ret r t \<Longrightarrow> same_mail s t" by (simp add: open_alloc_def)
qed

lemma get_path_mail [simp]: "same_mail s0 (get_path fr rq s) = same_mail s0 s"
  by (simp add: get_path_def same_mail_def)

lemma with_open_replies:
  "(\<And>f s. same_mail s0 s \<Longrightarrow> replies whom s0 (g f s)) \<Longrightarrow> same_mail s0 s \<Longrightarrow> replies whom s0 (with_open whom rq g s)"
  by (auto simp: with_open_def split: prod.split intro!: ipc_send_replies)

lemmas handler_intros = with_open_replies replies_after ipc_send_replies keeps

lemma serve_open_replies: "replies whom s (serve_open fr whom rq s)"
proof (cases "open_alloc (get_path fr rq s)")
  case (Ret ri t)
  then have t: "same_mail s t"
    using open_alloc_mail [of "get_path fr rq s"] by (simp add: same_mail_def get_path_def)
  then show ?thesis
    using Ret by (auto simp: serve_open_def Let_def same_mail_def split: prod.split
        intro!: ipc_send_replies replies_after [of s t] keeps)
qed (simp_all add: serve_open_def)

lemma dispatch_replies:
  assumes "req \<in> {1, 2, 3, 4, 5, 6, 7, 8}"
  shows "replies whom s (dispatch fr req whom s)"
proof -
  have "replies whom s (serve_map whom REQVA s)"
    by (auto simp: serve_map_def intro!: handler_intros split: prod.split)
  moreover have "replies whom s (serve_set_size whom REQVA s)"
    by (auto simp: serve_set_size_def intro!: handler_intros)
  moreover have "replies whom s (serve_close whom REQVA s)"
    by (auto simp: serve_close_def intro!: handler_intros)
  moreover have "replies whom s (serve_dirty whom REQVA s)"
    by (auto simp: serve_dirty_def intro!: handler_intros)
  moreover have "replies whom s (serve_remove fr whom REQVA s)"
    by (auto simp: serve_remove_def intro!: handler_intros)
  moreover have "replies whom s (serve_create fr whom REQVA s)"
    by (auto simp: serve_create_def Let_def intro!: handler_intros split: prod.split)
  moreover have "replies whom s (serve_sync whom s)"
    by (auto simp: serve_sync_def intro!: handler_intros)
  ultimately show ?thesis
    using assms serve_open_replies [of whom s fr REQVA] by (auto simp: dispatch_def)
qed

lemma dispatch_ignores: "req \<notin> {1, 2, 3, 4, 5, 6, 7, 8} \<Longrightarrow> dispatch fr req whom s = Ret () s"
  by (auto simp: dispatch_def)

definition answered :: "request \<Rightarrow> bool" where
  "answered q \<longleftrightarrow> rq_perm q AND VALID \<noteq> 0 \<and> rq_value q \<in> {1, 2, 3, 4, 5, 6, 7, 8}"

lemma serve_one_mail:
  assumes "serve_one fr s = Ret () s'"
  obtains q where "inbox s = q # inbox s'"
    and "\<exists>ms. sent s' = sent s @ ms \<and> map fst ms = (if answered q then [rq_from q] else [])"
proof (cases "inbox s")
  case Nil
  then show ?thesis using assms by (simp add: serve_one_def ipc_recv_def)
next
  case (Cons q qs)
  obtain s1 where s1: "ipc_recv REQVA s = Ret (rq_from q, rq_value q, rq_perm q) s1"
    "inbox s1 = qs" "sent s1 = sent s"
    using Cons by (auto simp: ipc_recv_def Let_def split: option.splits)
  have unmap: "same_mail u (snd (syscall_mem_unmap va u))" for va and u :: serv
    unfolding same_mail_def by (rule conjI; rule serv_more; simp)
  have "inbox s' = qs \<and> (\<exists>ms. sent s' = sent s @ ms \<and> map fst ms = (if answered q then [rq_from q] else []))"
  proof (cases "rq_perm q AND VALID = 0")
    case True
    then show ?thesis using assms s1 by (simp add: serve_one_def answered_def)
  next
    case valid: False
    obtain t where t: "dispatch fr (rq_value q) (rq_from q) s1 = Ret () t" and s': "s' = snd (syscall_mem_unmap REQVA t)"
      using assms s1(1) valid by (auto simp: serve_one_def obind_Ret_iff split_beta)
    have m: "inbox s' = inbox t" "sent s' = sent t" using unmap [of t REQVA] by (simp_all add: s' same_mail_def)
    show ?thesis
    proof (cases "rq_value q \<in> {1, 2, 3, 4, 5, 6, 7, 8}")
      case True
      then have "replied (rq_from q) s1 t" using dispatch_replies [of "rq_value q" "rq_from q" s1 fr] t by simp
      moreover have "answered q" using True valid by (simp add: answered_def)
      ultimately show ?thesis using s1 m by (auto simp: replied_def)
    next
      case False
      then have "t = s1" "\<not> answered q"
        using t dispatch_ignores [of "rq_value q" fr "rq_from q" s1] by (auto simp: answered_def)
      then show ?thesis using s1 m by simp
    qed
  qed
  then show ?thesis using Cons by (intro that [of q]) auto
qed

lemma serve_mail:
  assumes "serve fr n s = Ret () s'"
  shows "n \<le> length (inbox s) \<and> inbox s' = drop n (inbox s) \<and>
    (\<exists>ms. sent s' = sent s @ ms \<and> map fst ms = map rq_from (filter answered (take n (inbox s))))"
  using assms
proof (induction n arbitrary: s)
  case (Suc n)
  then obtain t where t: "serve_one fr s = Ret () t" "serve fr n t = Ret () s'"
    by (auto simp: obind_Ret_iff)
  obtain q where q: "inbox s = q # inbox t"
    and one: "\<exists>ms. sent t = sent s @ ms \<and> map fst ms = (if answered q then [rq_from q] else [])"
    using serve_one_mail [OF t(1)] .
  obtain ms where ms: "sent t = sent s @ ms" "map fst ms = (if answered q then [rq_from q] else [])" using one by blast
  obtain ms' where ms': "sent s' = sent t @ ms'" "map fst ms' = map rq_from (filter answered (take n (inbox t)))"
    using Suc.IH [OF t(2)] by blast
  have "sent s' = sent s @ (ms @ ms')" "map fst (ms @ ms') = map rq_from (filter answered (take (Suc n) (inbox s)))"
    using ms ms' q by auto
  then show ?case using Suc.IH [OF t(2)] q by auto
qed simp

text \<open>C22: the server answers each request of a known kind exactly once, in the order in which the requests
  arrive, and sends nothing else: requests without a page or with an unknown number get no answer.\<close>

theorem serve_replies_in_order:
  assumes "serve fr n s = Ret () s'"
  shows "inbox s' = drop n (inbox s) \<and>
    (\<exists>ms. sent s' = sent s @ ms \<and> map fst ms = map rq_from (filter answered (take n (inbox s))))"
  using serve_mail [OF assms] by blast

definition demo_open :: "nat \<Rightarrow> open_file" where
  "demo_open i = \<lparr>o_file = 0, o_fileid = of_nat i, o_mode = 0, o_ff = FILEVA + i * 4096\<rparr>"

definition demo_serv :: serv where
  "demo_serv = \<lparr>ubytes = (\<lambda>a. 0), uperm = (\<lambda>p. if p = FILEVA div 4096 then Some VALID else None),
    grants = [True, True], card = (\<lambda>n i. 0), card_ok = (\<lambda>n. True), super = 0, nbitmap = 0, bitmap = 0,
    opentab = demo_open, shared = (\<lambda>p. if p = FILEVA div 4096 then 1 else 0),
    inbox = [\<lparr>rq_from = 2049, rq_value = 4, rq_perm = VALID, rq_page = Some (\<lambda>i. if i = 1 then 4 else 0)\<rparr>,
      \<lparr>rq_from = 4098, rq_value = 4, rq_perm = 0, rq_page = None\<rparr>,
      \<lparr>rq_from = 6147, rq_value = 9, rq_perm = VALID, rq_page = Some (\<lambda>i. 0)\<rparr>],
    sends = [- E_IPC_NOT_RECV, 0, 0], sent = []\<rparr>"

definition demo_frames :: frames where
  "demo_frames = \<lparr>path_buf = 0x7f000000, wname_buf = 0x7e000000, cname_buf = 0x7d000000\<rparr>"

lemmas serve_demo = serve_one_def ipc_recv_def dispatch_def serve_close_def with_open_def open_lookup_def
  pageref_def ipc_send_def ld32_def ld16_def uget_def syscall_mem_unmap_def demo_serv_def demo_open_def

lemma serve_replies_in_order_witness:
  "\<exists>s'. serve demo_frames 3 demo_serv = Ret () s' \<and> inbox s' = [] \<and> (\<exists>ms. sent s' = ms \<and> map fst ms = [2049])"
proof -
  obtain s' where s': "serve demo_frames 3 demo_serv = Ret () s'"
    by (simp add: numeral_3_eq_3 serve_demo)
  have "filter answered (inbox demo_serv) = [hd (inbox demo_serv)]" by (simp add: demo_serv_def answered_def)
  then show ?thesis
    using serve_replies_in_order [OF s'] s' by (simp add: demo_serv_def)
qed

section \<open>The table of open files\<close>

text \<open>Each entry has an identifier that names its position, and a page of its own.\<close>

definition tab_ok :: "serv \<Rightarrow> bool" where
  "tab_ok s \<longleftrightarrow> (\<forall>i < MAXOPEN. unat (o_fileid (opentab s i)) mod MAXOPEN = i \<and> o_ff (opentab s i) = FILEVA + i * 4096)"

lemma tab_ok_init: "tab_ok (serve_init s)"
  by (auto simp: tab_ok_def serve_init_def unsigned_of_nat take_bit_nat_eq_self)

lemma fileid_next: "unat (x + 1024 :: u32) mod 1024 = unat x mod 1024"
proof -
  have "unat (x + 1024) = (unat x + 1024) mod 2 ^ 32" by (simp add: unat_word_ariths)
  moreover have "(unat x + 1024) mod 2 ^ 32 mod 1024 = (unat x + 1024) mod 1024"
    by (rule mod_mod_cancel) simp
  ultimately show ?thesis by simp
qed

text \<open>An entry is in use while a client maps its page.\<close>

definition in_use :: "nat \<Rightarrow> serv \<Rightarrow> bool" where
  "in_use i s \<longleftrightarrow> pageref (FILEVA + i * 4096) s \<ge> 2"

definition takes :: "nat \<Rightarrow> int \<Rightarrow> serv \<Rightarrow> serv \<Rightarrow> bool" where
  "takes i r s s' \<longleftrightarrow>
    (let new = o_fileid (opentab s i) + 1024
     in r = sint new \<and> opentab s' = (opentab s)(i := (opentab s i)\<lparr>o_fileid := new\<rparr>) \<and>
        (\<forall>a < 4096. uget s' (o_ff (opentab s i) + a) = 0))"

lemma uget_page_cleared: "a < 4096 \<Longrightarrow> uget (user_bzero uput p 4096 s) (p + a) = 0"
proof -
  have n: "nat (sint (ucast (4096 :: u64) :: u32)) = 4096" by simp
  show "a < 4096 \<Longrightarrow> uget (user_bzero uput p 4096 s) (p + a) = 0"
    unfolding user_bzero_def n um.get_bzero_bytes by simp
qed

lemma open_take_takes:
  assumes "open_take i t = Ret (r, k) s'" and "opentab t = opentab s"
  shows "k = i \<and> takes i r s s'"
  using assms by (auto simp: open_take_def takes_def Let_def uget_page_cleared)

lemma open_alloc_from_result:
  assumes "open_alloc_from [n..<MAXOPEN] s = Ret (r, i) s'" and "tab_ok s" and "n \<le> MAXOPEN" and "0 \<le> r"
  shows "n \<le> i \<and> i < MAXOPEN \<and> \<not> in_use i s \<and> (\<forall>j. n \<le> j \<and> j < i \<longrightarrow> in_use j s) \<and> takes i r s s'"
  using assms
proof (induction "MAXOPEN - n" arbitrary: n)
  case (Suc d)
  have ff: "o_ff (opentab s n) = FILEVA + n * 4096" using Suc.hyps(2) Suc.prems(2) by (simp add: tab_ok_def)
  have l: "[n..<MAXOPEN] = n # [Suc n..<MAXOPEN]" using Suc.hyps(2) by (simp add: upt_conv_Cons)
  have alloc: "opentab u = opentab s" if "syscall_mem_alloc va p s = (q, u)" for va p q u
    by (rule serv_more(1) [OF more_call_eqs(1) [OF that]])
  show ?case
  proof (cases "in_use n s")
    case True
    then have "open_alloc_from [Suc n..<MAXOPEN] s = Ret (r, i) s'"
      using Suc.prems(1) unfolding l by (simp add: Let_def in_use_def ff)
    then have r: "Suc n \<le> i \<and> i < MAXOPEN \<and> \<not> in_use i s \<and> (\<forall>j. Suc n \<le> j \<and> j < i \<longrightarrow> in_use j s) \<and> takes i r s s'"
      by (rule Suc.hyps(1) [rotated]) (use Suc.hyps(2) Suc.prems in auto)
    then have "\<forall>j. n \<le> j \<and> j < i \<longrightarrow> in_use j s" using True by (metis Suc_leI le_neq_implies_less)
    then show ?thesis using r by auto
  next
    case False
    then obtain t where "open_take n t = Ret (r, i) s'" "opentab t = opentab s"
      using Suc.prems unfolding l by (auto simp: Let_def in_use_def ff split: prod.splits if_splits dest: alloc)
    then show ?thesis using open_take_takes Suc.hyps False by fastforce
  qed
qed simp


lemma sint_of_nonneg: "0 \<le> sint (w :: u32) \<Longrightarrow> sint w = int (unat w)"
proof -
  assume "0 \<le> sint w"
  moreover have "sint w < 2 ^ 31" using sint_lt [of w] by simp
  ultimately have "take_bit 32 (sint w) = sint w" by (simp add: take_bit_int_eq_self)
  moreover have "uint w = take_bit 32 (sint w)" unfolding uint_sint by simp
  ultimately have "uint w = sint w" by (rule trans [rotated])
  then show ?thesis by simp
qed

text \<open>\<open>open_alloc\<close> takes the first entry no client has open, gives it an identifier that is 1024 above
  its last one, clears its page and leaves every other entry alone. The identifier the entry had is
  refused from then on.\<close>

lemma open_alloc_fresh:
  assumes "open_alloc s = Ret (r, i) s'" and "tab_ok s" and "0 \<le> r"
  shows "i < MAXOPEN \<and> \<not> in_use i s \<and> (\<forall>j < i. in_use j s) \<and> tab_ok s' \<and>
    r = int (unat (o_fileid (opentab s' i))) \<and> o_fileid (opentab s' i) = o_fileid (opentab s i) + 1024 \<and>
    (\<forall>a < 4096. uget s' (FILEVA + i * 4096 + a) = 0) \<and> (\<forall>j. j \<noteq> i \<longrightarrow> opentab s' j = opentab s j) \<and>
    open_lookup (o_fileid (opentab s i)) s' = (- E_INVAL, 0)"
proof -
  let ?old = "o_fileid (opentab s i)"
  have r: "i < MAXOPEN" "\<not> in_use i s" "\<forall>j < i. in_use j s" "takes i r s s'"
    using open_alloc_from_result [of 0 s r i s'] assms by (simp_all add: open_alloc_def)
  then have s': "r = sint (?old + 1024)" "opentab s' = (opentab s)(i := (opentab s i)\<lparr>o_fileid := ?old + 1024\<rparr>)"
    and zero: "\<forall>a < 4096. uget s' (FILEVA + i * 4096 + a) = 0"
    using assms(2) by (simp_all add: takes_def Let_def tab_ok_def)
  have "tab_ok s'" using assms(2) r(1) fileid_next [of ?old] by (simp add: tab_ok_def s'(2))
  moreover have "open_lookup ?old s' = (- E_INVAL, 0)"
    using assms(2) r(1) by (simp add: open_lookup_def tab_ok_def s'(2) Let_def)
  moreover have "r = int (unat (?old + 1024))" using sint_of_nonneg [of "?old + 1024"] assms(3) s'(1) by simp
  ultimately show ?thesis using r s' zero by simp
qed

lemma open_alloc_fresh_witness: "\<exists>s'. open_alloc demo_serv = Ret (1025, 1) s' \<and> in_use 0 demo_serv \<and>
    open_lookup 1 s' = (- E_INVAL, 0)"
proof -
  have t: "tab_ok demo_serv" by (simp add: tab_ok_def demo_serv_def demo_open_def unsigned_of_nat take_bit_nat_eq_self)
  have l: "[0..<MAXOPEN] = 0 # 1 # [Suc 1..<MAXOPEN]"
    by (subst upt_conv_Cons, simp, subst upt_conv_Cons, simp, simp only: One_nat_def)
  have "\<exists>s'. open_alloc_from (0 # 1 # xs) demo_serv = Ret (1025, 1) s'" for xs
    by (simp add: pageref_def demo_serv_def demo_open_def Let_def open_take_def syscall_mem_alloc_def)
  then obtain s' where s': "open_alloc demo_serv = Ret (1025, 1) s'"
    unfolding open_alloc_def l by blast
  have old: "o_fileid (opentab demo_serv 1) = 1" by (simp add: demo_serv_def demo_open_def)
  have "(\<forall>j < 1. in_use j demo_serv) \<and> open_lookup (o_fileid (opentab demo_serv 1)) s' = (- E_INVAL, 0)"
    using open_alloc_fresh [OF s' t] by simp
  then have "in_use 0 demo_serv" "open_lookup 1 s' = (- E_INVAL, 0)" unfolding old by blast+
  then show ?thesis using s' by blast
qed

text \<open>Right after \<open>serve_init\<close> every number below 1024 passes for the identifier of an open file, though
  no file has been opened: the page of the entry has no reference at all, and the test is for exactly one.\<close>

lemma never_opened_file_accepted:
  assumes "i < MAXOPEN" and "uperm s ((FILEVA + i * 4096) div 4096) = None"
  shows "open_lookup (of_nat i) (serve_init s) = (0, i) \<and>
    o_file (opentab (serve_init s) i) = o_file (opentab s i)"
  using assms by (simp add: open_lookup_def serve_init_def Let_def pageref_def unsigned_of_nat take_bit_nat_eq_self)

lemma never_opened_file_accepted_witness:
  "open_lookup 5 (serve_init demo_serv) = (0, 5) \<and> o_file (opentab (serve_init demo_serv) 5) = 0"
  using never_opened_file_accepted [of 5 demo_serv] by (simp add: demo_serv_def demo_open_def)

end
