(* ===== verification/Printf.thy ===== *)
theory Printf
  imports Prelude
begin

text \<open>
  Formatted output: lib/print.c and lib/printf.c of the kernel, and the copy of both that user programs
  carry in user/writef.c. A format or a string argument is the list of its characters without the final 0;
  the state is the list of the strings passed to \<open>output\<close> so far. A conversion builds its text in a buffer of
  100 characters. The code looks at the length only after the text is in the buffer, so a longer text has
  overwritten the stack by then; the model goes on to the check, which prints a message and stops.
\<close>

section \<open>Numbers, characters and strings in the buffer (lib/print.c)\<close>

abbreviation (input) LP_MAX_BUF :: nat where "LP_MAX_BUF \<equiv> 100"

definition digit_char :: "bool \<Rightarrow> u64 \<Rightarrow> u8" where
  "digit_char upcase tmp = ucast (if tmp \<le> 9 then 48 + tmp else if upcase then 65 + tmp - 10 else 97 + tmp - 10)"

text \<open>The loop writes the digits from the last to the first. It does not end for base 1.\<close>

partial_function (option) digit_loop :: "u64 \<Rightarrow> bool \<Rightarrow> u64 \<Rightarrow> u8 list \<Rightarrow> u8 list option" where
  "digit_loop base upcase u buf =
    (let buf = buf @ [digit_char upcase (u mod base)]; u = u div base
     in if u \<noteq> 0 then digit_loop base upcase u buf else Some buf)"

text \<open>A loop \<open>for (i = a; i < b; i++) buf[i] = c\<close>.\<close>

definition fill :: "nat \<Rightarrow> nat \<Rightarrow> u8 \<Rightarrow> u8 list \<Rightarrow> u8 list" where
  "fill a b c buf = fold (\<lambda>i buf. buf[i := c]) [a..<b] buf"

fun reverse_loop :: "nat \<Rightarrow> nat \<Rightarrow> u8 list \<Rightarrow> u8 list" where
  "reverse_loop lo hi buf =
    (if hi > lo
     then reverse_loop (lo + 1) (hi - 1) (buf[lo := buf ! hi, hi := buf ! lo])
     else buf)"

declare reverse_loop.simps [simp del]

text \<open>The results of the three functions are the first \<open>length\<close> characters of the buffer.\<close>

definition PrintNum :: "u64 \<Rightarrow> u64 \<Rightarrow> bool \<Rightarrow> int \<Rightarrow> bool \<Rightarrow> u8 \<Rightarrow> bool \<Rightarrow> u8 list option" where
  "PrintNum u base negFlag len ladjust padc upcase =
    (case digit_loop base upcase u [] of
       None \<Rightarrow> None
     | Some ds \<Rightarrow>
         (let p = (if negFlag then ds @ [45] else ds);
              actualLength = length p;
              len = (if len < int actualLength then actualLength else nat len);
              padc = (if ladjust then 32 else padc);
              buf = p @ replicate (len - actualLength) 0;
              buf = (if negFlag \<and> \<not> ladjust \<and> padc = 48
                     then (fill (actualLength - 1) (len - 1) padc buf)[len - 1 := 45]
                     else fill actualLength len padc buf)
          in Some (reverse_loop 0 (if ladjust then actualLength - 1 else len - 1) buf)))"

definition PrintChar :: "u8 \<Rightarrow> int \<Rightarrow> bool \<Rightarrow> u8 list" where
  "PrintChar c len ladjust =
    (let len = (if len < 1 then 1 else nat len); buf = replicate len 0
     in if ladjust then fill 1 len 32 (buf[0 := c]) else (fill 0 (len - 1) 32 buf)[len - 1 := c])"

definition PrintString :: "u8 list \<Rightarrow> int \<Rightarrow> bool \<Rightarrow> u8 list" where
  "PrintString s len ladjust =
    (let n = length s; len = (if len < int n then n else nat len); buf = replicate len 0
     in if ladjust then fill n len 32 (fold (\<lambda>i buf. buf[i := s ! i]) [0..<n] buf)
        else fold (\<lambda>i buf. buf[i := s ! (i + n - len)]) [len - n..<len] (fill 0 (len - n) 32 buf))"

section \<open>The formatter (lib/print.c)\<close>

text \<open>What is left of the argument list.\<close>

datatype arg = Num u64 | Str "u8 list"

type_synonym printed = "u8 list list"

text \<open>\<open>width = (width << 3) + (width << 1) + *fmt - '0'\<close> as long as there are digits.\<close>

fun scan_width :: "u32 \<Rightarrow> u8 list \<Rightarrow> u32 \<times> u8 list" where
  "scan_width width [] = (width, [])"
| "scan_width width (c # cs) =
    (if 48 \<le> c \<and> c \<le> 57 then scan_width (push_bit 3 width + push_bit 1 width + ucast c - 48) cs
     else (width, c # cs))"

record flags =
  ladjust :: bool
  width :: int
  longFlag :: bool

definition scan_flags :: "u8 list \<Rightarrow> flags \<times> u8 list" where
  "scan_flags fmt =
    (let minus = (\<exists>cs. fmt = 45 # cs);
         (w, fmt) = (case fmt of [] \<Rightarrow> (0, [])
                     | c # cs \<Rightarrow> if c = 45 \<or> c = 48 then scan_width 0 cs else (0, c # cs));
         (w, fmt) = (case fmt of [] \<Rightarrow> (w, []) | c # cs \<Rightarrow> if c = 46 then scan_width w cs else (w, c # cs));
         (long, fmt) = (case fmt of [] \<Rightarrow> (False, []) | c # cs \<Rightarrow> if c = 108 then (True, cs) else (False, c # cs))
     in (\<lparr>ladjust = minus, width = sint w, longFlag = long\<rparr>, fmt))"

text \<open>``fatal error in lp_Print!''\<close>

definition theFatalMsg :: "u8 list" where
  "theFatalMsg = [102, 97, 116, 97, 108, 32, 101, 114, 114, 111, 114, 32, 105, 110, 32, 108, 112, 95, 80, 114, 105, 110, 116, 33]"

definition OUTPUT :: "u8 list \<Rightarrow> printed \<Rightarrow> (unit, printed) outcome" where
  "OUTPUT s out = (if length s > LP_MAX_BUF then Panic ''fatal'' (out @ [theFatalMsg]) else Ret () (out @ [s]))"

text \<open>\<open>__builtin_va_arg\<close>: an \<open>int\<close> is the low half of the argument, extended by its sign. Taking an argument
  that is not there or of the other kind is undefined in C.\<close>

fun next_num :: "bool \<Rightarrow> arg list \<Rightarrow> (u64 \<times> arg list) option" where
  "next_num long (Num v # va) = Some (if long then v else scast (ucast v :: u32), va)"
| "next_num long va = None"

fun next_str :: "arg list \<Rightarrow> (u8 list \<times> arg list) option" where
  "next_str (Str s # va) = Some (s, va)"
| "next_str va = None"

definition print_num :: "flags \<Rightarrow> u64 \<Rightarrow> bool \<Rightarrow> bool \<Rightarrow> u64 \<Rightarrow> u8 list option" where
  "print_num fl base neg upcase num = PrintNum num base neg (width fl) (ladjust fl) 48 upcase"

text \<open>The cases of the switch; \<open>None\<close> is an undefined access to the arguments.\<close>

definition convert :: "u8 \<Rightarrow> flags \<Rightarrow> arg list \<Rightarrow> (u8 list \<times> arg list) option" where
  "convert k fl va =
    (let number = (\<lambda>f. case next_num (longFlag fl) va of None \<Rightarrow> None
                     | Some (num, va) \<Rightarrow> (case f num of None \<Rightarrow> None | Some t \<Rightarrow> Some (t, va)))
     in if k = 98 then number (print_num fl 2 False False)
        else if k = 100 \<or> k = 68 then
          number (\<lambda>num. if num <s 0 then print_num fl 10 True False (- num) else print_num fl 10 False False num)
        else if k = 111 \<or> k = 79 then number (print_num fl 8 False False)
        else if k = 117 \<or> k = 85 then number (print_num fl 10 False False)
        else if k = 120 then number (print_num fl 16 False False)
        else if k = 88 then number (print_num fl 16 False True)
        else if k = 99 then
          (case next_num False va of None \<Rightarrow> None | Some (c, va) \<Rightarrow> Some (PrintChar (ucast c) (width fl) (ladjust fl), va))
        else if k = 115 then
          (case next_str va of None \<Rightarrow> None | Some (s, va) \<Rightarrow> Some (PrintString s (width fl) (ladjust fl), va))
        else Some ([k], va))"

lemma scan_width_length: "length (snd (scan_width w cs)) \<le> length cs"
  by (induction w cs rule: scan_width.induct) auto

lemma scan_flags_length: "scan_flags fmt = (fl, rest) \<Longrightarrow> length rest \<le> length fmt"
proof -
  have digits: "scan_width w cs = (v, ds) \<Longrightarrow> length ds \<le> length cs" for w v cs ds
    using scan_width_length [of w cs] by simp
  have step: "(case fmt of [] \<Rightarrow> (w, []) | c # cs \<Rightarrow> if P c then scan_width w cs else (w, c # cs)) = (v, ds) \<Longrightarrow>
      length ds \<le> length fmt" for P fmt w v ds
    by (cases fmt) (auto split: if_splits dest: digits)
  assume "scan_flags fmt = (fl, rest)"
  then show ?thesis
    unfolding scan_flags_def Let_def
    by (auto split: prod.splits list.splits if_splits dest!: step digits)
qed

lemma scan_flags_rest: "(fl, k # rest) = scan_flags cs \<Longrightarrow> length rest < length cs"
  using scan_flags_length [of cs fl "k # rest"] by simp

function lp_Print :: "u8 list \<Rightarrow> arg list \<Rightarrow> printed \<Rightarrow> (unit, printed) outcome" where
  "lp_Print [] va out = OUTPUT [0] out"
| "lp_Print (c # cs) va out =
    (if c \<noteq> 37 then obind (OUTPUT [c] out) (\<lambda>_ out. lp_Print cs va out)
     else case scan_flags cs of
       (fl, []) \<Rightarrow> OUTPUT [0] out
     | (fl, k # rest) \<Rightarrow>
         (case convert k fl va of
            None \<Rightarrow> Panic ''va_arg'' out
          | Some (text, va) \<Rightarrow> obind (OUTPUT text out) (\<lambda>_ out. lp_Print rest va out)))"
  by pat_completeness auto
termination
  by (relation "measure (\<lambda>(fmt, va, out). length fmt)") (auto dest!: scan_flags_rest)

section \<open>Output to the console (lib/printf.c)\<close>

text \<open>The characters that reach \<open>printcharc\<close>.\<close>

definition myoutput :: "u8 list \<Rightarrow> u8 list" where
  "myoutput s = (if s = [0] then [] else concat (map (\<lambda>c. if c = 10 then [13, 10] else [c]) s))"

fun printed_to :: "u8 list \<Rightarrow> (unit, printed) outcome \<Rightarrow> (unit, u8 list) outcome" where
  "printed_to con (Ret x out) = Ret () (con @ concat (map myoutput out))"
| "printed_to con (Eret out) = Eret (con @ concat (map myoutput out))"
| "printed_to con (Panic m out) = Panic m (con @ concat (map myoutput out))"
| "printed_to con Hang = Hang"

definition printf :: "u8 list \<Rightarrow> arg list \<Rightarrow> u8 list \<Rightarrow> (unit, u8 list) outcome" where
  "printf fmt va con = printed_to con (lp_Print fmt va [])"

text \<open>The literals are ``panic at %s:%d: '' and a new line; afterwards \<open>_panic\<close> loops for ever.\<close>

definition panic_fmt :: "u8 list" where
  "panic_fmt = [112, 97, 110, 105, 99, 32, 97, 116, 32, 37, 115, 58, 37, 100, 58, 32]"

definition kpanic :: "u8 list \<Rightarrow> u32 \<Rightarrow> u8 list \<Rightarrow> arg list \<Rightarrow> u8 list \<Rightarrow> (unit, u8 list) outcome" where
  "kpanic file line fmt va con =
    obind (printf panic_fmt [Str file, Num (ucast line)] con) (\<lambda>_ con.
      obind (printed_to con (lp_Print fmt va [])) (\<lambda>_ con.
        obind (printf [10] [] con) (\<lambda>_ con. Panic ''panic'' con)))"

section \<open>The copy for user programs (user/writef.c)\<close>

text \<open>The text of these functions is that of the kernel's, but for the names and the system call
  \<open>syscall_putchar\<close> in the place of \<open>printcharc\<close>.\<close>

definition user_PrintNum :: "u64 \<Rightarrow> u64 \<Rightarrow> bool \<Rightarrow> int \<Rightarrow> bool \<Rightarrow> u8 \<Rightarrow> bool \<Rightarrow> u8 list option" where
  "user_PrintNum = PrintNum"
definition user_PrintChar :: "u8 \<Rightarrow> int \<Rightarrow> bool \<Rightarrow> u8 list" where
  "user_PrintChar = PrintChar"
definition user_PrintString :: "u8 list \<Rightarrow> int \<Rightarrow> bool \<Rightarrow> u8 list" where
  "user_PrintString = PrintString"
definition user_lp_Print :: "u8 list \<Rightarrow> arg list \<Rightarrow> printed \<Rightarrow> (unit, printed) outcome" where
  "user_lp_Print = lp_Print"
definition user_myoutput :: "u8 list \<Rightarrow> u8 list" where
  "user_myoutput = myoutput"

definition writef :: "u8 list \<Rightarrow> arg list \<Rightarrow> u8 list \<Rightarrow> (unit, u8 list) outcome" where
  "writef fmt va con = printed_to con (user_lp_Print fmt va [])"

definition user_panic :: "u8 list \<Rightarrow> u32 \<Rightarrow> u8 list \<Rightarrow> arg list \<Rightarrow> u8 list \<Rightarrow> (unit, u8 list) outcome" where
  "user_panic file line fmt va con =
    obind (writef panic_fmt [Str file, Num (ucast line)] con) (\<lambda>_ con.
      obind (printed_to con (user_lp_Print fmt va [])) (\<lambda>_ con.
        obind (writef [10] [] con) (\<lambda>_ con. Panic ''panic'' con)))"

end
