(* ===== verification/Printfprops.thy ===== *)
theory Printfprops
  imports Printf
begin

text \<open>
  Properties of formatted output: a number is printed as its digits, padded to the width, and can be read
  back; no text of more than 100 characters reaches the console.
\<close>

section \<open>The loops over the buffer\<close>

lemma fill_buf:
  assumes "a \<le> b" and "b \<le> length buf"
  shows "fill a b c buf = take a buf @ replicate (b - a) c @ drop b buf"
  using assms
proof (induction "b - a" arbitrary: b)
  case 0
  then show ?case by (simp add: fill_def)
next
  case (Suc n)
  then obtain b' where b': "b = Suc b'" "a \<le> b'" by (cases b) auto
  have "fill a b c buf = (fill a b' c buf)[b' := c]" using b' by (simp add: fill_def)
  also have "fill a b' c buf = take a buf @ replicate (b' - a) c @ drop b' buf"
    using Suc b' by (intro Suc.hyps(1)) auto
  also have "drop b' buf = buf ! b' # drop b buf" using b' Suc.prems by (simp add: Cons_nth_drop_Suc)
  finally show ?case
    using b' Suc.prems by (simp add: list_update_append Suc_diff_le replicate_append_same [symmetric])
qed

lemma reverse_loop_nth:
  "hi < length buf \<Longrightarrow> length (reverse_loop lo hi buf) = length buf \<and>
    (\<forall>i < length buf. reverse_loop lo hi buf ! i = (if lo \<le> i \<and> i \<le> hi then buf ! (lo + hi - i) else buf ! i))"
proof (induction lo hi buf rule: reverse_loop.induct)
  case (1 lo hi buf)
  show ?case
  proof (cases "hi > lo")
    case False
    then have "reverse_loop lo hi buf = buf" by (subst reverse_loop.simps) simp
    moreover have "lo + hi - i = i" if "lo \<le> i" "i \<le> hi" for i using False that by linarith
    ultimately show ?thesis by auto
  next
    case True
    let ?b = "buf[lo := buf ! hi, hi := buf ! lo]"
    have eq: "reverse_loop lo hi buf = reverse_loop (lo + 1) (hi - 1) ?b" using True by (subst reverse_loop.simps) simp
    have ih: "length (reverse_loop (lo + 1) (hi - 1) ?b) = length ?b \<and>
      (\<forall>i < length ?b. reverse_loop (lo + 1) (hi - 1) ?b ! i =
        (if lo + 1 \<le> i \<and> i \<le> hi - 1 then ?b ! (lo + 1 + (hi - 1) - i) else ?b ! i))"
      using 1 True by simp
    have "reverse_loop lo hi buf ! i = (if lo \<le> i \<and> i \<le> hi then buf ! (lo + hi - i) else buf ! i)"
      if "i < length buf" for i
    proof (cases "lo < i \<and> i < hi")
      case True
      then have "lo + 1 \<le> i \<and> i \<le> hi - 1" "lo + 1 + (hi - 1) - i = lo + hi - i" "lo + hi - i \<noteq> lo" "lo + hi - i \<noteq> hi"
        by auto
      then show ?thesis using ih that True by (simp add: eq)
    next
      case False
      then have "reverse_loop lo hi buf ! i = ?b ! i" using ih that by (auto simp: eq)
      then show ?thesis using False True that 1(2) by (auto simp: nth_list_update)
    qed
    then show ?thesis using ih by (simp add: eq)
  qed
qed

lemma reverse_loop_prefix:
  assumes "xs \<noteq> []"
  shows "reverse_loop 0 (length xs - 1) (xs @ ys) = rev xs @ ys"
proof (rule nth_equalityI)
  let ?r = "reverse_loop 0 (length xs - 1) (xs @ ys)"
  have pos: "0 < length xs" using assms by simp
  then have r: "length ?r = length xs + length ys"
    "i < length xs + length ys \<Longrightarrow> ?r ! i = (if i \<le> length xs - 1 then (xs @ ys) ! (length xs - 1 - i) else (xs @ ys) ! i)" for i
    using pos reverse_loop_nth [of "length xs - 1" "xs @ ys" 0] by (simp_all add: trans_less_add1)
  then show "length ?r = length (rev xs @ ys)" by simp
  fix i
  assume "i < length ?r"
  then show "?r ! i = (rev xs @ ys) ! i"
  proof (cases "i < length xs")
    case True
    then have "i \<le> length xs - 1" "length xs - 1 - i < length xs" by linarith+
    then show ?thesis using r True by (simp add: nth_append rev_nth)
  next
    case False
    then have "\<not> i \<le> length xs - 1" using pos by linarith
    then show ?thesis using r False \<open>i < length ?r\<close> by (simp add: nth_append)
  qed
qed

section \<open>Digits\<close>

text \<open>The digits of a number, the last first, and their value.\<close>

function digits :: "nat \<Rightarrow> nat \<Rightarrow> nat list" where
  "digits b n = n mod b # (if n div b = 0 \<or> b \<le> 1 then [] else digits b (n div b))"
  by auto
termination
  by (relation "measure snd") (auto intro!: div_less_dividend gr0I)

declare digits.simps [simp del]

fun value_of :: "nat \<Rightarrow> nat list \<Rightarrow> nat" where
  "value_of b [] = 0"
| "value_of b (d # ds) = d + b * value_of b ds"

lemma value_of_digits: "2 \<le> b \<Longrightarrow> value_of b (digits b n) = n"
proof (induction b n rule: digits.induct)
  case (1 b n)
  then show ?case by (subst digits.simps) (auto simp: div_eq_0_iff)
qed

lemma digits_cases:
  assumes "2 \<le> b"
  obtains "n < b" "digits b n = [n]" | "b \<le> n" "digits b n = n mod b # digits b (n div b)"
proof (cases "n < b")
  case True
  then have "digits b n = [n]" using digits.simps [of b n] by simp
  then show ?thesis using that(1) True by blast
next
  case False
  then have "digits b n = n mod b # digits b (n div b)" using digits.simps [of b n] assms by (auto simp: div_eq_0_iff)
  then show ?thesis using that(2) False by simp
qed

lemma digits_bound: "2 \<le> b \<Longrightarrow> set (digits b n) \<subseteq> {..<b}"
proof (induction n rule: less_induct)
  case (less n)
  show ?case
  proof (cases rule: digits_cases [OF less.prems, of n])
    case 2
    then have "n div b < n" using less.prems by (intro div_less_dividend) auto
    then have "set (digits b (n div b)) \<subseteq> {..<b}" using less by blast
    then show ?thesis using 2(2) less.prems by simp
  qed simp
qed

lemma digits_last: "2 \<le> b \<Longrightarrow> n \<noteq> 0 \<Longrightarrow> last (digits b n) \<noteq> 0"
proof (induction n rule: less_induct)
  case (less n)
  show ?case
  proof (cases rule: digits_cases [OF less.prems(1), of n])
    case 2
    then have "n div b < n" "n div b \<noteq> 0" using less.prems by (auto simp: div_eq_0_iff)
    then have "last (digits b (n div b)) \<noteq> 0" using less by blast
    moreover have "digits b (n div b) \<noteq> []" by (subst digits.simps) simp
    ultimately show ?thesis using 2 by simp
  qed (use less.prems in simp)
qed

definition char_of_digit :: "bool \<Rightarrow> nat \<Rightarrow> u8" where
  "char_of_digit upcase d = digit_char upcase (of_nat d)"

lemma digit_loop_digits:
  "2 \<le> base \<Longrightarrow> digit_loop base upcase u buf = Some (buf @ map (char_of_digit upcase) (digits (unat base) (unat u)))"
proof (induction "unat u" arbitrary: u buf rule: less_induct)
  case less
  have b: "2 \<le> unat base" using less.prems by (simp add: word_le_nat_alt)
  have m: "of_nat (unat u mod unat base) = u mod base" "unat (u div base) = unat u div unat base"
    by (simp_all add: unat_div_distrib flip: unat_mod_distrib)
  show ?case
  proof (cases "u div base = 0")
    case True
    then have "unat u div unat base = 0" using m(2) by simp
    then show ?thesis using True m(1) by (subst digit_loop.simps, subst digits.simps) (simp add: Let_def char_of_digit_def)
  next
    case False
    then have n: "unat u div unat base \<noteq> 0" using m(2) by (metis unat_eq_zero)
    then have "unat (u div base) < unat u" unfolding m(2) using b by (intro div_less_dividend) (auto intro: gr0I)
    from less.hyps [OF this less.prems] show ?thesis
      using False n b m by (subst digit_loop.simps, subst digits.simps) (simp add: Let_def char_of_digit_def)
  qed
qed


section \<open>A printed number reads back\<close>

definition number_field :: "bool \<Rightarrow> bool \<Rightarrow> int \<Rightarrow> u8 list \<Rightarrow> u8 list" where
  "number_field neg left len ds =
    (let sign = (if neg then [45] else []); pad = nat len - length (sign @ ds)
     in if left then sign @ ds @ replicate pad 32 else sign @ replicate pad 48 @ ds)"

definition digit_of :: "u8 \<Rightarrow> nat" where
  "digit_of c = (if c \<le> 57 then unat c - 48 else if c \<le> 90 then unat c - 55 else unat c - 87)"

definition read_digits :: "nat \<Rightarrow> u8 list \<Rightarrow> nat" where
  "read_digits b cs = foldl (\<lambda>n c. n * b + digit_of c) 0 cs"

lemma reverse_all: "xs \<noteq> [] \<Longrightarrow> length xs = n \<Longrightarrow> reverse_loop 0 (n - 1) xs = rev xs"
  using reverse_loop_prefix [of xs "[]"] by auto

lemma fill_sign:
  "(fill (length ds) (length ds + k) 48 (ds @ [45] @ replicate k 0))[length ds + k := 45] =
    ds @ replicate k 48 @ [45 :: u8]"
proof -
  have "length (drop k (45 # replicate k (0 :: u8))) = Suc 0" by simp
  then obtain x where "drop k (45 # replicate k (0 :: u8)) = [x]" by (auto simp only: length_Suc_conv length_0_conv)
  then have "fill (length ds) (length ds + k) 48 (ds @ [45] @ replicate k 0) = ds @ replicate k 48 @ [x]"
    by (subst fill_buf) simp_all
  then show ?thesis by (simp add: list_update_append)
qed

lemma PrintNum_field:
  assumes "digit_loop base upcase u [] = Some ds" and "ds \<noteq> []"
  shows "PrintNum u base neg len left 48 upcase = Some (number_field neg left len (rev ds))"
proof -
  let ?p = "if neg then ds @ [45] else ds"
  let ?L = "if len < int (length ?p) then length ?p else nat len"
  let ?pad = "nat len - length ?p"
  have L: "?L = length ?p + ?pad" by auto
  have pn: "PrintNum u base neg len left 48 upcase = Some (reverse_loop 0 (if left then length ?p - 1 else ?L - 1)
      (if neg \<and> \<not> left then (fill (length ?p - 1) (?L - 1) 48 (?p @ replicate ?pad 0))[?L - 1 := 45]
       else fill (length ?p) ?L (if left then 32 else 48) (?p @ replicate ?pad 0)))"
    using assms(1) L by (simp add: PrintNum_def Let_def)
  have f: "fill (length ?p) ?L c (?p @ replicate ?pad 0) = ?p @ replicate ?pad c" for c
    unfolding L by (subst fill_buf) auto
  show ?thesis
  proof (cases "left")
    case True
    then show ?thesis
      using pn f [of 32] reverse_loop_prefix [of ?p "replicate ?pad 32"] assms(2) by (simp add: number_field_def Let_def)
  next
    case right: False
    show ?thesis
    proof (cases neg)
      case False
      have "reverse_loop 0 (?L - 1) (ds @ replicate ?pad 48) = rev (ds @ replicate ?pad 48)"
        using L False assms(2) by (intro reverse_all) auto
      then show ?thesis using pn f [of 48] right False by (simp add: number_field_def Let_def)
    next
      case True
      have "(fill (length ds) (length ds + ?pad) 48 (ds @ [45] @ replicate ?pad 0))[length ds + ?pad := 45] =
          ds @ replicate ?pad 48 @ [45]"
        by (rule fill_sign)
      moreover have "reverse_loop 0 (?L - 1) (ds @ replicate ?pad 48 @ [45]) = rev (ds @ replicate ?pad 48 @ [45])"
        using L True by (intro reverse_all) auto
      ultimately show ?thesis using pn L right True by (simp add: number_field_def Let_def)
    qed
  qed
qed

lemma digit_of_char: "d < 16 \<Longrightarrow> digit_of (char_of_digit upcase d) = d"
proof -
  have "\<forall>d \<in> set [0..<16]. digit_of (char_of_digit True d) = d \<and> digit_of (char_of_digit False d) = d" by code_simp
  then show "d < 16 \<Longrightarrow> digit_of (char_of_digit upcase d) = d" by (cases upcase) auto
qed

lemma char_of_digit_0: "d < 16 \<Longrightarrow> char_of_digit upcase d = 48 \<Longrightarrow> d = 0"
  using digit_of_char [of d upcase] by (simp add: digit_of_def)

lemma read_digits_value:
  "set ds \<subseteq> {..<16} \<Longrightarrow> read_digits b (rev (map (char_of_digit upcase) ds)) = value_of b ds"
  by (induction ds) (auto simp: read_digits_def digit_of_char)

lemma length_digits: "2 \<le> b \<Longrightarrow> n < b ^ k \<Longrightarrow> length (digits b n) \<le> max 1 k"
proof (induction k arbitrary: n)
  case 0
  then show ?case by (subst digits.simps) simp
next
  case (Suc k)
  show ?case
  proof (cases rule: digits_cases [OF Suc.prems(1), of n])
    case 2
    have "n div b < b ^ k" using Suc.prems by (simp add: less_mult_imp_div_less mult.commute)
    moreover have "k \<noteq> 0" using 2(1) Suc.prems by (intro notI) simp
    ultimately show ?thesis using Suc.IH [of "n div b"] Suc.prems(1) 2(2) by simp
  qed simp
qed

lemma PrintNum_numeral:
  assumes "2 \<le> base" and "base \<le> 16"
  shows "\<exists>ds. PrintNum u base neg len left 48 upcase = Some (number_field neg left len ds) \<and>
    ds \<noteq> [] \<and> read_digits (unat base) ds = unat u \<and> (hd ds = 48 \<longrightarrow> ds = [48]) \<and> length ds \<le> 64"
proof -
  let ?ds = "digits (unat base) (unat u)"
  have b: "2 \<le> unat base" "unat base \<le> 16" using assms by (simp_all add: word_le_nat_alt)
  have "(2 :: nat) ^ 64 \<le> unat base ^ 64" using b(1) by (rule power_mono) simp
  moreover have "unat u < 2 ^ 64" using unsigned_less [of u] by simp
  ultimately have lim: "unat u < unat base ^ 64" by linarith
  have ne: "?ds \<noteq> []" by (subst digits.simps) simp
  have small: "set ?ds \<subseteq> {..<16}" using digits_bound [OF b(1), of "unat u"] b(2) by auto
  have loop: "digit_loop base upcase u [] = Some (map (char_of_digit upcase) ?ds)"
    using digit_loop_digits [OF assms(1)] by simp
  have "rev (map (char_of_digit upcase) ?ds) = [48]" if "hd (rev (map (char_of_digit upcase) ?ds)) = 48"
  proof -
    have "char_of_digit upcase (last ?ds) = 48" using that ne by (simp add: hd_rev last_map)
    moreover have "last ?ds < 16" using last_in_set [OF ne] small by auto
    ultimately have "last ?ds = 0" by (intro char_of_digit_0 [of _ upcase])
    then have "unat u = 0" using digits_last [OF b(1), of "unat u"] by blast
    then have "?ds = [0]" using b(1) by (subst digits.simps) simp
    then show ?thesis by (simp add: char_of_digit_def digit_char_def)
  qed
  moreover have "read_digits (unat base) (rev (map (char_of_digit upcase) ?ds)) = unat u"
    using read_digits_value [OF small] value_of_digits [OF b(1)] by simp
  ultimately show ?thesis using PrintNum_field [OF loop] ne
    length_digits [OF b(1) lim]
    by (intro exI [of _ "rev (map (char_of_digit upcase) ?ds)"] conjI impI) simp_all
qed

text \<open>C23: \<open>PrintNum\<close> always returns, and prints the shortest numeral of the number in the base: read back it is
  the number, and it has no leading zero. The padding is spaces behind it or zeros between sign and digits.\<close>

theorem PrintNum_roundtrip:
  assumes "2 \<le> base" and "base \<le> 16"
  shows "\<exists>ds. PrintNum u base neg len left 48 upcase = Some (number_field neg left len ds) \<and>
    ds \<noteq> [] \<and> read_digits (unat base) ds = unat u \<and> (hd ds = 48 \<longrightarrow> ds = [48])"
  using PrintNum_numeral [OF assms, of u neg len left upcase] by blast

lemma PrintNum_roundtrip_witness:
  "\<exists>ds. PrintNum 2026 10 True 8 False 48 False = Some (number_field True False 8 ds) \<and> read_digits 10 ds = 2026"
  using PrintNum_roundtrip [of 10 2026 True 8 False False] by auto


section \<open>The formatter\<close>

lemma OUTPUT_bound: "OUTPUT t out = Ret () out' \<longleftrightarrow> length t \<le> LP_MAX_BUF \<and> out' = out @ [t]"
  by (auto simp: OUTPUT_def)

definition fits :: "printed \<Rightarrow> bool" where
  "fits out \<longleftrightarrow> (\<forall>t \<in> set out. length t \<le> LP_MAX_BUF)"

lemma lp_Print_fits:
  "fits out \<Longrightarrow> (case lp_Print fmt va out of Ret x out' \<Rightarrow> fits out' | Panic m out' \<Rightarrow> fits out' | _ \<Rightarrow> False)"
proof (induction fmt va out rule: lp_Print.induct)
  case (1 va out)
  then show ?case by (simp add: OUTPUT_def fits_def)
next
  case (2 c cs va out)
  have o: "case OUTPUT t out of Ret x out' \<Rightarrow> fits out' | Panic m out' \<Rightarrow> fits out' | _ \<Rightarrow> False" for t
    using 2(3) by (simp add: OUTPUT_def fits_def theFatalMsg_def)
  show ?case
  proof (cases "c = 37")
    case False
    then show ?thesis using 2(1) o [of "[c]"] by (cases "OUTPUT [c] out") auto
  next
    case True
    obtain fl rest where f: "scan_flags cs = (fl, rest)" by (cases "scan_flags cs")
    show ?thesis
    proof (cases rest)
      case Nil
      then show ?thesis using True f o [of "[0]"] by simp
    next
      case (Cons k rest)
      show ?thesis
      proof (cases "convert k fl va")
        case None
        then show ?thesis using True f Cons 2(3) by simp
      next
        case (Some tv)
        then show ?thesis
          using 2(2) [OF _ f [symmetric] Cons] True f Cons o [of "fst tv"]
          by (cases "OUTPUT (fst tv) out"; cases tv) auto
      qed
    qed
  qed
qed


lemma lp_Print_plain:
  "37 \<notin> set fmt \<Longrightarrow> lp_Print (fmt @ rest) va out = lp_Print rest va (out @ map (\<lambda>c. [c]) fmt)"
  by (induction fmt arbitrary: out) (auto simp: OUTPUT_def)

lemma lp_Print_single: "37 \<notin> set fmt \<Longrightarrow> lp_Print fmt va out = Ret () (out @ map (\<lambda>c. [c]) fmt @ [[0]])"
  using lp_Print_plain [of fmt "[]" va out] by (simp add: OUTPUT_def)


text \<open>\<open>%d\<close> prints the shortest decimal numeral of its \<open>int\<close> argument, with a minus sign exactly when the
  argument is negative, whatever the high half of the register holds.\<close>

lemma lp_Print_decimal:
  "\<exists>ds. lp_Print [37, 100] [Num v] out =
      Ret () (out @ [(if sint (ucast v :: u32) < 0 then [45] else []) @ ds, [0]]) \<and>
    int (read_digits 10 ds) = \<bar>sint (ucast v :: u32)\<bar> \<and> ds \<noteq> [] \<and> (hd ds = 48 \<longrightarrow> ds = [48])"
proof -
  let ?n = "scast (ucast v :: u32) :: u64"
  let ?i = "sint (ucast v :: u32)"
  have i: "- (2 ^ 31) \<le> ?i" "?i < 2 ^ 31" using sint_ge [of "ucast v :: u32"] sint_lt [of "ucast v :: u32"] by simp_all
  have n: "sint ?n = ?i" unfolding signed_scast_eq using i by (intro signed_take_bit_int_eq_self) simp_all
  have w1: "?n = word_of_int ?i" by (rule scast_eq)
  have w2: "- ?n = word_of_int (- ?i)" unfolding w1 by (rule wi_hom_neg)
  have val: "unat (word_of_int k :: u64) = nat k" if "0 \<le> k" "k \<le> 2 ^ 31" for k
    using that by (simp add: unsigned_of_int take_bit_int_eq_self)
  let ?u = "if ?i < 0 then - ?n else ?n"
  have u: "int (unat ?u) = \<bar>?i\<bar>" 
  proof (cases "?i < 0")
    case True
    then have "?u = word_of_int (- ?i)" using w2 by simp
    then show ?thesis using val [of "- ?i"] i True by simp
  next
    case False
    then have "?u = word_of_int ?i" using w1 by simp
    then show ?thesis using val [of ?i] i False by simp
  qed
  obtain ds where ds: "PrintNum ?u 10 (?i < 0) 0 False 48 False = Some (number_field (?i < 0) False 0 ds)"
    "ds \<noteq> []" "read_digits 10 ds = unat ?u" "hd ds = 48 \<longrightarrow> ds = [48]" "length ds \<le> 64"
    using PrintNum_numeral [of 10 ?u "?i < 0" 0 False False] by auto
  have field: "number_field neg False 0 ds = (if neg then [45] else []) @ ds" for neg
    by (simp add: number_field_def)
  have flags: "scan_flags [100] = (\<lparr>ladjust = False, width = 0, longFlag = False\<rparr>, [100])"
    by (simp add: scan_flags_def)
  have "convert 100 \<lparr>ladjust = False, width = 0, longFlag = False\<rparr> [Num v] =
      Some ((if ?i < 0 then [45] else []) @ ds, [])"
    using ds(1) n by (cases "?i < 0") (simp_all add: convert_def print_num_def word_sless_alt field)
  then have "lp_Print [37, 100] [Num v] out = Ret () (out @ [(if ?i < 0 then [45] else []) @ ds, [0]])"
    using ds(5) flags by (simp add: OUTPUT_def)
  then show ?thesis using ds u by auto
qed

lemma fold_update_length: "length (fold (\<lambda>i buf. buf[i := f i]) is buf) = length buf"
  by (induction "is" arbitrary: buf) simp_all

lemma lp_Print_decimal_witness:
  "\<exists>ds. lp_Print [37, 100] [Num 0xfffffffffffffff9] [] = Ret () ([45 # ds, [0]]) \<and> read_digits 10 ds = 7"
  using lp_Print_decimal [of "0xfffffffffffffff9" "[]"] by auto

text \<open>A width counts only behind a \<open>-\<close> or a \<open>0\<close>: \<open>%5d\<close> prints ``5d'' and leaves the argument untouched.\<close>

lemma width_needs_flag:
  "lp_Print [37, 53, 100] va out = Ret () (out @ [[53], [100], [0]])"
  by (simp add: scan_flags_def convert_def OUTPUT_def)

text \<open>A string of more than 100 characters stops the program with the fatal message.\<close>

lemma long_string_stops:
  assumes "length s > LP_MAX_BUF"
  shows "writef [37, 115] (Str s # va) con = Panic ''fatal'' (con @ theFatalMsg)"
proof -
  have "length (PrintString s 0 False) = length s"
    by (simp add: PrintString_def Let_def fill_def fold_update_length)
  moreover have "myoutput theFatalMsg = theFatalMsg" by (simp add: myoutput_def theFatalMsg_def)
  ultimately show ?thesis
    using assms by (simp add: writef_def user_lp_Print_def scan_flags_def convert_def OUTPUT_def)
qed

lemma long_string_stops_witness:
  "writef [37, 115] [Str (replicate 101 97)] [] = Panic ''fatal'' theFatalMsg"
  using long_string_stops [of "replicate 101 97" "[]" "[]"] by simp

end
