(* ===== verification/Vm.thy ===== *)
theory Vm
  imports Ulib Pmap
begin

text \<open>
  The memory of several user programs at once, as the system calls of user/syscall_lib.c show it: page
  frames, for each environment a map from virtual pages to a frame and permissions, and the number of
  mappings of each frame. \<open>vpd\<close> and \<open>vpm\<close> tell which tables exist. Programs see their tables through
  \<open>vpd\<close>, \<open>vpm\<close> and \<open>vpt\<close>. The kernel looks for a free frame in the order \<open>slots\<close>; it may also refuse a
  request (\<open>deny\<close>), since page tables take frames too.
\<close>

record vm =
  frames :: "nat \<Rightarrow> nat \<Rightarrow> u8"
  frefs :: "nat \<Rightarrow> nat"
  slots :: "nat list"
  deny :: "bool list"
  vpd :: "u32 \<Rightarrow> nat \<Rightarrow> bool"
  vpm :: "u32 \<Rightarrow> nat \<Rightarrow> bool"
  vpt :: "u32 \<Rightarrow> nat \<Rightarrow> (nat \<times> u64) option"
  live :: "u32 \<Rightarrow> bool"
  newenvs :: "u32 list"
  init_pages :: nat
  runnable :: "u32 \<Rightarrow> bool"
  handler :: "u32 \<Rightarrow> (nat \<times> nat) option"

abbreviation (input) KBASE :: nat where "KBASE \<equiv> 0xffffff8000000000"

section \<open>Pages\<close>

text \<open>The caller is \<open>self\<close>; environment 0 in a call means the caller.\<close>

definition target :: "u32 \<Rightarrow> u32 \<Rightarrow> 'a vm_scheme \<Rightarrow> u32 option" where
  "target self e s = (if e = 0 then Some self else if live s e then Some e else None)"

definition frame_of :: "u32 \<Rightarrow> nat \<Rightarrow> 'a vm_scheme \<Rightarrow> nat option" where
  "frame_of e p s = map_option fst (vpt s e p)"

definition unmap_page :: "u32 \<Rightarrow> nat \<Rightarrow> 'a vm_scheme \<Rightarrow> 'a vm_scheme" where
  "unmap_page e p s =
    (case vpt s e p of
       None \<Rightarrow> s
     | Some (f, _) \<Rightarrow> s\<lparr>frefs := (frefs s)(f := frefs s f - 1), vpt := (vpt s)(e := (vpt s e)(p := None))\<rparr>)"

definition map_page :: "u32 \<Rightarrow> nat \<Rightarrow> nat \<Rightarrow> u64 \<Rightarrow> 'a vm_scheme \<Rightarrow> 'a vm_scheme" where
  "map_page e p f perm s =
    (let entry = Some (f, perm OR VALID)
     in if frame_of e p s = Some f then s\<lparr>vpt := (vpt s)(e := (vpt s e)(p := entry))\<rparr>
        else let s = unmap_page e p s
             in s\<lparr>frefs := (frefs s)(f := frefs s f + 1), vpt := (vpt s)(e := (vpt s e)(p := entry)),
                  vpd := (vpd s)(e := (vpd s e)(p div 2 ^ 18 := True)),
                  vpm := (vpm s)(e := (vpm s e)(p div 2 ^ 9 := True))\<rparr>)"

definition free_frame :: "'a vm_scheme \<Rightarrow> nat option" where
  "free_frame s = find (\<lambda>f. frefs s f = 0) (slots s)"

text \<open>A request the kernel may refuse.\<close>

definition asked :: "'a vm_scheme \<Rightarrow> bool \<times> 'a vm_scheme" where
  "asked s = (case deny s of [] \<Rightarrow> (True, s) | d # ds \<Rightarrow> (\<not> d, s\<lparr>deny := ds\<rparr>))"

section \<open>System calls (user/syscall_lib.c)\<close>

definition vm_mem_alloc :: "u32 \<Rightarrow> u32 \<Rightarrow> nat \<Rightarrow> u64 \<Rightarrow> 'a vm_scheme \<Rightarrow> int \<times> 'a vm_scheme" where
  "vm_mem_alloc self e va perm s =
    (if va \<ge> KBASE then (-1, s)
     else case target self e s of
       None \<Rightarrow> (-1, s)
     | Some e \<Rightarrow>
         (case asked s of (ok, s) \<Rightarrow>
            (case free_frame s of
               Some f \<Rightarrow> if ok then (0, map_page e (va div 4096) f perm (s\<lparr>frames := (frames s)(f := (\<lambda>_. 0))\<rparr>)) else (-1, s)
             | None \<Rightarrow> (-1, s))))"

definition vm_mem_map :: "u32 \<Rightarrow> u32 \<Rightarrow> nat \<Rightarrow> u32 \<Rightarrow> nat \<Rightarrow> u64 \<Rightarrow> 'a vm_scheme \<Rightarrow> int \<times> 'a vm_scheme" where
  "vm_mem_map self srcid srcva dstid dstva perm s =
    (if srcva \<ge> KBASE \<or> dstva \<ge> KBASE then (-1, s)
     else case (target self srcid s, target self dstid s) of
       (Some se, Some de) \<Rightarrow>
         (case vpt s se (srcva div 4096) of
            None \<Rightarrow> (-1, s)
          | Some (f, _) \<Rightarrow>
              (case asked s of (ok, s) \<Rightarrow>
                 if ok then (0, map_page de (dstva div 4096) f perm s) else (-1, s)))
     | _ \<Rightarrow> (-1, s))"

text \<open>On success the result is the number of the call, which the kernel leaves in the register.\<close>

definition vm_mem_unmap :: "u32 \<Rightarrow> u32 \<Rightarrow> nat \<Rightarrow> 'a vm_scheme \<Rightarrow> int \<times> 'a vm_scheme" where
  "vm_mem_unmap self e va s =
    (if va \<ge> KBASE then (-1, s)
     else case target self e s of
       None \<Rightarrow> (-1, s)
     | Some e \<Rightarrow> (7, unmap_page e (va div 4096) s))"

text \<open>A new environment starts with the pages of the init section, which every address space shares.\<close>

definition init_space :: "u32 \<Rightarrow> 'a vm_scheme \<Rightarrow> 'a vm_scheme" where
  "init_space e s = fold (\<lambda>i s. map_page e i i (PTE_RW OR PTE_USER OR PTE_LIBRARY) s) [0..<init_pages s] s"

definition vm_env_alloc :: "'a vm_scheme \<Rightarrow> int \<times> 'a vm_scheme" where
  "vm_env_alloc s =
    (case newenvs s of
       [] \<Rightarrow> (-1, s)
     | e # es \<Rightarrow> (sint e, init_space e (s\<lparr>newenvs := es, live := (live s)(e := True), runnable := (runnable s)(e := False)\<rparr>)))"

definition vm_set_pgfault_handler :: "u32 \<Rightarrow> u32 \<Rightarrow> nat \<Rightarrow> nat \<Rightarrow> 'a vm_scheme \<Rightarrow> int \<times> 'a vm_scheme" where
  "vm_set_pgfault_handler self e func xtop s =
    (case target self e s of
       None \<Rightarrow> (-1, s)
     | Some e \<Rightarrow> (0, s\<lparr>handler := (handler s)(e := Some (func, xtop))\<rparr>))"

definition vm_set_env_status :: "u32 \<Rightarrow> u32 \<Rightarrow> bool \<Rightarrow> 'a vm_scheme \<Rightarrow> int \<times> 'a vm_scheme" where
  "vm_set_env_status self e run s =
    (case target self e s of
       None \<Rightarrow> (-1, s)
     | Some e \<Rightarrow> (0, s\<lparr>runnable := (runnable s)(e := run)\<rparr>))"

section \<open>Loads and stores\<close>

definition vread :: "u32 \<Rightarrow> 'a vm_scheme \<Rightarrow> nat \<Rightarrow> u8" where
  "vread e s a = (case vpt s e (a div 4096) of None \<Rightarrow> 0 | Some (f, _) \<Rightarrow> frames s f (a mod 4096))"

definition put_frame :: "nat \<Rightarrow> nat \<Rightarrow> u8 \<Rightarrow> 'a vm_scheme \<Rightarrow> 'a vm_scheme" where
  "put_frame f i v s = s\<lparr>frames := (frames s)(f := (frames s f)(i := v))\<rparr>"

definition vwrite :: "u32 \<Rightarrow> nat \<Rightarrow> u8 \<Rightarrow> 'a vm_scheme \<Rightarrow> 'a vm_scheme" where
  "vwrite e a v s = (case vpt s e (a div 4096) of None \<Rightarrow> s | Some (f, _) \<Rightarrow> put_frame f (a mod 4096) v s)"

end
