(* ===== verification/Fork.thy ===== *)
theory Fork
  imports Vm
begin

text \<open>
  \<open>fork\<close> and copy-on-write: user/fork.c and user/pgfault.c, over the memory of several environments. What the
  kernel does on a store is part of it: a page that is not there is mapped, a store to a read-only page
  enters the program's own handler, and the store is then repeated.
\<close>

abbreviation (input) USTACK_VA :: nat where "USTACK_VA \<equiv> 0x3efff000"
abbreviation (input) UXSTACK_VA :: nat where "UXSTACK_VA \<equiv> 0x7f00000000"
abbreviation (input) USER_RW :: u64 where "USER_RW \<equiv> VALID OR PTE_RW OR PTE_USER"

text \<open>Where the linker puts \<open>__pgfault_handler\<close>, \<open>__asm_pgfault_handler\<close> and \<open>pgfault\<close>.\<close>

record symbols =
  pgh_var :: nat
  asm_handler :: nat
  pgfault_fn :: u64

section \<open>Page faults (user/fork.c, user/pgfault.c)\<close>

definition pgfault :: "u32 \<Rightarrow> nat \<Rightarrow> 'a vm_scheme \<Rightarrow> (unit, 'a vm_scheme) outcome" where
  "pgfault self va s =
    (if (case vpt s self (va div 4096) of None \<Rightarrow> True | Some (_, pte) \<Rightarrow> pte AND PTE_RO = 0)
     then Panic ''User pgfault face a not Read Only page!'' s
     else let va = va - va mod 4096; tmp = USTACK_VA in
       case vm_mem_alloc self 0 tmp USER_RW s of (ret, s) \<Rightarrow>
         if ret < 0 then Panic ''User pgfault alloc fail!'' s
         else let s = user_bcopy (\<lambda>s. vread self s) (vwrite self) va tmp 4096 s in
           case vm_mem_map self 0 tmp 0 va USER_RW s of (ret, s) \<Rightarrow>
             if ret < 0 then Panic ''User pgfault map fail!'' s
             else case vm_mem_unmap self 0 tmp s of (ret, s) \<Rightarrow>
               if ret < 0 then Panic ''User pgfault umap faild!'' s else Ret () s)"

text \<open>Before a store: the kernel maps a missing page and sends a fault on a read-only page to the handler.\<close>

definition touch_page :: "u32 \<Rightarrow> nat \<Rightarrow> 'a vm_scheme \<Rightarrow> (unit, 'a vm_scheme) outcome" where
  "touch_page self a s =
    (case vpt s self (a div 4096) of
       None \<Rightarrow>
         (case free_frame s of
            None \<Rightarrow> Panic ''page_out'' s
          | Some f \<Rightarrow> Ret () (map_page self (a div 4096) f (TABLE OR PTE_USER) (s\<lparr>frames := (frames s)(f := (\<lambda>_. 0))\<rparr>)))
     | Some (_, perm) \<Rightarrow>
         if perm AND PTE_RO = 0 then Ret () s
         else if handler s self = None then Panic ''no handler'' s
         else pgfault self a s)"

definition ustore :: "u32 \<Rightarrow> nat \<Rightarrow> u8 \<Rightarrow> 'a vm_scheme \<Rightarrow> (unit, 'a vm_scheme) outcome" where
  "ustore self a v s = obind (touch_page self a s) (\<lambda>_ s. Ret () (vwrite self a v s))"

definition set_pgfault_handler :: "symbols \<Rightarrow> u32 \<Rightarrow> u64 \<Rightarrow> 'a vm_scheme \<Rightarrow> (unit, 'a vm_scheme) outcome" where
  "set_pgfault_handler sy self fn s =
    (let store = (\<lambda>s. obind (touch_page self (pgh_var sy) s) (\<lambda>_ s. Ret () (st64 (vwrite self) (pgh_var sy) fn s)))
     in if ld64 (\<lambda>s. vread self s) s (pgh_var sy) = 0 then
          (case vm_mem_alloc self 0 (UXSTACK_VA - 4096) USER_RW s of (r, s) \<Rightarrow>
             if r < 0 then Ret () s
             else case vm_set_pgfault_handler self 0 (asm_handler sy) UXSTACK_VA s of (r, s) \<Rightarrow>
               if r < 0 then Ret () s else store s)
        else store s)"

section \<open>Copying the address space (user/fork.c)\<close>

definition duppage :: "u32 \<Rightarrow> u32 \<Rightarrow> nat \<Rightarrow> u64 \<Rightarrow> 'a vm_scheme \<Rightarrow> (unit, 'a vm_scheme) outcome" where
  "duppage self envid va perm s =
    (if va = UXSTACK_VA - 4096 then Ret () s
     else if perm AND PTE_LIBRARY \<noteq> 0 then
       (case vm_mem_map self 0 va envid va perm s of (r, s) \<Rightarrow>
          if r < 0 then Panic ''user panic mem map error!'' s else Ret () s)
     else (case vm_mem_map self 0 va envid va (perm OR PTE_RO) s of (r, s) \<Rightarrow>
       if r < 0 then Panic ''user panic mem map error!3'' s
       else if perm AND PTE_RO = 0 then
         (case vm_mem_map self 0 va 0 va (perm OR PTE_RO) s of (r, s) \<Rightarrow>
            if r < 0 then Panic ''user panic mem map error!2'' s else Ret () s)
       else Ret () s))"

text \<open>The innermost loop; entries of the table are valid when they are there.\<close>

definition fork_page :: "u32 \<Rightarrow> u32 \<Rightarrow> nat \<Rightarrow> 'a vm_scheme \<Rightarrow> (unit, 'a vm_scheme) outcome" where
  "fork_page self child p s =
    (case vpt s self p of
       None \<Rightarrow> Ret () s
     | Some (_, perm) \<Rightarrow> if perm AND PTE_USER = 0 then Ret () s else duppage self child (p * 4096) perm s)"

definition fork_space :: "u32 \<Rightarrow> u32 \<Rightarrow> 'a vm_scheme \<Rightarrow> (unit, 'a vm_scheme) outcome" where
  "fork_space self child s =
    each [0..<512] (\<lambda>i s.
      if i = 256 \<or> \<not> vpd s self i then Ret () s
      else each [0..<512] (\<lambda>j s.
        if \<not> vpm s self (i * 512 + j) then Ret () s
        else each [0..<512] (\<lambda>k s. fork_page self child (i * 2 ^ 18 + j * 2 ^ 9 + k) s) s) s) s"

text \<open>
  The parent's part of \<open>fork\<close>; the child only finds its own \<open>struct Env\<close> and returns 0. The result of
  \<open>syscall_env_alloc\<close> is not checked for an error.
\<close>

definition fork :: "symbols \<Rightarrow> u32 \<Rightarrow> 'a vm_scheme \<Rightarrow> (int, 'a vm_scheme) outcome" where
  "fork sy self s =
    obind (set_pgfault_handler sy self (pgfault_fn sy) s) (\<lambda>_ s.
      case vm_env_alloc s of (newenvid, s) \<Rightarrow>
        let child = of_int newenvid in
        obind (fork_space self child s) (\<lambda>_ s.
          case vm_mem_alloc self child (UXSTACK_VA - 4096) USER_RW s of (ret, s) \<Rightarrow>
            if ret < 0 then Panic ''fork alloc mem fail'' s
            else case vm_set_pgfault_handler self child (asm_handler sy) UXSTACK_VA s of (ret, s) \<Rightarrow>
              if ret < 0 then Panic ''fork set pgfault fail'' s
              else case vm_set_env_status self child True s of (ret, s) \<Rightarrow>
                if ret < 0 then Panic ''fork set status faild'' s
                else Ret newenvid s))"

end
