(* ===== verification/Forkprops.thy ===== *)
theory Forkprops
  imports Fork
begin

text \<open>
  Properties of copy-on-write: after \<open>fork\<close> the child reads what the parent reads, and a store to a page that
  is not meant to be shared is seen by nobody else.
\<close>

section \<open>Frames and their users\<close>

definition users :: "nat \<Rightarrow> 'a vm_scheme \<Rightarrow> (u32 \<times> nat) set" where
  "users f s = {(e, p). frame_of e p s = Some f}"

definition counts_ok :: "'a vm_scheme \<Rightarrow> bool" where
  "counts_ok s \<longleftrightarrow> (\<forall>f. finite (users f s) \<and> frefs s f = card (users f s))"

definition tables_ok :: "'a vm_scheme \<Rightarrow> bool" where
  "tables_ok s \<longleftrightarrow> (\<forall>e p f perm. vpt s e p = Some (f, perm) \<longrightarrow>
    perm OR VALID = perm \<and> vpd s e (p div 2 ^ 18) \<and> vpm s e (p div 2 ^ 9))"

definition own_rw :: "u64 \<Rightarrow> bool" where
  "own_rw perm \<longleftrightarrow> perm AND PTE_RO = 0 \<and> perm AND PTE_LIBRARY = 0"

text \<open>A page that may be written and is not a library page is the only mapping of its frame, which is not
  one of the first \<open>n\<close>, the frames of the init section.\<close>

definition cow_ok :: "nat \<Rightarrow> (u32 \<Rightarrow> nat \<Rightarrow> (nat \<times> u64) option) \<Rightarrow> bool" where
  "cow_ok n m \<longleftrightarrow> (\<forall>e p f perm. m e p = Some (f, perm) \<and> own_rw perm \<longrightarrow>
    n \<le> f \<and> (\<forall>e' p' perm'. m e' p' = Some (f, perm') \<longrightarrow> e' = e \<and> p' = p))"

definition vm_ok :: "'a vm_scheme \<Rightarrow> bool" where
  "vm_ok s \<longleftrightarrow> counts_ok s \<and> tables_ok s \<and> cow_ok (init_pages s) (vpt s) \<and> (\<forall>f \<in> set (slots s). init_pages s \<le> f)"

lemma unmap_page_vpt [simp]: "vpt (unmap_page e p s) = (vpt s)(e := (vpt s e)(p := None))"
proof (cases "vpt s e p")
  case None
  then have "(vpt s e)(p := None) = vpt s e" by (rule fun_upd_idem)
  then show ?thesis using None by (simp add: unmap_page_def)
next
  case (Some gp)
  then show ?thesis by (cases gp) (simp add: unmap_page_def)
qed

lemma map_page_vpt [simp]: "vpt (map_page e p f perm s) = (vpt s)(e := (vpt s e)(p := Some (f, perm OR VALID)))"
  by (simp add: map_page_def Let_def)

lemma map_page_fields [simp]:
  "frames (map_page e p f perm s) = frames s" "live (map_page e p f perm s) = live s"
  "handler (map_page e p f perm s) = handler s" "slots (map_page e p f perm s) = slots s"
  "init_pages (map_page e p f perm s) = init_pages s" "init_pages (unmap_page e p s) = init_pages s"
  "frames (unmap_page e p s) = frames s" "live (unmap_page e p s) = live s"
  "handler (unmap_page e p s) = handler s" "slots (unmap_page e p s) = slots s"
  by (auto simp: map_page_def unmap_page_def Let_def split: option.split)

lemma users_vpt: "users f s = {(e, p). \<exists>perm. vpt s e p = Some (f, perm)}"
  by (auto simp: users_def frame_of_def)

lemma users_unmap: "users f (unmap_page e p s) = users f s - {(e, p)}"
  by (auto simp: users_vpt split: if_splits)

lemma users_map: "users g (map_page e p f perm s) = (if g = f then insert (e, p) (users g s) else users g s - {(e, p)})"
  by (auto simp: users_vpt split: if_splits)

lemma counts_unmap:
  assumes "counts_ok s"
  shows "counts_ok (unmap_page e p s)"
proof -
  have "finite (users f (unmap_page e p s)) \<and> frefs (unmap_page e p s) f = card (users f (unmap_page e p s))" for f
  proof (cases "vpt s e p")
    case None
    then have "(e, p) \<notin> users f s" by (simp add: users_vpt)
    then show ?thesis unfolding users_unmap using assms None by (simp add: counts_ok_def unmap_page_def)
  next
    case (Some gp)
    then obtain g perm where g: "vpt s e p = Some (g, perm)" by (cases gp) auto
    show ?thesis
    proof (cases "f = g")
      case True
      then have "(e, p) \<in> users f s" using g by (simp add: users_vpt)
      then show ?thesis unfolding users_unmap using assms g True by (simp add: counts_ok_def unmap_page_def)
    next
      case False
      then have "(e, p) \<notin> users f s" using g by (simp add: users_vpt)
      then show ?thesis unfolding users_unmap using assms g False by (simp add: counts_ok_def unmap_page_def)
    qed
  qed
  then show ?thesis by (simp add: counts_ok_def)
qed

lemma counts_map:
  assumes "counts_ok s"
  shows "counts_ok (map_page e p f perm s)"
proof (cases "frame_of e p s = Some f")
  case True
  then have "users g (map_page e p f perm s) = users g s" for g
    by (auto simp: users_map) (auto simp: users_def)
  then show ?thesis using assms True by (simp add: counts_ok_def map_page_def)
next
  case False
  let ?u = "unmap_page e p s"
  have c: "counts_ok ?u" by (rule counts_unmap [OF assms])
  have "users g (map_page e p f perm s) = (if g = f then insert (e, p) (users g ?u) else users g ?u)" for g
    by (auto simp: users_map users_unmap)
  moreover have "(e, p) \<notin> users f ?u" by (simp add: users_unmap)
  moreover have "frefs (map_page e p f perm s) = (frefs ?u)(f := frefs ?u f + 1)"
    using False by (simp add: map_page_def Let_def)
  ultimately show ?thesis using c by (simp add: counts_ok_def)
qed

lemma valid_twice: "(perm OR VALID) OR VALID = perm OR (VALID :: u64)"
  by (simp add: or.assoc)

lemma tables_map: "tables_ok s \<Longrightarrow> tables_ok (map_page e p f perm s)"
  unfolding tables_ok_def
  by (auto simp: map_page_def unmap_page_def Let_def valid_twice frame_of_def split: option.splits if_splits)

lemma tables_unmap: "tables_ok s \<Longrightarrow> tables_ok (unmap_page e p s)"
  unfolding tables_ok_def by (auto simp: unmap_page_def split: option.splits if_splits)

lemma free_frame_unused: "counts_ok s \<Longrightarrow> free_frame s = Some f \<Longrightarrow> vpt s e p \<noteq> Some (f, perm)"
proof -
  assume "counts_ok s" "free_frame s = Some f"
  then have "users f s = {}" by (auto simp: free_frame_def find_Some_iff counts_ok_def)
  then show ?thesis by (auto simp: users_vpt)
qed


section \<open>One entry set\<close>

text \<open>What a successful call does: one entry of one map is new; frames, counts and tables stay consistent.\<close>

definition sets_entry :: "u32 \<Rightarrow> nat \<Rightarrow> (nat \<times> u64) option \<Rightarrow> 'a vm_scheme \<Rightarrow> 'a vm_scheme \<Rightarrow> bool" where
  "sets_entry e p x s s' \<longleftrightarrow>
    vpt s' = (vpt s)(e := (vpt s e)(p := x)) \<and> frames s' = frames s \<and> live s' = live s \<and> handler s' = handler s \<and>
    slots s' = slots s \<and> init_pages s' = init_pages s \<and> (counts_ok s \<longrightarrow> counts_ok s') \<and> (tables_ok s \<longrightarrow> tables_ok s')"

lemma sets_map: "sets_entry e p (Some (f, perm OR VALID)) s (map_page e p f perm s)"
  by (simp add: sets_entry_def counts_map tables_map)

lemma sets_unmap: "sets_entry e p None s (unmap_page e p s)"
  by (simp add: sets_entry_def counts_unmap tables_unmap)

lemma asked_fields [simp]:
  "vpt (snd (asked s)) = vpt s" "frames (snd (asked s)) = frames s" "live (snd (asked s)) = live s"
  "handler (snd (asked s)) = handler s" "init_pages (snd (asked s)) = init_pages s" "frefs (snd (asked s)) = frefs s" "slots (snd (asked s)) = slots s"
  "vpd (snd (asked s)) = vpd s" "vpm (snd (asked s)) = vpm s"
  by (simp_all add: asked_def split: list.split)

lemma asked_ok [simp]:
  "counts_ok (snd (asked s)) = counts_ok s" "tables_ok (snd (asked s)) = tables_ok s"
  "free_frame (snd (asked s)) = free_frame s" "target self e (snd (asked s)) = target self e s"
  by (simp_all add: counts_ok_def tables_ok_def users_vpt free_frame_def target_def)

lemma vm_mem_map_result:
  assumes "vm_mem_map self srcid srcva dstid dstva perm s = (r, s')" and "\<not> r < 0"
  shows "\<exists>se de f q. target self srcid s = Some se \<and> target self dstid s = Some de \<and>
    vpt s se (srcva div 4096) = Some (f, q) \<and> sets_entry de (dstva div 4096) (Some (f, perm OR VALID)) s s'"
  using assms sets_map [of _ "dstva div 4096" _ perm "snd (asked s)"]
  by (auto simp: vm_mem_map_def split_beta sets_entry_def split: if_splits option.splits)

lemma vm_mem_unmap_result:
  assumes "vm_mem_unmap self e va s = (r, s')" and "\<not> r < 0"
  shows "\<exists>t. target self e s = Some t \<and> sets_entry t (va div 4096) None s s'"
  using assms sets_unmap by (fastforce simp: vm_mem_unmap_def split: if_splits option.splits)

lemma frames_ok [simp]:
  "counts_ok (s\<lparr>frames := x\<rparr>) = counts_ok s" "tables_ok (s\<lparr>frames := x\<rparr>) = tables_ok s"
  by (simp_all add: counts_ok_def tables_ok_def users_vpt)

lemma vm_mem_alloc_result:
  assumes "vm_mem_alloc self e va perm s = (r, s')" and "\<not> r < 0"
  shows "\<exists>t f. target self e s = Some t \<and> free_frame s = Some f \<and>
    sets_entry t (va div 4096) (Some (f, perm OR VALID)) (s\<lparr>frames := (frames s)(f := (\<lambda>_. 0))\<rparr>) s'"
  using assms by (auto simp: vm_mem_alloc_def split_beta sets_entry_def split: if_splits option.splits
    intro!: counts_map tables_map)

section \<open>Sharing one page\<close>

definition share_perm :: "u64 \<Rightarrow> u64" where
  "share_perm perm = (if perm AND PTE_LIBRARY \<noteq> 0 then perm else perm OR PTE_RO)"

lemma flag_bits:
  "(perm AND PTE_RO = 0) = (\<not> bit perm 7)" "(perm AND PTE_LIBRARY = 0) = (\<not> bit perm 55)"
  "(perm AND PTE_USER = 0) = (\<not> bit perm 6)" "(perm OR VALID = perm) = bit (perm :: u64) 0"
proof -
  have p: "(PTE_RO :: u64) = 2 ^ 7" "(PTE_LIBRARY :: u64) = 2 ^ 55" "(PTE_USER :: u64) = 2 ^ 6" by simp_all
  show "(perm AND PTE_RO = 0) = (\<not> bit perm 7)" unfolding p by (rule and_exp_eq_0_iff_not_bit)
  show "(perm AND PTE_LIBRARY = 0) = (\<not> bit perm 55)" unfolding p by (rule and_exp_eq_0_iff_not_bit)
  show "(perm AND PTE_USER = 0) = (\<not> bit perm 6)" unfolding p by (rule and_exp_eq_0_iff_not_bit)
  have b: "bit (perm OR VALID) n = (bit perm n \<or> n = 0)" for n by (cases n) (auto simp: bit_simps)
  have "bit (perm OR VALID) 0" by (simp add: b)
  then have "perm OR VALID = perm \<Longrightarrow> bit perm 0" by (simp only:)
  moreover have "perm OR VALID = perm" if "bit perm 0" using that by (intro bit_eqI) (auto simp: b)
  ultimately show "(perm OR VALID = perm) = bit perm 0" by blast
qed

lemma own_rw_bits: "own_rw perm = (\<not> bit perm 7 \<and> \<not> bit perm 55)"
  by (simp add: own_rw_def flag_bits)

lemma bit_RO: "bit (perm OR PTE_RO :: u64) n = (bit perm n \<or> n = 7)"
proof -
  have p: "(PTE_RO :: u64) = 2 ^ 7" by simp
  have "bit (2 ^ 7 :: u64) n = (n = 7)" unfolding bit_exp_iff by auto
  then show ?thesis unfolding p bit_or_iff by simp
qed

lemma share_perm_bits:
  "bit (share_perm perm) n = (bit perm n \<or> n = 7 \<and> \<not> bit perm 55)"
  by (auto simp: share_perm_def flag_bits bit_RO)

lemma share_perm_facts: "\<not> own_rw (share_perm perm)" "share_perm (share_perm perm) = share_perm perm"
  by (auto simp: own_rw_bits share_perm_bits bit_eq_iff)

lemma cow_okD:
  assumes "cow_ok n m" and "m e p = Some (f, perm)" and "own_rw perm"
  shows "n \<le> f" and "m e' p' = Some (f, perm') \<Longrightarrow> e' = e \<and> p' = p"
  using assms unfolding cow_ok_def by blast+

lemma cow_okI:
  assumes "\<And>e p f perm. m e p = Some (f, perm) \<Longrightarrow> own_rw perm \<Longrightarrow> n \<le> f"
    and "\<And>e p f perm e' p' perm'. m e p = Some (f, perm) \<Longrightarrow> own_rw perm \<Longrightarrow> m e' p' = Some (f, perm') \<Longrightarrow> e' = e \<and> p' = p"
  shows "cow_ok n m"
  using assms unfolding cow_ok_def by blast

lemma cow_share:
  assumes "cow_ok n m" and "m self p = Some (f, perm)" and "c \<noteq> self" and "\<not> own_rw q"
  shows "cow_ok n (m(c := (m c)(p := Some (f, q)), self := (m self)(p := Some (f, q))))" (is "cow_ok n ?m")
proof -
  have at: "?m e p1 = (if p1 = p \<and> (e = c \<or> e = self) then Some (f, q) else m e p1)" for e p1
    using assms(3) by auto
  have old: "m e p1 = Some (g, perm1) \<and> g \<noteq> f" if "?m e p1 = Some (g, perm1)" "own_rw perm1" for e p1 g perm1
  proof -
    have k: "\<not> (p1 = p \<and> (e = c \<or> e = self))" using that assms(4) unfolding at by auto
    then have m: "m e p1 = Some (g, perm1)" using that unfolding at by (auto split: if_splits)
    then have "g \<noteq> f" using cow_okD(2) [OF assms(1) m that(2)] assms(2) k by metis
    then show ?thesis using m by simp
  qed
  show ?thesis
  proof (rule cow_okI)
    fix e p1 g perm1
    assume o: "?m e p1 = Some (g, perm1)" "own_rw perm1"
    show "n \<le> g" using cow_okD(1) [OF assms(1)] old [OF o] o(2) by blast
    fix e' p1' perm1'
    assume o': "?m e' p1' = Some (g, perm1')"
    then have "m e' p1' = Some (g, perm1')" using old [OF o] unfolding at by (auto split: if_splits)
    then show "e' = e \<and> p1' = p1" using cow_okD(2) [OF assms(1)] old [OF o] o(2) by blast
  qed
qed

lemma duppage_result:
  assumes ok: "vm_ok s" and m: "vpt s self p = Some (f, perm)" and c: "c \<noteq> 0" "c \<noteq> self" "live s c"
    and p: "p \<noteq> (UXSTACK_VA - 4096) div 4096" and d: "duppage self c (p * 4096) perm s = Ret () s'"
  shows "vpt s' = (vpt s)(c := (vpt s c)(p := Some (f, share_perm perm)), self := (vpt s self)(p := Some (f, share_perm perm)))
    \<and> frames s' = frames s \<and> live s' = live s \<and> handler s' = handler s \<and> vm_ok s' \<and>
    init_pages s' = init_pages s \<and> slots s' = slots s"
proof -
  have v: "perm OR VALID = perm" using ok m by (simp add: vm_ok_def tables_ok_def)
  have v': "share_perm perm OR VALID = share_perm perm" using v by (simp add: flag_bits share_perm_bits)
  have np: "p * 4096 \<noteq> UXSTACK_VA - 4096" using p by auto
  have t: "target self c s = Some c" "target self 0 s = Some self" using c by (simp_all add: target_def)
  have first: "sets_entry c p (Some (f, q OR VALID)) s s1" if "vm_mem_map self 0 (p * 4096) c (p * 4096) q s = (r, s1)" "\<not> r < 0" for q r s1
    using vm_mem_map_result [OF that] t m by auto
  obtain s1 where s1: "sets_entry c p (Some (f, share_perm perm)) s s1"
    and rest: "if bit perm 55 \<or> bit perm 7 then s' = s1
       else (\<exists>r. vm_mem_map self 0 (p * 4096) 0 (p * 4096) (perm OR PTE_RO) s1 = (r, s') \<and> \<not> r < 0)"
  proof (cases "bit perm 55")
    case True
    then obtain r where r: "vm_mem_map self 0 (p * 4096) c (p * 4096) perm s = (r, s')" "\<not> r < 0"
      using d np by (auto simp: duppage_def flag_bits split: prod.splits if_splits)
    have "share_perm perm = perm" using True by (simp add: share_perm_def flag_bits)
    then show ?thesis using True first [OF r] that [of s'] unfolding v by simp
  next
    case False
    then have "share_perm perm = perm OR PTE_RO" by (simp add: share_perm_def flag_bits)
    then have v1: "(perm OR PTE_RO) OR VALID = share_perm perm" using v' by simp
    obtain r t where r: "vm_mem_map self 0 (p * 4096) c (p * 4096) (perm OR PTE_RO) s = (r, t)" "\<not> r < 0"
      using d np False by (auto simp: duppage_def flag_bits split: prod.splits if_splits)
    have "if bit perm 55 \<or> bit perm 7 then s' = t
       else (\<exists>r. vm_mem_map self 0 (p * 4096) 0 (p * 4096) (perm OR PTE_RO) t = (r, s') \<and> \<not> r < 0)"
      using d np False r by (auto simp: duppage_def flag_bits split: prod.splits if_splits)
    then show ?thesis using first [OF r] that [of t] unfolding v1 by blast
  qed
  have e: "vpt s' = (vpt s)(c := (vpt s c)(p := Some (f, share_perm perm)), self := (vpt s self)(p := Some (f, share_perm perm)))
    \<and> frames s' = frames s \<and> live s' = live s \<and> handler s' = handler s \<and> counts_ok s' \<and> tables_ok s' \<and>
    slots s' = slots s \<and> init_pages s' = init_pages s"
  proof (cases "bit perm 55 \<or> bit perm 7")
    case True
    then have "share_perm perm = perm" by (auto intro!: bit_eqI simp: share_perm_bits)
    then have i: "(vpt s self)(p := Some (f, share_perm perm)) = vpt s self" using m by (simp add: fun_upd_idem)
    have "(vpt s)(c := X, self := (vpt s self)(p := Some (f, share_perm perm))) = (vpt s)(c := X)" for X
      unfolding i by (rule fun_upd_idem) (use c(2) in simp)
    then show ?thesis using True rest s1 c ok by (auto simp: sets_entry_def vm_ok_def)
  next
    case False
    then obtain r where r: "vm_mem_map self 0 (p * 4096) 0 (p * 4096) (perm OR PTE_RO) s1 = (r, s')" "\<not> r < 0" using rest by auto
    have "share_perm perm = perm OR PTE_RO" using False by (simp add: share_perm_def flag_bits)
    moreover have "target self 0 s1 = Some self" "vpt s1 self p = Some (f, perm)"
      using s1 c m by (simp_all add: target_def sets_entry_def)
    ultimately have "sets_entry self p (Some (f, share_perm perm)) s1 s'" using vm_mem_map_result [OF r] v' by auto
    then show ?thesis using s1 ok c by (auto simp: sets_entry_def vm_ok_def)
  qed
  have "cow_ok (init_pages s) (vpt s')"
    using cow_share [of "init_pages s" "vpt s" self p f perm c "share_perm perm"] m c(2) share_perm_facts(1) ok e by (simp add: vm_ok_def)
  then show ?thesis using e ok by (simp add: vm_ok_def)
qed


section \<open>The whole address space\<close>

definition shared_entry :: "(nat \<Rightarrow> (nat \<times> u64) option) \<Rightarrow> nat \<Rightarrow> (nat \<times> u64) option" where
  "shared_entry m p = map_option (\<lambda>(f, perm). (f, share_perm perm)) (m p)"

definition eligible :: "(nat \<Rightarrow> (nat \<times> u64) option) \<Rightarrow> nat \<Rightarrow> bool" where
  "eligible m p \<longleftrightarrow> (\<exists>f perm. m p = Some (f, perm) \<and> bit perm 6) \<and> p \<noteq> (UXSTACK_VA - 4096) div 4096"

text \<open>The pages in \<open>D\<close> have been copied from \<open>self\<close> to \<open>c\<close>; everything else is as it was.\<close>

definition forked :: "u32 \<Rightarrow> u32 \<Rightarrow> 'a vm_scheme \<Rightarrow> nat set \<Rightarrow> 'a vm_scheme \<Rightarrow> bool" where
  "forked self c s0 D s \<longleftrightarrow> vm_ok s \<and> frames s = frames s0 \<and> live s = live s0 \<and> handler s = handler s0 \<and>
    slots s = slots s0 \<and> vpt s = (\<lambda>e p. if (e = self \<or> e = c) \<and> p \<in> D \<and> eligible (vpt s0 self) p
                  then shared_entry (vpt s0 self) p else vpt s0 e p)"

lemma forked_start: "vm_ok s \<Longrightarrow> forked self c s {} s"
  by (simp add: forked_def)

lemma forked_skip:
  assumes "forked self c s0 D s" and "\<And>p. p \<in> E \<Longrightarrow> \<not> eligible (vpt s self) p"
  shows "forked self c s0 (D \<union> E) s"
proof -
  have "\<not> eligible (vpt s0 self) p" if "p \<in> E" for p
  proof
    assume el: "eligible (vpt s0 self) p"
    then have "eligible (vpt s self) p"
      using assms(1) by (auto simp: forked_def eligible_def shared_entry_def share_perm_bits)
    then show False using assms(2) that by blast
  qed
  then show ?thesis using assms(1) by (auto simp: forked_def fun_eq_iff)
qed

lemma fork_page_step:
  assumes "forked self c s0 D s" and "fork_page self c p s = Ret () s'" and c: "c \<noteq> 0" "c \<noteq> self" "live s0 c"
  shows "forked self c s0 (insert p D) s'"
proof (cases "eligible (vpt s self) p")
  case False
  have "s' = s"
    using assms(2) False
    by (auto simp: fork_page_def eligible_def flag_bits duppage_def split: option.splits if_splits)
  then show ?thesis using forked_skip [OF assms(1), of "{p}"] False by simp
next
  case True
  then obtain f perm where m: "vpt s self p = Some (f, perm)" "bit perm 6" "p \<noteq> (UXSTACK_VA - 4096) div 4096"
    by (auto simp: eligible_def)
  have d: "duppage self c (p * 4096) perm s = Ret () s'" using assms(2) m by (simp add: fork_page_def flag_bits)
  have ok: "vm_ok s" "live s c" using assms(1) c by (simp_all add: forked_def)
  note r = duppage_result [OF ok(1) m(1) c(1,2) ok(2) m(3) d]
  have el: "eligible (vpt s0 self) p" and sh: "shared_entry (vpt s0 self) p = Some (f, share_perm perm)"
    using assms(1) m by (auto simp: forked_def eligible_def shared_entry_def share_perm_bits share_perm_facts split: if_splits)
  show ?thesis using assms(1) r el sh by (auto simp: forked_def fun_eq_iff)
qed


lemma forked_tables: "forked self c s0 D s \<Longrightarrow> vpt s self p = Some fp \<Longrightarrow> vpd s self (p div 2 ^ 18) \<and> vpm s self (p div 2 ^ 9)"
  by (cases fp) (auto simp: forked_def vm_ok_def tables_ok_def)

lemma not_eligible_unmapped: "vpt s self p = None \<Longrightarrow> \<not> eligible (vpt s self) p"
  by (simp add: eligible_def)

lemma fork_table_step:
  assumes "forked self c s0 D s" and c: "c \<noteq> 0" "c \<noteq> self" "live s0 c"
    and e: "each [0..<512] (\<lambda>k s. fork_page self c (n * 2 ^ 9 + k) s) s = Ret () s'"
  shows "forked self c s0 (D \<union> {p. p div 2 ^ 9 = n}) s'"
proof -
  have "forked self c s0 (D \<union> (\<lambda>k. n * 2 ^ 9 + k) ` set [0..<512]) s'"
  proof (rule each_inv [OF e, where I = "\<lambda>K t. forked self c s0 (D \<union> (\<lambda>k. n * 2 ^ 9 + k) ` K) t"])
    fix k K t t'
    assume "forked self c s0 (D \<union> (\<lambda>k. n * 2 ^ 9 + k) ` K) t" "fork_page self c (n * 2 ^ 9 + k) t = Ret () t'"
    from fork_page_step [OF this c] show "forked self c s0 (D \<union> (\<lambda>k. n * 2 ^ 9 + k) ` insert k K) t'" by simp
  qed (use assms(1) in simp)
  moreover have "(\<lambda>k. n * 2 ^ 9 + k) ` set [0..<512] = {p. p div 2 ^ 9 = n}"
  proof
    show "{p. p div 2 ^ 9 = n} \<subseteq> (\<lambda>k. n * 2 ^ 9 + k) ` set [0..<512]"
    proof
      fix p :: nat
      assume "p \<in> {p. p div 2 ^ 9 = n}"
      then have "p = n * 2 ^ 9 + p mod 2 ^ 9" "p mod 2 ^ 9 \<in> set [0..<512]" by auto
      then show "p \<in> (\<lambda>k. n * 2 ^ 9 + k) ` set [0..<512]" by blast
    qed
  qed auto
  ultimately show ?thesis by simp
qed

lemma fork_tables_step:
  assumes f: "forked self c s0 D s" and c: "c \<noteq> 0" "c \<noteq> self" "live s0 c"
    and e: "each [0..<512] (\<lambda>j s. if \<not> vpm s self (i * 512 + j) then Ret () s
        else each [0..<512] (\<lambda>k s. fork_page self c (i * 2 ^ 18 + j * 2 ^ 9 + k) s) s) s = Ret () s'"
  shows "forked self c s0 (D \<union> {p. p div 2 ^ 18 = i}) s'"
proof -
  let ?J = "\<lambda>J. {p :: nat. p div 2 ^ 18 = i \<and> p div 2 ^ 9 mod 2 ^ 9 \<in> J}"
  have "forked self c s0 (D \<union> ?J (set [0..<512])) s'"
  proof (rule each_inv [OF e, where I = "\<lambda>J t. forked self c s0 (D \<union> ?J J) t"])
    fix j J t t'
    assume t: "forked self c s0 (D \<union> ?J J) t" and j: "j \<in> set [0..<512]"
      and step: "(if \<not> vpm t self (i * 512 + j) then Ret () t
        else each [0..<512] (\<lambda>k s. fork_page self c (i * 2 ^ 18 + j * 2 ^ 9 + k) s) t) = Ret () t'"
    have p: "p div 2 ^ 9 = i * 512 + j \<longleftrightarrow> p div 2 ^ 18 = i \<and> p div 2 ^ 9 mod 2 ^ 9 = j" for p :: nat
    proof -
      have "p div 2 ^ 18 = p div 2 ^ 9 div 512" by (simp add: div_mult2_eq [symmetric])
      then show ?thesis using j by auto
    qed
    have "D \<union> ?J (insert j J) = D \<union> ?J J \<union> {p. p div 2 ^ 9 = i * 512 + j}" unfolding p by auto
    moreover have "forked self c s0 (D \<union> ?J J \<union> {p. p div 2 ^ 9 = i * 512 + j}) t'"
    proof (cases "vpm t self (i * 512 + j)")
      case True
      have a: "i * 2 ^ 18 + j * 2 ^ 9 + k = (i * 512 + j) * 2 ^ 9 + k" for k :: nat by simp
      show ?thesis using step True unfolding a by (intro fork_table_step [OF t c]) simp
    next
      case False
      have "vpt t self p = None" if "p \<in> {p. p div 2 ^ 9 = i * 512 + j}" for p
        using forked_tables [OF t, of p] that False by (cases "vpt t self p") auto
      then have "forked self c s0 (D \<union> ?J J \<union> {p. p div 2 ^ 9 = i * 512 + j}) t"
        by (intro forked_skip [OF t] not_eligible_unmapped)
      moreover have "t' = t" using step False by simp
      ultimately show ?thesis by simp
    qed
    ultimately show "forked self c s0 (D \<union> ?J (insert j J)) t'" by simp
  qed (use f in simp)
  moreover have "?J (set [0..<512]) = {p. p div 2 ^ 18 = i}" by auto
  ultimately show ?thesis by simp
qed

text \<open>The pages \<open>fork\<close> goes through: all below 2^39 but for those under the self map.\<close>

definition fork_range :: "nat set" where
  "fork_range = {p. p div 2 ^ 18 < 512 \<and> p div 2 ^ 18 \<noteq> 256}"

lemma fork_space_result:
  assumes ok: "vm_ok s" and c: "c \<noteq> 0" "c \<noteq> self" "live s c" and e: "fork_space self c s = Ret () s'"
  shows "forked self c s fork_range s'"
proof -
  let ?I = "\<lambda>I. {p :: nat. p div 2 ^ 18 \<in> I - {256}}"
  have "forked self c s (?I (set [0..<512])) s'"
  proof (rule each_inv [OF e [unfolded fork_space_def], where I = "\<lambda>I t. forked self c s (?I I) t"])
    fix i I t t'
    assume t: "forked self c s (?I I) t"
      and step: "(if i = 256 \<or> \<not> vpd t self i then Ret () t
      else each [0..<512] (\<lambda>j s. if \<not> vpm s self (i * 512 + j) then Ret () s
        else each [0..<512] (\<lambda>k s. fork_page self c (i * 2 ^ 18 + j * 2 ^ 9 + k) s) s) t) = Ret () t'"
    show "forked self c s (?I (insert i I)) t'"
    proof (cases "i = 256")
      case True
      then have "?I (insert i I) = ?I I" by auto
      then show ?thesis using step True t by simp
    next
      case ne: False
      have eq: "?I (insert i I) = ?I I \<union> {p. p div 2 ^ 18 = i}" using ne by auto
      show ?thesis unfolding eq
      proof (cases "vpd t self i")
        case True
        then show "forked self c s (?I I \<union> {p. p div 2 ^ 18 = i}) t'"
          using step ne by (intro fork_tables_step [OF t c]) simp
      next
        case False
        have "vpt t self p = None" if "p \<in> {p. p div 2 ^ 18 = i}" for p
          using forked_tables [OF t, of p] that False by (cases "vpt t self p") auto
        then have "forked self c s (?I I \<union> {p. p div 2 ^ 18 = i}) t"
          by (intro forked_skip [OF t] not_eligible_unmapped)
        moreover have "t' = t" using step False by simp
        ultimately show "forked self c s (?I I \<union> {p. p div 2 ^ 18 = i}) t'" by simp
      qed
    qed
  qed (use forked_start [OF ok] in simp)
  moreover have "?I (set [0..<512]) = fork_range" by (auto simp: fork_range_def)
  ultimately show ?thesis by simp
qed


section \<open>Copying a page\<close>

text \<open>Memory as a function is a byte memory; a copy in another memory follows it as long as the stores do.\<close>

definition fput :: "nat \<Rightarrow> u8 \<Rightarrow> (nat \<Rightarrow> u8) \<Rightarrow> nat \<Rightarrow> u8" where
  "fput a v m = m(a := v)"

interpretation fm: byte_mem "\<lambda>m. m" fput
  by unfold_locales (simp add: fput_def)

definition follows ::
    "('s \<Rightarrow> nat \<Rightarrow> u8) \<Rightarrow> (nat \<Rightarrow> u8 \<Rightarrow> 's \<Rightarrow> 's) \<Rightarrow> ('s \<Rightarrow> bool) \<Rightarrow> ('s \<Rightarrow> nat \<Rightarrow> u8) \<Rightarrow> nat \<Rightarrow> nat \<Rightarrow> bool" where
  "follows get put I h dst n \<longleftrightarrow> (\<forall>t a v. I t \<longrightarrow> get t a = h t a \<and>
    (dst \<le> a \<and> a < dst + n \<longrightarrow> I (put a v t) \<and> h (put a v t) = fput a v (h t)))"

lemma followsD:
  assumes "follows get put I h dst n" and "I t"
  shows "get t a = h t a" and "dst \<le> a \<Longrightarrow> a < dst + n \<Longrightarrow> I (put a v t)"
    and "dst \<le> a \<Longrightarrow> a < dst + n \<Longrightarrow> h (put a v t) = fput a v (h t)"
  using assms unfolding follows_def by blast+

lemma follows_ld32: "follows get put I h dst n \<Longrightarrow> I t \<Longrightarrow> ld32 get t a = ld32 (\<lambda>m. m) (h t) a"
  by (simp add: ld32_def ld16_def followsD(1))

lemma follows_st32:
  assumes "follows get put I h dst n" and "I t" and "dst \<le> a" and "a + 4 \<le> dst + n"
  shows "I (st32 put a v t)" and "h (st32 put a v t) = st32 fput a v (h t)"
proof -
  have a: "dst \<le> a + i \<and> a + i < dst + n" if "i < 4" for i using assms(3,4) that by linarith
  show "I (st32 put a v t)" and "h (st32 put a v t) = st32 fput a v (h t)"
    using a [of 0] a [of 1] a [of 2] a [of 3] assms(1,2) by (simp_all add: st32_def st16_def followsD)
qed

lemma follows_bytes:
  "follows get put I h dst n \<Longrightarrow> I t \<Longrightarrow> dst \<le> d \<Longrightarrow> d + k \<le> dst + n \<Longrightarrow>
    I (bcopy_bytes get put src d k t) \<and> h (bcopy_bytes get put src d k t) = bcopy_bytes (\<lambda>m. m) fput src d k (h t)"
  by (induction k arbitrary: src d t) (simp_all add: followsD)

lemma follows_from:
  assumes f: "follows get put I h dst n"
  shows "I t \<Longrightarrow> dst \<le> d \<Longrightarrow> d + k \<le> dst + n \<Longrightarrow>
    I (bcopy_from get put src d k t) \<and> h (bcopy_from get put src d k t) = bcopy_from (\<lambda>m. m) fput src d k (h t)"
proof (induction k arbitrary: src d t rule: less_induct)
  case (less k)
  show ?case
  proof (cases "k > 3")
    case False
    then show ?thesis using follows_bytes [OF f less.prems] by (subst (1 2 3) bcopy_from.simps) simp
  next
    case True
    let ?t = "st32 put d (ld32 get t src) t"
    have t: "I ?t" "h ?t = st32 fput d (ld32 (\<lambda>m. m) (h t) src) (h t)"
      using follows_st32 [OF f less.prems(1,2), of "ld32 get t src"] less.prems True
      by (simp_all add: follows_ld32 [OF f])
    show ?thesis
      using less.IH [of "k - 4" ?t "d + 4" "src + 4"] less.prems True t by (subst (1 2 3) bcopy_from.simps) simp
  qed
qed

lemma follows_user_bcopy:
  assumes "follows get put I h dst n" and "I t"
  shows "I (user_bcopy get put src dst n t) \<and> h (user_bcopy get put src dst n t) = user_bcopy (\<lambda>m. m) fput src dst n (h t)"
  using follows_from [OF assms, of dst n src] follows_bytes [OF assms, of dst n src] by (simp add: user_bcopy_def)

lemma page_offset: "(x + i) div 4096 = x div 4096" "(x + i) mod 4096 = i" if "x mod 4096 = 0" "i < 4096" for x i :: nat
  using that mult_div_mod_eq [of 4096 x] by (auto simp: div_add1_eq mod_add_eq [symmetric] mod_add_left_eq [symmetric])

definition edited :: "'a vm_scheme \<Rightarrow> nat \<Rightarrow> 'a vm_scheme \<Rightarrow> bool" where
  "edited s f t \<longleftrightarrow> (\<exists>F. t = s\<lparr>frames := (frames s)(f := F)\<rparr>)"

lemma edited_refl [simp]: "edited s f s"
  unfolding edited_def by (rule exI [of _ "frames s f"]) simp

text \<open>Stores to a page whose frame the program maps nowhere else change only that page of what it reads.\<close>

lemma page_follows:
  assumes tmp: "vpt s self (tmp div 4096) = Some (f, q)" and sole: "\<And>p q. vpt s self p = Some (f, q) \<Longrightarrow> p = tmp div 4096"
    and al: "tmp mod 4096 = 0"
  shows "follows (\<lambda>s. vread self s) (vwrite self) (edited s f) (vread self) tmp 4096"
  unfolding follows_def
proof (intro allI impI conjI)
  fix t :: "'a vm_scheme" and a v
  assume t: "edited s f t" and a: "tmp \<le> a \<and> a < tmp + 4096"
  obtain i where i: "a = tmp + i" "i < 4096" using a by (metis le_add_diff_inverse add_less_cancel_left)
  obtain F where F: "t = s\<lparr>frames := (frames s)(f := F)\<rparr>" using t unfolding edited_def by blast
  have w: "vwrite self a v t = s\<lparr>frames := (frames s)(f := F(i := v))\<rparr>"
    unfolding i(1) using page_offset [OF al i(2)] tmp by (simp add: vwrite_def F put_frame_def)
  then show "edited s f (vwrite self a v t)" unfolding edited_def by blast
  show "vread self (vwrite self a v t) = fput a v (vread self t)"
  proof
    fix b
    show "vread self (vwrite self a v t) b = fput a v (vread self t) b"
    proof (cases "b div 4096 = tmp div 4096")
      case True
      then have "b = a \<longleftrightarrow> b mod 4096 = i"
        using page_offset [OF al i(2)] i(1) mult_div_mod_eq [of 4096 b] mult_div_mod_eq [of 4096 a] by metis
      then show ?thesis using True tmp unfolding w by (simp add: vread_def F fput_def)
    next
      case False
      then have "b \<noteq> a" using page_offset [OF al i(2)] i(1) by metis
      then show ?thesis using False sole [of "b div 4096"] unfolding w
        by (auto simp: vread_def F fput_def split: option.split)
    qed
  qed
qed auto

lemma copy_page:
  assumes tmp: "vpt s self (tmp div 4096) = Some (f, q)" and sole: "\<And>e p q. vpt s e p = Some (f, q) \<Longrightarrow> e = self \<and> p = tmp div 4096"
    and va: "vpt s self (va div 4096) = Some (g, q')" "va div 4096 \<noteq> tmp div 4096" and al: "va mod 4096 = 0" "tmp mod 4096 = 0"
  shows "\<exists>F. user_bcopy (\<lambda>s. vread self s) (vwrite self) va tmp 4096 s = s\<lparr>frames := (frames s)(f := F)\<rparr> \<and>
    (\<forall>i < 4096. F i = frames s g i)"
proof -
  have "follows (\<lambda>s. vread self s) (vwrite self) (edited s f) (vread self) tmp 4096"
    by (rule page_follows [OF tmp _ al(2)]) (use sole in blast)
  moreover have "edited s f s" by simp
  ultimately obtain F where F: "user_bcopy (\<lambda>s. vread self s) (vwrite self) va tmp 4096 s = s\<lparr>frames := (frames s)(f := F)\<rparr>"
    and h: "vread self (user_bcopy (\<lambda>s. vread self s) (vwrite self) va tmp 4096 s) = user_bcopy (\<lambda>m. m) fput va tmp 4096 (vread self s)"
    using follows_user_bcopy [of "\<lambda>s. vread self s" "vwrite self" "edited s f" "vread self" tmp 4096 s va]
    unfolding edited_def by blast
  have apart: "va + 4096 \<le> tmp \<or> tmp + 4096 \<le> va"
  proof -
    obtain k l where "va = 4096 * k" "tmp = 4096 * l" using al by (meson mod_0_imp_dvd dvdE)
    moreover have "k \<noteq> l" using va(2) calculation by simp
    ultimately show ?thesis by (cases "k < l") auto
  qed
  have "F i = frames s g i" if i: "i < 4096" for i
  proof -
    have "F i = vread self (s\<lparr>frames := (frames s)(f := F)\<rparr>) (tmp + i)"
      using page_offset [OF al(2) i] tmp by (simp add: vread_def)
    also have "\<dots> = vread self s (va + i)"
      using h fm.get_user_bcopy [OF apart, of "vread self s" "tmp + i"] i unfolding F by simp
    also have "\<dots> = frames s g i" using page_offset [OF al(1) i] va(1) by (simp add: vread_def)
    finally show ?thesis .
  qed
  then show ?thesis using F by blast
qed


section \<open>Copy on write\<close>

abbreviation (input) tmp_page :: nat where "tmp_page \<equiv> USTACK_VA div 4096"

lemma cow_fresh:
  assumes "cow_ok n m" and "\<And>e p q. m e p \<noteq> Some (f, q)" and "n \<le> f"
  shows "cow_ok n (m(self := (m self)(tp := None, va := Some (f, q))))" (is "cow_ok n ?m")
proof -
  have at: "?m e p1 = Some (g, x) \<Longrightarrow> (e = self \<and> p1 = va \<and> g = f) \<or> (m e p1 = Some (g, x) \<and> g \<noteq> f)" for e p1 g x
    using assms(2) by (cases "e = self"; cases "p1 = va"; cases "p1 = tp") auto
  show ?thesis
  proof (rule cow_okI)
    fix e p1 g perm1
    assume o: "?m e p1 = Some (g, perm1)" "own_rw perm1"
    show "n \<le> g" using at [OF o(1)] cow_okD(1) [OF assms(1)] o(2) assms(3) by blast
    fix e' p1' perm1'
    assume o': "?m e' p1' = Some (g, perm1')"
    show "e' = e \<and> p1' = p1"
      using at [OF o(1)] at [OF o'] cow_okD(2) [OF assms(1)] o(2) by blast
  qed
qed

lemma target_self [simp]: "target self 0 s = Some self"
  by (simp add: target_def)

lemma pgfault_result:
  assumes ok: "vm_ok s" and g: "vpt s self (a div 4096) = Some (g, q)" and np: "a div 4096 \<noteq> tmp_page"
    and r: "pgfault self a s = Ret () s'"
  shows "\<exists>f F. (\<forall>e p x. vpt s e p \<noteq> Some (f, x)) \<and> (\<forall>i < 4096. F i = frames s g i) \<and>
    vpt s' = (vpt s)(self := (vpt s self)(tmp_page := None, a div 4096 := Some (f, USER_RW))) \<and>
    frames s' = (frames s)(f := F) \<and> vm_ok s'"
proof -
  let ?va = "a - a mod 4096"
  have va: "?va div 4096 = a div 4096" "?va mod 4096 = 0"
    using mult_div_mod_eq [of 4096 a] by (metis add_diff_cancel_right' div_mult_self1_is_m mult_mod_right mod_mult_self1_is_0 zero_less_numeral)+
  obtain r1 s1 where s1: "vm_mem_alloc self 0 USTACK_VA USER_RW s = (r1, s1)" "\<not> r1 < 0"
    using r g by (auto simp: pgfault_def Let_def split: prod.splits if_splits)
  let ?s2 = "user_bcopy (\<lambda>s. vread self s) (vwrite self) ?va USTACK_VA 4096 s1"
  obtain r2 s3 where s3: "vm_mem_map self 0 USTACK_VA 0 ?va USER_RW ?s2 = (r2, s3)" "\<not> r2 < 0"
    using r g s1 by (auto simp: pgfault_def Let_def split: prod.splits if_splits)
  obtain r3 where s4: "vm_mem_unmap self 0 USTACK_VA s3 = (r3, s')" "\<not> r3 < 0"
    using r g s1 s3 by (auto simp: pgfault_def Let_def split: prod.splits if_splits)
  obtain f where f: "free_frame s = Some f"
    and e1: "sets_entry self tmp_page (Some (f, USER_RW)) (s\<lparr>frames := (frames s)(f := (\<lambda>_. 0))\<rparr>) s1"
    using vm_mem_alloc_result [OF s1] by auto
  have unused: "vpt s e p \<noteq> Some (f, x)" for e p x using free_frame_unused [OF _ f] ok by (simp add: vm_ok_def)
  have v1: "vpt s1 = (vpt s)(self := (vpt s self)(tmp_page := Some (f, USER_RW)))"
    and fr1: "frames s1 = (frames s)(f := (\<lambda>_. 0))" and ok1: "counts_ok s1" "tables_ok s1"
    using e1 ok by (simp_all add: sets_entry_def vm_ok_def)
  have "g \<noteq> f" using unused g by blast
  have "\<exists>F. ?s2 = s1\<lparr>frames := (frames s1)(f := F)\<rparr> \<and> (\<forall>i < 4096. F i = frames s1 g i)"
  proof (rule copy_page)
    show "vpt s1 self (USTACK_VA div 4096) = Some (f, USER_RW)" by (simp add: v1)
    show "e = self \<and> p = USTACK_VA div 4096" if "vpt s1 e p = Some (f, x)" for e p x
      using that unused unfolding v1 by (auto split: if_splits)
    show "vpt s1 self (?va div 4096) = Some (g, q)" using g np by (simp add: v1 va)
  qed (use np va in simp_all)
  then obtain F where F: "?s2 = s1\<lparr>frames := (frames s1)(f := F)\<rparr>" "\<forall>i < 4096. F i = frames s g i"
    using \<open>g \<noteq> f\<close> by (auto simp: fr1)
  have e3: "sets_entry self (a div 4096) (Some (f, USER_RW)) ?s2 s3"
    using vm_mem_map_result [OF s3] by (auto simp: F(1) v1 va)
  have e4: "sets_entry self tmp_page None s3 s'" using vm_mem_unmap_result [OF s4] by auto
  have v: "vpt s' = (vpt s)(self := (vpt s self)(tmp_page := None, a div 4096 := Some (f, USER_RW)))"
    using e3 e4 np by (simp add: sets_entry_def F(1) v1 fun_upd_twist)
  have "init_pages s \<le> f" using f ok by (auto simp: free_frame_def find_Some_iff vm_ok_def)
  then have "cow_ok (init_pages s) (vpt s')" unfolding v
    by (intro cow_fresh) (use ok unused in \<open>simp_all add: vm_ok_def\<close>)
  moreover have "frames s' = (frames s)(f := F)" "counts_ok s'" "tables_ok s'" "init_pages s' = init_pages s" "slots s' = slots s"
    using e1 e3 e4 ok1 by (simp_all add: sets_entry_def F(1) fr1)
  ultimately show ?thesis using unused F(2) v ok by (auto simp: vm_ok_def)
qed

text \<open>What a store needs: the page is there, is writable and belongs to the program alone.\<close>

lemma touch_page_result:
  assumes ok: "vm_ok s" and lib: "\<forall>f q. vpt s self (a div 4096) = Some (f, q) \<longrightarrow> \<not> bit q 55"
    and np: "a div 4096 \<noteq> tmp_page" and t: "touch_page self a s = Ret () t"
  shows "vm_ok t \<and> (\<exists>f q. vpt t self (a div 4096) = Some (f, q) \<and> own_rw q) \<and>
    (\<forall>b. b div 4096 \<noteq> tmp_page \<longrightarrow> vread self t b = vread self s b) \<and>
    (\<forall>e b. e \<noteq> self \<longrightarrow> vread e t b = vread e s b)"
proof (cases "vpt s self (a div 4096)")
  case None
  then obtain f where f: "free_frame s = Some f"
    and t': "t = map_page self (a div 4096) f (TABLE OR PTE_USER) (s\<lparr>frames := (frames s)(f := (\<lambda>_. 0))\<rparr>)"
    using t by (auto simp: touch_page_def split: option.splits)
  have unused: "vpt s e p \<noteq> Some (f, x)" for e p x using free_frame_unused [OF _ f] ok by (simp add: vm_ok_def)
  have v: "vpt t = (vpt s)(self := (vpt s self)(a div 4096 := Some (f, 0x43)))" by (simp add: t')
  have "init_pages s \<le> f" using f ok by (auto simp: free_frame_def find_Some_iff vm_ok_def)
  then have "cow_ok (init_pages s) (vpt t)" unfolding v
    using cow_fresh [of "init_pages s" "vpt s" f self "a div 4096" "a div 4096" "0x43"] unused ok by (simp add: vm_ok_def)
  then have "vm_ok t" using ok by (simp add: vm_ok_def t' counts_map tables_map)
  moreover have "vread e t b = vread e s b" for e b
    using unused None by (auto simp: vread_def v t' split: option.split)
  moreover have "own_rw 0x43" by (simp add: own_rw_def)
  ultimately show ?thesis by (auto simp: v)
next
  case (Some gq)
  obtain g q where g: "vpt s self (a div 4096) = Some (g, q)" using Some by (cases gq) auto
  show ?thesis
  proof (cases "bit q 7")
    case False
    then have "t = s" using t g by (simp add: touch_page_def flag_bits)
    then show ?thesis using ok g False lib by (auto simp: own_rw_bits)
  next
    case True
    then have "pgfault self a s = Ret () t" using t g by (auto simp: touch_page_def flag_bits split: if_splits)
    from pgfault_result [OF ok g np this] obtain f F where
      unused: "\<forall>e p x. vpt s e p \<noteq> Some (f, x)" and F: "\<forall>i < 4096. F i = frames s g i" and
      v: "vpt t = (vpt s)(self := (vpt s self)(tmp_page := None, a div 4096 := Some (f, USER_RW)))"
      "frames t = (frames s)(f := F)" and okt: "vm_ok t" by blast
    have "vread e t b = vread e s b" if "e \<noteq> self \<or> b div 4096 \<noteq> tmp_page" for e b
      using that unused F g np by (auto simp: vread_def v split: option.split)
    moreover have "own_rw (USER_RW)" by (simp add: own_rw_def)
    ultimately show ?thesis using okt np by (auto simp: v)
  qed
qed

lemma ustore_result:
  assumes ok: "vm_ok s" and lib: "\<forall>f q. vpt s self (a div 4096) = Some (f, q) \<longrightarrow> \<not> bit q 55"
    and np: "a div 4096 \<noteq> tmp_page" and st: "ustore self a v s = Ret () s'"
  shows "vm_ok s' \<and> vread self s' a = v \<and>
    (\<forall>b. b \<noteq> a \<and> b div 4096 \<noteq> tmp_page \<longrightarrow> vread self s' b = vread self s b) \<and>
    (\<forall>e b. e \<noteq> self \<longrightarrow> vread e s' b = vread e s b)"
proof -
  obtain t where t: "touch_page self a s = Ret () t" and s': "s' = vwrite self a v t"
    using st by (auto simp: ustore_def obind_Ret_iff)
  note r = touch_page_result [OF ok lib np t]
  then obtain f q where f: "vpt t self (a div 4096) = Some (f, q)" "own_rw q" by blast
  have ok': "vm_ok t" using r by blast
  then have sole: "e = self \<and> p = a div 4096" if "vpt t e p = Some (f, x)" for e p x
    using cow_okD(2) [of "init_pages t", OF _ f that] by (simp add: vm_ok_def)
  have upd: "s' = t\<lparr>frames := (frames t)(f := (frames t f)(a mod 4096 := v))\<rparr>"
    using f(1) by (simp add: s' vwrite_def put_frame_def)
  have w: "vread e s' b = (if e = self \<and> b = a then v else vread e t b)" for e b
  proof (cases "vpt t e (b div 4096)")
    case None
    then have "\<not> (e = self \<and> b = a)" using f(1) by auto
    then show ?thesis unfolding if_not_P [OF \<open>\<not> (e = self \<and> b = a)\<close>] using None by (simp add: vread_def upd)
  next
    case (Some gx)
    obtain g x where g: "vpt t e (b div 4096) = Some (g, x)" using Some by (cases gx) auto
    show ?thesis
    proof (cases "g = f")
      case True
      then have e: "e = self" "b div 4096 = a div 4096" using sole g by blast+
      have "b = a \<longleftrightarrow> b mod 4096 = a mod 4096" using e(2) by (metis mult_div_mod_eq)
      then show ?thesis using g True e(1) by (simp add: vread_def upd)
    next
      case False
      then have "\<not> (e = self \<and> b = a)" using f(1) g by auto
      then show ?thesis unfolding if_not_P [OF \<open>\<not> (e = self \<and> b = a)\<close>] using g False by (simp add: vread_def upd)
    qed
  qed
  have "vm_ok s'" using ok' f(1) by (simp add: s' vwrite_def put_frame_def vm_ok_def)
  then show ?thesis using r w by auto
qed

text \<open>C25: copy on write isolates: a store by one environment to a page that is not a library page returns
  the value to that environment, changes nothing else it reads (but for the scratch page the fault handler
  uses), and nothing any other environment reads, even when the page is shared with it.\<close>

theorem copy_on_write_isolates:
  assumes "vm_ok s" and "\<And>f q. vpt s self (a div 4096) = Some (f, q) \<Longrightarrow> q AND PTE_LIBRARY = 0"
    and "a div 4096 \<noteq> tmp_page" and "ustore self a v s = Ret () s'"
  shows "vm_ok s' \<and> vread self s' a = v \<and>
    (\<forall>b. b \<noteq> a \<and> b div 4096 \<noteq> tmp_page \<longrightarrow> vread self s' b = vread self s b) \<and>
    (\<forall>e b. e \<noteq> self \<longrightarrow> vread e s' b = vread e s b)"
  using assms by (intro ustore_result) (simp_all add: flag_bits)



section \<open>Fork\<close>

abbreviation (input) LIBRARY_RW :: u64 where "LIBRARY_RW \<equiv> (PTE_RW OR PTE_USER OR PTE_LIBRARY) OR VALID"

lemma init_space_loop:
  fixes s :: "'a vm_scheme" and e :: u32 and q :: u64
  assumes "counts_ok s" and "tables_ok s"
  defines "u \<equiv> \<lambda>k. fold (\<lambda>i s. map_page e i i q s) [0..<k] s"
  shows "counts_ok (u k) \<and> tables_ok (u k) \<and> frames (u k) = frames s \<and> live (u k) = live s \<and>
    handler (u k) = handler s \<and> slots (u k) = slots s \<and> init_pages (u k) = init_pages s \<and>
    (\<forall>e' p. vpt (u k) e' p = (if e' = e \<and> p < k then Some (p, q OR VALID) else vpt s e' p))"
proof (induction k)
  case (Suc k)
  have "u (Suc k) = map_page e k k q (u k)" by (simp add: u_def)
  then show ?case using Suc by (auto simp: counts_map tables_map less_Suc_eq)
qed (simp add: u_def assms)

lemma init_space_result:
  assumes "counts_ok s" and "tables_ok s"
  shows "counts_ok (init_space e s) \<and> tables_ok (init_space e s) \<and> frames (init_space e s) = frames s \<and>
    live (init_space e s) = live s \<and> handler (init_space e s) = handler s \<and> slots (init_space e s) = slots s \<and>
    init_pages (init_space e s) = init_pages s \<and>
    (\<forall>e' p. vpt (init_space e s) e' p = (if e' = e \<and> p < init_pages s then Some (p, LIBRARY_RW) else vpt s e' p))"
  using init_space_loop [OF assms, of e "PTE_RW OR PTE_USER OR PTE_LIBRARY" "init_pages s"] unfolding init_space_def .

lemma vm_env_alloc_result:
  assumes ok: "vm_ok s" and n: "newenvs s = c # es" and free: "\<And>p. vpt s c p = None" and r: "vm_env_alloc s = (r, s')"
  shows "r = sint c \<and> vm_ok s' \<and> frames s' = frames s \<and> live s' = (live s)(c := True) \<and> handler s' = handler s \<and>
    slots s' = slots s \<and> (\<forall>e. e \<noteq> c \<longrightarrow> vpt s' e = vpt s e) \<and> (\<forall>p f q. vpt s' c p = Some (f, q) \<longrightarrow> f < init_pages s)"
proof -
  let ?s = "s\<lparr>newenvs := es, live := (live s)(c := True), runnable := (runnable s)(c := False)\<rparr>"
  have s': "s' = init_space c ?s" "r = sint c" using r n by (simp_all add: vm_env_alloc_def)
  have "counts_ok ?s" "tables_ok ?s" using ok by (simp_all add: vm_ok_def counts_ok_def tables_ok_def users_vpt)
  from init_space_result [OF this, of c] have i: "counts_ok s'" "tables_ok s'" "frames s' = frames s"
    "live s' = (live s)(c := True)" "handler s' = handler s" "slots s' = slots s" "init_pages s' = init_pages s"
    "\<forall>e p. vpt s' e p = (if e = c \<and> p < init_pages s then Some (p, LIBRARY_RW) else vpt s e p)"
    by (simp_all add: s'(1))
  have v: "vpt s' e p = (if e = c \<and> p < init_pages s then Some (p, LIBRARY_RW) else vpt s e p)" for e p
    using i by simp
  have cow: "cow_ok (init_pages s) (vpt s)" using ok by (simp add: vm_ok_def)
  have "cow_ok (init_pages s) (vpt s')"
  proof (rule cow_okI)
    have lib: "\<not> own_rw LIBRARY_RW" by (simp add: own_rw_def)
    fix e p f perm
    assume o: "vpt s' e p = Some (f, perm)" "own_rw perm"
    then have old: "vpt s e p = Some (f, perm)" using lib unfolding v by (auto split: if_splits)
    show b: "init_pages s \<le> f" using cow_okD(1) [OF cow old o(2)] .
    fix e' p' perm'
    assume "vpt s' e' p' = Some (f, perm')"
    then have "vpt s e' p' = Some (f, perm')" using b unfolding v by (auto split: if_splits)
    then show "e' = e \<and> p' = p" using cow_okD(2) [OF cow old o(2)] by blast
  qed
  then show ?thesis using i(1-7) s'(2) v ok free by (auto simp: vm_ok_def fun_eq_iff split: if_splits)
qed


lemma vread_frame: "vread e s a = (case frame_of e (a div 4096) s of None \<Rightarrow> 0 | Some f \<Rightarrow> frames s f (a mod 4096))"
  by (simp add: vread_def frame_of_def split: option.split)

lemma forked_frames:
  assumes "forked self c u D w"
  shows "e \<noteq> c \<Longrightarrow> frame_of e p w = frame_of e p u"
    and "p \<in> D \<Longrightarrow> eligible (vpt u self) p \<Longrightarrow> frame_of c p w = frame_of self p u"
    and "\<not> (p \<in> D \<and> eligible (vpt u self) p) \<Longrightarrow> frame_of c p w = frame_of c p u"
  using assms by (auto simp: forked_def frame_of_def shared_entry_def eligible_def)

lemma fork_result:
  assumes h: "set_pgfault_handler sy self (pgfault_fn sy) s = Ret () t" and ok: "vm_ok t"
    and n: "newenvs t = c # es" "c \<noteq> 0" "c \<noteq> self" "\<And>p. vpt t c p = None"
    and f: "fork sy self s = Ret r s'"
  shows "r = sint c \<and> vm_ok s' \<and>
    (\<forall>a. a div 4096 \<in> fork_range \<and> eligible (vpt t self) (a div 4096) \<longrightarrow>
      vread c s' a = vread self t a \<and> frame_of c (a div 4096) s' = frame_of self (a div 4096) s') \<and>
    (\<forall>e a. e \<noteq> c \<longrightarrow> vread e s' a = vread e t a) \<and>
    (\<forall>i < 4096. vread c s' (UXSTACK_VA - 4096 + i) = 0) \<and>
    handler s' c = Some (asm_handler sy, UXSTACK_VA) \<and> runnable s' c"
proof -
  obtain u where u: "vm_env_alloc t = (sint c, u)" using n(1) by (simp add: vm_env_alloc_def)
  note e = vm_env_alloc_result [OF ok n(1,4) u]
  have c: "(of_int (sint c) :: u32) = c" by simp
  obtain w where w: "fork_space self c u = Ret () w"
    using f h u c by (auto simp: fork_def Let_def obind_Ret_iff)
  have fk: "forked self c u fork_range w"
    using e by (intro fork_space_result [OF _ n(2,3) _ w]) auto
  obtain r1 x where x: "vm_mem_alloc self c (UXSTACK_VA - 4096) USER_RW w = (r1, x)" "\<not> r1 < 0"
    using f h u c w by (auto simp: fork_def Let_def split: prod.splits if_splits)
  have live: "live w c" "target self c w = Some c" using fk e n(2) by (auto simp: forked_def target_def)
  let ?ux = "(UXSTACK_VA - 4096) div 4096 :: nat"
  obtain g where g: "free_frame w = Some g"
    and se: "sets_entry c ?ux (Some (g, USER_RW)) (w\<lparr>frames := (frames w)(g := (\<lambda>_. 0))\<rparr>) x"
    using vm_mem_alloc_result [OF x] live by auto
  have s': "r = sint c" "s' = x\<lparr>handler := (handler x)(c := Some (asm_handler sy, UXSTACK_VA)), runnable := (runnable x)(c := True)\<rparr>"
    using f h u c w x se live n(2)
    by (auto simp: fork_def Let_def vm_set_pgfault_handler_def vm_set_env_status_def target_def sets_entry_def split: if_splits)
  have okw: "vm_ok w" using fk by (simp add: forked_def)
  have unused: "vpt w e p \<noteq> Some (g, q)" for e p q using free_frame_unused [OF _ g] okw by (simp add: vm_ok_def)
  have v: "vpt s' = (vpt w)(c := (vpt w c)(?ux := Some (g, USER_RW)))" "frames s' = (frames w)(g := (\<lambda>_. 0))"
    using se by (simp_all add: s'(2) sets_entry_def)
  have ok': "vm_ok s'"
  proof -
    have "init_pages w \<le> g" using g okw by (auto simp: free_frame_def find_Some_iff vm_ok_def)
    then have "cow_ok (init_pages w) (vpt s')"
      using cow_fresh [of "init_pages w" "vpt w" g c ?ux ?ux USER_RW] unused okw by (simp add: v(1) vm_ok_def)
    moreover have "counts_ok x \<and> tables_ok x \<and> slots x = slots w \<and> init_pages x = init_pages w"
      using se okw by (simp add: sets_entry_def vm_ok_def)
    moreover have "counts_ok s' = counts_ok x" "tables_ok s' = tables_ok x"
      by (simp_all add: s'(2) counts_ok_def tables_ok_def users_vpt)
    ultimately show ?thesis using okw by (simp add: s'(2) vm_ok_def)
  qed
  have fr: "frame_of e p s' = frame_of e p w" if "e \<noteq> c \<or> p \<noteq> ?ux" for e p
    using that by (auto simp: frame_of_def v(1))
  have frs: "frames s' f = frames t f" if "frame_of e p w = Some f" for e p f
    using that unused e fk by (auto simp: frame_of_def v(2) forked_def)
  have others: "frame_of e p s' = frame_of e p t" if "e \<noteq> c" for e p
    using fr [of e p] forked_frames(1) [OF fk that] e that by (simp add: frame_of_def)
  have rd: "vread e s' a = vread e t a" if "e \<noteq> c" for e a
    using others [OF that] fr [of e "a div 4096"] frs [of e "a div 4096"] that
    by (auto simp: vread_frame split: option.split)
  have copied: "frame_of c (a div 4096) s' = frame_of self (a div 4096) t \<and> vread c s' a = vread self t a"
    if a: "a div 4096 \<in> fork_range" "eligible (vpt t self) (a div 4096)" for a
  proof -
    have "eligible (vpt u self) (a div 4096)" using a(2) e n(3) by simp
    then have "frame_of c (a div 4096) w = frame_of self (a div 4096) t"
      using forked_frames(2) [OF fk a(1)] e n(3) by (simp add: frame_of_def)
    moreover have "a div 4096 \<noteq> ?ux" using a(2) by (simp add: eligible_def)
    ultimately show ?thesis
      using fr [of c "a div 4096"] frs [of c "a div 4096"] by (auto simp: vread_frame split: option.split)
  qed
  have "vread c s' (UXSTACK_VA - 4096 + i) = 0" if "i < 4096" for i
  proof -
    have "(UXSTACK_VA - 4096 + i) div 4096 = ?ux" using that by simp
    then show ?thesis by (simp add: vread_def v)
  qed
  then show ?thesis using s' ok' rd copied others [OF n(3) [symmetric]] by simp
qed

text \<open>C31: \<open>fork\<close> makes the child a copy of its parent: the child reads what the parent reads on every user page
  below the self map but the exception stack, through the same frames; the parent and everyone else read what they
  read before; the child gets a cleared exception stack, the fault handler, and may run.\<close>

theorem fork_copies_parent:
  assumes "set_pgfault_handler sy self (pgfault_fn sy) s = Ret () t" and "vm_ok t"
    and "newenvs t = c # es" "c \<noteq> 0" "c \<noteq> self" "\<And>p. vpt t c p = None"
    and "fork sy self s = Ret r s'"
  shows "r = sint c \<and> vm_ok s' \<and>
    (\<forall>a. a div 4096 \<in> fork_range \<and> eligible (vpt t self) (a div 4096) \<longrightarrow>
      vread c s' a = vread self t a \<and> frame_of c (a div 4096) s' = frame_of self (a div 4096) s') \<and>
    (\<forall>e a. e \<noteq> c \<longrightarrow> vread e s' a = vread e t a) \<and>
    (\<forall>i < 4096. vread c s' (UXSTACK_VA - 4096 + i) = 0) \<and>
    handler s' c = Some (asm_handler sy, UXSTACK_VA) \<and> runnable s' c"
  using assms by (rule fork_result)



section \<open>Fork returns\<close>

lemma each_total:
  assumes "\<And>i t. i \<in> set is \<Longrightarrow> J t \<Longrightarrow> \<exists>t'. f i t = Ret () t' \<and> J t'" and "J s"
  shows "\<exists>s'. each is f s = Ret () s' \<and> J s'"
  using assms
proof (induction "is" arbitrary: s)
  case (Cons i "is")
  obtain t where "f i s = Ret () t" "J t" using Cons.prems by (metis list.set_intros(1))
  moreover have "\<exists>s'. each is f t = Ret () s' \<and> J s'" using Cons.prems(1) calculation by (intro Cons.IH) auto
  ultimately show ?case by auto
qed simp

text \<open>The kernel does not refuse, and the child is there.\<close>

definition granting :: "u32 \<Rightarrow> 'a vm_scheme \<Rightarrow> bool" where
  "granting c s \<longleftrightarrow> deny s = [] \<and> live s c"

lemma granting_map [simp]: "granting c (map_page e p f perm s) = granting c s"
  by (auto simp: granting_def map_page_def unmap_page_def Let_def split: option.split)

lemma vm_mem_map_granted:
  assumes "granting c s" and "va < KBASE" and "d = 0 \<or> d = c" and "vpt s self (va div 4096) = Some (f, q)"
  shows "\<exists>t. vm_mem_map self 0 va d va perm s = (0, t) \<and> granting c t \<and> frame_of self (va div 4096) t = Some f"
  using assms by (auto simp: vm_mem_map_def target_def asked_def granting_def [of c s] frame_of_def)

lemma duppage_granted:
  assumes g: "granting c s" and p: "p < 2 ^ 27" and m: "vpt s self p = Some (f, perm)"
  shows "\<exists>t. duppage self c (p * 4096) perm s = Ret () t \<and> granting c t"
proof (cases "p * 4096 = UXSTACK_VA - 4096")
  case True
  then show ?thesis using g by (simp add: duppage_def)
next
  case False
  have lt: "p * 4096 < KBASE" using p by simp
  have one: "\<exists>t. vm_mem_map self 0 (p * 4096) d (p * 4096) q s = (0, t) \<and> granting c t \<and> frame_of self p t = Some f"
    if "granting c s" "d = 0 \<or> d = c" "frame_of self p s = Some f" for d q and s :: "'a vm_scheme"
    using vm_mem_map_granted [OF that(1) lt that(2), of self f] that(3) by (auto simp: frame_of_def)
  have f: "frame_of self p s = Some f" using m by (simp add: frame_of_def)
  obtain t where t: "vm_mem_map self 0 (p * 4096) c (p * 4096) (perm OR PTE_RO) s = (0, t)" "granting c t" "frame_of self p t = Some f"
    using one [OF g _ f, of c] by blast
  obtain t' where t': "vm_mem_map self 0 (p * 4096) 0 (p * 4096) (perm OR PTE_RO) t = (0, t')" "granting c t'"
    using one [OF t(2) _ t(3), of 0] by blast
  obtain u where u: "vm_mem_map self 0 (p * 4096) c (p * 4096) perm s = (0, u)" "granting c u"
    using one [OF g _ f, of c] by blast
  show ?thesis using False t t' u by (simp add: duppage_def)
qed

lemma fork_page_granted: "granting c s \<Longrightarrow> p < 2 ^ 27 \<Longrightarrow> \<exists>t. fork_page self c p s = Ret () t \<and> granting c t"
  using duppage_granted [of c s p self] by (auto simp: fork_page_def split: option.split)

lemma fork_space_granted:
  assumes "granting c s"
  shows "\<exists>t. fork_space self c s = Ret () t \<and> granting c t"
  unfolding fork_space_def
proof (rule each_total [where J = "granting c"])
  fix i t
  assume i: "i \<in> set [0..<512]" and t: "granting c t"
  have "\<exists>t'. each [0..<512] (\<lambda>j s. if \<not> vpm s self (i * 512 + j) then Ret () s
        else each [0..<512] (\<lambda>k s. fork_page self c (i * 2 ^ 18 + j * 2 ^ 9 + k) s) s) t = Ret () t' \<and> granting c t'"
  proof (rule each_total [where J = "granting c"])
    fix j u
    assume j: "j \<in> set [0..<512]" and u: "granting c u"
    have "\<exists>u'. each [0..<512] (\<lambda>k s. fork_page self c (i * 2 ^ 18 + j * 2 ^ 9 + k) s) u = Ret () u' \<and> granting c u'"
      by (rule each_total [where J = "granting c"], rule fork_page_granted) (use i j u in auto)
    then show "\<exists>u'. (if \<not> vpm u self (i * 512 + j) then Ret () u
        else each [0..<512] (\<lambda>k s. fork_page self c (i * 2 ^ 18 + j * 2 ^ 9 + k) s) u) = Ret () u' \<and> granting c u'"
      using u by auto
  qed (rule t)
  then show "\<exists>t'. (if i = 256 \<or> \<not> vpd t self i then Ret () t
      else each [0..<512] (\<lambda>j s. if \<not> vpm s self (i * 512 + j) then Ret () s
        else each [0..<512] (\<lambda>k s. fork_page self c (i * 2 ^ 18 + j * 2 ^ 9 + k) s) s) t) = Ret () t' \<and> granting c t'"
    using t by auto
qed (rule assms)

lemma fork_returns_lemma:
  assumes h: "set_pgfault_handler sy self (pgfault_fn sy) s = Ret () t" and ok: "vm_ok t"
    and n: "newenvs t = c # es" "c \<noteq> 0" "c \<noteq> self" "\<And>p. vpt t c p = None"
    and g: "deny t = []" "g \<in> set (slots t)" "frefs t g = 0"
  shows "\<exists>s'. fork sy self s = Ret (sint c) s'"
proof -
  obtain u where u: "vm_env_alloc t = (sint c, u)" using n(1) by (simp add: vm_env_alloc_def)
  note e = vm_env_alloc_result [OF ok n(1,4) u]
  have d: "deny (fold (\<lambda>i s. map_page c i i q s) ps x) = deny x" for q ps and x :: "'a vm_scheme"
    by (induction ps arbitrary: x) (simp_all add: map_page_def unmap_page_def Let_def split: option.split)
  have "deny u = []" using u n(1) g(1) d by (auto simp: vm_env_alloc_def init_space_def)
  then have "granting c u" using e by (simp add: granting_def)
  then obtain w where w: "fork_space self c u = Ret () w" "granting c w" using fork_space_granted by blast
  have fk: "forked self c u fork_range w" using e by (intro fork_space_result [OF _ n(2,3) _ w(1)]) auto
  have "g \<ge> init_pages t" using ok g(2) by (simp add: vm_ok_def)
  have "users g t = {}" using ok g(3) by (simp add: vm_ok_def counts_ok_def)
  then have un: "vpt t e p \<noteq> Some (g, q)" for e p q by (auto simp: users_vpt)
  have gu: "vpt u e' p \<noteq> Some (g, q)" for e' p q
  proof (cases "e' = c")
    case True
    then show ?thesis using e \<open>g \<ge> init_pages t\<close> by (meson leD)
  next
    case False
    then have "vpt u e' = vpt t e'" using e by blast
    then show ?thesis using un by simp
  qed
  have "frame_of e p u \<noteq> Some g" for e p using gu by (auto simp: frame_of_def)
  then have "frame_of e p w \<noteq> Some g" for e p
    using forked_frames(1) [OF fk, of e p] forked_frames(2,3) [OF fk, of p] by (cases "e = c") metis+
  then have "users g w = {}" by (simp add: users_def)
  moreover have "counts_ok w" "slots w = slots u" using fk unfolding forked_def vm_ok_def by blast+
  ultimately have "frefs w g = 0" by (simp add: counts_ok_def)
  moreover have "g \<in> set (slots w)" using \<open>slots w = slots u\<close> e g(2) by simp
  ultimately have "free_frame w \<noteq> None" unfolding free_frame_def find_None_iff by blast
  then obtain f where f: "free_frame w = Some f" by blast
  then have "vm_mem_alloc self c (UXSTACK_VA - 4096) USER_RW w =
      (0, map_page c ((UXSTACK_VA - 4096) div 4096) f USER_RW (w\<lparr>frames := (frames w)(f := (\<lambda>_. 0))\<rparr>))"
    using w(2) n(2) by (simp add: vm_mem_alloc_def target_def granting_def asked_def)
  moreover have "live w c" using w(2) by (simp add: granting_def)
  ultimately show ?thesis
    using h u w(1) n(2) by (simp add: fork_def Let_def vm_set_pgfault_handler_def vm_set_env_status_def target_def)
qed

text \<open>C32: \<open>fork\<close> returns the new environment's identifier whenever the kernel has an environment and one free
  page and refuses no request.\<close>

theorem fork_returns:
  assumes "set_pgfault_handler sy self (pgfault_fn sy) s = Ret () t" and "vm_ok t"
    and "newenvs t = c # es" "c \<noteq> 0" "c \<noteq> self" "\<And>p. vpt t c p = None"
    and "deny t = []" "g \<in> set (slots t)" "frefs t g = 0"
  shows "\<exists>s'. fork sy self s = Ret (sint c) s'"
  using assms by (rule fork_returns_lemma)

section \<open>Examples\<close>

text \<open>Two environments share one page copy-on-write; the page also holds the address of the fault handler.\<close>

definition demo_shared :: vm where
  "demo_shared = \<lparr>frames = (\<lambda>f i. if f = 41 \<and> i = 0 then 1 else 0), frefs = (\<lambda>f. if f = 41 then 2 else 0),
    slots = [50, 51, 52], deny = [], vpd = (\<lambda>e i. i = 0), vpm = (\<lambda>e i. i = 0),
    vpt = (\<lambda>e p. if (e = 1 \<or> e = 2) \<and> p = 17 then Some (41, PTE_RO OR USER_RW) else None),
    live = (\<lambda>e. e = 1 \<or> e = 2), newenvs = [3], init_pages = 4, runnable = (\<lambda>e. True), handler = (\<lambda>e. Some (0x12000, UXSTACK_VA))\<rparr>"

lemma demo_shared_ok: "vm_ok demo_shared"
proof -
  have u: "users f demo_shared = (if f = 41 then {(1, 17), (2, 17)} else {})" for f
    by (auto simp: users_vpt demo_shared_def split: if_splits)
  then have "counts_ok demo_shared" by (simp add: counts_ok_def) (simp add: demo_shared_def)
  moreover have "tables_ok demo_shared" by (auto simp: tables_ok_def demo_shared_def split: if_splits)
  moreover have "cow_ok 4 (vpt demo_shared)"
    by (rule cow_okI) (auto simp: demo_shared_def own_rw_def split: if_splits)
  ultimately show ?thesis by (simp add: vm_ok_def) (simp add: demo_shared_def)
qed

lemma demo_pgfault: "\<exists>t. pgfault 1 0x11000 demo_shared = Ret () t"
proof -
  let ?s1 = "map_page 1 258047 50 0x41 (demo_shared\<lparr>frames := (frames demo_shared)(50 := (\<lambda>_. 0))\<rparr>)"
  have a: "vm_mem_alloc 1 0 USTACK_VA 0x41 demo_shared = (0, ?s1)"
    by (simp add: vm_mem_alloc_def asked_def free_frame_def demo_shared_def)
  have v: "vpt ?s1 = (vpt demo_shared)(1 := (vpt demo_shared 1)(tmp_page := Some (50, 0x41)))" by simp
  have "\<exists>F. user_bcopy (\<lambda>s. vread 1 s) (vwrite 1) 0x11000 USTACK_VA 4096 ?s1 = ?s1\<lparr>frames := (frames ?s1)(50 := F)\<rparr> \<and>
      (\<forall>i < 4096. F i = frames ?s1 41 i)"
    by (rule copy_page) (auto simp: demo_shared_def split: if_splits)
  then obtain F where F: "user_bcopy (\<lambda>s. vread 1 s) (vwrite 1) 0x11000 USTACK_VA 4096 ?s1 = ?s1\<lparr>frames := (frames ?s1)(50 := F)\<rparr>"
    by blast
  have d: "deny (?s1\<lparr>frames := x\<rparr>) = []" for x by (simp add: map_page_def unmap_page_def demo_shared_def frame_of_def)
  have "vpt demo_shared 1 17 = Some (41, 0xC1)" by (simp add: demo_shared_def)
  then show ?thesis
    unfolding pgfault_def Let_def
    by (simp add: a F vm_mem_map_def vm_mem_unmap_def asked_def d)
qed

lemma copy_on_write_isolates_witness:
  "\<exists>s'. ustore 1 0x11000 9 demo_shared = Ret () s' \<and> vread 1 s' 0x11000 = 9 \<and> vread 2 s' 0x11000 = 1"
proof -
  obtain t where "pgfault 1 0x11000 demo_shared = Ret () t" using demo_pgfault by blast
  then have "ustore 1 0x11000 9 demo_shared = Ret () (vwrite 1 0x11000 9 t)"
    by (simp add: ustore_def touch_page_def demo_shared_def)
  moreover have "vread 2 demo_shared 0x11000 = 1" by (simp add: vread_def demo_shared_def)
  ultimately show ?thesis
    using copy_on_write_isolates [OF demo_shared_ok, of 1 "0x11000" 9 "vwrite 1 0x11000 9 t"] by (simp add: demo_shared_def)
qed

lemma vwrite_fields [simp]:
  "vpt (vwrite e a v s) = vpt s" "newenvs (vwrite e a v s) = newenvs s" "deny (vwrite e a v s) = deny s"
  "slots (vwrite e a v s) = slots s" "frefs (vwrite e a v s) = frefs s" "vm_ok (vwrite e a v s) = vm_ok s"
  by (simp_all add: vwrite_def put_frame_def vm_ok_def split: option.split)

lemma st64_vwrite_fields [simp]:
  "vpt (st64 (vwrite e) a v s) = vpt s" "newenvs (st64 (vwrite e) a v s) = newenvs s" "deny (st64 (vwrite e) a v s) = deny s"
  "slots (st64 (vwrite e) a v s) = slots s" "frefs (st64 (vwrite e) a v s) = frefs s" "vm_ok (st64 (vwrite e) a v s) = vm_ok s"
  by (simp_all add: st64_def st32_def st16_def)

text \<open>An environment with its fault handler in place and one page it shares with another.\<close>

definition demo_parent :: vm where
  "demo_parent = demo_shared\<lparr>frames := (\<lambda>f i. if (f = 41 \<or> f = 42) \<and> i = 0 then 1 else 0),
    frefs := (\<lambda>f. if f = 41 then 2 else if f = 42 then 1 else 0),
    vpt := (\<lambda>e p. if (e = 1 \<or> e = 2) \<and> p = 17 then Some (41, PTE_RO OR USER_RW)
      else if e = 1 \<and> p = 18 then Some (42, USER_RW) else None)\<rparr>"

definition demo_symbols :: symbols where
  "demo_symbols = \<lparr>pgh_var = 0x12000, asm_handler = 0x400000, pgfault_fn = 0x401000\<rparr>"

lemma demo_parent_ok: "vm_ok demo_parent"
proof -
  have u: "users f demo_parent = (if f = 41 then {(1, 17), (2, 17)} else if f = 42 then {(1, 18)} else {})" for f
    by (auto simp: users_vpt demo_parent_def split: if_splits)
  then have "counts_ok demo_parent" by (simp add: counts_ok_def) (simp add: demo_parent_def)
  moreover have "tables_ok demo_parent" by (auto simp: tables_ok_def demo_parent_def demo_shared_def split: if_splits)
  moreover have "cow_ok 4 (vpt demo_parent)"
    by (rule cow_okI) (auto simp: demo_parent_def own_rw_def split: if_splits)
  ultimately show ?thesis by (simp add: vm_ok_def) (simp add: demo_parent_def demo_shared_def)
qed

abbreviation (input) demo_ready :: vm where
  "demo_ready \<equiv> st64 (vwrite 1) 0x12000 0x401000 demo_parent"

lemma demo_ready_facts:
  "set_pgfault_handler demo_symbols 1 (pgfault_fn demo_symbols) demo_parent = Ret () demo_ready"
  "vm_ok demo_ready" "newenvs demo_ready = [3]" "deny demo_ready = []"
  "50 \<in> set (slots demo_ready)" "frefs demo_ready 50 = 0" "vpt demo_ready 3 p = None" "vpt demo_ready 1 17 = Some (41, 0xC1)"
  using demo_parent_ok
  by (simp_all add: set_pgfault_handler_def Let_def touch_page_def ld64_def ld32_def ld16_def vread_def demo_symbols_def)
    (simp_all add: demo_parent_def demo_shared_def)

lemma fork_returns_witness: "\<exists>s'. fork demo_symbols 1 demo_parent = Ret 3 s'"
  using fork_returns [OF demo_ready_facts(1,2,3) _ _ demo_ready_facts(7,4,5,6)] by simp

lemma fork_copies_parent_witness:
  "\<exists>s'. fork demo_symbols 1 demo_parent = Ret 3 s' \<and> vread 3 s' 0x11000 = 1 \<and> vread 1 s' 0x11000 = 1 \<and> runnable s' 3"
proof -
  obtain s' where s': "fork demo_symbols 1 demo_parent = Ret 3 s'"
    using fork_returns_lemma [OF demo_ready_facts(1,2,3) _ _ demo_ready_facts(7,4,5,6)] by auto
  have "vread 1 demo_ready 0x11000 = 1"
    by (simp add: vread_def demo_ready_facts(8)) (simp add: st64_def st32_def st16_def vwrite_def put_frame_def demo_parent_def)
  moreover have "eligible (vpt demo_ready 1) 17" 
    using demo_ready_facts(8) by (simp add: eligible_def bit_numeral_rec)
  moreover have "(0x11000 :: nat) div 4096 = 17" "(17 :: nat) \<in> fork_range" by (simp_all add: fork_range_def)
  moreover have r: "\<forall>a. a div 4096 \<in> fork_range \<and> eligible (vpt demo_ready 1) (a div 4096) \<longrightarrow>
      vread 3 s' a = vread 1 demo_ready a" "\<forall>e a. e \<noteq> 3 \<longrightarrow> vread e s' a = vread e demo_ready a" "runnable s' 3"
    using fork_copies_parent [OF demo_ready_facts(1,2,3) _ _ demo_ready_facts(7) s'] by simp_all
  ultimately have "vread 3 s' 0x11000 = 1" by metis
  moreover have "vread 1 s' 0x11000 = 1" using r(2) \<open>vread 1 demo_ready 0x11000 = 1\<close> by simp
  ultimately show ?thesis using s' r(3) by blast
qed

end
