(* ===== verification/Fd.thy ===== *)
theory Fd
  imports Fork
begin

text \<open>
  File descriptors: user/fd.c. A descriptor is a page at a fixed address, its data starts at another; a
  descriptor is in use when its page is mapped. The devices are an argument, the table \<open>devtab\<close>; an entry
  holds the functions behind \<open>struct Dev\<close>. The table has no end marker, so a search for a device that is
  not there runs past it (\<open>Panic\<close>).
\<close>

section \<open>Layout (user/fd.h, user/fd.c)\<close>

abbreviation (input) MAXFD :: int where "MAXFD \<equiv> 32"
abbreviation (input) FILEBASE :: int where "FILEBASE \<equiv> 0x80000000"
abbreviation (input) FDTABLE :: int where "FDTABLE \<equiv> 0x70000000"
abbreviation (input) PDMAP :: int where "PDMAP \<equiv> 0x40000000"
abbreviation (input) O_RDONLY :: u32 where "O_RDONLY \<equiv> 0"
abbreviation (input) O_WRONLY :: u32 where "O_WRONLY \<equiv> 1"
abbreviation (input) O_ACCMODE :: u32 where "O_ACCMODE \<equiv> 3"

definition addr64 :: "int \<Rightarrow> nat" where "addr64 i = nat (i mod 2 ^ 64)"

definition INDEX2FD :: "int \<Rightarrow> nat" where "INDEX2FD i = addr64 (FDTABLE + i * 4096)"
definition INDEX2DATA :: "int \<Rightarrow> nat" where "INDEX2DATA i = addr64 (FILEBASE + i * PDMAP)"

definition fd2num :: "nat \<Rightarrow> int" where
  "fd2num fd = sint (word_of_int (int (addr64 (int fd - FDTABLE) div 4096)) :: u32)"

definition fd2data :: "nat \<Rightarrow> nat" where "fd2data fd = INDEX2DATA (fd2num fd)"

definition num2fd :: "int \<Rightarrow> nat" where "num2fd fd = addr64 (fd * 4096 + FDTABLE)"

text \<open>The fields of \<open>struct Fd\<close> in a program's memory.\<close>

type_synonym ('r, 'a) ures = "('r, 'a vm_scheme) outcome"

definition fd_dev_id :: "u32 \<Rightarrow> nat \<Rightarrow> 'a vm_scheme \<Rightarrow> u32" where "fd_dev_id self fd s = ld32 (\<lambda>s. vread self s) s fd"
definition fd_offset :: "u32 \<Rightarrow> nat \<Rightarrow> 'a vm_scheme \<Rightarrow> u64" where "fd_offset self fd s = ld64 (\<lambda>s. vread self s) s (fd + 8)"
definition fd_omode :: "u32 \<Rightarrow> nat \<Rightarrow> 'a vm_scheme \<Rightarrow> u32" where "fd_omode self fd s = ld32 (\<lambda>s. vread self s) s (fd + 16)"

text \<open>Stores of a program: a page is there and the program's own before it is written.\<close>

definition ustore32 :: "u32 \<Rightarrow> nat \<Rightarrow> u32 \<Rightarrow> 'a vm_scheme \<Rightarrow> (unit, 'a) ures" where
  "ustore32 self a v s = obind (touch_page self a s) (\<lambda>_ s. Ret () (st32 (vwrite self) a v s))"

definition ustore64 :: "u32 \<Rightarrow> nat \<Rightarrow> u64 \<Rightarrow> 'a vm_scheme \<Rightarrow> (unit, 'a) ures" where
  "ustore64 self a v s = obind (touch_page self a s) (\<lambda>_ s. Ret () (st64 (vwrite self) a v s))"

definition set_fd_dev_id :: "u32 \<Rightarrow> nat \<Rightarrow> u32 \<Rightarrow> 'a vm_scheme \<Rightarrow> (unit, 'a) ures" where
  "set_fd_dev_id self fd v = ustore32 self fd v"
definition set_fd_offset :: "u32 \<Rightarrow> nat \<Rightarrow> u64 \<Rightarrow> 'a vm_scheme \<Rightarrow> (unit, 'a) ures" where
  "set_fd_offset self fd v = ustore64 self (fd + 8) v"
definition set_fd_omode :: "u32 \<Rightarrow> nat \<Rightarrow> u32 \<Rightarrow> 'a vm_scheme \<Rightarrow> (unit, 'a) ures" where
  "set_fd_omode self fd v = ustore32 self (fd + 16) v"

text \<open>\<open>struct Dev\<close>. Through the declared types of its functions a length and an offset are \<open>u32\<close>.\<close>

record 'a dev =
  dev_id :: u32
  dev_read :: "nat \<Rightarrow> nat \<Rightarrow> u32 \<Rightarrow> u32 \<Rightarrow> 'a vm_scheme \<Rightarrow> (int, 'a) ures"
  dev_write :: "nat \<Rightarrow> nat \<Rightarrow> u32 \<Rightarrow> u32 \<Rightarrow> 'a vm_scheme \<Rightarrow> (int, 'a) ures"
  dev_close :: "nat \<Rightarrow> 'a vm_scheme \<Rightarrow> (int, 'a) ures"
  dev_stat :: "nat \<Rightarrow> nat \<Rightarrow> 'a vm_scheme \<Rightarrow> (int, 'a) ures"

section \<open>Finding descriptors and devices\<close>

text \<open>\<open>dev_lookup\<close> returns the device it finds.\<close>

definition dev_lookup :: "'a dev list \<Rightarrow> u32 \<Rightarrow> 'a vm_scheme \<Rightarrow> ('a dev, 'a) ures" where
  "dev_lookup devtab devid s =
    (case find (\<lambda>d. dev_id d = devid) devtab of Some d \<Rightarrow> Ret d s | None \<Rightarrow> Panic ''devtab'' s)"

definition fd_mapped :: "u32 \<Rightarrow> nat \<Rightarrow> 'a vm_scheme \<Rightarrow> bool" where
  "fd_mapped self va s \<longleftrightarrow> vpd s self (va div 2 ^ 30) \<and> vpm s self (va div 2 ^ 21) \<and> vpt s self (va div 2 ^ 12) \<noteq> None"

text \<open>The results of \<open>fd_alloc\<close> and \<open>fd_lookup\<close> are the return value and \<open>*fd\<close>.\<close>

definition fd_alloc :: "u32 \<Rightarrow> 'a vm_scheme \<Rightarrow> int \<times> nat" where
  "fd_alloc self s =
    (case find (\<lambda>i. \<not> fd_mapped self (INDEX2FD (int i)) s) [0..<31] of
       Some i \<Rightarrow> (0, INDEX2FD (int i))
     | None \<Rightarrow> (- E_MAX_OPEN, 0))"

definition fd_close :: "u32 \<Rightarrow> nat \<Rightarrow> 'a vm_scheme \<Rightarrow> 'a vm_scheme" where
  "fd_close self fd s = snd (vm_mem_unmap self 0 fd s)"

definition fd_lookup :: "u32 \<Rightarrow> int \<Rightarrow> 'a vm_scheme \<Rightarrow> int \<times> nat" where
  "fd_lookup self fdnum s =
    (if fdnum \<ge> MAXFD then (- E_INVAL, 0)
     else let va = INDEX2FD fdnum in if \<not> fd_mapped self va s then (- E_INVAL, 0) else (0, va))"

section \<open>Operations (user/fd.c)\<close>

definition close :: "'a dev list \<Rightarrow> u32 \<Rightarrow> int \<Rightarrow> 'a vm_scheme \<Rightarrow> (int, 'a) ures" where
  "close devtab self fdnum s =
    (case fd_lookup self fdnum s of (r, fd) \<Rightarrow>
       if r < 0 then Ret r s
       else obind (dev_lookup devtab (fd_dev_id self fd s) s) (\<lambda>dev s.
         obind (dev_close dev fd s) (\<lambda>r s. Ret r (fd_close self fd s))))"

definition close_all :: "'a dev list \<Rightarrow> u32 \<Rightarrow> 'a vm_scheme \<Rightarrow> (unit, 'a) ures" where
  "close_all devtab self s =
    each [0..<32] (\<lambda>i s. obind (close devtab self (int i) s) (\<lambda>_ s. Ret () s)) s"

abbreviation (input) DUP_PERM :: u64 where "DUP_PERM \<equiv> VALID OR PTE_RW OR PTE_LIBRARY OR PTE_USER"

text \<open>The innermost step of \<open>dup\<close>; the result of the system call is compared, not assigned, and so ignored.\<close>

definition dup_page :: "u32 \<Rightarrow> nat \<Rightarrow> nat \<Rightarrow> nat \<Rightarrow> 'a vm_scheme \<Rightarrow> (unit, 'a) ures" where
  "dup_page self ova nva offset s =
    (case vpt s self ((ova + offset) div 2 ^ 12) of
       None \<Rightarrow> Ret () s
     | Some (_, pte) \<Rightarrow> Ret () (snd (vm_mem_map self 0 (ova + offset) 0 (nva + offset) (pte AND DUP_PERM) s)))"

definition dup_data :: "u32 \<Rightarrow> nat \<Rightarrow> nat \<Rightarrow> 'a vm_scheme \<Rightarrow> (unit, 'a) ures" where
  "dup_data self ova nva s =
    (if vpd s self (ova div 2 ^ 30) then
       each [0..<512] (\<lambda>i s.
         if vpm s self ((ova + i * 2 ^ 21) div 2 ^ 21) then
           each [0..<512] (\<lambda>j s. dup_page self ova nva (i * 2 ^ 21 + j * 2 ^ 12) s) s
         else Ret () s) s
     else Ret () s)"

definition dup :: "'a dev list \<Rightarrow> u32 \<Rightarrow> int \<Rightarrow> int \<Rightarrow> 'a vm_scheme \<Rightarrow> (int, 'a) ures" where
  "dup devtab self oldfdnum newfdnum s =
    (case fd_lookup self oldfdnum s of (r, oldfd) \<Rightarrow>
       if r < 0 then Ret r s
       else obind (close devtab self newfdnum s) (\<lambda>_ s.
         let newfd = INDEX2FD newfdnum; ova = fd2data oldfd; nva = fd2data newfd in
         obind (dup_data self ova nva s) (\<lambda>_ s.
           let pte = (case vpt s self (oldfd div 2 ^ 12) of None \<Rightarrow> 0 | Some (_, pte) \<Rightarrow> pte) in
           case vm_mem_map self 0 oldfd 0 newfd (pte AND DUP_PERM) s of (r, s) \<Rightarrow>
             if r < 0 then
               Ret r (fold (\<lambda>i s. snd (vm_mem_unmap self 0 (nva + i * 4096) s)) [0..<nat PDMAP div 4096]
                 (snd (vm_mem_unmap self 0 newfd s)))
             else Ret newfdnum s)))"

definition advance :: "u32 \<Rightarrow> nat \<Rightarrow> int \<Rightarrow> 'a vm_scheme \<Rightarrow> (unit, 'a) ures" where
  "advance self fd r s = (if r > 0 then set_fd_offset self fd (fd_offset self fd s + of_int r) s else Ret () s)"

text \<open>\<open>read\<close> ends the buffer with a 0 behind what it read, also when that is the whole buffer, and in front
  of it after an error.\<close>

definition read :: "'a dev list \<Rightarrow> u32 \<Rightarrow> int \<Rightarrow> nat \<Rightarrow> u64 \<Rightarrow> 'a vm_scheme \<Rightarrow> (int, 'a) ures" where
  "read devtab self fdnum buf n s =
    (case fd_lookup self fdnum s of (r, fd) \<Rightarrow>
       if r < 0 then Ret r s
       else obind (dev_lookup devtab (fd_dev_id self fd s) s) (\<lambda>dev s.
         if fd_omode self fd s AND O_ACCMODE = O_WRONLY then Ret (- E_INVAL) s
         else obind (dev_read dev fd buf (ucast n) (ucast (fd_offset self fd s)) s) (\<lambda>r s.
           obind (advance self fd r s) (\<lambda>_ s.
             obind (ustore self (addr64 (int buf + r)) 0 s) (\<lambda>_ s. Ret r s)))))"

function readn_from :: "'a dev list \<Rightarrow> u32 \<Rightarrow> int \<Rightarrow> nat \<Rightarrow> u64 \<Rightarrow> int \<Rightarrow> 'a vm_scheme \<Rightarrow> (int, 'a) ures" where
  "readn_from devtab self fdnum buf n tot s =
    (if tot < int (unat n) then
       (case read devtab self fdnum (addr64 (int buf + tot)) (n - of_int tot) s of
          Ret m s \<Rightarrow> if m < 0 then Ret m s else if m = 0 then Ret tot s
                    else readn_from devtab self fdnum buf n (tot + m) s
        | Eret s \<Rightarrow> Eret s | Panic e s \<Rightarrow> Panic e s | Hang \<Rightarrow> Hang)
     else Ret tot s)"
  by auto
termination
  by (relation "measure (\<lambda>(d, self, f, b, n, tot, s). nat (int (unat n) - tot))") auto

declare readn_from.simps [simp del]

definition readn :: "'a dev list \<Rightarrow> u32 \<Rightarrow> int \<Rightarrow> nat \<Rightarrow> u64 \<Rightarrow> 'a vm_scheme \<Rightarrow> (int, 'a) ures" where
  "readn devtab self fdnum buf n s = readn_from devtab self fdnum buf n 0 s"

definition write_fd :: "'a dev list \<Rightarrow> u32 \<Rightarrow> int \<Rightarrow> nat \<Rightarrow> u64 \<Rightarrow> 'a vm_scheme \<Rightarrow> (int, 'a) ures" where
  "write_fd devtab self fdnum buf n s =
    (case fd_lookup self fdnum s of (r, fd) \<Rightarrow>
       if r < 0 then Ret r s
       else obind (dev_lookup devtab (fd_dev_id self fd s) s) (\<lambda>dev s.
         if fd_omode self fd s AND O_ACCMODE = O_RDONLY then Ret (- E_INVAL) s
         else obind (dev_write dev fd buf (ucast n) (ucast (fd_offset self fd s)) s) (\<lambda>r s.
           obind (advance self fd r s) (\<lambda>_ s. Ret r s))))"

definition seek :: "u32 \<Rightarrow> int \<Rightarrow> u64 \<Rightarrow> 'a vm_scheme \<Rightarrow> (int, 'a) ures" where
  "seek self fdnum offset s =
    (case fd_lookup self fdnum s of (r, fd) \<Rightarrow>
       if r < 0 then Ret r s else obind (set_fd_offset self fd offset s) (\<lambda>_ s. Ret 0 s))"

text \<open>In \<open>struct Stat\<close> the name is at 0, the size at 128, the directory flag at 132, the device at 136;
  \<open>dev_addr\<close> is the address of a \<open>struct Dev\<close>.\<close>

definition fstat :: "'a dev list \<Rightarrow> (u32 \<Rightarrow> u64) \<Rightarrow> u32 \<Rightarrow> int \<Rightarrow> nat \<Rightarrow> 'a vm_scheme \<Rightarrow> (int, 'a) ures" where
  "fstat devtab dev_addr self fdnum st s =
    (case fd_lookup self fdnum s of (r, fd) \<Rightarrow>
       if r < 0 then Ret r s
       else obind (dev_lookup devtab (fd_dev_id self fd s) s) (\<lambda>dev s.
         obind (ustore self st 0 s) (\<lambda>_ s.
         obind (ustore32 self (st + 128) 0 s) (\<lambda>_ s.
         obind (ustore32 self (st + 132) 0 s) (\<lambda>_ s.
         obind (ustore64 self (st + 136) (dev_addr (dev_id dev)) s) (\<lambda>_ s.
         dev_stat dev fd st s))))))"

text \<open>\<open>open\<close> of user/file.c is an argument here.\<close>

definition stat :: "'a dev list \<Rightarrow> (u32 \<Rightarrow> u64) \<Rightarrow> (nat \<Rightarrow> u32 \<Rightarrow> 'a vm_scheme \<Rightarrow> (int, 'a) ures) \<Rightarrow>
    u32 \<Rightarrow> nat \<Rightarrow> nat \<Rightarrow> 'a vm_scheme \<Rightarrow> (int, 'a) ures" where
  "stat devtab dev_addr open_file self path st s =
    obind (open_file path O_RDONLY s) (\<lambda>fd s.
      if fd < 0 then Ret fd s
      else obind (fstat devtab dev_addr self fd st s) (\<lambda>r s.
        obind (close devtab self fd s) (\<lambda>_ s. Ret r s)))"

end
