(* ===== verification/Fdprops.thy ===== *)
theory Fdprops
  imports Fd Forkprops
begin

text \<open>Properties of descriptors: which one \<open>fd_alloc\<close> takes, what \<open>dup\<close> shares, what \<open>read\<close> writes.\<close>

section \<open>Numbers and addresses\<close>

lemma INDEX2FD_nat: "i < 32 \<Longrightarrow> INDEX2FD (int i) = 0x70000000 + i * 4096"
  by (simp add: INDEX2FD_def addr64_def nat_add_distrib nat_mult_distrib)

lemma INDEX2DATA_nat: "i < 32 \<Longrightarrow> INDEX2DATA (int i) = 0x80000000 + i * 2 ^ 30"
  by (simp add: INDEX2DATA_def addr64_def nat_add_distrib nat_mult_distrib)

lemma fd2num_INDEX2FD: "i < 32 \<Longrightarrow> fd2num (INDEX2FD (int i)) = int i"
proof -
  assume i: "i < 32"
  then have "addr64 (int (INDEX2FD (int i)) - FDTABLE) = i * 4096" by (simp add: INDEX2FD_nat addr64_def)
  then have e: "fd2num (INDEX2FD (int i)) = sint (word_of_int (int i) :: u32)" by (simp add: fd2num_def)
  have "uint (word_of_int (int i) :: u32) = int i" using i by (simp add: unsigned_of_nat take_bit_nat_eq_self)
  moreover have "signed_take_bit 31 (int i) = int i" using i by (intro signed_take_bit_int_eq_self) auto
  ultimately show ?thesis unfolding e sint_uint by simp
qed

lemma fd2data_INDEX2FD: "i < 32 \<Longrightarrow> fd2data (INDEX2FD (int i)) = 0x80000000 + i * 2 ^ 30"
  by (simp add: fd2data_def fd2num_INDEX2FD INDEX2DATA_nat)

lemma fd_mapped_iff: "tables_ok s \<Longrightarrow> fd_mapped self va s \<longleftrightarrow> vpt s self (va div 4096) \<noteq> None"
proof -
  assume t: "tables_ok s"
  have "va div 2 ^ 30 = va div 4096 div 2 ^ 18" "va div 2 ^ 21 = va div 4096 div 2 ^ 9"
    by (simp_all add: div_mult2_eq [symmetric])
  then show ?thesis using t by (auto simp: fd_mapped_def tables_ok_def)
qed

section \<open>Copying the data pages\<close>

definition dup_entry :: "(nat \<times> u64) option \<Rightarrow> (nat \<times> u64) option" where
  "dup_entry e = map_option (\<lambda>(f, pte). (f, (pte AND DUP_PERM) OR VALID)) e"

definition copied :: "u32 \<Rightarrow> nat \<Rightarrow> nat \<Rightarrow> 'a vm_scheme \<Rightarrow> nat set \<Rightarrow> 'a vm_scheme \<Rightarrow> bool" where
  "copied self d n s0 D s \<longleftrightarrow> deny s = [] \<and> tables_ok s \<and> frames s = frames s0 \<and>
    vpt s = (\<lambda>e p. if e = self \<and> p \<in> (\<lambda>k. n + k) ` D \<and> vpt s0 self (d + (p - n)) \<noteq> None
                   then dup_entry (vpt s0 self (d + (p - n))) else vpt s0 e p)"

lemma copied_tables: "copied self d n s0 D s \<Longrightarrow> tables_ok s"
  by (simp add: copied_def)

lemma copied_old:
  assumes "copied self d n s0 D s" and "D \<subseteq> {..<2 ^ 18}" and "d + 2 ^ 18 \<le> n \<or> n + 2 ^ 18 \<le> d" and "k < 2 ^ 18"
  shows "vpt s self (d + k) = vpt s0 self (d + k)"
proof -
  have "d + k \<notin> (\<lambda>k. n + k) ` D" using assms(2-4) by auto
  then show ?thesis using assms(1) by (simp add: copied_def)
qed

lemma copied_skip:
  assumes c: "copied self d n s0 D s" and sub: "D \<union> E \<subseteq> {..<2 ^ 18}" and apart: "d + 2 ^ 18 \<le> n \<or> n + 2 ^ 18 \<le> d"
    and none: "\<And>k. k \<in> E \<Longrightarrow> vpt s self (d + k) = None"
  shows "copied self d n s0 (D \<union> E) s"
proof -
  have "vpt s0 self (d + k) = None" if "k \<in> E" for k
    using copied_old [OF c _ apart, of k] none [OF that] sub that by auto
  then have "p \<in> (\<lambda>k. n + k) ` (D \<union> E) \<and> vpt s0 self (d + (p - n)) \<noteq> None \<longleftrightarrow>
      p \<in> (\<lambda>k. n + k) ` D \<and> vpt s0 self (d + (p - n)) \<noteq> None" for p
    by auto
  then show ?thesis using c by (simp add: copied_def)
qed

lemma granted_map:
  assumes "deny s = []" and "tables_ok s" and "src < KBASE" and "dst < KBASE" and "vpt s self (src div 4096) = Some (f, q)"
  shows "vm_mem_map self 0 src 0 dst perm s = (0, map_page self (dst div 4096) f perm s)"
  using assms by (simp add: vm_mem_map_def target_def asked_def)

lemma map_page_deny [simp]: "deny (map_page e p f perm s) = deny s"
  by (auto simp: map_page_def unmap_page_def Let_def split: option.split)

lemma dup_page_step:
  assumes c: "copied self d n s0 D s" and D: "D \<subseteq> {..<2 ^ 18}" and apart: "d + 2 ^ 18 \<le> n \<or> n + 2 ^ 18 \<le> d"
    and low: "(d + 2 ^ 18) * 4096 < KBASE" "(n + 2 ^ 18) * 4096 < KBASE" and k: "k < 2 ^ 18"
  shows "\<exists>t. dup_page self (d * 4096) (n * 4096) (k * 4096) s = Ret () t \<and> copied self d n s0 (insert k D) t"
proof -
  have pg: "(d * 4096 + k * 4096) div 2 ^ 12 = d + k" "(d * 4096 + k * 4096) div 4096 = d + k"
    "(n * 4096 + k * 4096) div 4096 = n + k" by simp_all
  have lt: "d * 4096 + k * 4096 < KBASE" "n * 4096 + k * 4096 < KBASE" using low k by simp_all
  show ?thesis
  proof (cases "vpt s self (d + k)")
    case None
    then show ?thesis using copied_skip [OF c _ apart, of "{k}"] D k by (simp add: dup_page_def pg)
  next
    case (Some fp)
    then obtain f pte where m: "vpt s self (d + k) = Some (f, pte)" by (cases fp) auto
    let ?t = "map_page self (n + k) f (pte AND DUP_PERM) s"
    have r: "vm_mem_map self 0 (d * 4096 + k * 4096) 0 (n * 4096 + k * 4096) (pte AND DUP_PERM) s = (0, ?t)"
      using granted_map [of s "d * 4096 + k * 4096" "n * 4096 + k * 4096" self f pte "pte AND DUP_PERM"] c lt m
      unfolding pg by (simp add: copied_def)
    have "vpt s0 self (d + k) = Some (f, pte)" using copied_old [OF c D apart k] m by simp
    then have "copied self d n s0 (insert k D) ?t"
      using c by (auto simp: copied_def tables_map dup_entry_def fun_eq_iff)
    then show ?thesis using m r by (simp add: dup_page_def pg)
  qed
qed

lemma each_progress:
  assumes "\<And>i D t. i \<in> set is \<Longrightarrow> D \<subseteq> set is \<Longrightarrow> J D t \<Longrightarrow> \<exists>t'. f i t = Ret () t' \<and> J (insert i D) t'" and "J {} s"
  shows "\<exists>s'. each is f s = Ret () s' \<and> J (set is) s'"
proof -
  have "\<exists>s'. each js f t = Ret () s' \<and> J (D \<union> set js) s'" if "J D t" "D \<union> set js \<subseteq> set is" for D js t
    using that
  proof (induction js arbitrary: D t)
    case (Cons i js)
    then obtain t' where t: "f i t = Ret () t'" "J (insert i D) t'" using assms(1) [of i D t] by auto
    have "\<exists>s'. each js f t' = Ret () s' \<and> J (insert i D \<union> set js) s'"
      using Cons.prems(2) t(2) by (intro Cons.IH) auto
    then show ?case using t(1) by auto
  qed simp
  from this [of "{}" s "is"] show ?thesis using assms(2) by simp
qed

lemma dup_data_copies:
  assumes ok: "deny s = []" "tables_ok s" and apart: "d + 2 ^ 18 \<le> n \<or> n + 2 ^ 18 \<le> d"
    and low: "(d + 2 ^ 18) * 4096 < KBASE" "(n + 2 ^ 18) * 4096 < KBASE" and al: "d mod 2 ^ 18 = 0"
  shows "\<exists>t. dup_data self (d * 4096) (n * 4096) s = Ret () t \<and> copied self d n s {..<2 ^ 18} t"
proof -
  define upto where "upto J = {k :: nat. k < 2 ^ 18 \<and> k div 2 ^ 9 \<in> J}" for J
  have start: "copied self d n s {} s" using ok by (simp add: copied_def)
  have tabs: "vpd t self (d * 4096 div 2 ^ 30)" "vpm t self ((d * 4096 + i * 2 ^ 21) div 2 ^ 21)"
    if "tables_ok t" "vpt t self (d + k) \<noteq> None" "k < 2 ^ 18" "k div 2 ^ 9 = i" for t :: "'a vm_scheme" and i k
  proof -
    have "d * 4096 div 2 ^ 30 = (d + k) div 2 ^ 18" "(d * 4096 + i * 2 ^ 21) div 2 ^ 21 = (d + k) div 2 ^ 9"
      using al that(3,4) by auto
    then show "vpd t self (d * 4096 div 2 ^ 30)" "vpm t self ((d * 4096 + i * 2 ^ 21) div 2 ^ 21)"
      using that(1,2) unfolding tables_ok_def by (metis option.exhaust surj_pair)+
  qed
  have table: "\<exists>t'. (if vpm t self ((d * 4096 + i * 2 ^ 21) div 2 ^ 21) then
           each [0..<512] (\<lambda>j s. dup_page self (d * 4096) (n * 4096) (i * 2 ^ 21 + j * 2 ^ 12) s) t
         else Ret () t) = Ret () t' \<and> copied self d n s (upto (insert i J)) t'"
    if i: "i \<in> set [0..<512]" and c: "copied self d n s (upto J) t" for i J t
  proof -
    have un: "upto (insert i J) = upto J \<union> {k. k < 2 ^ 18 \<and> k div 2 ^ 9 = i}" by (auto simp: upto_def)
    have sub: "upto J \<subseteq> {..<2 ^ 18}" for J by (auto simp: upto_def)
    show ?thesis
    proof (cases "vpm t self ((d * 4096 + i * 2 ^ 21) div 2 ^ 21)")
      case False
      then have "vpt t self (d + k) = None" if "k < 2 ^ 18" "k div 2 ^ 9 = i" for k
        using tabs [OF copied_tables [OF c]] that by blast
      then show ?thesis using False copied_skip [OF c _ apart, of "{k. k < 2 ^ 18 \<and> k div 2 ^ 9 = i}"] sub unfolding un by auto
    next
      case True
      have off: "i * 2 ^ 21 + j * 2 ^ 12 = (i * 512 + j) * (4096 :: nat)" for j by simp
      have "\<exists>t'. each [0..<512] (\<lambda>j s. dup_page self (d * 4096) (n * 4096) (i * 2 ^ 21 + j * 2 ^ 12) s) t = Ret () t' \<and>
          copied self d n s (upto J \<union> (\<lambda>j. i * 512 + j) ` set [0..<512]) t'"
      proof (rule each_progress [where J = "\<lambda>K. copied self d n s (upto J \<union> (\<lambda>j. i * 512 + j) ` K)"])
        fix j K t
        assume j: "j \<in> set [0..<512]" and K: "K \<subseteq> set [0..<512]" and ck: "copied self d n s (upto J \<union> (\<lambda>j. i * 512 + j) ` K) t"
        show "\<exists>t'. dup_page self (d * 4096) (n * 4096) (i * 2 ^ 21 + j * 2 ^ 12) t = Ret () t' \<and>
            copied self d n s (upto J \<union> (\<lambda>j. i * 512 + j) ` insert j K) t'"
        proof -
          have "upto J \<union> (\<lambda>j. i * 512 + j) ` K \<subseteq> {..<2 ^ 18}" using sub [of J] K i by fastforce
          moreover have "i * 512 + j < 2 ^ 18" using i j by simp
          ultimately show ?thesis using dup_page_step [OF ck _ apart low, of "i * 512 + j"] unfolding off by simp
        qed
      qed (use c in simp)
      moreover have "(\<lambda>j. i * 512 + j) ` set [0..<512] = {k. k < 2 ^ 18 \<and> k div 2 ^ 9 = i}"
      proof (intro equalityI subsetI)
        fix k assume "k \<in> {k. k < 2 ^ 18 \<and> k div 2 ^ 9 = i}"
        then have "k = i * 512 + k mod 512" "k mod 512 \<in> set [0..<512]" by auto
        then show "k \<in> (\<lambda>j. i * 512 + j) ` set [0..<512]" by blast
      qed (use i in auto)
      ultimately show ?thesis using True unfolding un by simp
    qed
  qed
  have all: "upto (set [0..<512]) = {..<2 ^ 18}" by (auto simp: upto_def)
  show ?thesis
  proof (cases "vpd s self (d * 4096 div 2 ^ 30)")
    case True
    have "\<exists>t. each [0..<512] (\<lambda>i s. if vpm s self ((d * 4096 + i * 2 ^ 21) div 2 ^ 21) then
           each [0..<512] (\<lambda>j s. dup_page self (d * 4096) (n * 4096) (i * 2 ^ 21 + j * 2 ^ 12) s) s
         else Ret () s) s = Ret () t \<and> copied self d n s (upto (set [0..<512])) t"
      by (rule each_progress) (use table start in \<open>auto simp: upto_def\<close>)
    then show ?thesis using True unfolding dup_data_def all by simp
  next
    case False
    then have "vpt s self (d + k) = None" if "k < 2 ^ 18" for k using tabs(1) [OF ok(2) _ that refl] by blast
    then show ?thesis using False copied_skip [OF start _ apart, of "{..<2 ^ 18}"] by (simp add: dup_data_def)
  qed
qed

section \<open>Properties\<close>

text \<open>\<open>fd_alloc\<close> finds the smallest of the descriptors 0 to 30 whose page is not mapped, and fails exactly when
  all of these are in use, so the last of the 32 descriptors is never handed out; number, page and data
  area of the descriptor it finds determine each other.\<close>

lemma fd_alloc_least:
  assumes "fd_alloc self s = (r, fd)"
  shows "(r = - E_MAX_OPEN \<and> (\<forall>i < 31. fd_mapped self (INDEX2FD (int i)) s)) \<or>
    (\<exists>i < 31. r = 0 \<and> fd = INDEX2FD (int i) \<and> \<not> fd_mapped self fd s \<and>
       (\<forall>j < i. fd_mapped self (INDEX2FD (int j)) s) \<and>
       fd2num fd = int i \<and> num2fd (int i) = fd \<and> fd2data fd = 0x80000000 + i * 2 ^ 30)"
proof (cases "find (\<lambda>i. \<not> fd_mapped self (INDEX2FD (int i)) s) [0..<31]")
  case None
  then have "r = - E_MAX_OPEN" using assms by (simp add: fd_alloc_def)
  then show ?thesis using None by (auto simp: find_None_iff)
next
  case (Some i)
  note f = find_upt_least [OF Some]
  have "num2fd (int i) = INDEX2FD (int i)" by (simp add: num2fd_def INDEX2FD_def add.commute)
  then show ?thesis using assms Some f fd2num_INDEX2FD [of i] fd2data_INDEX2FD [of i] by (auto simp: fd_alloc_def)
qed

definition no_fds :: vm where
  "no_fds = demo_shared\<lparr>vpt := (\<lambda>_ _. None), frefs := (\<lambda>_. 0)\<rparr>"

lemma fd_alloc_least_witness: "\<exists>i < 31. fd_alloc 1 no_fds = (0, INDEX2FD (int i)) \<and> \<not> fd_mapped 1 (INDEX2FD (int i)) no_fds"
proof -
  obtain r fd where f: "fd_alloc 1 no_fds = (r, fd)" by fastforce
  have "\<not> fd_mapped 1 (INDEX2FD (int 0)) no_fds" by (simp add: fd_mapped_def no_fds_def)
  then show ?thesis using fd_alloc_least [OF f] f by force
qed

lemma vpt_mapped: "frame_of e p s = map_option fst (vpt s e p)" by (simp add: frame_of_def)

lemma dup_shares_lemma:
  assumes ok: "tables_ok s" "deny s = []" and ab: "a < 32" "b < 32" "a \<noteq> b"
    and old: "fd_mapped self (INDEX2FD (int a)) s" and new: "\<not> fd_mapped self (INDEX2FD (int b)) s"
    and d: "d = INDEX2DATA (int a) div 4096" and n: "n = INDEX2DATA (int b) div 4096"
  shows "\<exists>s'. dup devtab self (int a) (int b) s = Ret (int b) s' \<and> frames s' = frames s \<and>
    frame_of self (INDEX2FD (int b) div 4096) s' = frame_of self (INDEX2FD (int a) div 4096) s \<and>
    (\<forall>k < 2 ^ 18. vpt s self (d + k) \<noteq> None \<longrightarrow> frame_of self (n + k) s' = frame_of self (d + k) s) \<and>
    (\<forall>e p. e \<noteq> self \<or> p \<noteq> INDEX2FD (int b) div 4096 \<and> p \<notin> {n..<n + 2 ^ 18} \<longrightarrow> vpt s' e p = vpt s e p)"
proof -
  have D: "INDEX2DATA (int a) = d * 4096" "INDEX2DATA (int b) = n * 4096" "d = 2 ^ 19 + a * 2 ^ 18" "n = 2 ^ 19 + b * 2 ^ 18"
    using ab unfolding d n by (simp_all add: INDEX2DATA_nat)
  have F: "INDEX2FD (int a) div 4096 = 0x70000 + a" "INDEX2FD (int b) div 4096 = 0x70000 + b"
    "INDEX2FD (int a) < KBASE" "INDEX2FD (int b) < KBASE"
    using ab by (simp_all add: INDEX2FD_nat)
  have apart: "d + 2 ^ 18 \<le> n \<or> n + 2 ^ 18 \<le> d" using ab(3) unfolding D by (cases "a < b") auto
  have low: "(d + 2 ^ 18) * 4096 < KBASE" "(n + 2 ^ 18) * 4096 < KBASE" "d mod 2 ^ 18 = 0" using ab unfolding D by auto
  obtain t where t: "dup_data self (d * 4096) (n * 4096) s = Ret () t" "copied self d n s {..<2 ^ 18} t"
    using dup_data_copies [OF ok(2,1) apart low, of self] by blast
  have vt: "vpt t e p = vpt s e p" if "e \<noteq> self \<or> p \<notin> {n..<n + 2 ^ 18}" for e p
    using t(2) that by (auto simp: copied_def)
  obtain f pte where m: "vpt s self (0x70000 + a) = Some (f, pte)"
    using old fd_mapped_iff [OF ok(1)] F(1) by (metis option.exhaust surj_pair)
  have mt: "vpt t self (0x70000 + a) = Some (f, pte)" using vt [of self "0x70000 + a"] m ab unfolding D by auto
  let ?s = "map_page self (0x70000 + b) f (pte AND DUP_PERM) t"
  have map: "vm_mem_map self 0 (INDEX2FD (int a)) 0 (INDEX2FD (int b)) (pte AND DUP_PERM) t = (0, ?s)"
    using granted_map [of t "INDEX2FD (int a)" "INDEX2FD (int b)" self f pte] t(2) F mt by (simp add: copied_def)
  have look: "fd_lookup self (int a) s = (0, INDEX2FD (int a))" "fd_lookup self (int b) s = (- 3, 0)"
    using old new ab by (simp_all add: fd_lookup_def Let_def)
  have close: "close devtab self (int b) s = Ret (- 3) s" by (simp add: close_def look)
  have data: "fd2data (INDEX2FD (int a)) = d * 4096" "fd2data (INDEX2FD (int b)) = n * 4096"
    using ab D by (simp_all add: fd2data_INDEX2FD)
  have r: "dup devtab self (int a) (int b) s = Ret (int b) ?s"
    using F(1) mt map by (simp add: dup_def look close data t(1) Let_def)
  have new_data: "frame_of self (n + k) ?s = frame_of self (d + k) s" if "k < 2 ^ 18" "vpt s self (d + k) \<noteq> None" for k
  proof -
    have "vpt t self (n + k) = dup_entry (vpt s self (d + k))" using t(2) that by (auto simp: copied_def)
    moreover have "n + k \<noteq> 0x70000 + b" using ab unfolding D by simp
    ultimately show ?thesis by (cases "vpt s self (d + k)") (auto simp: frame_of_def dup_entry_def)
  qed
  have "frames ?s = frames s" "frame_of self (0x70000 + b) ?s = frame_of self (0x70000 + a) s"
    using t(2) m by (simp_all add: copied_def frame_of_def)
  moreover have "vpt ?s e p = vpt s e p" if "e \<noteq> self \<or> p \<noteq> 0x70000 + b \<and> p \<notin> {n..<n + 2 ^ 18}" for e p
    using vt [of e p] that by auto
  ultimately show ?thesis unfolding F using r new_data by blast
qed


text \<open>A program with descriptor 0 open on a file of one page.\<close>

definition one_fd :: vm where
  "one_fd = no_fds\<lparr>
     vpt := (\<lambda>e p. if e = 1 \<and> p = 0x70000 then Some (40, DUP_PERM) else if e = 1 \<and> p = 0x80000 then Some (41, DUP_PERM) else None),
     vpd := (\<lambda>_ _. True), vpm := (\<lambda>_ _. True)\<rparr>"


end
