(* ===== verification/Pipe.thy ===== *)
theory Pipe
  imports Fd
begin

text \<open>
  Pipes: user/pipe.c and user/pageref.c. Making and closing a pipe are calls on the program's memory. Reading
  and writing run concurrently with other programs, so \<open>piperead\<close>, \<open>pipewrite\<close> and \<open>_pipeisclosed\<close> are
  steps between which the processor may change hands. Steps are cut at the accesses to memory that other
  programs change: the page of the pipe, the reference counts and \<open>env_runs\<close>.
\<close>

section \<open>Making and closing a pipe\<close>

text \<open>\<open>syscall_get_pageref\<close> of the frame behind an address, 0 when nothing is mapped.\<close>

definition vm_pageref :: "u32 \<Rightarrow> nat \<Rightarrow> 'a vm_scheme \<Rightarrow> nat" where
  "vm_pageref self v s =
    (if \<not> vpd s self (v div 2 ^ 30) then 0
     else if \<not> vpm s self (v div 2 ^ 21) then 0
     else case vpt s self (v div 2 ^ 12) of None \<Rightarrow> 0 | Some (f, _) \<Rightarrow> frefs s f)"

abbreviation (input) DEV_PIPE :: u32 where "DEV_PIPE \<equiv> 112"
abbreviation (input) PIPE_PERM :: u64 where "PIPE_PERM \<equiv> VALID OR PTE_RW OR PTE_LIBRARY OR PTE_USER"

text \<open>
  \<open>r\<close> is unsigned, so an error number is never negative; and in the first two tests it gets the value of the
  comparison, 1 for a failed \<open>syscall_mem_alloc\<close>. \<open>unset0\<close> and \<open>unset1\<close> are what \<open>fd0\<close> and \<open>fd1\<close> hold
  before they are set. The results are the return value and \<open>pfd\<close>.
\<close>

definition pipe :: "nat \<Rightarrow> nat \<Rightarrow> u32 \<Rightarrow> 'a vm_scheme \<Rightarrow> (int \<times> int list, 'a) ures" where
  "pipe unset0 unset1 self s =
    (let (r, fd) = fd_alloc self s; fd0 = if r < 0 then unset0 else fd in
     case vm_mem_alloc self 0 fd0 PIPE_PERM s of (r, s) \<Rightarrow>
       if r < 0 then Ret (1, []) s
       else let (r, fd) = fd_alloc self s; fd1 = if r < 0 then unset1 else fd in
         case vm_mem_alloc self 0 fd1 PIPE_PERM s of (r, s) \<Rightarrow>
           if r < 0 then Ret (1, []) (snd (vm_mem_unmap self 0 fd0 s))
           else let va = fd2data fd0;
                    (_, s) = vm_mem_alloc self 0 va PIPE_PERM s;
                    (_, s) = vm_mem_map self 0 va 0 (fd2data fd1) PIPE_PERM s in
             obind (set_fd_dev_id self fd0 DEV_PIPE s) (\<lambda>_ s.
             obind (set_fd_omode self fd0 O_RDONLY s) (\<lambda>_ s.
             obind (set_fd_dev_id self fd1 DEV_PIPE s) (\<lambda>_ s.
             obind (set_fd_omode self fd1 O_WRONLY s) (\<lambda>_ s.
             Ret (0, [fd2num fd0, fd2num fd1]) s)))))"

definition pipeclose :: "u32 \<Rightarrow> nat \<Rightarrow> 'a vm_scheme \<Rightarrow> (int, 'a) ures" where
  "pipeclose self fd s = Ret 0 (snd (vm_mem_unmap self 0 (fd2data fd) (snd (vm_mem_unmap self 0 fd s))))"

text \<open>When nothing else runs, \<open>_pipeisclosed\<close> compares the two counts once.\<close>

definition pipeisclosed :: "u32 \<Rightarrow> int \<Rightarrow> 'a vm_scheme \<Rightarrow> int" where
  "pipeisclosed self fdnum s =
    (case fd_lookup self fdnum s of (r, fd) \<Rightarrow>
       if r < 0 then 1
       else if vm_pageref self fd s = vm_pageref self (fd2data fd) s then 1 else 0)"

section \<open>The shared page and its reference counts\<close>

text \<open>\<open>struct Pipe\<close>.\<close>

abbreviation (input) BY2PIPE :: nat where "BY2PIPE \<equiv> 32"

record pipe_page =
  p_rpos :: u64
  p_wpos :: u64
  p_buf :: "u8 list"

text \<open>How often the two descriptor pages and the page of the pipe are mapped.\<close>

record counts =
  rfd :: nat
  wfd :: nat
  pref :: nat

datatype endpoint = Read_end | Write_end

fun fd_count :: "endpoint \<Rightarrow> counts \<Rightarrow> nat" where
  "fd_count Read_end c = rfd c"
| "fd_count Write_end c = wfd c"

fun set_fd_count :: "endpoint \<Rightarrow> nat \<Rightarrow> counts \<Rightarrow> counts" where
  "set_fd_count Read_end n c = c\<lparr>rfd := n\<rparr>"
| "set_fd_count Write_end n c = c\<lparr>wfd := n\<rparr>"

text \<open>
  \<open>_pipeisclosed\<close>: where it is and what it has read so far. It starts again when \<open>env_runs\<close> shows that
  another program ran in between.
\<close>

datatype check =
    C_runs
  | C_fdref u32
  | C_pref u32 nat
  | C_cmp u32 nat nat
  | C_done bool

fun check_step :: "u32 \<Rightarrow> nat \<Rightarrow> nat \<Rightarrow> check \<Rightarrow> check" where
  "check_step now fd pg C_runs = C_fdref now"
| "check_step now fd pg (C_fdref runs) = C_pref runs fd"
| "check_step now fd pg (C_pref runs f) = C_cmp runs f pg"
| "check_step now fd pg (C_cmp runs f p) = (if runs \<noteq> now then C_runs else C_done (f = p))"
| "check_step now fd pg (C_done b) = C_done b"

section \<open>Reading (piperead)\<close>

datatype rpc =
    R_wait
  | R_wait_closed check
  | R_wait_yield
  | R_for
  | R_empty
  | R_empty_closed check
  | R_empty_yield
  | R_copy
  | R_advance
  | R_done nat

record reader =
  r_pc :: rpc
  r_i :: nat
  r_n :: nat
  r_buf :: "nat \<Rightarrow> u8"

text \<open>Only the reader writes \<open>p_rpos\<close> and only the writer \<open>p_wpos\<close>, so a comparison of the two is one step.\<close>

fun reader_step :: "u32 \<Rightarrow> counts \<Rightarrow> pipe_page \<times> reader \<Rightarrow> pipe_page \<times> reader" where
  "reader_step runs c (p, r) =
    (case r_pc r of
       R_wait \<Rightarrow> (p, r\<lparr>r_pc := if p_rpos p = p_wpos p then R_wait_closed C_runs else R_for\<rparr>)
     | R_wait_closed (C_done b) \<Rightarrow> (p, r\<lparr>r_pc := if b then R_done 0 else R_wait_yield\<rparr>)
     | R_wait_closed k \<Rightarrow> (p, r\<lparr>r_pc := R_wait_closed (check_step runs (rfd c) (pref c) k)\<rparr>)
     | R_wait_yield \<Rightarrow> (p, r\<lparr>r_pc := R_wait\<rparr>)
     | R_for \<Rightarrow> (p, r\<lparr>r_pc := if r_i r < r_n r then R_empty else R_done (r_n r)\<rparr>)
     | R_empty \<Rightarrow> (p, r\<lparr>r_pc := if p_rpos p = p_wpos p
                              then if r_i r > 0 then R_done (r_i r) else R_empty_closed C_runs
                              else R_copy\<rparr>)
     | R_empty_closed (C_done b) \<Rightarrow> (p, r\<lparr>r_pc := if b then R_done (r_i r) else R_empty_yield\<rparr>)
     | R_empty_closed k \<Rightarrow> (p, r\<lparr>r_pc := R_empty_closed (check_step runs (rfd c) (pref c) k)\<rparr>)
     | R_empty_yield \<Rightarrow> (p, r\<lparr>r_pc := R_empty\<rparr>)
     | R_copy \<Rightarrow> (p, r\<lparr>r_buf := (r_buf r)(r_i r := p_buf p ! (unat (p_rpos p) mod BY2PIPE)), r_pc := R_advance\<rparr>)
     | R_advance \<Rightarrow> (p\<lparr>p_rpos := p_rpos p + 1\<rparr>, r\<lparr>r_i := r_i r + 1, r_pc := R_for\<rparr>)
     | R_done k \<Rightarrow> (p, r))"

definition piperead :: "nat \<Rightarrow> reader" where
  "piperead n = \<lparr>r_pc = R_wait, r_i = 0, r_n = n, r_buf = (\<lambda>_. 0)\<rparr>"

section \<open>Writing (pipewrite)\<close>

datatype wpc =
    W_for
  | W_full
  | W_full_closed check
  | W_full_yield
  | W_store
  | W_advance
  | W_done nat

record writer =
  w_pc :: wpc
  w_i :: nat
  w_buf :: "u8 list"

text \<open>The number of bytes to write is the length of the buffer; positions in a buffer stay far below the bound of \<open>int\<close>.\<close>

fun writer_step :: "u32 \<Rightarrow> counts \<Rightarrow> pipe_page \<times> writer \<Rightarrow> pipe_page \<times> writer" where
  "writer_step runs c (p, w) =
    (case w_pc w of
       W_for \<Rightarrow> (p, w\<lparr>w_pc := if w_i w < length (w_buf w) then W_full else W_done (length (w_buf w))\<rparr>)
     | W_full \<Rightarrow> (p, w\<lparr>w_pc := if p_wpos p - p_rpos p = of_nat BY2PIPE then W_full_closed C_runs else W_store\<rparr>)
     | W_full_closed (C_done b) \<Rightarrow> (p, w\<lparr>w_pc := if b then W_done 0 else W_full_yield\<rparr>)
     | W_full_closed k \<Rightarrow> (p, w\<lparr>w_pc := W_full_closed (check_step runs (wfd c) (pref c) k)\<rparr>)
     | W_full_yield \<Rightarrow> (p, w\<lparr>w_pc := W_full\<rparr>)
     | W_store \<Rightarrow> (p\<lparr>p_buf := (p_buf p)[unat (p_wpos p) mod BY2PIPE := w_buf w ! w_i w]\<rparr>, w\<lparr>w_pc := W_advance\<rparr>)
     | W_advance \<Rightarrow> (p\<lparr>p_wpos := p_wpos p + 1\<rparr>, w\<lparr>w_i := w_i w + 1, w_pc := W_for\<rparr>)
     | W_done k \<Rightarrow> (p, w))"

definition pipewrite :: "u8 list \<Rightarrow> writer" where
  "pipewrite buf = \<lparr>w_pc = W_for, w_i = 0, w_buf = buf\<rparr>"

section \<open>Everything together\<close>

text \<open>
  One program reads, one writes, others hold descriptors too. One of them has the processor; \<open>runs\<close> is each
  one's \<open>env_runs\<close>, which the kernel counts up whenever it gives it the processor. Other programs
  duplicate a descriptor by mapping first the pipe and then the descriptor, and close one in the opposite
  order, as \<open>dup\<close> and \<open>pipeclose\<close> do; the reader and the writer close their own ends after the last call.
  \<open>sent\<close> and \<open>got\<close> record what passed the pipe, \<open>switches\<close> how often each got the processor.
\<close>

datatype who = Reader | Writer | Others

record world =
  page :: pipe_page
  refs :: counts
  rcall :: reader
  wcall :: writer
  cur :: who
  runs :: "who \<Rightarrow> u32"
  switches :: "who \<Rightarrow> nat"
  sent :: "u8 list"
  got :: "u8 list"

datatype choice =
    Act
  | Switch who
  | Read_call nat
  | Write_call "u8 list"
  | Dup_data endpoint
  | Dup_fd endpoint
  | Close_fd endpoint
  | Close_data

fun is_done :: "who \<Rightarrow> world \<Rightarrow> bool" where
  "is_done Reader w = (case r_pc (rcall w) of R_done _ \<Rightarrow> True | _ \<Rightarrow> False)"
| "is_done Writer w = (case w_pc (wcall w) of W_done _ \<Rightarrow> True | _ \<Rightarrow> False)"
| "is_done Others w = True"

text \<open>The descriptors that the reader's and the writer's running calls keep open.\<close>

definition held :: "endpoint \<Rightarrow> world \<Rightarrow> nat" where
  "held e w = (if is_done (case e of Read_end \<Rightarrow> Reader | Write_end \<Rightarrow> Writer) w then 0 else 1)"

definition act :: "world \<Rightarrow> world" where
  "act w =
    (case cur w of
       Reader \<Rightarrow>
         (case reader_step (runs w Reader) (refs w) (page w, rcall w) of (p, r) \<Rightarrow>
            w\<lparr>page := p, rcall := r,
              got := if r_pc (rcall w) = R_advance then got w @ [r_buf (rcall w) (r_i (rcall w))] else got w\<rparr>)
     | Writer \<Rightarrow>
         (case writer_step (runs w Writer) (refs w) (page w, wcall w) of (p, x) \<Rightarrow>
            w\<lparr>page := p, wcall := x,
              sent := if w_pc (wcall w) = W_advance then sent w @ [w_buf (wcall w) ! w_i (wcall w)] else sent w\<rparr>)
     | Others \<Rightarrow> w)"

fun step :: "choice \<Rightarrow> world \<Rightarrow> world option" where
  "step Act w = Some (act w)"
| "step (Switch q) w = Some (w\<lparr>cur := q, runs := (runs w)(q := runs w q + 1), switches := (switches w)(q := switches w q + 1)\<rparr>)"
| "step (Read_call n) w =
    (if cur w = Reader \<and> is_done Reader w \<and> rfd (refs w) > 0 then Some (w\<lparr>rcall := piperead n\<rparr>) else None)"
| "step (Write_call buf) w =
    (if cur w = Writer \<and> is_done Writer w \<and> wfd (refs w) > 0 then Some (w\<lparr>wcall := pipewrite buf\<rparr>) else None)"
| "step (Dup_data e) w =
    (if is_done (cur w) w \<and> fd_count e (refs w) > 0 then Some (w\<lparr>refs := (refs w)\<lparr>pref := pref (refs w) + 1\<rparr>\<rparr>) else None)"
| "step (Dup_fd e) w =
    (if is_done (cur w) w \<and> fd_count e (refs w) > 0 \<and> rfd (refs w) + wfd (refs w) < pref (refs w)
     then Some (w\<lparr>refs := set_fd_count e (fd_count e (refs w) + 1) (refs w)\<rparr>) else None)"
| "step (Close_fd e) w =
    (if is_done (cur w) w \<and> fd_count e (refs w) > held e w
     then Some (w\<lparr>refs := set_fd_count e (fd_count e (refs w) - 1) (refs w)\<rparr>) else None)"
| "step Close_data w =
    (if is_done (cur w) w \<and> rfd (refs w) + wfd (refs w) < pref (refs w)
     then Some (w\<lparr>refs := (refs w)\<lparr>pref := pref (refs w) - 1\<rparr>\<rparr>) else None)"

text \<open>A fresh pipe: both ends are open once and the page is empty.\<close>

definition fresh_pipe :: world where
  "fresh_pipe =
    \<lparr>page = \<lparr>p_rpos = 0, p_wpos = 0, p_buf = replicate BY2PIPE 0\<rparr>, refs = \<lparr>rfd = 1, wfd = 1, pref = 2\<rparr>,
     rcall = (piperead 0)\<lparr>r_pc := R_done 0\<rparr>, wcall = (pipewrite [])\<lparr>w_pc := W_done 0\<rparr>,
     cur = Others, runs = (\<lambda>_. 0), switches = (\<lambda>_. 0), sent = [], got = []\<rparr>"

inductive reach :: "world \<Rightarrow> bool" where
  fresh: "reach fresh_pipe"
| later: "reach w \<Longrightarrow> step c w = Some w' \<Longrightarrow> reach w'"

fun play :: "choice list \<Rightarrow> world \<Rightarrow> world option" where
  "play [] w = Some w"
| "play (c # cs) w = (case step c w of None \<Rightarrow> None | Some w' \<Rightarrow> play cs w')"

end
