(* ===== verification/Pipeprops.thy ===== *)
theory Pipeprops
  imports Pipe "HOL-Library.Sublist"
begin

text \<open>Properties of pipes: the bytes that pass and what the end of the data means.\<close>

section \<open>The ring as a queue\<close>

definition slot :: "u64 \<Rightarrow> nat" where "slot pos = unat pos mod BY2PIPE"

definition queue :: "pipe_page \<Rightarrow> u8 list" where
  "queue p = map (\<lambda>k. p_buf p ! slot (p_rpos p + of_nat k)) [0..<unat (p_wpos p - p_rpos p)]"

lemma slot_plus: "slot (pos + of_nat k) = (slot pos + k) mod BY2PIPE"
proof -
  have d: "(BY2PIPE :: nat) dvd 2 ^ 64" by simp
  have "unat (pos + of_nat k) mod BY2PIPE = (unat pos + k) mod 2 ^ 64 mod BY2PIPE"
    by (simp add: unat_word_ariths unat_of_nat mod_simps take_bit_eq_mod)
  also have "\<dots> = (unat pos + k) mod BY2PIPE" by (rule mod_mod_cancel [OF d])
  finally show ?thesis by (simp add: slot_def mod_simps)
qed

lemma slot_bound: "slot pos < BY2PIPE" by (simp add: slot_def)

lemma queue_length [simp]: "length (queue p) = unat (p_wpos p - p_rpos p)"
  by (simp add: queue_def)

lemma queue_empty: "queue p = [] \<longleftrightarrow> p_rpos p = p_wpos p"
  by (auto simp: queue_def unat_eq_0)

lemma queue_full: "p_wpos p - p_rpos p = of_nat BY2PIPE \<longleftrightarrow> length (queue p) = BY2PIPE"
  by (simp add: word_unat_eq_iff)

lemma slot_free:
  assumes "k < unat (w - r)" and "unat (w - r) < BY2PIPE"
  shows "slot (r + of_nat k) \<noteq> slot w"
proof -
  let ?n = "unat (w - r)"
  have "w = r + of_nat ?n" by simp
  then have "slot w = (slot r + ?n) mod BY2PIPE" by (metis slot_plus)
  moreover have "(slot r + k) mod BY2PIPE \<noteq> (slot r + ?n) mod BY2PIPE"
    using assms slot_bound [of r] by (auto simp: mod_if)
  ultimately show ?thesis by (simp add: slot_plus)
qed

text \<open>A store behind the last byte is not visible; counting up the position makes it the last byte.\<close>

lemma queue_store:
  assumes "length (queue p) < BY2PIPE"
  shows "queue (p\<lparr>p_buf := (p_buf p)[slot (p_wpos p) := x]\<rparr>) = queue p"
proof -
  have "(p_buf p)[slot (p_wpos p) := x] ! slot (p_rpos p + of_nat k) = p_buf p ! slot (p_rpos p + of_nat k)"
    if "k < unat (p_wpos p - p_rpos p)" for k
    using slot_free [OF that] assms by (intro nth_list_update_neq) auto
  then show ?thesis by (simp add: queue_def)
qed

lemma queue_put:
  assumes "length (queue p) < BY2PIPE"
  shows "queue (p\<lparr>p_wpos := p_wpos p + 1\<rparr>) = queue p @ [p_buf p ! slot (p_wpos p)]"
proof -
  let ?n = "unat (p_wpos p - p_rpos p)"
  have e: "p_wpos p + 1 - p_rpos p = (p_wpos p - p_rpos p) + 1" by simp
  have "unat (p_wpos p + 1 - p_rpos p) = ?n + 1"
    unfolding e by (rule unat_plus_one) (use assms in \<open>auto simp: unsigned_minus_1_eq_mask mask_eq_exp_minus_1\<close>)
  then show ?thesis by (simp add: queue_def)
qed

lemma queue_get:
  assumes "queue p \<noteq> []"
  shows "queue p = p_buf p ! slot (p_rpos p) # queue (p\<lparr>p_rpos := p_rpos p + 1\<rparr>)"
proof -
  let ?n = "unat (p_wpos p - (p_rpos p + 1))"
  have "p_wpos p - (p_rpos p + 1) \<noteq> - 1" using assms by (auto simp: queue_empty)
  then have "unat (p_wpos p - (p_rpos p + 1) + 1) = ?n + 1" by (rule unat_plus_one)
  moreover have "p_wpos p - (p_rpos p + 1) + 1 = p_wpos p - p_rpos p" by simp
  ultimately have n: "unat (p_wpos p - p_rpos p) = Suc ?n" by simp
  show ?thesis unfolding queue_def n
    by (simp add: map_upt_Suc add.assoc del: upt_Suc)
qed

section \<open>The stream\<close>

text \<open>Where a byte is there to be taken, where another one is still wanted, and where nothing was read yet.\<close>

fun has_byte :: "rpc \<Rightarrow> bool" where
  "has_byte R_copy = True" | "has_byte R_advance = True" | "has_byte _ = False"

fun wants_byte :: "rpc \<Rightarrow> bool" where
  "wants_byte R_wait = False" | "wants_byte (R_wait_closed _) = False" | "wants_byte R_wait_yield = False"
| "wants_byte R_for = False" | "wants_byte (R_done _) = False" | "wants_byte _ = True"

fun nothing_yet :: "rpc \<Rightarrow> bool" where
  "nothing_yet R_wait = True" | "nothing_yet (R_wait_closed _) = True" | "nothing_yet R_wait_yield = True"
| "nothing_yet _ = False"

fun result :: "rpc \<Rightarrow> nat option" where
  "result (R_done k) = Some k" | "result _ = None"

fun has_room :: "wpc \<Rightarrow> bool" where
  "has_room W_store = True" | "has_room W_advance = True" | "has_room _ = False"

fun has_more :: "wpc \<Rightarrow> bool" where
  "has_more W_for = False" | "has_more (W_done _) = False" | "has_more _ = True"

fun wresult :: "wpc \<Rightarrow> nat option" where
  "wresult (W_done k) = Some k" | "wresult _ = None"

lemma result_Some: "result pc = Some k \<longleftrightarrow> pc = R_done k" by (cases pc) auto
lemma wresult_Some: "wresult pc = Some k \<longleftrightarrow> pc = W_done k" by (cases pc) auto

definition taken :: "reader \<Rightarrow> u8 list" where "taken r = map (r_buf r) [0..<r_i r]"

definition reader_ok :: "u8 list \<Rightarrow> u8 list \<Rightarrow> reader \<Rightarrow> bool" where
  "reader_ok q g r \<longleftrightarrow>
    (has_byte (r_pc r) \<longrightarrow> q \<noteq> []) \<and> (r_pc r = R_advance \<longrightarrow> r_buf r (r_i r) = hd q) \<and>
    suffix (taken r) g \<and> r_i r \<le> r_n r \<and> (wants_byte (r_pc r) \<longrightarrow> r_i r < r_n r) \<and>
    (nothing_yet (r_pc r) \<longrightarrow> r_i r = 0) \<and> (result (r_pc r) \<noteq> None \<longrightarrow> result (r_pc r) = Some (r_i r))"

definition writer_ok :: "u8 list \<Rightarrow> u8 \<Rightarrow> u8 list \<Rightarrow> writer \<Rightarrow> bool" where
  "writer_ok q next_byte s w \<longleftrightarrow>
    (has_room (w_pc w) \<longrightarrow> length q < BY2PIPE) \<and> (w_pc w = W_advance \<longrightarrow> next_byte = w_buf w ! w_i w) \<and>
    suffix (take (w_i w) (w_buf w)) s \<and> w_i w \<le> length (w_buf w) \<and>
    (has_more (w_pc w) \<longrightarrow> w_i w < length (w_buf w)) \<and>
    (wresult (w_pc w) \<noteq> None \<longrightarrow> wresult (w_pc w) = Some 0 \<or> wresult (w_pc w) = Some (w_i w) \<and> w_i w = length (w_buf w))"

abbreviation (input) next_byte :: "pipe_page \<Rightarrow> u8" where "next_byte p \<equiv> p_buf p ! slot (p_wpos p)"

definition stream_ok :: "world \<Rightarrow> bool" where
  "stream_ok w \<longleftrightarrow> length (p_buf (page w)) = BY2PIPE \<and> length (queue (page w)) \<le> BY2PIPE \<and>
    sent w = got w @ queue (page w) \<and> reader_ok (queue (page w)) (got w) (rcall w) \<and>
    writer_ok (queue (page w)) (next_byte (page w)) (sent w) (wcall w)"

lemma stream_ok_cong:
  assumes "page v = page w" "rcall v = rcall w" "wcall v = wcall w" "sent v = sent w" "got v = got w"
  shows "stream_ok v = stream_ok w"
  using assms by (simp add: stream_ok_def)

text \<open>The abstract pipe.\<close>

inductive fifo_step :: "u8 list \<times> u8 list \<times> u8 list \<Rightarrow> u8 list \<times> u8 list \<times> u8 list \<Rightarrow> bool" where
  idle: "fifo_step (s, g, q) (s, g, q)"
| put: "length q < BY2PIPE \<Longrightarrow> fifo_step (s, g, q) (s @ [x], g, q @ [x])"
| get: "fifo_step (s, g, x # q) (s, g @ [x], q)"

definition fifo :: "world \<Rightarrow> u8 list \<times> u8 list \<times> u8 list" where
  "fifo w = (sent w, got w, queue (page w))"

lemma fifo_idle: "fifo v = fifo w \<Longrightarrow> fifo_step (fifo w) (fifo v)"
  by (cases "fifo w") (simp add: idle)

lemma fifo_fields: "page v = page w \<Longrightarrow> sent v = sent w \<Longrightarrow> got v = got w \<Longrightarrow> fifo v = fifo w"
  by (simp add: fifo_def)

text \<open>A step of the reader either only moves on, or takes a byte into its buffer, or counts it.\<close>

lemma reader_moves:
  assumes "reader_ok (queue p) g r" and "reader_step k c (p, r) = (p', r')" and "r_pc r \<noteq> R_advance"
  shows "p' = p \<and> reader_ok (queue p) g r'"
proof (cases "r_pc r")
  case (R_wait_closed x)
  then show ?thesis using assms by (cases x) (auto simp: reader_ok_def taken_def split: if_splits)
next
  case (R_empty_closed x)
  then show ?thesis using assms by (cases x) (auto simp: reader_ok_def taken_def split: if_splits)
next
  case R_copy
  then have "queue p \<noteq> []" using assms by (simp add: reader_ok_def)
  then have "hd (queue p) = p_buf p ! slot (p_rpos p)" by (subst queue_get) simp_all
  then show ?thesis using assms R_copy by (auto simp: reader_ok_def taken_def slot_def)
qed (use assms in \<open>auto simp: reader_ok_def taken_def queue_empty split: if_splits\<close>)

lemma reader_advances:
  assumes "reader_ok q g r" and "r_pc r = R_advance" and "q = x # q'"
  shows "reader_ok q' (g @ [x]) (r\<lparr>r_i := r_i r + 1, r_pc := R_for\<rparr>)"
  using assms by (auto simp: reader_ok_def taken_def suffix_def)

lemma reader_act:
  assumes ok: "stream_ok w" and cur: "cur w = Reader"
  shows "stream_ok (act w) \<and> fifo_step (fifo w) (fifo (act w))"
proof (cases "r_pc (rcall w) = R_advance")
  case False
  obtain p r where e: "reader_step (runs w Reader) (refs w) (page w, rcall w) = (p, r)" by fastforce
  have "p = page w \<and> reader_ok (queue (page w)) (got w) r"
    by (rule reader_moves [OF _ e False]) (use ok in \<open>unfold stream_ok_def, blast\<close>)
  then have "act w = w\<lparr>rcall := r\<rparr> \<and> reader_ok (queue (page w)) (got w) r"
    using False cur e by (simp add: act_def)
  then show ?thesis using ok by (auto simp: stream_ok_def intro!: fifo_idle fifo_fields)
next
  case True
  let ?p = "(page w)\<lparr>p_rpos := p_rpos (page w) + 1\<rparr>" and ?x = "r_buf (rcall w) (r_i (rcall w))"
  have ne: "queue (page w) \<noteq> []" using ok True by (simp add: stream_ok_def reader_ok_def)
  have q: "queue (page w) = ?x # queue ?p"
    using queue_get [OF ne] ok True by (metis list.sel(1) reader_ok_def stream_ok_def)
  then have len: "length (queue (page w)) = Suc (length (queue ?p))" by (simp del: queue_length)
  have a: "act w = w\<lparr>page := ?p, rcall := (rcall w)\<lparr>r_i := r_i (rcall w) + 1, r_pc := R_for\<rparr>, got := got w @ [?x]\<rparr>"
    using True cur by (simp add: act_def)
  have "reader_ok (queue ?p) (got w @ [?x]) ((rcall w)\<lparr>r_i := r_i (rcall w) + 1, r_pc := R_for\<rparr>)"
    by (rule reader_advances [OF _ True q]) (use ok in \<open>unfold stream_ok_def, blast\<close>)
  moreover have "writer_ok (queue ?p) (next_byte (page w)) (sent w) (wcall w)"
    using ok len by (auto simp: stream_ok_def writer_ok_def simp del: queue_length)
  ultimately show ?thesis
    using ok len q get [of "sent w" "got w" ?x "queue ?p"] unfolding a
    by (simp add: stream_ok_def fifo_def del: queue_length)
qed

lemma writer_moves:
  assumes "writer_ok (queue p) (next_byte p) s w" and "writer_step k c (p, w) = (p', w')" and "w_pc w \<noteq> W_advance"
    and "length (queue p) \<le> BY2PIPE" and "length (p_buf p) = BY2PIPE"
  shows "queue p' = queue p \<and> length (p_buf p') = BY2PIPE \<and> writer_ok (queue p) (next_byte p') s w'"
proof (cases "w_pc w")
  case (W_full_closed x)
  then show ?thesis using assms by (cases x) (auto simp: writer_ok_def split: if_splits)
next
  case W_full
  then show ?thesis using assms queue_full [of p] by (auto simp: writer_ok_def split: if_splits)
next
  case W_store
  then have "length (queue p) < BY2PIPE" using assms by (simp add: writer_ok_def)
  then show ?thesis using assms W_store queue_store [of p] slot_bound [of "p_wpos p"]
    by (auto simp: writer_ok_def slot_def [symmetric] simp del: queue_length)
qed (use assms in \<open>auto simp: writer_ok_def split: if_splits\<close>)

lemma writer_advances:
  assumes "writer_ok q x s w" and "w_pc w = W_advance"
  shows "writer_ok q' y (s @ [x]) (w\<lparr>w_i := w_i w + 1, w_pc := W_for\<rparr>)"
  using assms by (auto simp: writer_ok_def suffix_def take_Suc_conv_app_nth)

lemma writer_act:
  assumes ok: "stream_ok w" and cur: "cur w = Writer"
  shows "stream_ok (act w) \<and> fifo_step (fifo w) (fifo (act w))"
proof (cases "w_pc (wcall w) = W_advance")
  case False
  obtain p x where e: "writer_step (runs w Writer) (refs w) (page w, wcall w) = (p, x)" by fastforce
  have "queue p = queue (page w) \<and> length (p_buf p) = BY2PIPE \<and> writer_ok (queue (page w)) (next_byte p) (sent w) x"
    by (rule writer_moves [OF _ e False]) (use ok in \<open>unfold stream_ok_def, blast+\<close>)
  moreover have "act w = w\<lparr>page := p, wcall := x\<rparr>" using False cur e by (simp add: act_def)
  ultimately show ?thesis using ok by (auto simp: stream_ok_def fifo_def idle simp del: queue_length)
next
  case True
  let ?p = "(page w)\<lparr>p_wpos := p_wpos (page w) + 1\<rparr>" and ?x = "w_buf (wcall w) ! w_i (wcall w)"
  have short: "length (queue (page w)) < BY2PIPE" and x: "next_byte (page w) = ?x"
    using ok True by (simp_all add: stream_ok_def writer_ok_def del: queue_length)
  have q: "queue ?p = queue (page w) @ [?x]" using queue_put [OF short] x by (simp del: queue_length)
  have a: "act w = w\<lparr>page := ?p, wcall := (wcall w)\<lparr>w_i := w_i (wcall w) + 1, w_pc := W_for\<rparr>, sent := sent w @ [?x]\<rparr>"
    using True cur by (simp add: act_def)
  have "writer_ok (queue ?p) (next_byte ?p) (sent w @ [?x]) ((wcall w)\<lparr>w_i := w_i (wcall w) + 1, w_pc := W_for\<rparr>)"
    unfolding x [symmetric] by (rule writer_advances [OF _ True]) (use ok in \<open>unfold stream_ok_def, blast\<close>)
  moreover have "reader_ok (queue ?p) (got w) (rcall w)"
    using ok unfolding q by (auto simp: stream_ok_def reader_ok_def hd_append)
  ultimately show ?thesis
    using ok q short put [OF short, of "sent w" "got w" ?x] unfolding a
    by (simp add: stream_ok_def fifo_def del: queue_length)
qed

lemma act_stream: "stream_ok w \<Longrightarrow> stream_ok (act w) \<and> fifo_step (fifo w) (fifo (act w))"
proof (cases "cur w")
  case Others
  then have "act w = w" by (simp add: act_def)
  then show "stream_ok w \<Longrightarrow> ?thesis" by (simp add: fifo_idle)
qed (use reader_act writer_act in \<open>blast+\<close>)

lemma call_ok [simp]: "reader_ok q g (piperead n)" "writer_ok q x s (pipewrite buf)"
  by (simp_all add: reader_ok_def writer_ok_def taken_def piperead_def pipewrite_def)

lemma step_stream:
  assumes ok: "stream_ok w" and s: "step c w = Some w'"
  shows "stream_ok w' \<and> fifo_step (fifo w) (fifo w')"
proof (cases c)
  case Act
  then show ?thesis using s act_stream [OF ok] by simp
next
  case (Read_call n)
  then have w': "w' = w\<lparr>rcall := piperead n\<rparr>" using s by (simp split: if_splits)
  show ?thesis unfolding w' using ok by (auto simp: stream_ok_def simp del: queue_length intro!: fifo_idle fifo_fields)
next
  case (Write_call buf)
  then have w': "w' = w\<lparr>wcall := pipewrite buf\<rparr>" using s by (simp split: if_splits)
  show ?thesis unfolding w' using ok by (auto simp: stream_ok_def simp del: queue_length intro!: fifo_idle fifo_fields)
qed (use s in \<open>auto intro!: stream_ok_cong [THEN iffD2, OF _ _ _ _ _ ok] fifo_idle fifo_fields simp del: is_done.simps split: if_splits\<close>)

lemma reach_stream: "reach w \<Longrightarrow> stream_ok w"
proof (induction rule: reach.induct)
  case fresh
  show ?case
    by (simp add: fresh_pipe_def piperead_def pipewrite_def stream_ok_def reader_ok_def writer_ok_def taken_def queue_def)
next
  case (later w c w')
  then show ?case using step_stream by blast
qed

section \<open>The reference counts\<close>

text \<open>
  Every open descriptor maps the page of the pipe; the mappings beyond that belong to a \<open>dup\<close> or a close that
  has not finished. What a running \<open>_pipeisclosed\<close> has read is the truth unless another program ran since.
\<close>

fun who_of :: "endpoint \<Rightarrow> who" where "who_of Read_end = Reader" | "who_of Write_end = Writer"
fun other :: "endpoint \<Rightarrow> endpoint" where "other Read_end = Write_end" | "other Write_end = Read_end"

fun check_of :: "endpoint \<Rightarrow> world \<Rightarrow> check option" where
  "check_of Read_end w =
    (case r_pc (rcall w) of R_wait_closed k \<Rightarrow> Some k | R_empty_closed k \<Rightarrow> Some k | _ \<Rightarrow> None)"
| "check_of Write_end w = (case w_pc (wcall w) of W_full_closed k \<Rightarrow> Some k | _ \<Rightarrow> None)"

text \<open>A call gave up because it found the other end closed.\<close>

fun gave_up :: "endpoint \<Rightarrow> world \<Rightarrow> bool" where
  "gave_up Read_end w \<longleftrightarrow> r_pc (rcall w) = R_done 0 \<and> r_n (rcall w) > 0"
| "gave_up Write_end w \<longleftrightarrow> (\<exists>k. w_pc (wcall w) = W_done k \<and> k < length (w_buf (wcall w)))"

definition seen_ok :: "endpoint \<Rightarrow> world \<Rightarrow> nat \<Rightarrow> bool \<Rightarrow> bool" where
  "seen_ok e w m ok \<longleftrightarrow> m \<le> switches w (who_of e) \<and> (m = switches w (who_of e) \<and> cur w = who_of e \<longrightarrow> ok)"

fun check_ok :: "endpoint \<Rightarrow> world \<Rightarrow> check \<Rightarrow> bool" where
  "check_ok e w C_runs \<longleftrightarrow> True"
| "check_ok e w (C_fdref r) \<longleftrightarrow> (\<exists>m. r = of_nat m \<and> seen_ok e w m True)"
| "check_ok e w (C_pref r f) \<longleftrightarrow> (\<exists>m. r = of_nat m \<and> seen_ok e w m (f = fd_count e (refs w)))"
| "check_ok e w (C_cmp r f p) \<longleftrightarrow>
    (\<exists>m. r = of_nat m \<and> seen_ok e w m (f = fd_count e (refs w) \<and> p = pref (refs w)))"
| "check_ok e w (C_done b) \<longleftrightarrow> (b \<longrightarrow> fd_count (other e) (refs w) = 0)"

definition end_ok :: "world \<Rightarrow> endpoint \<Rightarrow> bool" where
  "end_ok w e \<longleftrightarrow> runs w (who_of e) = of_nat (switches w (who_of e)) \<and>
    (\<not> is_done (who_of e) w \<longrightarrow> fd_count e (refs w) > 0) \<and>
    (switches w (who_of e) < 2 ^ 32 \<longrightarrow>
       (\<forall>k. check_of e w = Some k \<longrightarrow> check_ok e w k) \<and>
       (gave_up e w \<longrightarrow> fd_count (other e) (refs w) = 0))"

definition refs_ok :: "world \<Rightarrow> bool" where
  "refs_ok w \<longleftrightarrow> rfd (refs w) + wfd (refs w) \<le> pref (refs w) \<and> (\<forall>e. end_ok w e)"

lemma of_nat_switch:
  assumes "(of_nat m :: u32) = of_nat n" and "m \<le> n" and "n < 2 ^ 32"
  shows "m = n"
proof -
  have "unat (of_nat m :: u32) = m" "unat (of_nat n :: u32) = n"
    using assms(2,3) by (simp_all add: unat_of_nat take_bit_nat_eq_self)
  then show ?thesis using assms(1) by metis
qed

lemma check_step_ok:
  assumes c: "rfd (refs w) + wfd (refs w) \<le> pref (refs w)" and k: "check_ok e w k"
    and now: "runs w (who_of e) = of_nat (switches w (who_of e))" "switches w (who_of e) < 2 ^ 32" "cur w = who_of e"
  shows "check_ok e w (check_step (runs w (who_of e)) (fd_count e (refs w)) (pref (refs w)) k)"
proof (cases k)
  case (C_cmp r f p)
  then obtain m where m: "r = of_nat m" "seen_ok e w m (f = fd_count e (refs w) \<and> p = pref (refs w))" using k by auto
  show ?thesis
  proof (cases "r = runs w (who_of e)")
    case True
    then have "m = switches w (who_of e)" using m now(1,2) by (intro of_nat_switch) (auto simp: seen_ok_def)
    then have "f = fd_count e (refs w) \<and> p = pref (refs w)" using m(2) now(3) by (simp add: seen_ok_def)
    then show ?thesis using C_cmp True c by (cases e) auto
  next
    case False
    then show ?thesis using C_cmp by simp
  qed
qed (use k now in \<open>auto simp: seen_ok_def\<close>)

text \<open>What a step of an end's own call does to its check.\<close>

lemma act_other: "cur w \<noteq> who_of e \<Longrightarrow> check_of e (act w) = check_of e w \<and>
    gave_up e (act w) = gave_up e w \<and> is_done (who_of e) (act w) = is_done (who_of e) w"
  by (cases e; cases "cur w") (simp_all add: act_def split_beta)

lemma act_fields [simp]:
  "refs (act w) = refs w" "cur (act w) = cur w" "runs (act w) = runs w" "switches (act w) = switches w"
  by (cases "cur w"; simp add: act_def split_beta)+

lemma reader_check:
  assumes "cur w = Reader"
  shows "(is_done Reader w \<longrightarrow> is_done Reader (act w)) \<and>
    (gave_up Read_end (act w) \<longrightarrow> gave_up Read_end w \<or> check_of Read_end w = Some (C_done True)) \<and>
    (\<forall>k. check_of Read_end (act w) = Some k \<longrightarrow> k = C_runs \<or>
       (\<exists>k'. check_of Read_end w = Some k' \<and> k = check_step (runs w Reader) (rfd (refs w)) (pref (refs w)) k'))"
proof (cases "r_pc (rcall w)")
  case (R_wait_closed x)
  then show ?thesis using assms by (cases x) (simp_all add: act_def)
next
  case (R_empty_closed x)
  then show ?thesis using assms by (cases x) (simp_all add: act_def)
qed (use assms in \<open>simp_all add: act_def\<close>)

lemma writer_check:
  assumes "cur w = Writer"
  shows "(is_done Writer w \<longrightarrow> is_done Writer (act w)) \<and>
    (gave_up Write_end (act w) \<longrightarrow> gave_up Write_end w \<or> check_of Write_end w = Some (C_done True)) \<and>
    (\<forall>k. check_of Write_end (act w) = Some k \<longrightarrow> k = C_runs \<or>
       (\<exists>k'. check_of Write_end w = Some k' \<and> k = check_step (runs w Writer) (wfd (refs w)) (pref (refs w)) k'))"
proof (cases "w_pc (wcall w)")
  case (W_full_closed x)
  then show ?thesis using assms by (cases x) (simp_all add: act_def)
qed (use assms in \<open>simp_all add: act_def\<close>)

lemma own_check:
  assumes "cur w = who_of e"
  shows "(is_done (who_of e) w \<longrightarrow> is_done (who_of e) (act w)) \<and>
    (gave_up e (act w) \<longrightarrow> gave_up e w \<or> check_of e w = Some (C_done True)) \<and>
    (\<forall>k. check_of e (act w) = Some k \<longrightarrow> k = C_runs \<or>
       (\<exists>k'. check_of e w = Some k' \<and> k = check_step (runs w (who_of e)) (fd_count e (refs w)) (pref (refs w)) k'))"
  using reader_check [of w] writer_check [of w] assms by (cases e) simp_all

lemma check_ok_cong:
  assumes "refs v = refs w" "cur v = cur w" "switches v = switches w"
  shows "check_ok e v k = check_ok e w k"
  using assms by (cases k) (simp_all add: seen_ok_def)

lemma check_ok_calls [simp]:
  "check_ok e (w\<lparr>rcall := r\<rparr>) k = check_ok e w k" "check_ok e (w\<lparr>wcall := x\<rparr>) k = check_ok e w k"
  by (rule check_ok_cong; simp)+

lemma act_refs:
  assumes "refs_ok w"
  shows "refs_ok (act w)"
proof -
  have "end_ok (act w) e" for e
  proof (cases "cur w = who_of e")
    case False
    then show ?thesis using assms act_other [OF False] by (simp add: refs_ok_def end_ok_def check_ok_cong [of "act w" w])
  next
    case True
    have e: "end_ok w e" and c: "rfd (refs w) + wfd (refs w) \<le> pref (refs w)" using assms by (simp_all add: refs_ok_def)
    have "check_ok e w k" if "check_of e (act w) = Some k" "switches w (who_of e) < 2 ^ 32" for k
      using own_check [OF True] that e check_step_ok [OF c _ _ that(2) True] by (auto simp: end_ok_def)
    moreover have "fd_count (other e) (refs w) = 0" if "gave_up e (act w)" "switches w (who_of e) < 2 ^ 32"
      using own_check [OF True] that e by (auto simp: end_ok_def)
    ultimately show ?thesis using e own_check [OF True] by (auto simp: end_ok_def check_ok_cong [of "act w" w])
  qed
  then show ?thesis using assms by (simp add: refs_ok_def)
qed

lemma done_no_check: "is_done (who_of e) w \<Longrightarrow> check_of e w = None"
  by (cases e) (auto split: rpc.splits wpc.splits)

lemma switch_refs:
  assumes "refs_ok w"
  shows "refs_ok (w\<lparr>cur := q, runs := (runs w)(q := runs w q + 1), switches := (switches w)(q := switches w q + 1)\<rparr>)" (is "refs_ok ?v")
proof -
  have k: "check_ok e w k \<Longrightarrow> check_ok e ?v k" for e k
    by (cases k) (auto simp: seen_ok_def)
  have "is_done (who_of e) ?v = is_done (who_of e) w" "check_of e ?v = check_of e w" "gave_up e ?v = gave_up e w" for e
    by (cases e; simp)+
  then have "end_ok ?v e" for e
    using assms k [of e] by (auto simp: refs_ok_def end_ok_def)
  then show ?thesis using assms by (simp add: refs_ok_def)
qed

text \<open>A change of the counts by a program that is not in the middle of a call.\<close>

lemma count_refs:
  assumes ok: "refs_ok w" and d: "is_done (cur w) w" and le: "rfd c + wfd c \<le> pref c"
    and zero: "\<And>e. fd_count e (refs w) = 0 \<Longrightarrow> fd_count e c = 0"
    and pos: "\<And>e. \<not> is_done (who_of e) w \<Longrightarrow> fd_count e c > 0"
  shows "refs_ok (w\<lparr>refs := c\<rparr>)" (is "refs_ok ?v")
proof -
  have same: "is_done (who_of e) ?v = is_done (who_of e) w" "check_of e ?v = check_of e w" "gave_up e ?v = gave_up e w" for e
    by (cases e; simp)+
  have k: "check_ok e ?v k" if "check_ok e w k" "check_of e w = Some k" for e k
  proof -
    have "cur w \<noteq> who_of e" using that(2) d done_no_check [of e w] by auto
    then show ?thesis using that(1) zero [of "other e"] by (cases k) (auto simp: seen_ok_def)
  qed
  have "end_ok ?v e" for e
    using ok k [of e] pos [of e] zero [of "other e"] unfolding refs_ok_def end_ok_def same by simp
  then show ?thesis using le by (simp add: refs_ok_def)
qed

lemma step_refs:
  assumes ok: "refs_ok w" and s: "step c w = Some w'"
  shows "refs_ok w'"
proof -
  have le: "rfd (refs w) + wfd (refs w) \<le> pref (refs w)" using ok by (simp add: refs_ok_def)
  have end_ok: "end_ok w e" for e using ok by (simp add: refs_ok_def)
  have pos: "\<not> is_done (who_of e) w \<Longrightarrow> fd_count e (refs w) > 0" for e using ok by (simp add: refs_ok_def end_ok_def)
  show ?thesis
  proof (cases c)
    case Act
    then show ?thesis using s act_refs [OF ok] by simp
  next
    case (Switch q)
    then show ?thesis using s switch_refs [OF ok, of q] by auto
  next
    case (Read_call n)
    then have w': "w' = w\<lparr>rcall := piperead n\<rparr>" and r: "rfd (refs w) > 0" using s by (auto split: if_splits)
    have "end_ok w' e" for e
      using end_ok [of e] r unfolding w' by (cases e) (simp_all add: end_ok_def piperead_def)
    then show ?thesis using le by (simp add: refs_ok_def w')
  next
    case (Write_call buf)
    then have w': "w' = w\<lparr>wcall := pipewrite buf\<rparr>" and r: "wfd (refs w) > 0" using s by (auto split: if_splits)
    have "end_ok w' e" for e
      using end_ok [of e] r unfolding w' by (cases e) (simp_all add: end_ok_def pipewrite_def)
    then show ?thesis using le by (simp add: refs_ok_def w')
  next
    case (Dup_data e)
    then have w': "w' = w\<lparr>refs := (refs w)\<lparr>pref := pref (refs w) + 1\<rparr>\<rparr>" and d: "is_done (cur w) w"
      using s by (auto split: if_splits)
    have "fd_count e ((refs w)\<lparr>pref := x\<rparr>) = fd_count e (refs w)" for e x by (cases e) simp_all
    then show ?thesis unfolding w' using le pos by (intro count_refs [OF ok d]) auto
  next
    case (Dup_fd e)
    then have w': "w' = w\<lparr>refs := set_fd_count e (fd_count e (refs w) + 1) (refs w)\<rparr>" and d: "is_done (cur w) w"
      and g: "fd_count e (refs w) > 0" "rfd (refs w) + wfd (refs w) < pref (refs w)"
      using s by (auto split: if_splits)
    have "fd_count e' (set_fd_count e x (refs w)) = (if e' = e then x else fd_count e' (refs w))" for e' x
      by (cases e; cases e') simp_all
    moreover have "rfd (set_fd_count e (fd_count e (refs w) + 1) (refs w)) + wfd (set_fd_count e (fd_count e (refs w) + 1) (refs w))
        \<le> pref (set_fd_count e (fd_count e (refs w) + 1) (refs w))" using g by (cases e) simp_all
    ultimately show ?thesis unfolding w' using g pos by (intro count_refs [OF ok d]) auto
  next
    case (Close_fd e)
    then have w': "w' = w\<lparr>refs := set_fd_count e (fd_count e (refs w) - 1) (refs w)\<rparr>" and d: "is_done (cur w) w"
      and g: "fd_count e (refs w) > held e w"
      using s by (auto split: if_splits)
    have n: "fd_count e' (set_fd_count e x (refs w)) = (if e' = e then x else fd_count e' (refs w))" for e' x
      by (cases e; cases e') simp_all
    have "rfd (set_fd_count e (fd_count e (refs w) - 1) (refs w)) + wfd (set_fd_count e (fd_count e (refs w) - 1) (refs w))
        \<le> pref (set_fd_count e (fd_count e (refs w) - 1) (refs w))" using le by (cases e) simp_all
    moreover have "fd_count e' (set_fd_count e (fd_count e (refs w) - 1) (refs w)) > 0" if "\<not> is_done (who_of e') w" for e'
    proof -
      have "e' = e \<Longrightarrow> held e w = 1" using that by (cases e) (simp_all add: held_def)
      then show ?thesis using g pos [OF that] unfolding n by auto
    qed
    ultimately show ?thesis unfolding w' by (intro count_refs [OF ok d]) (auto simp: n)
  next
    case Close_data
    then have w': "w' = w\<lparr>refs := (refs w)\<lparr>pref := pref (refs w) - 1\<rparr>\<rparr>" and d: "is_done (cur w) w"
      and g: "rfd (refs w) + wfd (refs w) < pref (refs w)"
      using s by (auto split: if_splits)
    have "fd_count e ((refs w)\<lparr>pref := x\<rparr>) = fd_count e (refs w)" for e x by (cases e) simp_all
    then show ?thesis unfolding w' using g pos by (intro count_refs [OF ok d]) auto
  qed
qed

lemma reach_refs: "reach w \<Longrightarrow> refs_ok w"
proof (induction rule: reach.induct)
  case fresh
  have "end_ok fresh_pipe e" for e
    by (cases e) (simp_all add: end_ok_def fresh_pipe_def piperead_def pipewrite_def)
  then show ?case by (simp add: refs_ok_def fresh_pipe_def)
next
  case (later w c w')
  then show ?case using step_refs by blast
qed

section \<open>Properties\<close>

lemma play_reach: "reach w \<Longrightarrow> play cs w = Some w' \<Longrightarrow> reach w'"
  by (induction cs arbitrary: w) (auto split: option.splits intro: later)

text \<open>A writer sends two bytes and stops; a reader asks for three.\<close>

definition two_bytes :: "choice list" where
  "two_bytes = [Switch Writer, Write_call [7, 8]] @ replicate 9 Act @ [Switch Reader, Read_call 3] @ replicate 11 Act"

definition read_twice :: world where
  "read_twice = the (play two_bytes fresh_pipe)"

lemma play_two_bytes: "play two_bytes fresh_pipe = Some read_twice"
  "r_pc (rcall read_twice) = R_done 2" "w_pc (wcall read_twice) = W_done 2" "got read_twice = [7, 8]" "cur read_twice = Reader"
proof -
  have "play two_bytes fresh_pipe \<noteq> None" "map_option (\<lambda>w. (r_pc (rcall w), w_pc (wcall w), got w, cur w)) (play two_bytes fresh_pipe) =
      Some (R_done 2, W_done 2, [7, 8], Reader)"
    by code_simp+
  then show "play two_bytes fresh_pipe = Some read_twice"
    "r_pc (rcall read_twice) = R_done 2" "w_pc (wcall read_twice) = W_done 2" "got read_twice = [7, 8]" "cur read_twice = Reader"
    by (auto simp: read_twice_def)
qed

text \<open>C33: A pipe is a bounded queue: however reader, writer and the others interleave, each step takes the oldest
  byte, adds a byte while there are fewer than 32, or changes neither; nothing is lost, doubled or reordered.\<close>

theorem pipe_refines_fifo:
  assumes "reach w" and "step c w = Some w'"
  shows "fifo_step (fifo w) (fifo w') \<and> sent w = got w @ queue (page w) \<and> length (queue (page w)) \<le> BY2PIPE"
  using step_stream [OF reach_stream [OF assms(1)] assms(2)] reach_stream [OF assms(1)]
  unfolding stream_ok_def by (elim conjE, intro conjI)

theorem pipe_refines_fifo_witness:
  "sent read_twice = [7, 8] @ queue (page read_twice)"
  using pipe_refines_fifo [OF play_reach [OF fresh play_two_bytes(1)], of "Switch Writer"] play_two_bytes(4) by simp

text \<open>When \<open>piperead\<close> returns \<open>k\<close>, its buffer starts with the last \<open>k\<close> bytes taken from the pipe and \<open>k\<close> is at
  most what was asked for; when \<open>pipewrite\<close> returns the full length, the whole buffer went in, in order.\<close>

lemma pipe_calls_deliver:
  assumes "reach w"
  shows "(\<forall>k. r_pc (rcall w) = R_done k \<longrightarrow> k \<le> r_n (rcall w) \<and> suffix (map (r_buf (rcall w)) [0..<k]) (got w)) \<and>
    (\<forall>k. w_pc (wcall w) = W_done k \<and> k > 0 \<longrightarrow> k = length (w_buf (wcall w)) \<and> suffix (w_buf (wcall w)) (sent w))"
proof -
  have r: "reader_ok (queue (page w)) (got w) (rcall w)"
    and x: "writer_ok (queue (page w)) (next_byte (page w)) (sent w) (wcall w)"
    using reach_stream [OF assms] unfolding stream_ok_def by blast+
  have "k = r_i (rcall w)" if "r_pc (rcall w) = R_done k" for k
    using r that by (simp add: reader_ok_def)
  moreover have "k = w_i (wcall w) \<and> k = length (w_buf (wcall w))" if "w_pc (wcall w) = W_done k" "k > 0" for k
    using x that by (simp add: writer_ok_def)
  moreover have "suffix (map (r_buf (rcall w)) [0..<r_i (rcall w)]) (got w)" "r_i (rcall w) \<le> r_n (rcall w)"
    using r by (simp_all add: reader_ok_def taken_def)
  moreover have "suffix (take (w_i (wcall w)) (w_buf (wcall w))) (sent w)"
    using x by (simp add: writer_ok_def)
  ultimately show ?thesis by (metis order_refl take_all)
qed

lemma pipe_calls_deliver_witness:
  "suffix (map (r_buf (rcall read_twice)) [0..<2]) [7, 8]"
  using pipe_calls_deliver [OF play_reach [OF fresh play_two_bytes(1)]] unfolding play_two_bytes(2,4) by blast

text \<open>The writer's end is closed before the reader looks.\<close>

definition eof_run :: "choice list" where
  "eof_run = [Switch Writer, Close_fd Write_end, Close_data, Switch Reader, Read_call 1] @ replicate 6 Act"

definition at_eof :: world where "at_eof = the (play eof_run fresh_pipe)"

lemma play_eof: "play eof_run fresh_pipe = Some at_eof" "gave_up Read_end at_eof" "switches at_eof Reader = 1"
proof -
  have "play eof_run fresh_pipe \<noteq> None"
    "map_option (\<lambda>w. (r_pc (rcall w), r_n (rcall w), switches w Reader)) (play eof_run fresh_pipe) = Some (R_done 0, 1, 1)"
    by code_simp+
  then show "play eof_run fresh_pipe = Some at_eof" "gave_up Read_end at_eof" "switches at_eof Reader = 1"
    by (auto simp: at_eof_def)
qed



text \<open>The reader finds the pipe empty and loses the processor; the writer writes, closes and ends.\<close>

definition lost_run :: "choice list" where
  "lost_run = [Switch Reader, Read_call 1, Act, Switch Writer, Write_call [7]] @ replicate 5 Act @
     [Close_fd Write_end, Close_data, Switch Reader] @ replicate 5 Act"

text \<open>The end of the data may come too early: \<open>piperead\<close> looks first whether the pipe is empty and then
  whether it is closed, so it can return 0 while a byte is in the pipe and the write end is closed.\<close>

lemma pipe_eof_may_lose_data:
  "\<exists>w. reach w \<and> gave_up Read_end w \<and> queue (page w) = [7] \<and> wfd (refs w) = 0"
proof -
  have "map_option (\<lambda>w. (r_pc (rcall w), r_n (rcall w), queue (page w), wfd (refs w))) (play lost_run fresh_pipe) =
      Some (R_done 0, 1, [7], 0)"
    by code_simp
  then obtain w where "play lost_run fresh_pipe = Some w" "gave_up Read_end w" "queue (page w) = [7]" "wfd (refs w) = 0"
    by auto
  then show ?thesis using play_reach [OF fresh] by blast
qed

end
