(* ===== verification/Console.thy ===== *)
theory Console
  imports Fd
begin

text \<open>
  The console as a device: user/console.c. \<open>typed\<close> holds what \<open>syscall_getc\<close> will answer, 0 when no character
  is there yet, \<open>shown\<close> what \<open>syscall_putchar\<close> was given.
\<close>

record terminal = vm +
  typed :: "int list"
  shown :: "u8 list"

type_synonym 'r tres = "('r, terminal) outcome"

abbreviation (input) DEV_CONS :: u32 where "DEV_CONS \<equiv> 99"
abbreviation (input) O_RDWR :: u32 where "O_RDWR \<equiv> 2"

text \<open>The comparison with 0 is inside the assignment, so a bad descriptor counts as the console.\<close>

definition iscons :: "u32 \<Rightarrow> int \<Rightarrow> 'a vm_scheme \<Rightarrow> int" where
  "iscons self fdnum s =
    (case fd_lookup self fdnum s of (r, fd) \<Rightarrow>
       if r < 0 then 1 else if fd_dev_id self fd s = DEV_CONS then 1 else 0)"

definition opencons :: "u32 \<Rightarrow> 'a vm_scheme \<Rightarrow> (int, 'a) ures" where
  "opencons self s =
    (case fd_alloc self s of (r, fd) \<Rightarrow>
       if r < 0 then Ret r s
       else case vm_mem_alloc self 0 fd (VALID OR PTE_RW OR PTE_USER OR PTE_LIBRARY) s of (r, s) \<Rightarrow>
         if r < 0 then Ret r s
         else obind (set_fd_dev_id self fd DEV_CONS s) (\<lambda>_ s.
              obind (set_fd_omode self fd O_RDWR s) (\<lambda>_ s. Ret (fd2num fd) s)))"

fun getc_loop :: "int list \<Rightarrow> (int \<times> int list) option" where
  "getc_loop [] = None"
| "getc_loop (c # cs) = (if c = 0 then getc_loop cs else Some (c, cs))"

definition cons_read :: "u32 \<Rightarrow> nat \<Rightarrow> nat \<Rightarrow> u32 \<Rightarrow> u32 \<Rightarrow> terminal \<Rightarrow> int tres" where
  "cons_read self fd vbuf n offset s =
    (if n = 0 then Ret 0 s
     else case getc_loop (typed s) of
       None \<Rightarrow> Hang
     | Some (c, cs) \<Rightarrow>
         (let s = s\<lparr>typed := cs\<rparr> in
          if c < 0 then Ret c s
          else if c = 4 then Ret 0 s
          else obind (ustore self vbuf (word_of_int c) s) (\<lambda>_ s. Ret 1 s)))"

text \<open>At most 127 bytes go out in one call.\<close>

definition cons_write :: "u32 \<Rightarrow> nat \<Rightarrow> nat \<Rightarrow> u32 \<Rightarrow> u32 \<Rightarrow> terminal \<Rightarrow> int tres" where
  "cons_write self fd vbuf n offset s =
    (let k = min (unat n) 127
     in Ret (int k) (s\<lparr>shown := shown s @ map (\<lambda>i. vread self s (vbuf + i)) [0..<k]\<rparr>))"

definition cons_close :: "nat \<Rightarrow> 'a vm_scheme \<Rightarrow> (int, 'a) ures" where
  "cons_close fd s = Ret 0 s"

text \<open>The name is <cons>.\<close>

definition cons_stat :: "u32 \<Rightarrow> nat \<Rightarrow> nat \<Rightarrow> 'a vm_scheme \<Rightarrow> (int, 'a) ures" where
  "cons_stat self fd st s =
    obind (each [0..<7] (\<lambda>i s. ustore self (st + i) ([60, 99, 111, 110, 115, 62, 0] ! i) s) s) (\<lambda>_ s. Ret 0 s)"

definition devcons :: "u32 \<Rightarrow> unit terminal_ext dev" where
  "devcons self = \<lparr>dev_id = DEV_CONS, dev_read = cons_read self, dev_write = cons_write self,
     dev_close = cons_close, dev_stat = cons_stat self\<rparr>"

end
