(* ===== verification/Sh.thy ===== *)
theory Sh
  imports Fd Umem
begin

text \<open>
  The shell: user/sh.c. The scanner works in place on the line, by \<open>get\<close> and \<open>put\<close> of any byte memory.
  \<open>runcmd\<close> uses the calls of the library as arguments; \<open>exit\<close> does not return (\<open>Eret\<close>). What the shell
  prints is left out.
\<close>

section \<open>The scanner\<close>

abbreviation (input) WHITESPACE :: "u8 set" where "WHITESPACE \<equiv> {32, 9, 13, 10}"
abbreviation (input) SYMBOLS :: "u8 set" where "SYMBOLS \<equiv> {60, 124, 62, 38, 59, 40, 41}"

partial_function (option) skip_white ::
    "('s \<Rightarrow> nat \<Rightarrow> u8) \<Rightarrow> (nat \<Rightarrow> u8 \<Rightarrow> 's \<Rightarrow> 's) \<Rightarrow> nat \<Rightarrow> 's \<Rightarrow> (nat \<times> 's) option" where
  "skip_white get put p s = (if get s p \<in> WHITESPACE then skip_white get put (p + 1) (put p 0 s) else Some (p, s))"

partial_function (option) word_end :: "('s \<Rightarrow> nat \<Rightarrow> u8) \<Rightarrow> nat \<Rightarrow> 's \<Rightarrow> nat option" where
  "word_end get p s = (if get s p \<noteq> 0 \<and> get s p \<notin> WHITESPACE \<union> SYMBOLS then word_end get (p + 1) s else Some p)"

text \<open>The last token: \<open>nc\<close> is its kind, the code of a symbol, 119 for a word or 0; \<open>np1\<close> and \<open>np2\<close> its bounds.\<close>

record scanner =
  nc :: int
  np1 :: nat
  np2 :: nat

text \<open>\<open>_gettoken\<close> at \<open>p\<close>, where 0 is the null pointer.\<close>

definition get_token ::
    "('s \<Rightarrow> nat \<Rightarrow> u8) \<Rightarrow> (nat \<Rightarrow> u8 \<Rightarrow> 's \<Rightarrow> 's) \<Rightarrow> nat \<Rightarrow> scanner \<Rightarrow> 's \<Rightarrow> (scanner \<times> 's) option" where
  "get_token get put p k s =
    (if p = 0 then Some (k\<lparr>nc := 0\<rparr>, s)
     else case skip_white get put p s of
       None \<Rightarrow> None
     | Some (p, s) \<Rightarrow>
         if get s p = 0 then Some (\<lparr>nc = 0, np1 = 0, np2 = 0\<rparr>, s)
         else if get s p \<in> SYMBOLS then Some (\<lparr>nc = uint (get s p), np1 = p, np2 = p + 1\<rparr>, put p 0 s)
         else (case word_end get p s of
             None \<Rightarrow> None
           | Some e \<Rightarrow> Some (\<lparr>nc = 119, np1 = p, np2 = e\<rparr>, s)))"

text \<open>\<open>gettoken\<close> with a line reads the first token ahead; without, it returns the token read ahead, its kind
  and start, and reads the next.\<close>

definition gettoken_start where
  "gettoken_start get put p k s = get_token get put p k s"

definition gettoken ::
    "('s \<Rightarrow> nat \<Rightarrow> u8) \<Rightarrow> (nat \<Rightarrow> u8 \<Rightarrow> 's \<Rightarrow> 's) \<Rightarrow> scanner \<Rightarrow> 's \<Rightarrow> (int \<times> nat \<times> scanner \<times> 's) option" where
  "gettoken get put k s =
    (case get_token get put (np2 k) k s of
       None \<Rightarrow> None
     | Some (k', s) \<Rightarrow> Some (nc k, np1 k, k', s))"

section \<open>Running a line\<close>

record 's sh_calls =
  sh_open :: "nat \<Rightarrow> u32 \<Rightarrow> 's \<Rightarrow> (int, 's) outcome"
  sh_dup :: "int \<Rightarrow> int \<Rightarrow> 's \<Rightarrow> (int, 's) outcome"
  sh_close :: "int \<Rightarrow> 's \<Rightarrow> (int, 's) outcome"
  sh_close_all :: "'s \<Rightarrow> (unit, 's) outcome"
  sh_pipe :: "'s \<Rightarrow> (int \<times> int list, 's) outcome"
  sh_fork :: "'s \<Rightarrow> (int, 's) outcome"
  sh_spawn :: "nat \<Rightarrow> nat list \<Rightarrow> 's \<Rightarrow> (int, 's) outcome"
  sh_wait :: "int \<Rightarrow> 's \<Rightarrow> (unit, 's) outcome"

abbreviation (input) MAXARGS :: nat where "MAXARGS \<equiv> 16"

text \<open>Sixteen arguments fill \<open>argv\<close>, and the 0 behind the last is written past its end (\<open>Panic\<close>).\<close>

definition runit :: "'s sh_calls \<Rightarrow> nat list \<Rightarrow> int \<Rightarrow> 's \<Rightarrow> (unit, 's) outcome" where
  "runit sh argv rightpipe s =
    (if argv = [] then Ret () s
     else if length argv = MAXARGS then Panic ''argv'' s
     else obind (sh_spawn sh (argv ! 0) argv s) (\<lambda>r s.
       if r < 0 then Eret s
       else obind (sh_close_all sh s) (\<lambda>_ s.
         obind (sh_wait sh r s) (\<lambda>_ s.
           obind (if rightpipe \<noteq> 0 then sh_wait sh rightpipe s else Ret () s) (\<lambda>_ s. Eret s)))))"

text \<open>\<open><\<close> and \<open>>\<close>: open the file and make it descriptor 0 or 1.\<close>

definition redirect :: "'s sh_calls \<Rightarrow> nat \<Rightarrow> u32 \<Rightarrow> int \<Rightarrow> 's \<Rightarrow> (unit, 's) outcome" where
  "redirect sh t mode to s =
    obind (sh_open sh t mode s) (\<lambda>r s.
      if r < 0 then Eret s
      else obind (sh_dup sh r to s) (\<lambda>_ s. obind (sh_close sh r s) (\<lambda>_ s. Ret () s)))"

text \<open>\<open>|\<close>: the child reads from the pipe and goes on with the line, the parent writes into it. The result is
  that of \<open>fork\<close>.\<close>

definition connect :: "'s sh_calls \<Rightarrow> 's \<Rightarrow> (int, 's) outcome" where
  "connect sh s =
    obind (sh_pipe sh s) (\<lambda>(_, p) s.
    obind (sh_fork sh s) (\<lambda>r s.
      if r = 0 then
        obind (sh_dup sh (p ! 0) 0 s) (\<lambda>_ s. obind (sh_close sh (p ! 0) s) (\<lambda>_ s.
        obind (sh_close sh (p ! 1) s) (\<lambda>_ s. Ret 0 s)))
      else
        obind (sh_dup sh (p ! 1) 1 s) (\<lambda>_ s. obind (sh_close sh (p ! 1) s) (\<lambda>_ s.
        obind (sh_close sh (p ! 0) s) (\<lambda>_ s. Ret r s)))))"

fun leave :: "('a, 's) outcome \<Rightarrow> ('b, 's) outcome" where
  "leave (Ret _ s) = Eret s"
| "leave (Eret s) = Eret s"
| "leave (Panic m s) = Panic m s"
| "leave Hang = Hang"

text \<open>The loop of \<open>runcmd\<close>. The other symbols do nothing.\<close>

partial_function (option) runcmd_loop ::
    "('s \<Rightarrow> nat \<Rightarrow> u8) \<Rightarrow> (nat \<Rightarrow> u8 \<Rightarrow> 's \<Rightarrow> 's) \<Rightarrow> 's sh_calls \<Rightarrow> nat list \<Rightarrow> scanner \<Rightarrow> 's \<Rightarrow>
     (unit, 's) outcome option" where
  "runcmd_loop get put sh argv k s =
    (case gettoken get put k s of
       None \<Rightarrow> None
     | Some (c, t, k, s) \<Rightarrow>
         if c = 0 then Some (runit sh argv 0 s)
         else if c = 119 then
           (if length argv = MAXARGS then Some (Eret s) else runcmd_loop get put sh (argv @ [t]) k s)
         else if c = 60 \<or> c = 62 then
           (case gettoken get put k s of
              None \<Rightarrow> None
            | Some (c', t, k, s) \<Rightarrow>
                if c' \<noteq> 119 then Some (Eret s)
                else (case redirect sh t (if c = 60 then O_RDONLY else O_WRONLY) (if c = 60 then 0 else 1) s of
                    Ret _ s \<Rightarrow> runcmd_loop get put sh argv k s
                  | r \<Rightarrow> Some (leave r)))
         else if c = 124 then
           (case connect sh s of
              Ret r s \<Rightarrow> if r = 0 then runcmd_loop get put sh [] k s else Some (runit sh argv r s)
            | r \<Rightarrow> Some (leave r))
         else runcmd_loop get put sh argv k s)"

definition runcmd ::
    "('s \<Rightarrow> nat \<Rightarrow> u8) \<Rightarrow> (nat \<Rightarrow> u8 \<Rightarrow> 's \<Rightarrow> 's) \<Rightarrow> 's sh_calls \<Rightarrow> scanner \<Rightarrow> nat \<Rightarrow> 's \<Rightarrow> (unit, 's) outcome" where
  "runcmd get put sh k p s =
    of_opt (case gettoken_start get put p k s of None \<Rightarrow> None | Some (k, s) \<Rightarrow> runcmd_loop get put sh [] k s)"

section \<open>Reading a line\<close>

text \<open>\<open>getch\<close> is \<open>read\<close> on descriptor 0. A position before the line (-1) follows a deletion at its start.\<close>

partial_function (option) skip_rest ::
    "u32 \<Rightarrow> (nat \<Rightarrow> u64 \<Rightarrow> 'a vm_scheme \<Rightarrow> (int, 'a) ures) \<Rightarrow> nat \<Rightarrow> 'a vm_scheme \<Rightarrow> (unit, 'a) ures option" where
  "skip_rest self getch buf s =
    (case getch buf 1 s of
       Ret r s \<Rightarrow> if r = 1 \<and> vread self s buf \<noteq> 10 then skip_rest self getch buf s else Some (ustore self buf 0 s)
     | r \<Rightarrow> Some (leave r))"

partial_function (option) readline_from ::
    "u32 \<Rightarrow> (nat \<Rightarrow> u64 \<Rightarrow> 'a vm_scheme \<Rightarrow> (int, 'a) ures) \<Rightarrow> nat \<Rightarrow> u64 \<Rightarrow> int \<Rightarrow> 'a vm_scheme \<Rightarrow> (unit, 'a) ures option" where
  "readline_from self getch buf n i s =
    (if i < int (unat n) then
       (case getch (addr64 (int buf + i)) 1 s of
          Ret r s \<Rightarrow>
            if r \<noteq> 1 then Some (Eret s)
            else let c = vread self s (addr64 (int buf + i)) in
              if c = 8 \<or> c = 127 then readline_from self getch buf n (max (i - 2) (- 1) + 1) s
              else if c = 13 \<or> c = 10 then Some (ustore self (addr64 (int buf + i)) 0 s)
              else readline_from self getch buf n (i + 1) s
        | r \<Rightarrow> Some (leave r))
     else skip_rest self getch buf s)"

definition readline where
  "readline self getch buf n s = of_opt (readline_from self getch buf n 0 s)"

end
