(* ===== verification/Shprops.thy ===== *)
theory Shprops
  imports Sh
begin

text \<open>The scanner of the shell against a scanner of lists of characters.\<close>

section \<open>Reference scanner\<close>

datatype token = Word "u8 list" | Symbol u8

definition ordinary :: "u8 \<Rightarrow> bool" where
  "ordinary c \<longleftrightarrow> c \<notin> WHITESPACE \<union> SYMBOLS"

function lex :: "u8 list \<Rightarrow> token list" where
  "lex [] = []"
| "lex (c # cs) =
    (if c \<in> WHITESPACE then lex cs
     else if c \<in> SYMBOLS then Symbol c # lex cs
     else Word (c # takeWhile ordinary cs) # lex (dropWhile ordinary cs))"
  by pat_completeness auto
termination
  by (relation "measure length") (auto simp: le_imp_less_Suc length_dropWhile_le)

lemma lex_skip: "lex xs = lex (dropWhile (\<lambda>c. c \<in> WHITESPACE) xs)"
  by (induction xs) (auto simp del: insert_iff)

text \<open>All tokens of the rest of a line, as \<open>runcmd\<close> asks for them.\<close>

partial_function (option) tokens ::
    "('s \<Rightarrow> nat \<Rightarrow> u8) \<Rightarrow> (nat \<Rightarrow> u8 \<Rightarrow> 's \<Rightarrow> 's) \<Rightarrow> scanner \<Rightarrow> 's \<Rightarrow> ((int \<times> nat) list \<times> 's) option" where
  "tokens get put k s =
    (case gettoken get put k s of
       None \<Rightarrow> None
     | Some (c, t, k, s) \<Rightarrow>
         if c = 0 then Some ([], s)
         else Option.bind (tokens get put k s) (\<lambda>(ts, s). Some ((c, t) # ts, s)))"

fun spells :: "('s \<Rightarrow> nat \<Rightarrow> u8) \<Rightarrow> 's \<Rightarrow> token \<Rightarrow> int \<times> nat \<Rightarrow> bool" where
  "spells get s (Word w) (c, t) \<longleftrightarrow> c = 119 \<and> cstr get s t w"
| "spells get s (Symbol x) (c, t) \<longleftrightarrow> c = uint x"

section \<open>One token\<close>

lemma word_end_cstr:
  "cstr get s p xs \<Longrightarrow> word_end get p s = Some (p + length (takeWhile ordinary xs))"
proof (induction xs arbitrary: p)
  case Nil
  then show ?case by (simp add: word_end.simps)
next
  case (Cons c xs)
  show ?case
  proof (cases "ordinary c")
    case True
    then have "word_end get p s = word_end get (p + 1) s"
      using Cons.prems by (subst word_end.simps) (simp add: ordinary_def)
    then show ?thesis using Cons True by simp
  next
    case False
    then show ?thesis using Cons.prems by (subst word_end.simps) (simp add: ordinary_def)
  qed
qed

lemma cstr_append: "cstr get s p (xs @ ys) \<longleftrightarrow>
    0 \<notin> set xs \<and> (\<forall>i < length xs. get s (p + i) = xs ! i) \<and> cstr get s (p + length xs) ys"
proof (induction xs arbitrary: p)
  case (Cons x xs)
  then show ?case by (auto simp: All_less_Suc2)
qed simp

text \<open>What a scanner that has read ahead stands for: the tokens from here on.\<close>

fun stands_for :: "('s \<Rightarrow> nat \<Rightarrow> u8) \<Rightarrow> 's \<Rightarrow> scanner \<Rightarrow> token list \<Rightarrow> bool" where
  "stands_for get s k [] \<longleftrightarrow> nc k = 0 \<and> np2 k = 0"
| "stands_for get s k (Symbol c # ts) \<longleftrightarrow>
    nc k = uint c \<and> c \<noteq> 0 \<and> (\<exists>xs. cstr get s (np2 k) xs \<and> lex xs = ts \<and> 0 < np2 k)"
| "stands_for get s k (Word w # ts) \<longleftrightarrow>
    nc k = 119 \<and> 0 \<notin> set w \<and> np2 k = np1 k + length w \<and> (\<forall>i < length w. get s (np1 k + i) = w ! i) \<and> w \<noteq> [] \<and>
    (\<exists>xs. cstr get s (np2 k) xs \<and> lex xs = ts \<and> 0 < np2 k \<and> (xs = [] \<or> \<not> ordinary (hd xs)))"

context byte_mem
begin

lemma skip_white_cstr:
  "cstr get s p xs \<Longrightarrow> \<exists>s'. skip_white get put p s = Some (p + length (takeWhile (\<lambda>c. c \<in> WHITESPACE) xs), s') \<and>
    cstr get s' (p + length (takeWhile (\<lambda>c. c \<in> WHITESPACE) xs)) (dropWhile (\<lambda>c. c \<in> WHITESPACE) xs) \<and>
    (\<forall>b < p. get s' b = get s b) \<and> (xs = [] \<or> hd xs \<in> WHITESPACE \<longrightarrow> get s' p = 0)"
proof (induction xs arbitrary: p s)
  case Nil
  then show ?case by (simp add: skip_white.simps)
next
  case (Cons c xs)
  show ?case
  proof (cases "c \<in> WHITESPACE")
    case True
    have "cstr get (put p 0 s) (p + 1) xs" using Cons.prems cstr_put [of p "p + 1" xs 0 s] by simp
    from Cons.IH [OF this] obtain s' where
      s': "skip_white get put (p + 1) (put p 0 s) = Some (p + 1 + length (takeWhile (\<lambda>c. c \<in> WHITESPACE) xs), s')"
      "cstr get s' (p + 1 + length (takeWhile (\<lambda>c. c \<in> WHITESPACE) xs)) (dropWhile (\<lambda>c. c \<in> WHITESPACE) xs)"
      "\<forall>b < p + 1. get s' b = get (put p 0 s) b" by blast
    have "skip_white get put p s = skip_white get put (p + 1) (put p 0 s)"
      using Cons.prems True by (subst skip_white.simps) (simp del: insert_iff)
    then show ?thesis using s' True by (auto simp: get_put simp del: insert_iff)
  next
    case False
    then show ?thesis using Cons.prems by (subst skip_white.simps) (simp del: insert_iff)
  qed
qed

lemma get_token_stands:
  assumes "cstr get s p xs" and "0 < p"
  shows "\<exists>k' s'. get_token get put p k s = Some (k', s') \<and> stands_for get s' k' (lex xs) \<and>
    (\<forall>b < p. get s' b = get s b) \<and> (xs = [] \<or> \<not> ordinary (hd xs) \<longrightarrow> get s' p = 0) \<and> (nc k' = 0 \<or> p < np2 k')"
proof -
  let ?n = "length (takeWhile (\<lambda>c. c \<in> WHITESPACE) xs)" and ?ys = "dropWhile (\<lambda>c. c \<in> WHITESPACE) xs"
  let ?q = "p + ?n"
  obtain s1 where s1: "skip_white get put p s = Some (?q, s1)" "cstr get s1 ?q ?ys" "\<forall>b < p. get s1 b = get s b"
    "xs = [] \<or> hd xs \<in> WHITESPACE \<longrightarrow> get s1 p = 0" using skip_white_cstr [OF assms(1)] by blast
  show ?thesis
  proof (cases ?ys)
    case Nil
    have "lex xs = []" using lex_skip [of xs] unfolding Nil by simp
    moreover have "xs = [] \<or> hd xs \<in> WHITESPACE" using Nil by (cases xs) (auto simp del: insert_iff split: if_splits)
    moreover have "get_token get put p k s = Some (\<lparr>nc = 0, np1 = 0, np2 = 0\<rparr>, s1)"
      using s1 Nil assms(2) by (simp add: get_token_def del: insert_iff)
    ultimately show ?thesis using s1 by auto
  next
    case (Cons c zs)
    have nw: "c \<notin> WHITESPACE" using Cons hd_dropWhile [of "\<lambda>c. c \<in> WHITESPACE" xs] by (auto simp del: insert_iff)
    have c: "c \<noteq> 0" "get s1 ?q = c" "cstr get s1 (?q + 1) zs" using s1(2) Cons by simp_all
    have ne: "xs \<noteq> []" using Cons by auto
    have first: "get s1 p = 0" if "\<not> ordinary (hd xs)" "c \<notin> SYMBOLS \<or> ?n \<noteq> 0" "xs \<noteq> []"
    proof -
      have "hd xs \<in> WHITESPACE"
        using that Cons nw by (cases xs) (auto simp: ordinary_def simp del: insert_iff split: if_splits)
      then show ?thesis using s1(4) by blast
    qed
    show ?thesis
    proof (cases "c \<in> SYMBOLS")
      case True
      let ?k = "\<lparr>nc = uint c, np1 = ?q, np2 = ?q + 1\<rparr>"
      have t: "get_token get put p k s = Some (?k, put ?q 0 s1)"
        using s1(1) c True assms(2) by (simp add: get_token_def del: insert_iff)
      have l: "lex xs = Symbol c # lex zs" using True nw Cons by (subst lex_skip) (simp del: insert_iff)
      have "cstr get (put ?q 0 s1) (?q + 1) zs" using c(3) cstr_put [of ?q "?q + 1" zs 0 s1] by simp
      then have "stands_for get (put ?q 0 s1) ?k (lex xs)" unfolding l using c(1) by auto
      moreover have "get (put ?q 0 s1) p = 0" if "xs = [] \<or> \<not> ordinary (hd xs)"
        using first that ne by (cases "?n = 0") (auto simp: get_put)
      ultimately show ?thesis using t s1(3) by (auto simp: get_put)
    next
      case False
      let ?w = "c # takeWhile ordinary zs" and ?zs = "dropWhile ordinary zs"
      let ?k = "\<lparr>nc = 119, np1 = ?q, np2 = ?q + length ?w\<rparr>"
      have o: "ordinary c" using nw False unfolding ordinary_def by blast
      have e: "word_end get ?q s1 = Some (?q + length ?w)" using word_end_cstr [OF s1(2)] Cons o by simp
      have t: "get_token get put p k s = Some (?k, s1)"
        using s1(1) c False assms(2) e by (simp add: get_token_def del: insert_iff)
      have l: "lex xs = Word ?w # lex ?zs" using False nw Cons by (subst lex_skip) (simp del: insert_iff)
      have split: "?ys = ?w @ ?zs" using Cons by simp
      have w: "0 \<notin> set ?w" "\<forall>i < length ?w. get s1 (?q + i) = ?w ! i" "cstr get s1 (?q + length ?w) ?zs"
        using s1(2) unfolding split cstr_append by blast+
      have "?zs = [] \<or> \<not> ordinary (hd ?zs)" using hd_dropWhile by blast
      then have "stands_for get s1 ?k (lex xs)" unfolding l using w by auto
      moreover have "get s1 p = 0" if "xs = [] \<or> \<not> ordinary (hd xs)" using first that False ne by blast
      ultimately show ?thesis using t s1(3) by auto
    qed
  qed
qed

text \<open>All tokens, and what the line holds at the end.\<close>

lemma tokens_stands:
  assumes "stands_for get s k ts"
  shows "\<exists>cs s'. tokens get put k s = Some (cs, s') \<and> list_all2 (spells get s') ts cs \<and>
    (\<forall>b. nc k = 0 \<or> b < np2 k \<longrightarrow> get s' b = get s b)"
  using assms
proof (induction ts arbitrary: k s)
  case Nil
  then show ?case by (simp add: tokens.simps gettoken_def get_token_def)
next
  case (Cons tok ts)
  have "\<exists>xs. cstr get s (np2 k) xs \<and> lex xs = ts \<and> 0 < np2 k \<and> nc k \<noteq> 0 \<and>
    (\<forall>w. tok = Word w \<longrightarrow> nc k = 119 \<and> 0 \<notin> set w \<and> np2 k = np1 k + length w \<and>
       (\<forall>i < length w. get s (np1 k + i) = w ! i) \<and> (xs = [] \<or> \<not> ordinary (hd xs))) \<and>
    (\<forall>c. tok = Symbol c \<longrightarrow> nc k = uint c)"
  proof (cases tok)
    case (Word w)
    then obtain xs where "cstr get s (np2 k) xs \<and> lex xs = ts \<and> 0 < np2 k \<and> (xs = [] \<or> \<not> ordinary (hd xs))"
      using Cons.prems unfolding Word stands_for.simps by blast
    then show ?thesis using Cons.prems Word by (intro exI [of _ xs]) simp
  next
    case (Symbol c)
    then obtain xs where "cstr get s (np2 k) xs \<and> lex xs = ts \<and> 0 < np2 k"
      using Cons.prems unfolding Symbol stands_for.simps by blast
    then show ?thesis using Cons.prems Symbol by (intro exI [of _ xs]) (simp add: uint_0_iff)
  qed
  then obtain xs where xs: "cstr get s (np2 k) xs" "lex xs = ts" "0 < np2 k" "nc k \<noteq> 0"
    and word: "\<And>w. tok = Word w \<Longrightarrow> nc k = 119 \<and> 0 \<notin> set w \<and> np2 k = np1 k + length w \<and>
       (\<forall>i < length w. get s (np1 k + i) = w ! i) \<and> (xs = [] \<or> \<not> ordinary (hd xs))"
    and sym: "\<And>c. tok = Symbol c \<Longrightarrow> nc k = uint c"
    by blast
  obtain k1 s1 where k1: "get_token get put (np2 k) k s = Some (k1, s1)" "stands_for get s1 k1 ts"
    "\<forall>b < np2 k. get s1 b = get s b" "xs = [] \<or> \<not> ordinary (hd xs) \<longrightarrow> get s1 (np2 k) = 0" "nc k1 = 0 \<or> np2 k < np2 k1"
    using get_token_stands [OF xs(1,3), of k] xs(2) by blast
  obtain cs s' where cs: "tokens get put k1 s1 = Some (cs, s')" "list_all2 (spells get s') ts cs"
    "\<forall>b. nc k1 = 0 \<or> b < np2 k1 \<longrightarrow> get s' b = get s1 b" using Cons.IH [OF k1(2)] by blast
  have t: "tokens get put k s = Some ((nc k, np1 k) # cs, s')"
    using xs(4) k1(1) cs(1) by (subst tokens.simps) (simp add: gettoken_def)
  have frame: "get s' b = get s b" if "b < np2 k" for b using that k1(3,5) cs(3) by (metis less_trans)
  have "spells get s' tok (nc k, np1 k)"
  proof (cases tok)
    case (Word w)
    have "get s' (np2 k) = 0" using word [OF Word] k1(4,5) cs(3) by metis
    then have "cstr get s' (np1 k) w" using word [OF Word] frame by (auto simp: cstr_def)
    then show ?thesis using Word word [OF Word] by simp
  qed (use sym in simp)
  then show ?case using t cs(2) frame xs(4) by auto
qed

lemma scan_line:
  assumes "cstr get s p xs" and "0 < p"
  shows "\<exists>k1 s1 cs s'. gettoken_start get put p k s = Some (k1, s1) \<and> tokens get put k1 s1 = Some (cs, s') \<and>
    list_all2 (spells get s') (lex xs) cs"
proof -
  obtain k1 s1 where "get_token get put p k s = Some (k1, s1)" "stands_for get s1 k1 (lex xs)"
    using get_token_stands [OF assms, of k] by blast
  then show ?thesis using tokens_stands [of s1 k1 "lex xs"] by (auto simp: gettoken_start_def)
qed

end

section \<open>Properties\<close>

text \<open>C40: Scanning a line in place gives exactly the tokens of the reference scanner, in order, ends at the end of
  the line, and leaves every word as a string of its own at the address given for it, although a word is
  only ended when the token behind it is read.\<close>

theorem gettoken_scans:
  assumes "cstr uget s p xs" and "0 < p"
  shows "\<exists>k1 s1 cs s'. gettoken_start uget uput p k s = Some (k1, s1) \<and> tokens uget uput k1 s1 = Some (cs, s') \<and>
    list_all2 (spells uget s') (lex xs) cs"
  by (rule um.scan_line [OF assms])

text \<open>The line \<open>ls|wc >x\<close> at address 4096.\<close>

definition demo_line :: umem where
  "demo_line = \<lparr>ubytes = (\<lambda>a. if 4096 \<le> a \<and> a < 4104 then [108, 115, 124, 119, 99, 32, 62, 120] ! (a - 4096) else 0),
     uperm = (\<lambda>_. Some 0), grants = []\<rparr>"

theorem gettoken_scans_witness:
  "\<exists>k1 s1 cs s'. gettoken_start uget uput 4096 \<lparr>nc = 0, np1 = 0, np2 = 0\<rparr> demo_line = Some (k1, s1) \<and>
    tokens uget uput k1 s1 = Some (cs, s') \<and>
    list_all2 (spells uget s') [Word [108, 115], Symbol 124, Word [119, 99], Symbol 62, Word [120]] cs"
proof -
  have line: "cstr uget demo_line 4096 [108, 115, 124, 119, 99, 32, 62, 120]"
    by (simp add: uget_def demo_line_def)
  have lex: "lex [108, 115, 124, 119, 99, 32, 62, 120] =
      [Word [108, 115], Symbol 124, Word [119, 99], Symbol 62, Word [120]]"
    by (simp add: ordinary_def)
  show ?thesis
    using gettoken_scans [OF line zero_less_numeral, of "\<lparr>nc = 0, np1 = 0, np2 = 0\<rparr>"] unfolding lex .
qed

end
