(* ===== verification/File.thy ===== *)
theory File
  imports Fd
begin

text \<open>
  Files as user programs see them: user/fsipc.c and user/file.c. The file server is an argument, the
  function \<open>server\<close>: given the kind of request, the address of the request page, the address for the
  answer's page and the state, it yields the answer's value, its permissions and the state with that page
  mapped, or \<open>None\<close> when no answer comes. \<open>fsipcbuf\<close> is the program's request page.
\<close>

type_synonym 'a file_server = "u32 \<Rightarrow> nat \<Rightarrow> nat \<Rightarrow> 'a vm_scheme \<Rightarrow> (u64 \<times> u64 \<times> 'a vm_scheme) option"

record 'a client =
  self_id :: u32
  fsipcbuf :: nat
  server :: "'a file_server"

abbreviation (input) FSREQ_OPEN :: u32 where "FSREQ_OPEN \<equiv> 1"
abbreviation (input) FSREQ_MAP :: u32 where "FSREQ_MAP \<equiv> 2"
abbreviation (input) FSREQ_SET_SIZE :: u32 where "FSREQ_SET_SIZE \<equiv> 3"
abbreviation (input) FSREQ_CLOSE :: u32 where "FSREQ_CLOSE \<equiv> 4"
abbreviation (input) FSREQ_DIRTY :: u32 where "FSREQ_DIRTY \<equiv> 5"
abbreviation (input) FSREQ_REMOVE :: u32 where "FSREQ_REMOVE \<equiv> 6"
abbreviation (input) FSREQ_SYNC :: u32 where "FSREQ_SYNC \<equiv> 7"
abbreviation (input) FSREQ_CREATE :: u32 where "FSREQ_CREATE \<equiv> 8"
abbreviation (input) PATH_MAX :: nat where "PATH_MAX \<equiv> 1024"
abbreviation (input) FILE_MAX :: nat where "FILE_MAX \<equiv> 0x400000"
abbreviation (input) DEV_FILE :: u32 where "DEV_FILE \<equiv> 102"

section \<open>Copies in the program's memory\<close>

partial_function (option) ustrcpy :: "u32 \<Rightarrow> nat \<Rightarrow> nat \<Rightarrow> 'a vm_scheme \<Rightarrow> (unit, 'a) ures option" where
  "ustrcpy self dst src s =
    (let c = vread self s src in
     case touch_page self dst s of
       Ret _ s \<Rightarrow> if c = 0 then Some (Ret () (vwrite self dst c s)) else ustrcpy self (dst + 1) (src + 1) (vwrite self dst c s)
     | r \<Rightarrow> Some r)"

text \<open>\<open>user_bcopy\<close>, with the pages of the destination made present and writable first.\<close>

definition ubcopy :: "u32 \<Rightarrow> nat \<Rightarrow> nat \<Rightarrow> nat \<Rightarrow> 'a vm_scheme \<Rightarrow> (unit, 'a) ures" where
  "ubcopy self src dst n s =
    obind (each (if n = 0 then [] else [dst div 4096..<(dst + n - 1) div 4096 + 1]) (\<lambda>p s. touch_page self (p * 4096) s) s)
      (\<lambda>_ s. Ret () (user_bcopy (\<lambda>s. vread self s) (vwrite self) src dst n s))"

section \<open>Requests (user/fsipc.c)\<close>

text \<open>The results are the value as an \<open>int\<close> and the permissions.\<close>

definition fsipc :: "'a client \<Rightarrow> u32 \<Rightarrow> nat \<Rightarrow> 'a vm_scheme \<Rightarrow> (int \<times> u64, 'a) ures" where
  "fsipc c kind dstva s =
    (case server c kind (fsipcbuf c) dstva s of
       None \<Rightarrow> Hang
     | Some (v, perm, s) \<Rightarrow> Ret (sint (ucast v :: u32), perm) s)"

abbreviation (input) fsipc_value :: "'a client \<Rightarrow> u32 \<Rightarrow> nat \<Rightarrow> 'a vm_scheme \<Rightarrow> (int, 'a) ures" where
  "fsipc_value c kind dstva s \<equiv> obind (fsipc c kind dstva s) (\<lambda>(r, _) s. Ret r s)"

definition fsipc_open :: "'a client \<Rightarrow> nat \<Rightarrow> u32 \<Rightarrow> nat \<Rightarrow> 'a vm_scheme \<Rightarrow> (int, 'a) ures" where
  "fsipc_open c path omode fd s =
    (case strlen (\<lambda>s. vread (self_id c) s) path s of
       None \<Rightarrow> Hang
     | Some n \<Rightarrow>
         if n \<ge> PATH_MAX then Ret (- E_BAD_PATH) s
         else obind (of_opt (ustrcpy (self_id c) (fsipcbuf c) path s)) (\<lambda>_ s.
              obind (ustore32 (self_id c) (fsipcbuf c + PATH_MAX) omode s) (\<lambda>_ s.
              fsipc_value c FSREQ_OPEN fd s)))"

text \<open>A page that comes with permissions other than these is a panic.\<close>

definition fsipc_map :: "'a client \<Rightarrow> u32 \<Rightarrow> u32 \<Rightarrow> nat \<Rightarrow> 'a vm_scheme \<Rightarrow> (int, 'a) ures" where
  "fsipc_map c fileid offset dstva s =
    obind (ustore32 (self_id c) (fsipcbuf c) fileid s) (\<lambda>_ s.
    obind (ustore32 (self_id c) (fsipcbuf c + 4) offset s) (\<lambda>_ s.
    obind (fsipc c FSREQ_MAP dstva s) (\<lambda>(r, perm) s.
      if r < 0 then Ret r s
      else if perm AND NOT (PTE_RW OR PTE_LIBRARY OR PTE_USER) \<noteq> VALID then Panic ''fsipc_map: unexpected permissions'' s
      else Ret 0 s)))"

definition fsipc_set_size :: "'a client \<Rightarrow> u32 \<Rightarrow> u32 \<Rightarrow> 'a vm_scheme \<Rightarrow> (int, 'a) ures" where
  "fsipc_set_size c fileid sz s =
    obind (ustore32 (self_id c) (fsipcbuf c) fileid s) (\<lambda>_ s.
    obind (ustore32 (self_id c) (fsipcbuf c + 4) sz s) (\<lambda>_ s. fsipc_value c FSREQ_SET_SIZE 0 s))"

definition fsipc_close :: "'a client \<Rightarrow> u32 \<Rightarrow> 'a vm_scheme \<Rightarrow> (int, 'a) ures" where
  "fsipc_close c fileid s =
    obind (ustore32 (self_id c) (fsipcbuf c) fileid s) (\<lambda>_ s. fsipc_value c FSREQ_CLOSE 0 s)"

definition fsipc_dirty :: "'a client \<Rightarrow> u32 \<Rightarrow> u32 \<Rightarrow> 'a vm_scheme \<Rightarrow> (int, 'a) ures" where
  "fsipc_dirty c fileid offset s =
    obind (ustore32 (self_id c) (fsipcbuf c) fileid s) (\<lambda>_ s.
    obind (ustore32 (self_id c) (fsipcbuf c + 4) offset s) (\<lambda>_ s. fsipc_value c FSREQ_DIRTY 0 s))"

text \<open>The path is compared with the greatest file size, not with the room the request has for it.\<close>

definition fsipc_create :: "'a client \<Rightarrow> nat \<Rightarrow> u32 \<Rightarrow> 'a vm_scheme \<Rightarrow> (int, 'a) ures" where
  "fsipc_create c path filetype s =
    (case strlen (\<lambda>s. vread (self_id c) s) path s of
       None \<Rightarrow> Hang
     | Some n \<Rightarrow>
         if n \<ge> FILE_MAX then Ret (- E_BAD_PATH) s
         else obind (of_opt (ustrcpy (self_id c) (fsipcbuf c + 4) path s)) (\<lambda>_ s.
              obind (ustore32 (self_id c) (fsipcbuf c) filetype s) (\<lambda>_ s. fsipc_value c FSREQ_CREATE 0 s)))"

definition fsipc_remove :: "'a client \<Rightarrow> nat \<Rightarrow> 'a vm_scheme \<Rightarrow> (int, 'a) ures" where
  "fsipc_remove c path s =
    (case strlen (\<lambda>s. vread (self_id c) s) path s of
       None \<Rightarrow> Hang
     | Some n \<Rightarrow>
         if n \<ge> PATH_MAX then Ret (- E_BAD_PATH) s
         else obind (of_opt (ustrcpy (self_id c) (fsipcbuf c) path s)) (\<lambda>_ s. fsipc_value c FSREQ_REMOVE 0 s))"

definition fsipc_sync :: "'a client \<Rightarrow> 'a vm_scheme \<Rightarrow> (int, 'a) ures" where
  "fsipc_sync c s = fsipc_value c FSREQ_SYNC 0 s"

section \<open>Files (user/file.c)\<close>

text \<open>\<open>struct Filefd\<close>: the identifier is behind the descriptor, the copy of \<open>struct File\<close> behind that.\<close>

definition ffd_fileid :: "u32 \<Rightarrow> nat \<Rightarrow> 'a vm_scheme \<Rightarrow> u32" where
  "ffd_fileid self fd s = ld32 (\<lambda>s. vread self s) s (fd + 24)"
definition ffd_size :: "u32 \<Rightarrow> nat \<Rightarrow> 'a vm_scheme \<Rightarrow> u32" where
  "ffd_size self fd s = ld32 (\<lambda>s. vread self s) s (fd + 160)"
definition ffd_type :: "u32 \<Rightarrow> nat \<Rightarrow> 'a vm_scheme \<Rightarrow> u32" where
  "ffd_type self fd s = ld32 (\<lambda>s. vread self s) s (fd + 164)"

text \<open>The loops over the pages of a file count in \<open>u32\<close>.\<close>

partial_function (option) map_pages :: "'a client \<Rightarrow> u32 \<Rightarrow> u32 \<Rightarrow> nat \<Rightarrow> u32 \<Rightarrow> 'a vm_scheme \<Rightarrow> (int, 'a) ures option" where
  "map_pages c fileid sz va i s =
    (if i < sz then
       (case fsipc_map c fileid i (va + unat i) s of
          Ret r s \<Rightarrow> if r < 0 then Some (Ret r s) else map_pages c fileid sz va (i + 4096) s
        | r \<Rightarrow> Some r)
     else Some (Ret 0 s))"

partial_function (option) dirty_pages :: "'a client \<Rightarrow> u32 \<Rightarrow> u32 \<Rightarrow> u32 \<Rightarrow> 'a vm_scheme \<Rightarrow> (int, 'a) ures option" where
  "dirty_pages c fileid sz i s =
    (if i < sz then
       (case fsipc_dirty c fileid i s of
          Ret r s \<Rightarrow> dirty_pages c fileid sz (i + 4096) s
        | r \<Rightarrow> Some r)
     else Some (Ret 0 s))"

partial_function (option) unmap_pages :: "u32 \<Rightarrow> u32 \<Rightarrow> nat \<Rightarrow> u32 \<Rightarrow> 'a vm_scheme \<Rightarrow> (int \<times> 'a vm_scheme) option" where
  "unmap_pages self sz va i s =
    (if i < sz then
       (case vm_mem_unmap self 0 (va + unat i) s of
          (r, s) \<Rightarrow> if r < 0 then Some (r, s) else unmap_pages self sz va (i + 4096) s)
     else Some (0, s))"

text \<open>\<open>open\<close>; a descriptor whose pages cannot be mapped stays open.\<close>

definition open_file :: "'a client \<Rightarrow> nat \<Rightarrow> u32 \<Rightarrow> 'a vm_scheme \<Rightarrow> (int, 'a) ures" where
  "open_file c path mode s =
    (case fd_alloc (self_id c) s of (r, fd) \<Rightarrow>
       if r < 0 then Ret r s
       else obind (fsipc_open c path mode fd s) (\<lambda>r s.
         if r < 0 then Ret r s
         else obind (of_opt (map_pages c (ffd_fileid (self_id c) fd s) (ffd_size (self_id c) fd s) (fd2data fd) 0 s)) (\<lambda>r s.
           if r < 0 then Ret r s else Ret (fd2num fd) s)))"

definition file_close :: "'a client \<Rightarrow> nat \<Rightarrow> 'a vm_scheme \<Rightarrow> (int, 'a) ures" where
  "file_close c fd s =
    (let self = self_id c; fileid = ffd_fileid self fd s; sz = ffd_size self fd s; va = fd2data fd in
     obind (of_opt (dirty_pages c fileid sz 0 s)) (\<lambda>_ s.
     obind (fsipc_close c fileid s) (\<lambda>r s.
       if r < 0 then Ret r s
       else if sz = 0 then Ret 0 s
       else case unmap_pages self sz va 0 s of None \<Rightarrow> Hang | Some (r, s) \<Rightarrow> Ret r s)))"

definition file_read :: "'a client \<Rightarrow> nat \<Rightarrow> nat \<Rightarrow> u32 \<Rightarrow> u32 \<Rightarrow> 'a vm_scheme \<Rightarrow> (int, 'a) ures" where
  "file_read c fd buf n offset s =
    (let self = self_id c; sz = ffd_size self fd s in
     if offset > sz then Ret 0 s
     else let n = (if offset + n > sz then sz - offset else n) in
       obind (ubcopy self (fd2data fd + unat offset) buf (unat n) s) (\<lambda>_ s. Ret (sint n) s))"

text \<open>The results are the return value and \<open>*blk\<close>.\<close>

definition read_map :: "u32 \<Rightarrow> int \<Rightarrow> u32 \<Rightarrow> 'a vm_scheme \<Rightarrow> int \<times> nat" where
  "read_map self fdnum offset s =
    (case fd_lookup self fdnum s of (r, fd) \<Rightarrow>
       if r < 0 then (r, 0)
       else if fd_dev_id self fd s \<noteq> DEV_FILE then (- E_INVAL, 0)
       else let va = fd2data fd + unat offset in
         if unat offset \<ge> FILE_MAX then (- E_NO_DISK, 0)
         else if \<not> fd_mapped self va s then (- E_NO_DISK, 0)
         else (0, va))"

text \<open>
  \<open>ftruncate\<close>; the size in the descriptor is set before the server has agreed, and stays when it refuses.
  A file is smaller than 2 GB, so the \<open>int\<close> counters do not overflow.
\<close>

fun extend_pages :: "'a client \<Rightarrow> u32 \<Rightarrow> u32 \<Rightarrow> nat \<Rightarrow> nat list \<Rightarrow> 'a vm_scheme \<Rightarrow> (int, 'a) ures" where
  "extend_pages c fileid oldsize va [] s = Ret 0 s"
| "extend_pages c fileid oldsize va (p # ps) s =
    obind (fsipc_map c fileid (of_nat (p * 4096)) (va + p * 4096) s) (\<lambda>r s.
      if r < 0 then obind (fsipc_set_size c fileid oldsize s) (\<lambda>_ s. Ret r s)
      else extend_pages c fileid oldsize va ps s)"

fun drop_pages :: "u32 \<Rightarrow> nat \<Rightarrow> nat list \<Rightarrow> 'a vm_scheme \<Rightarrow> (int, 'a) ures" where
  "drop_pages self va [] s = Ret 0 s"
| "drop_pages self va (p # ps) s =
    (case vm_mem_unmap self 0 (va + p * 4096) s of (r, s) \<Rightarrow>
       if r < 0 then Panic ''ftruncate: syscall_mem_unmap'' s else drop_pages self va ps s)"

definition pages_of :: "u32 \<Rightarrow> nat" where "pages_of sz = (unat sz + 4095) div 4096"

definition ftruncate :: "'a client \<Rightarrow> int \<Rightarrow> u32 \<Rightarrow> 'a vm_scheme \<Rightarrow> (int, 'a) ures" where
  "ftruncate c fdnum sz s =
    (let self = self_id c in
     if unat sz > FILE_MAX then Ret (- E_NO_DISK) s
     else case fd_lookup self fdnum s of (r, fd) \<Rightarrow>
       if r < 0 then Ret r s
       else if fd_dev_id self fd s \<noteq> DEV_FILE then Ret (- E_INVAL) s
       else let fileid = ffd_fileid self fd s; oldsize = ffd_size self fd s in
         obind (ustore32 self (fd + 160) sz s) (\<lambda>_ s.
         obind (fsipc_set_size c fileid sz s) (\<lambda>r s.
           if r < 0 then Ret r s
           else let va = fd2data fd in
             obind (extend_pages c fileid oldsize va [pages_of oldsize..<pages_of sz] s) (\<lambda>r s.
               if r < 0 then Ret r s else drop_pages self va [pages_of sz..<pages_of oldsize] s))))"

definition file_write :: "'a client \<Rightarrow> nat \<Rightarrow> nat \<Rightarrow> u32 \<Rightarrow> u32 \<Rightarrow> 'a vm_scheme \<Rightarrow> (int, 'a) ures" where
  "file_write c fd buf n offset s =
    (let self = self_id c; tot = offset + n in
     if unat tot > FILE_MAX then Ret (- E_NO_DISK) s
     else obind (if tot > ffd_size self fd s then ftruncate c (fd2num fd) tot s else Ret 0 s) (\<lambda>r s.
       if r < 0 then Ret r s
       else obind (ubcopy self buf (fd2data fd + unat offset) (unat n) s) (\<lambda>_ s. Ret (sint n) s)))"

definition file_stat :: "'a client \<Rightarrow> nat \<Rightarrow> nat \<Rightarrow> 'a vm_scheme \<Rightarrow> (int, 'a) ures" where
  "file_stat c fd st s =
    (let self = self_id c in
     obind (of_opt (ustrcpy self st (fd + 32) s)) (\<lambda>_ s.
     obind (ustore32 self (st + 128) (ffd_size self fd s) s) (\<lambda>_ s.
     obind (ustore32 self (st + 132) (if ffd_type self fd s = 1 then 1 else 0) s) (\<lambda>_ s. Ret 0 s))))"

definition create :: "'a client \<Rightarrow> nat \<Rightarrow> u32 \<Rightarrow> 'a vm_scheme \<Rightarrow> (int, 'a) ures" where
  "create c path filetype s = obind (fsipc_create c path filetype s) (\<lambda>r s. Ret (if r < 0 then r else 0) s)"

definition remove :: "'a client \<Rightarrow> nat \<Rightarrow> 'a vm_scheme \<Rightarrow> (int, 'a) ures" where
  "remove c path s = fsipc_remove c path s"

definition sync :: "'a client \<Rightarrow> 'a vm_scheme \<Rightarrow> (int, 'a) ures" where
  "sync c s = fsipc_sync c s"

definition devfile :: "'a client \<Rightarrow> 'a dev" where
  "devfile c = \<lparr>dev_id = DEV_FILE, dev_read = file_read c, dev_write = file_write c, dev_close = file_close c,
     dev_stat = file_stat c\<rparr>"

end
