(* ===== verification/Spawn.thy ===== *)
theory Spawn
  imports File Env
begin

text \<open>
  Starting a program from a file: user/spawn.c. \<open>start\<close> is the part of the environment table that the parent
  writes, the entry point and the stack pointer of each environment. The arguments of the new program are a
  list of addresses of strings. The places of the local buffers are arguments. Messages are left out.
\<close>

record procs = vm +
  start :: "nat \<Rightarrow> u64 \<times> u64"

type_synonym 'r pres = "('r, procs) outcome"

abbreviation (input) TMPPAGE :: nat where "TMPPAGE \<equiv> 4096"
abbreviation (input) TMPPAGE_TOP :: nat where "TMPPAGE_TOP \<equiv> 8192"
abbreviation (input) USTACKTOP :: nat where "USTACKTOP \<equiv> 0x3efff000"

text \<open>Calls one after the other until one fails.\<close>

fun until_error :: "'b list \<Rightarrow> ('b \<Rightarrow> 's \<Rightarrow> (int, 's) outcome) \<Rightarrow> 's \<Rightarrow> (int, 's) outcome" where
  "until_error [] f s = Ret 0 s"
| "until_error (x # xs) f s = obind (f x s) (\<lambda>r s. if r < 0 then Ret r s else until_error xs f s)"

section \<open>The stack of the new program\<close>

text \<open>The lengths of the arguments with their final 0.\<close>

fun arg_sizes :: "u32 \<Rightarrow> nat list \<Rightarrow> 'a vm_scheme \<Rightarrow> nat list option" where
  "arg_sizes self [] s = Some []"
| "arg_sizes self (p # ps) s =
    (case strlen (\<lambda>s. vread self s) p s of
       None \<Rightarrow> None
     | Some n \<Rightarrow> (case arg_sizes self ps s of None \<Rightarrow> None | Some ns \<Rightarrow> Some ((n + 1) # ns)))"

fun put_strings :: "u32 \<Rightarrow> nat \<Rightarrow> nat list \<Rightarrow> nat list \<Rightarrow> 'a vm_scheme \<Rightarrow> (unit, 'a) ures" where
  "put_strings self ctemp (p # ps) (n # ns) s =
    obind (of_opt (ustrcpy self ctemp p s)) (\<lambda>_ s. put_strings self (ctemp + n) ps ns s)"
| "put_strings self ctemp _ _ s = Ret () s"

fun put_pointers :: "u32 \<Rightarrow> nat \<Rightarrow> nat \<Rightarrow> nat list \<Rightarrow> 'a vm_scheme \<Rightarrow> (unit, 'a) ures" where
  "put_pointers self args ctemp [] s = ustore64 self args 0 s"
| "put_pointers self args ctemp (n # ns) s =
    obind (ustore64 self args (of_nat ctemp) s) (\<lambda>_ s. put_pointers self (args + 8) (ctemp + n) ns s)"

text \<open>
  \<open>init_stack\<close>. The room is computed with the strings rounded to 8 bytes, the layout with 4. The results are
  the return value, 1 when the page cannot be had, and \<open>*init_esp\<close>.
\<close>

definition init_stack :: "u32 \<Rightarrow> u32 \<Rightarrow> nat list \<Rightarrow> 'a vm_scheme \<Rightarrow> (int \<times> nat option, 'a) ures" where
  "init_stack self child argv s =
    (case arg_sizes self argv s of
       None \<Rightarrow> Hang
     | Some ns \<Rightarrow>
         let argc = length argv; tot = sum_list ns in
         if (tot + 7) div 8 * 8 + 8 * (argc + 3) > 4096 then Ret (- E_NO_MEM, None) s
         else let strings = TMPPAGE_TOP - tot; args = TMPPAGE_TOP - (tot + 3) div 4 * 4 - 8 * (argc + 1);
                  to_child = (\<lambda>a. USTACKTOP - TMPPAGE_TOP + a) in
           case vm_mem_alloc self 0 TMPPAGE (VALID OR PTE_RW OR PTE_USER) s of (r, s) \<Rightarrow>
             if r < 0 then Ret (1, None) s
             else
               obind (put_strings self strings argv ns s) (\<lambda>_ s.
               obind (put_pointers self args (to_child strings) ns s) (\<lambda>_ s.
               obind (ustore64 self (args - 8) (of_nat (to_child args)) s) (\<lambda>_ s.
               obind (ustore64 self (args - 16) (of_nat argc) s) (\<lambda>_ s.
                 let esp = Some (to_child (args - 16)) in
                 case vm_mem_map self 0 TMPPAGE child (USTACKTOP - 4096) (VALID OR PTE_RW OR PTE_USER) s of (r, s) \<Rightarrow>
                   if r < 0 then Ret (r, esp) (snd (vm_mem_unmap self 0 TMPPAGE s))
                   else case vm_mem_unmap self 0 TMPPAGE s of (r, s) \<Rightarrow>
                     if r < 0 then Ret (r, esp) (snd (vm_mem_unmap self 0 TMPPAGE s)) else Ret (0, esp) s)))))"

text \<open>The same code with the arguments taken from a \<open>va_list\<close>.\<close>

definition init_stack_valist :: "u32 \<Rightarrow> u32 \<Rightarrow> nat list \<Rightarrow> 'a vm_scheme \<Rightarrow> (int \<times> nat option, 'a) ures" where
  "init_stack_valist = init_stack"

section \<open>The segments\<close>

definition usr_is_elf_format :: "nat \<Rightarrow> bool" where "usr_is_elf_format binary = True"

text \<open>One page or part of one: room in the child, the bytes of the file, and the copy through \<open>BUFPAGE\<close>.\<close>

definition load_part ::
    "'a dev list \<Rightarrow> u32 \<Rightarrow> nat \<Rightarrow> int \<Rightarrow> u32 \<Rightarrow> u64 \<Rightarrow> u64 \<Rightarrow> u64 \<Rightarrow> u64 \<Rightarrow> 'a vm_scheme \<Rightarrow> (int, 'a) ures" where
  "load_part devtab self buf fd child va fileoff offset sz s =
    (case vm_mem_alloc self child (unat va) (VALID OR PTE_RW OR PTE_USER) s of (r, s) \<Rightarrow>
       if r < 0 then Ret r s
       else obind (seek self fd fileoff s) (\<lambda>r s.
         if r < 0 then Ret r s
         else obind (readn devtab self fd buf sz s) (\<lambda>r s.
           if r < 0 then Ret r s
           else case vm_mem_map self child (unat va) 0 TMPPAGE (VALID OR PTE_RW OR PTE_USER) s of (r, s) \<Rightarrow>
             if r < 0 then Ret r s
             else obind (ubcopy self buf (TMPPAGE + unat offset) (unat sz) s) (\<lambda>_ s.
               case vm_mem_unmap self 0 TMPPAGE s of (r, s) \<Rightarrow> Ret (if r < 0 then r else 0) s))))"

lemma page_progress: "i < b \<Longrightarrow> unat (b - (i + min 4096 (b - i))) < unat (b - i)" for b :: u64
proof -
  assume i: "i < b"
  have d: "b - (i + min 4096 (b - i)) = (b - i) - min 4096 (b - i)" by simp
  have "b - i \<noteq> 0" using i by auto
  then have n: "min 4096 (b - i) \<noteq> 0" by (auto simp: min_def)
  have le: "min 4096 (b - i) \<le> b - i" by simp
  have "unat (b - i - min 4096 (b - i)) = unat (b - i) - unat (min 4096 (b - i))" by (rule unat_sub [OF le])
  moreover have "0 < unat (min 4096 (b - i))" using n by (simp add: unat_gt_0)
  moreover have "unat (min 4096 (b - i)) \<le> unat (b - i)" using le by (simp add: word_le_nat_alt)
  ultimately show ?thesis unfolding d by linarith
qed

function load_pages ::
    "'a dev list \<Rightarrow> u32 \<Rightarrow> nat \<Rightarrow> int \<Rightarrow> u32 \<Rightarrow> u64 \<Rightarrow> u64 \<Rightarrow> u64 \<Rightarrow> u64 \<Rightarrow> 'a vm_scheme \<Rightarrow> (int, 'a) ures" where
  "load_pages devtab self buf fd child va fileoff bin i s =
    (if i < bin then
       (let sz = min 4096 (bin - i) in
        case load_part devtab self buf fd child (va + i) (fileoff + i) 0 sz s of
          Ret r s \<Rightarrow> if r < 0 then Ret r s else load_pages devtab self buf fd child va fileoff bin (i + sz) s
        | Eret s \<Rightarrow> Eret s | Panic m s \<Rightarrow> Panic m s | Hang \<Rightarrow> Hang)
     else Ret 0 s)"
  by pat_completeness auto
termination
  by (relation "measure (\<lambda>(d, self, b, fd, c, va, fo, bin, i, s). unat (bin - i))") (auto intro: page_progress)

declare load_pages.simps [simp del]

text \<open>The pages behind the part of the segment that is in the file.\<close>

function bss_pages :: "u32 \<Rightarrow> u32 \<Rightarrow> u64 \<Rightarrow> u64 \<Rightarrow> u64 \<Rightarrow> 'a vm_scheme \<Rightarrow> int \<times> 'a vm_scheme" where
  "bss_pages self child va sg i s =
    (if i < sg then
       (case vm_mem_alloc self child (unat (va + i)) (VALID OR PTE_RW OR PTE_USER) s of
          (r, s) \<Rightarrow> if r < 0 then (r, s) else bss_pages self child va sg (i + min 4096 (sg - i)) s)
     else (0, s))"
  by pat_completeness auto
termination
  by (relation "measure (\<lambda>(self, c, va, sg, i, s). unat (sg - i))") (auto intro: page_progress)

declare bss_pages.simps [simp del]

text \<open>
  \<open>usr_load_elf\<close> with the fields of the program header as arguments. \<open>i\<close> counts what has been placed; the
  last page of the file's part is cleared behind it.
\<close>

definition usr_load_elf ::
    "'a dev list \<Rightarrow> u32 \<Rightarrow> nat \<Rightarrow> int \<Rightarrow> u32 \<Rightarrow> u64 \<Rightarrow> u64 \<Rightarrow> u64 \<Rightarrow> u64 \<Rightarrow> 'a vm_scheme \<Rightarrow> (int, 'a) ures" where
  "usr_load_elf devtab self buf fd child va sg bin fileoff s =
    (let offset = va - ROUNDDOWN va 4096;
         sz = (if offset > 0 then min bin (4096 - offset) else 0) in
     obind (if offset > 0 then load_part devtab self buf fd child va fileoff offset sz s else Ret 0 s) (\<lambda>r s.
       if r < 0 then Ret r s
       else obind (load_pages devtab self buf fd child va fileoff bin sz s) (\<lambda>r s.
         if r < 0 then Ret r s
         else let i = bin; offset = va + i - ROUNDDOWN (va + i) 4096;
                  rest = (if offset > 0 then min (sg - i) (4096 - offset) else 0) in
           obind (if offset > 0 then
                    (case vm_mem_map self child (unat (va + i)) 0 TMPPAGE (VALID OR PTE_RW OR PTE_USER) s of (r, s) \<Rightarrow>
                       if r < 0 then Ret r s
                       else case vm_mem_unmap self 0 TMPPAGE (user_bzero (vwrite self) (TMPPAGE + unat offset) rest s) of (r, s) \<Rightarrow>
                         Ret (if r < 0 then r else 0) s)
                  else Ret 0 s) (\<lambda>r s.
             if r < 0 then Ret r s
             else case bss_pages self child va sg (i + rest) s of (r, s) \<Rightarrow> Ret r s))))"

section \<open>spawn\<close>

text \<open>A name that does not end in .b gets that ending, by \<open>strcat\<close>, which writes from address 0 on and returns 0.\<close>

definition add_suffix :: "u32 \<Rightarrow> nat \<Rightarrow> nat \<Rightarrow> 'a vm_scheme \<Rightarrow> (nat, 'a) ures" where
  "add_suffix self suffix name s =
    obind (touch_page self 0 s) (\<lambda>_ s.
      case strcat (\<lambda>s. vread self s) (vwrite self) 0 name suffix s of None \<Rightarrow> Hang | Some s \<Rightarrow> Ret 0 s)"

definition ends_in_b :: "u32 \<Rightarrow> nat \<Rightarrow> nat \<Rightarrow> 'a vm_scheme \<Rightarrow> bool" where
  "ends_in_b self prog len s \<longleftrightarrow> len \<ge> 2 \<and> vread self s (prog + len - 2) = 46 \<and> vread self s (prog + len - 1) = 98"

text \<open>The segments named by the program headers, read one after the other into \<open>elfbuf\<close>.\<close>

definition load_segment ::
    "'a dev list \<Rightarrow> u32 \<Rightarrow> nat \<Rightarrow> nat \<Rightarrow> int \<Rightarrow> u32 \<Rightarrow> u64 \<Rightarrow> u64 \<Rightarrow> nat \<Rightarrow> 'a vm_scheme \<Rightarrow> (int, 'a) ures" where
  "load_segment devtab self elfbuf buf fd child text_start entry_size i s =
    obind (seek self fd (text_start + of_nat i * entry_size) s) (\<lambda>r s.
      if r < 0 then Ret r s
      else obind (readn devtab self fd elfbuf entry_size s) (\<lambda>r s.
        if r < 0 then Ret r s
        else let get = (\<lambda>s. vread self s) in
          if ld32 get s elfbuf = 1 then
            usr_load_elf devtab self buf fd child (ld64 get s (elfbuf + 16)) (ld64 get s (elfbuf + 40))
              (ld64 get s (elfbuf + 32)) (ld64 get s (elfbuf + 8)) s
          else Ret 0 s))"

text \<open>Library pages are shared with the new program, all of them writable.\<close>

definition share_page :: "u32 \<Rightarrow> u32 \<Rightarrow> nat \<Rightarrow> 'a vm_scheme \<Rightarrow> (int, 'a) ures" where
  "share_page self child p s =
    (case vpt s self p of
       None \<Rightarrow> Ret 0 s
     | Some (_, pte) \<Rightarrow>
         if pte AND PTE_LIBRARY = 0 then Ret 0 s
         else case vm_mem_map self 0 (p * 4096) child (p * 4096) (VALID OR PTE_RW OR PTE_USER OR PTE_LIBRARY) s of (r, s) \<Rightarrow> Ret r s)"

definition share_library :: "u32 \<Rightarrow> u32 \<Rightarrow> 'a vm_scheme \<Rightarrow> (int, 'a) ures" where
  "share_library self child s =
    until_error [0..<512] (\<lambda>i s.
      if \<not> vpd s self i then Ret 0 s
      else until_error [0..<512] (\<lambda>j s.
        if \<not> vpm s self (i * 512 + j) then Ret 0 s
        else until_error [0..<512] (\<lambda>k s. share_page self child (i * 2 ^ 18 + j * 2 ^ 9 + k) s) s) s) s"

text \<open>Where the compiler puts the buffers, where \<open>suffix\<close> is, and what \<open>esp\<close> holds when \<open>init_stack\<close> sets nothing.\<close>

record spawn_places =
  elfbuf :: nat
  loadbuf :: nat
  suffix_at :: nat
  unset_esp :: u64

text \<open>
  The common part of \<open>spawn\<close> and \<open>spawn_valist\<close>, which differ in what they do after an error (\<open>fail\<close>). The
  result of \<open>init_stack\<close> is ignored, an identifier is unsigned and so never negative, and the file stays open.
\<close>

definition spawn_from ::
    "(string \<Rightarrow> int \<Rightarrow> procs \<Rightarrow> int pres) \<Rightarrow> unit procs_ext dev list \<Rightarrow> unit procs_ext client \<Rightarrow> spawn_places \<Rightarrow>
     nat \<Rightarrow> nat list \<Rightarrow> procs \<Rightarrow> int pres" where
  "spawn_from fail devtab c pl name argv s =
    (let self = self_id c; get = (\<lambda>s. vread self s) in
     obind (open_file c name O_RDONLY s) (\<lambda>fdnum s.
       if fdnum < 0 then fail ''open'' fdnum s
       else obind (readn devtab self fdnum (elfbuf pl) 64 s) (\<lambda>r s.
         if r < 0 then fail ''read Ehdr'' r s
         else if \<not> usr_is_elf_format (elfbuf pl) then fail ''not elf'' r s
         else
           let entry_size = ucast (ld16 get s (elfbuf pl + 54)) :: u64;
               text_start = ld64 get s (elfbuf pl + 32);
               count = unat (ld16 get s (elfbuf pl + 56)) in
           case vm_env_alloc s of (envid, s) \<Rightarrow>
             let child = word_of_int envid :: u32 in
             obind (init_stack self child argv s) (\<lambda>(_, esp) s.
             obind (until_error [0..<count] (load_segment devtab self (elfbuf pl) (loadbuf pl) fdnum child text_start entry_size) s) (\<lambda>r s.
               if r < 0 then fail ''load elf'' r s
               else let sp = (case esp of None \<Rightarrow> unset_esp pl | Some a \<Rightarrow> of_nat a);
                        s = s\<lparr>start := (start s)(ENVX child := (0x00a00000, sp))\<rparr> in
                 obind (share_library self child s) (\<lambda>r s.
                   if r < 0 then fail ''map'' r s
                   else case vm_set_env_status self child True s of (r, s) \<Rightarrow>
                     if r < 0 then fail ''status'' r s else Ret (sint child) s))))))"

definition spawn where
  "spawn devtab c pl prog argv s =
    (case strlen (\<lambda>s. vread (self_id c) s) prog s of
       None \<Rightarrow> Hang
     | Some len \<Rightarrow>
         obind (if ends_in_b (self_id c) prog len s then Ret prog s else add_suffix (self_id c) (suffix_at pl) prog s) (\<lambda>name s.
           spawn_from (\<lambda>_ r s. Ret r s) devtab c pl name argv s))"

definition spawn_valist where
  "spawn_valist devtab c pl prog argv s = spawn_from (\<lambda>m _ s. Panic m s) devtab c pl prog argv s"

text \<open>\<open>spawnl\<close> appends the ending to \<open>name\<close> before anything is stored there; \<open>unset_name\<close> is its value.\<close>

definition spawnl where
  "spawnl unset_name devtab c pl prog argv s =
    (case strlen (\<lambda>s. vread (self_id c) s) prog s of
       None \<Rightarrow> Hang
     | Some len \<Rightarrow>
         obind (if ends_in_b (self_id c) prog len s then Ret prog s
                else add_suffix (self_id c) (suffix_at pl) unset_name s) (\<lambda>name s.
           spawn_valist devtab c pl name argv s))"

end
