(* ===== verification/Spawnprops.thy ===== *)
theory Spawnprops
  imports Spawn Fdprops
begin

text \<open>What a new program finds on its stack.\<close>

section \<open>Bytes laid out in a memory\<close>

definition poke :: "nat \<Rightarrow> u8 list \<Rightarrow> (nat \<Rightarrow> u8) \<Rightarrow> nat \<Rightarrow> u8" where
  "poke a bs m = (\<lambda>b. if a \<le> b \<and> b < a + length bs then bs ! (b - a) else m b)"

lemma poke_Cons: "poke a (x # bs) m = poke (a + 1) bs (fput a x m)"
  by (auto simp: poke_def fput_def fun_eq_iff nth_Cons')

lemma poke_append: "poke a (xs @ ys) m = poke (a + length xs) ys (poke a xs m)"
  by (auto simp: poke_def fun_eq_iff nth_append)

lemma poke_Nil [simp]: "poke a [] m = m"
  by (auto simp: poke_def fun_eq_iff)

definition zstrings :: "u8 list list \<Rightarrow> u8 list" where
  "zstrings xss = concat (map (\<lambda>xs. xs @ [0]) xss)"

lemma zstrings_Cons [simp]: "zstrings (xs # xss) = xs @ 0 # zstrings xss" "zstrings [] = []"
  by (simp_all add: zstrings_def)

definition offset_of :: "u8 list list \<Rightarrow> nat \<Rightarrow> nat" where
  "offset_of xss i = sum_list (map (\<lambda>xs. length xs + 1) (take i xss))"

lemma cstr_zstrings:
  assumes "i < length xss" and "\<And>xs. xs \<in> set xss \<Longrightarrow> 0 \<notin> set xs"
    and "\<And>k. k < length (zstrings xss) \<Longrightarrow> m (a + k) = zstrings xss ! k"
  shows "cstr (\<lambda>m. m) m (a + offset_of xss i) (xss ! i)"
  using assms
proof (induction xss arbitrary: a i)
  case (Cons xs xss)
  have head: "cstr (\<lambda>m. m) m a xs"
    using Cons.prems(2,3) by (simp add: cstr_def nth_append)
  have "m (a + (length xs + 1) + k) = zstrings xss ! k" if "k < length (zstrings xss)" for k
    using Cons.prems(3) [of "length xs + 1 + k"] that by (simp add: nth_append add.assoc)
  then show ?case using Cons.IH [of "i - 1" "a + (length xs + 1)"] head Cons.prems
    by (cases i) (simp_all add: offset_of_def add.assoc)
qed simp

fun st_args :: "nat \<Rightarrow> nat \<Rightarrow> nat list \<Rightarrow> (nat \<Rightarrow> u8) \<Rightarrow> nat \<Rightarrow> u8" where
  "st_args args ctemp [] m = st64 fput args 0 m"
| "st_args args ctemp (n # ns) m = st_args (args + 8) (ctemp + n) ns (st64 fput args (of_nat ctemp) m)"

lemma st_args_frame: "b < args \<or> args + 8 * (length ns + 1) \<le> b \<Longrightarrow> st_args args c ns m b = m b"
proof (induction ns arbitrary: args c m)
  case Nil
  then show ?case using fm.get_st64 [of args 0 m b] by auto
next
  case (Cons n ns)
  then show ?case using fm.get_st64 [of args "of_nat c" m b] by auto
qed

lemma st_args_ld:
  "i \<le> length ns \<Longrightarrow> ld64 (\<lambda>m. m) (st_args args c ns m) (args + 8 * i) =
    (if i = length ns then 0 else of_nat (c + sum_list (take i ns)))"
proof (induction ns arbitrary: args c m i)
  case Nil
  then show ?case by (simp add: fm.ld64_st64)
next
  case (Cons n ns)
  show ?case
  proof (cases i)
    case 0
    have "ld64 (\<lambda>m. m) (st_args (args + 8) (c + n) ns m') args = ld64 (\<lambda>m. m) m' args" for m'
      by (rule fm.ld64_cong) (simp add: st_args_frame)
    then show ?thesis using 0 by (simp add: fm.ld64_st64)
  next
    case (Suc j)
    then show ?thesis using Cons.IH [of j "args + 8"] Cons.prems by (simp add: add.assoc)
  qed
qed

section \<open>Stores to the page of the new stack\<close>

definition own_page :: "u32 \<Rightarrow> nat \<Rightarrow> 'a vm_scheme \<Rightarrow> bool" where
  "own_page self f s \<longleftrightarrow> (\<exists>q. vpt s self 1 = Some (f, q) \<and> q AND PTE_RO = 0) \<and>
    (\<forall>p q. vpt s self p = Some (f, q) \<longrightarrow> p = 1)"

lemma own_follows: "own_page self f s \<Longrightarrow> follows (\<lambda>s. vread self s) (vwrite self) (edited s f) (vread self) 4096 4096"
  by (rule page_follows [where q = "snd (the (vpt s self 1))"]) (auto simp: own_page_def)

lemma edited_vpt: "edited s f t \<Longrightarrow> vpt t = vpt s"
  by (auto simp: edited_def)

lemma edited_trans: "edited s f t \<Longrightarrow> edited t f u \<Longrightarrow> edited s f u"
  by (auto simp: edited_def)

lemma own_touch:
  assumes "own_page self f s" and "edited s f t" and "4096 \<le> a" and "a < 8192"
  shows "touch_page self a t = Ret () t"
proof -
  have "a div 4096 = 1" using assms(3,4) by (simp add: div_nat_eqI)
  then show ?thesis using assms(1) edited_vpt [OF assms(2)] by (auto simp: touch_page_def own_page_def)
qed

lemma own_strcpy:
  assumes o: "own_page self f s"
  shows "edited s f t \<Longrightarrow> cstr (\<lambda>s. vread self s) t src xs \<Longrightarrow> \<forall>i \<le> length xs. (src + i) div 4096 \<noteq> 1 \<Longrightarrow>
    4096 \<le> dst \<Longrightarrow> dst + length xs < 8192 \<Longrightarrow>
    \<exists>t'. ustrcpy self dst src t = Some (Ret () t') \<and> edited s f t' \<and> vread self t' = poke dst (xs @ [0]) (vread self t)"
proof (induction xs arbitrary: t src dst)
  case Nil
  then show ?case using own_touch [OF o Nil.prems(1), of dst] followsD(2,3) [OF own_follows [OF o] Nil.prems(1), of dst 0]
    by (subst ustrcpy.simps) (simp add: poke_Cons)
next
  case (Cons x xs)
  let ?t = "vwrite self dst x t"
  have t: "edited s f ?t" "vread self ?t = fput dst x (vread self t)"
    using followsD(2,3) [OF own_follows [OF o] Cons.prems(1), of dst x] Cons.prems(4,5) by simp_all
  have far: "(src + i) div 4096 \<noteq> 1" if "i \<le> length xs + 1" for i using Cons.prems(3) that by simp
  have far_same: "vread self ?t (src + i) = vread self t (src + i)" if "i \<le> length xs + 1" for i
  proof -
    have "dst div 4096 = 1" using Cons.prems(4,5) by (simp add: div_nat_eqI)
    then have "src + i \<noteq> dst" using far [OF that] by auto
    then show ?thesis using t(2) by (simp add: fput_def)
  qed
  have same: "vread self ?t (src + 1 + i) = vread self t (src + 1 + i)" if "i \<le> length xs" for i
    using far_same [of "1 + i"] that by (simp add: add.assoc)
  have "cstr (\<lambda>s. vread self s) t (src + 1) xs" using Cons.prems(2) by simp
  then have "cstr (\<lambda>s. vread self s) ?t (src + 1) xs" using same by (simp add: cstr_def)
  moreover have "\<forall>i \<le> length xs. (src + 1 + i) div 4096 \<noteq> 1" using far [of "i + 1" for i] by (simp add: add.assoc)
  ultimately obtain t' where t': "ustrcpy self (dst + 1) (src + 1) ?t = Some (Ret () t')" "edited s f t'"
    "vread self t' = poke (dst + 1) (xs @ [0]) (vread self ?t)"
    using Cons.IH [OF t(1), of "src + 1" "dst + 1"] Cons.prems(4,5) by auto
  have "ustrcpy self dst src t = Some (Ret () t')"
    using own_touch [OF o Cons.prems(1), of dst] Cons.prems(2,4,5) t'(1) by (subst ustrcpy.simps) simp
  then show ?case using t'(2,3) t(2) by (simp add: poke_Cons)
qed

lemma own_store64:
  assumes o: "own_page self f s" and t: "edited s f t" and a: "4096 \<le> a" "a + 8 \<le> 8192"
  shows "\<exists>t'. ustore64 self a v t = Ret () t' \<and> edited s f t' \<and> vread self t' = st64 fput a v (vread self t)"
proof -
  let ?u = "st32 (vwrite self) a (ucast v) t"
  have u: "edited s f ?u" "vread self ?u = st32 fput a (ucast v) (vread self t)"
    using follows_st32 [OF own_follows [OF o] t, of a "ucast v"] a by simp_all
  show ?thesis
    using follows_st32 [OF own_follows [OF o] u(1), of "a + 4" "ucast (drop_bit 32 v)"] a u(2) own_touch [OF o t, of a]
    by (simp add: ustore64_def st64_def)
qed

definition far :: "nat \<Rightarrow> nat \<Rightarrow> bool" where
  "far p n \<longleftrightarrow> (\<forall>i \<le> n. (p + i) div 4096 \<noteq> 1)"

lemma poke_far: "4096 \<le> a \<Longrightarrow> a + length bs \<le> 8192 \<Longrightarrow> b div 4096 \<noteq> 1 \<Longrightarrow> poke a bs m b = m b"
proof -
  assume a: "4096 \<le> a" "a + length bs \<le> 8192" "b div 4096 \<noteq> 1"
  have "\<not> (a \<le> b \<and> b < a + length bs)"
  proof
    assume "a \<le> b \<and> b < a + length bs"
    then have "4096 \<le> b" "b < 8192" using a by linarith+
    then show False using a(3) by (simp add: div_nat_eqI)
  qed
  then show ?thesis unfolding poke_def by (simp only: if_False)
qed

lemma own_strings:
  assumes o: "own_page self f s"
  shows "edited s f t \<Longrightarrow> list_all2 (\<lambda>p xs. cstr (\<lambda>s. vread self s) t p xs \<and> far p (length xs)) argv xss \<Longrightarrow>
    4096 \<le> ctemp \<Longrightarrow> ctemp + length (zstrings xss) \<le> 8192 \<Longrightarrow>
    \<exists>t'. put_strings self ctemp argv (map (\<lambda>xs. length xs + 1) xss) t = Ret () t' \<and> edited s f t' \<and>
      vread self t' = poke ctemp (zstrings xss) (vread self t)"
proof (induction xss arbitrary: argv t ctemp)
  case Nil
  then show ?case by simp
next
  case (Cons xs xss)
  obtain p ps where a: "argv = p # ps" "cstr (\<lambda>s. vread self s) t p xs" "far p (length xs)"
    "list_all2 (\<lambda>p xs. cstr (\<lambda>s. vread self s) t p xs \<and> far p (length xs)) ps xss"
    using Cons.prems(2) by (cases argv) auto
  obtain t1 where t1: "ustrcpy self ctemp p t = Some (Ret () t1)" "edited s f t1"
    "vread self t1 = poke ctemp (xs @ [0]) (vread self t)"
    using own_strcpy [OF o Cons.prems(1) a(2), of ctemp] a(3) Cons.prems(3,4) by (auto simp: far_def)
  have keep: "cstr (\<lambda>s. vread self s) t1 q ys" if "cstr (\<lambda>s. vread self s) t q ys" "far q (length ys)" for q ys
  proof -
    have "vread self t1 (q + i) = vread self t (q + i)" if "i \<le> length ys" for i
      unfolding t1(3) using \<open>far q (length ys)\<close> that Cons.prems(3,4) by (intro poke_far) (simp_all add: far_def)
    then show ?thesis using that(1) by (simp add: cstr_def)
  qed
  have "list_all2 (\<lambda>p xs. cstr (\<lambda>s. vread self s) t1 p xs \<and> far p (length xs)) ps xss"
    by (rule list_all2_mono [OF a(4)]) (use keep in blast)
  from Cons.IH [OF t1(2) this, of "ctemp + (length xs + 1)"] obtain t' where
    t': "put_strings self (ctemp + (length xs + 1)) ps (map (\<lambda>xs. length xs + 1) xss) t1 = Ret () t'" "edited s f t'"
    "vread self t' = poke (ctemp + (length xs + 1)) (zstrings xss) (vread self t1)"
    using Cons.prems(3,4) by auto
  have "vread self t' = poke ctemp (zstrings (xs # xss)) (vread self t)"
    using poke_append [of ctemp "xs @ [0]" "zstrings xss" "vread self t"] t'(3) t1(3) by simp
  then show ?case using a(1) t1(1) t'(1,2) by simp
qed

lemma own_pointers:
  assumes o: "own_page self f s"
  shows "edited s f t \<Longrightarrow> 4096 \<le> args \<Longrightarrow> args + 8 * (length ns + 1) \<le> 8192 \<Longrightarrow>
    \<exists>t'. put_pointers self args c ns t = Ret () t' \<and> edited s f t' \<and> vread self t' = st_args args c ns (vread self t)"
proof (induction ns arbitrary: args c t)
  case Nil
  then show ?case using own_store64 [OF o Nil.prems(1), of args 0] by simp
next
  case (Cons n ns)
  obtain t1 where t1: "ustore64 self args (of_nat c) t = Ret () t1" "edited s f t1"
    "vread self t1 = st64 fput args (of_nat c) (vread self t)"
    using own_store64 [OF o Cons.prems(1), of args "of_nat c"] Cons.prems(2,3) by auto
  show ?case using Cons.IH [OF t1(2), of "args + 8" "c + n"] Cons.prems(2,3) t1 by simp
qed

lemma arg_sizes_cstr:
  "list_all2 (\<lambda>p xs. cstr (\<lambda>s. vread self s) s p xs) argv xss \<Longrightarrow>
    arg_sizes self argv s = Some (map (\<lambda>xs. length xs + 1) xss)"
proof (induction argv arbitrary: xss)
  case (Cons p ps)
  then show ?case by (cases xss) (auto simp: strlen_cstr)
qed simp

lemma ld64_fun: "ld64 get s a = ld64 (\<lambda>m. m) (get s) a"
  by (simp add: ld64_def ld32_def ld16_def)

section \<open>The stack\<close>

text \<open>What a program finds at its stack pointer: the number of arguments, the address of their table, the
  table with a final 0, and the strings it points to.\<close>

definition stack_holds :: "(nat \<Rightarrow> u8) \<Rightarrow> nat \<Rightarrow> u8 list list \<Rightarrow> bool" where
  "stack_holds m esp xss \<longleftrightarrow>
    ld64 (\<lambda>m. m) m esp = of_nat (length xss) \<and> ld64 (\<lambda>m. m) m (esp + 8) = of_nat (esp + 16) \<and>
    (\<forall>i < length xss. cstr (\<lambda>m. m) m (unat (ld64 (\<lambda>m. m) m (esp + 16 + 8 * i))) (xss ! i)) \<and>
    ld64 (\<lambda>m. m) m (esp + 16 + 8 * length xss) = 0"

abbreviation (input) STACK_SHIFT :: nat where "STACK_SHIFT \<equiv> USTACKTOP - TMPPAGE_TOP"

lemma sum_sizes: "sum_list (map (\<lambda>xs. length xs + 1) xss) = length (zstrings xss)"
  by (induction xss) simp_all

lemma sum_take: "sum_list (take i (map (\<lambda>xs. length xs + 1) xss)) = offset_of xss i"
  by (simp add: offset_of_def take_map)

lemma offset_le: "offset_of xss i \<le> length (zstrings xss)"
proof (induction xss arbitrary: i)
  case (Cons xs xss)
  show ?case using Cons [of "i - 1"] by (cases i) (simp_all add: offset_of_def)
qed (simp add: offset_of_def)

text \<open>The page as it is built, read at the addresses the child will use.\<close>

lemma built_stack:
  assumes args: "4096 + 16 \<le> args" "args + 8 * (length xss + 1) \<le> strings" and str: "strings + length (zstrings xss) = 8192"
    and nz: "\<And>xs. xs \<in> set xss \<Longrightarrow> 0 \<notin> set xs"
    and M: "M = st64 fput (args - 16) (of_nat (length xss)) (st64 fput (args - 8) (of_nat (STACK_SHIFT + args))
      (st_args args (STACK_SHIFT + strings) (map (\<lambda>xs. length xs + 1) xss) (poke strings (zstrings xss) m)))"
    and child: "\<And>b. 4096 \<le> b \<Longrightarrow> b < 8192 \<Longrightarrow> c (STACK_SHIFT + b) = M b"
  shows "stack_holds c (STACK_SHIFT + (args - 16)) xss"
proof -
  let ?P = "st_args args (STACK_SHIFT + strings) (map (\<lambda>xs. length xs + 1) xss) (poke strings (zstrings xss) m)"
  have ld: "ld64 (\<lambda>m. m) c (STACK_SHIFT + a) = ld64 (\<lambda>m. m) M a" if "4096 \<le> a" "a + 8 \<le> 8192" for a
  proof (rule fm.ld64_cong)
    fix i :: nat assume "i < 8"
    then show "c (STACK_SHIFT + a + i) = M (a + i)" using child [of "a + i"] that by (simp add: add.assoc)
  qed
  have le: "args + 8 * (length xss + 1) \<le> 8192" using args str by linarith
  have argc: "ld64 (\<lambda>m. m) c (STACK_SHIFT + (args - 16)) = of_nat (length xss)"
    using ld [of "args - 16"] args le by (simp add: M fm.ld64_st64)
  have "ld64 (\<lambda>m. m) M (args - 8) = of_nat (STACK_SHIFT + args)"
    unfolding M using args by (subst fm.ld64_st64_other) (simp_all add: fm.ld64_st64)
  then have argv: "ld64 (\<lambda>m. m) c (STACK_SHIFT + (args - 16) + 8) = of_nat (STACK_SHIFT + (args - 16) + 16)"
    using ld [of "args - 8"] args le by (simp add: add.assoc)
  have tab: "ld64 (\<lambda>m. m) c (STACK_SHIFT + (args - 16) + 16 + 8 * i) =
      (if i = length xss then 0 else of_nat (STACK_SHIFT + strings + offset_of xss i))" if "i \<le> length xss" for i
  proof -
    have "ld64 (\<lambda>m. m) M (args + 8 * i) = ld64 (\<lambda>m. m) ?P (args + 8 * i)"
      unfolding M by (rule trans [OF fm.ld64_st64_other fm.ld64_st64_other]) (use args in linarith)+
    then show ?thesis
      using ld [of "args + 8 * i"] st_args_ld [of i "map (\<lambda>xs. length xs + 1) xss" args "STACK_SHIFT + strings", unfolded sum_take length_map] args le that
      by (simp add: add.assoc)
  qed
  have bytes: "c (STACK_SHIFT + strings + k) = zstrings xss ! k" if "k < length (zstrings xss)" for k
  proof -
    have "\<not> strings + k < args - 16 + 8" "\<not> strings + k < args - 8 + 8" using args by linarith+
    then have "M (strings + k) = ?P (strings + k)" unfolding M fm.get_st64 by simp
    also have "\<dots> = poke strings (zstrings xss) m (strings + k)" using args by (intro st_args_frame) simp
    also have "\<dots> = zstrings xss ! k" using that by (simp add: poke_def)
    finally show ?thesis using child [of "strings + k"] that args str by (simp add: add.assoc)
  qed
  have "cstr (\<lambda>m. m) c (unat (of_nat (STACK_SHIFT + strings + offset_of xss i) :: u64)) (xss ! i)" if "i < length xss" for i
  proof -
    have "STACK_SHIFT + strings + offset_of xss i < 2 ^ 64" using offset_le [of xss i] str by simp
    then have "unat (of_nat (STACK_SHIFT + strings + offset_of xss i) :: u64) = STACK_SHIFT + strings + offset_of xss i"
      by (simp only: unsigned_of_nat of_nat_id) (rule take_bit_nat_eq_self, simp)
    then show ?thesis using cstr_zstrings [OF that nz, of c "STACK_SHIFT + strings"] bytes by simp
  qed
  then show ?thesis using argc argv tab unfolding stack_holds_def by simp
qed

lemma init_stack_lemma:
  assumes ok: "counts_ok s" and grant: "deny s = []" "live s child" "child \<noteq> 0" "child \<noteq> self" and free: "free_frame s = Some f"
    and args: "list_all2 (\<lambda>p xs. cstr (\<lambda>s. vread self s) s p xs \<and> far p (length xs)) argv xss"
    and room: "(length (zstrings xss) + 7) div 8 * 8 + 8 * (length xss + 3) \<le> 4096"
  shows "\<exists>esp s'. init_stack self child argv s = Ret (0, Some esp) s' \<and> stack_holds (vread child s') esp xss \<and>
    vpt s' self 1 = None \<and> (\<forall>e p. (e \<noteq> self \<or> p \<noteq> 1) \<and> (e \<noteq> child \<or> p \<noteq> 0x3effe) \<longrightarrow> vpt s' e p = vpt s e p)"
proof -
  let ?ns = "map (\<lambda>xs. length xs + 1) xss" and ?tot = "length (zstrings xss)"
  define strings where "strings = TMPPAGE_TOP - ?tot"
  define a where "a = TMPPAGE_TOP - (?tot + 3) div 4 * 4 - 8 * (length xss + 1)"
  have "(?tot + 3) div 4 * 4 \<le> (?tot + 7) div 8 * 8" "?tot \<le> (?tot + 3) div 4 * 4" by presburger+
  moreover define q where "q = (?tot + 3) div 4 * 4"
  ultimately have q: "q = (?tot + 3) div 4 * 4" "?tot \<le> q" "q + 8 * (length xss + 3) \<le> 4096" using room by simp_all
  have lay: "4096 + 16 \<le> a" "a + 8 * (length xss + 1) \<le> strings" "strings + ?tot = 8192" "4096 \<le> strings"
    using q(2,3) unfolding a_def strings_def q(1) [symmetric] by simp_all
  then have room8: "4096 \<le> a - 8" "a - 8 + 8 \<le> 8192" "4096 \<le> a - 16" "a - 16 + 8 \<le> 8192" by linarith+
  let ?s0 = "s\<lparr>frames := (frames s)(f := (\<lambda>_. 0))\<rparr>"
  let ?s1 = "map_page self 1 f (VALID OR PTE_RW OR PTE_USER) ?s0"
  have alloc: "vm_mem_alloc self 0 TMPPAGE (VALID OR PTE_RW OR PTE_USER) s = (0, ?s1)"
    using grant free by (simp add: vm_mem_alloc_def target_def asked_def)
  have fresh: "vpt s e p \<noteq> Some (f, q)" for e p q by (rule free_frame_unused [OF ok free])
  have own: "own_page self f ?s1" using fresh by (auto simp: own_page_def)
  have read: "vread self ?s1 b = vread self s b" if "b div 4096 \<noteq> 1" for b
    using that fresh [of self "b div 4096"] by (auto simp: vread_def split: option.splits)
  have "cstr (\<lambda>s. vread self s) ?s1 p xs" if "cstr (\<lambda>s. vread self s) s p xs" "far p (length xs)" for p xs
    using that read by (simp add: cstr_def far_def)
  then have args1: "list_all2 (\<lambda>p xs. cstr (\<lambda>s. vread self s) ?s1 p xs \<and> far p (length xs)) argv xss"
    by (intro list_all2_mono [OF args]) blast
  obtain t1 where t1: "put_strings self strings argv ?ns ?s1 = Ret () t1" "edited ?s1 f t1"
    "vread self t1 = poke strings (zstrings xss) (vread self ?s1)"
    using own_strings [OF own edited_refl args1, of strings] lay by auto
  obtain t2 where t2: "put_pointers self a (STACK_SHIFT + strings) ?ns t1 = Ret () t2" "edited ?s1 f t2"
    "vread self t2 = st_args a (STACK_SHIFT + strings) ?ns (vread self t1)"
    using own_pointers [OF own t1(2), of a ?ns "STACK_SHIFT + strings"] lay by auto
  obtain t3 where t3: "ustore64 self (a - 8) (of_nat (STACK_SHIFT + a)) t2 = Ret () t3" "edited ?s1 f t3"
    "vread self t3 = st64 fput (a - 8) (of_nat (STACK_SHIFT + a)) (vread self t2)"
    using own_store64 [OF own t2(2) room8(1,2), of "of_nat (STACK_SHIFT + a)"] by blast
  obtain t4 where t4: "ustore64 self (a - 16) (of_nat (length xss)) t3 = Ret () t4" "edited ?s1 f t4"
    "vread self t4 = st64 fput (a - 16) (of_nat (length xss)) (vread self t3)"
    using own_store64 [OF own t3(2) room8(3,4), of "of_nat (length xss)"] by blast
  obtain F where F: "t4 = ?s1\<lparr>frames := (frames ?s1)(f := F)\<rparr>" using t4(2) by (auto simp: edited_def)
  let ?t5 = "map_page child 0x3effe f (VALID OR PTE_RW OR PTE_USER) t4"
  let ?s' = "unmap_page self 1 ?t5"
  have t4f: "deny t4 = []" "live t4 child" "vpt t4 self 1 = Some (f, 0x41)" using grant by (simp_all add: F)
  have map: "vm_mem_map self 0 TMPPAGE child (USTACKTOP - 4096) (VALID OR PTE_RW OR PTE_USER) t4 = (0, ?t5)"
    using t4f grant(3) by (simp add: vm_mem_map_def target_def asked_def)
  have unmap: "vm_mem_unmap self 0 TMPPAGE ?t5 = (7, ?s')" by (simp add: vm_mem_unmap_def target_def)
  have sizes: "arg_sizes self argv s = Some ?ns"
    by (rule arg_sizes_cstr, rule list_all2_mono [OF args]) blast
  have len: "length argv = length xss" using args by (rule list_all2_lengthD)
  have r: "init_stack self child argv s = Ret (0, Some (STACK_SHIFT + (a - 16))) ?s'"
    using room t1(1) t2(1) t3(1) t4(1) map unmap alloc
    unfolding init_stack_def sizes option.case Let_def sum_sizes len strings_def [symmetric] a_def [symmetric]
    by simp
  have built: "vread child ?s' (STACK_SHIFT + b) = vread self t4 b" if "4096 \<le> b" "b < 8192" for b
  proof -
    have p: "b div 4096 = 1" using that by (simp add: div_nat_eqI)
    have e: "STACK_SHIFT + b = b + 0x3effd * 4096" by simp
    have "(STACK_SHIFT + b) div 4096 = 0x3effe" "(STACK_SHIFT + b) mod 4096 = b mod 4096"
      unfolding e div_mult_self1 [OF zero_neq_numeral [symmetric]] mod_mult_self1 using p by simp_all
    then show ?thesis using t4f(3) grant(4) p by (simp add: vread_def)
  qed
  have nz: "0 \<notin> set xs" if "xs \<in> set xss" for xs
    using args that by (auto simp: list_all2_conv_all_nth in_set_conv_nth cstr_def)
  have "stack_holds (vread child ?s') (STACK_SHIFT + (a - 16)) xss"
  proof (rule built_stack [OF lay(1,2,3), where m = "vread self ?s1" and M = "vread self t4"])
    show "vread self t4 = st64 fput (a - 16) (of_nat (length xss)) (st64 fput (a - 8) (of_nat (STACK_SHIFT + a))
      (st_args a (STACK_SHIFT + strings) ?ns (poke strings (zstrings xss) (vread self ?s1))))"
      unfolding t4(3) t3(3) t2(3) t1(3) ..
  qed (use nz built in blast)+
  moreover have "vpt ?s' e p = vpt s e p" if "(e \<noteq> self \<or> p \<noteq> 1) \<and> (e \<noteq> child \<or> p \<noteq> 0x3effe)" for e p
    using that by (auto simp: F)
  moreover have "vpt ?s' self 1 = None" by simp
  ultimately show ?thesis using r by blast
qed

text \<open>C39: When the arguments fit, \<open>init_stack\<close> gives the new program a stack on which it finds at its stack
  pointer the number of its arguments, the address of their table and the table itself, whose entries point
  to copies of the strings; the parent's own page is gone again and no other mapping changes.\<close>

theorem init_stack_passes_arguments:
  assumes "counts_ok s" and "deny s = []" "live s child" "child \<noteq> 0" "child \<noteq> self" and "free_frame s = Some f"
    and "list_all2 (\<lambda>p xs. cstr (\<lambda>s. vread self s) s p xs \<and> far p (length xs)) argv xss"
    and "(length (zstrings xss) + 7) div 8 * 8 + 8 * (length xss + 3) \<le> 4096"
  shows "\<exists>esp s'. init_stack self child argv s = Ret (0, Some esp) s' \<and> stack_holds (vread child s') esp xss \<and>
    vpt s' self 1 = None \<and> (\<forall>e p. (e \<noteq> self \<or> p \<noteq> 1) \<and> (e \<noteq> child \<or> p \<noteq> 0x3effe) \<longrightarrow> vpt s' e p = vpt s e p)"
  by (rule init_stack_lemma [OF assms])

text \<open>The arguments ls and -l, at 8192 and 8200 in the memory of environment 1.\<close>

definition two_args :: vm where
  "two_args = demo_shared\<lparr>frames := (\<lambda>f i. if f = 41 \<and> i < 11 then [108, 115, 0, 0, 0, 0, 0, 0, 45, 108, 0] ! i else 0),
     frefs := (\<lambda>f. if f = 41 then 1 else 0), live := (\<lambda>_. True),
     vpt := (\<lambda>e p. if e = 1 \<and> p = 2 then Some (41, USER_RW) else None)\<rparr>"

lemma two_args_facts:
  "counts_ok two_args" "deny two_args = []" "live two_args 3" "\<exists>f. free_frame two_args = Some f"
  "list_all2 (\<lambda>p xs. cstr (\<lambda>s. vread 1 s) two_args p xs \<and> far p (length xs)) [8192, 8200] [[108, 115], [45, 108]]"
proof -
  have "users f two_args = (if f = 41 then {(1, 2)} else {})" for f
    by (auto simp: users_vpt two_args_def split: if_splits)
  then show "counts_ok two_args" by (simp add: counts_ok_def) (simp add: two_args_def)
  show "deny two_args = []" "live two_args 3" "\<exists>f. free_frame two_args = Some f"
    by (simp_all add: two_args_def demo_shared_def free_frame_def)
  have "far 8192 (Suc (Suc 0))" "far 8200 (Suc (Suc 0))" by (auto simp: far_def)
  then show "list_all2 (\<lambda>p xs. cstr (\<lambda>s. vread 1 s) two_args p xs \<and> far p (length xs)) [8192, 8200] [[108, 115], [45, 108]]"
    by (simp add: vread_def two_args_def)
qed

theorem init_stack_passes_arguments_witness:
  "\<exists>esp s'. init_stack 1 3 [8192, 8200] two_args = Ret (0, Some esp) s' \<and> stack_holds (vread 3 s') esp [[108, 115], [45, 108]]"
proof -
  obtain f where f: "free_frame two_args = Some f" using two_args_facts(4) by blast
  show ?thesis
    using init_stack_passes_arguments [OF two_args_facts(1,2,3) _ _ f two_args_facts(5)] by auto
qed

end
