(* ===== verification/Vmkernel.thy ===== *)
theory Vmkernel
  imports Exceptions Vm
begin

text \<open>
  The kernel implements the memory that user programs see: \<open>sys_mem_alloc\<close>, \<open>sys_mem_map\<close> and
  \<open>sys_mem_unmap\<close> on page tables, reference counts and the bitmap (kernel/syscall_all.c, mm/pmap.c) refine
  the calls on maps of Vm, which the properties of fork, of descriptors and of pipes rest on.
\<close>

section \<open>Pages of user addresses\<close>

text \<open>The tables translate the low 39 bits of an address.\<close>

definition low_va :: "u64 \<Rightarrow> bool" where
  "low_va va \<longleftrightarrow> va < 2 ^ 39 \<and> user_va va"

definition vpn :: "u64 \<Rightarrow> nat" where
  "vpn va = unat va div 4096"

lemma index_nat: "unat (drop_bit n x AND 0x1ff) = unat x div 2 ^ n mod 512" for x :: u64
proof -
  have m: "(0x1ff :: u64) = mask 9" by (simp add: mask_eq_exp_minus_1)
  show ?thesis unfolding m 
    by (simp add: take_bit_eq_mask [symmetric] unat_drop_bit_eq unsigned_take_bit_eq)
      (simp add: take_bit_eq_mod drop_bit_eq_div)
qed

lemma vpath_nat:
  "vpath va = [vpn va div 2 ^ 18 mod 512, vpn va div 2 ^ 9 mod 512, vpn va mod 512]"
  by (simp add: vpath_def GET_L1_INDEX_def GET_L2_INDEX_def GET_L3_INDEX_def index_nat vpn_def div_mult2_eq [symmetric])

lemma vpath_vpn:
  assumes "low_va va" and "low_va va'"
  shows "vpath va = vpath va' \<longleftrightarrow> vpn va = vpn va'"
proof
  have small: "vpn x < 2 ^ 27" if "low_va x" for x
  proof -
    have "unat x < 2 ^ 39" using that by (simp add: low_va_def word_less_nat_alt)
    then show ?thesis by (simp add: vpn_def)
  qed
  have split: "n = n div 262144 mod 512 * 262144 + n div 512 mod 512 * 512 + n mod 512"
    if "n < 2 ^ 27" for n :: nat
  proof -
    have "n div 262144 mod 512 = n div 512 div 512" using that by (simp add: div_mult2_eq [symmetric])
    then show ?thesis
      using div_mult_mod_eq [of n 512, symmetric] div_mult_mod_eq [of "n div 512" 512, symmetric] by linarith
  qed
  assume "vpath va = vpath va'"
  then have "vpn va div 262144 mod 512 = vpn va' div 262144 mod 512" "vpn va div 512 mod 512 = vpn va' div 512 mod 512"
    "vpn va mod 512 = vpn va' mod 512" by (simp_all add: vpath_nat)
  with split [OF small [OF assms(1)]] split [OF small [OF assms(2)]] show "vpn va = vpn va'" by (metis)
qed (simp add: vpath_nat)

lemma low_va_ROUNDDOWN:
  assumes "low_va va"
  shows "low_va (ROUNDDOWN va 4096)" "vpn (ROUNDDOWN va 4096) = vpn va"
proof -
  have m: "(va AND NOT (mask 12)) \<le> va" by (rule word_and_le2)
  have n: "drop_bit 12 (va AND NOT (mask 12)) = drop_bit 12 va"
    by (rule bit_word_eqI) (auto simp: bit_simps dest: bit_imp_le_length)
  show "low_va (ROUNDDOWN va 4096)"
    using assms m user_va_ROUNDDOWN [of va] by (auto simp: low_va_def ROUNDDOWN_def mask12)
  have r: "ROUNDDOWN va 4096 = va AND NOT (mask 12)" by (simp add: ROUNDDOWN_def mask12)
  have "unat (drop_bit 12 (va AND NOT (mask 12))) = unat (drop_bit 12 va)" unfolding n ..
  then show "vpn (ROUNDDOWN va 4096) = vpn va"
    unfolding vpn_def r unat_drop_bit_eq by (simp add: drop_bit_eq_div)
qed

section \<open>The relation\<close>

text \<open>
  Identifiers: each live environment has one, it names its slot of the table, and programs know
  exactly these. A page of a live environment is mapped as the program's map says. A mapped frame has
  the bytes and the number of mappings that the program's model gives it; a frame that is free has none.
\<close>

definition ids_shown :: "u32 \<Rightarrow> kstate \<Rightarrow> vm \<Rightarrow> bool" where
  "ids_shown self s v \<longleftrightarrow> (\<exists>c. curenv s = Some c \<and> env_id (envs s c) = self) \<and>
     (\<forall>e \<in> KernelInv.live s. ENVX (env_id (envs s e)) = e \<and> env_id (envs s e) \<noteq> 0) \<and>
     (\<forall>i. Vm.live v i \<longleftrightarrow> (\<exists>e \<in> KernelInv.live s. env_id (envs s e) = i))"

definition pages_shown :: "kstate \<Rightarrow> vm \<Rightarrow> bool" where
  "pages_shown s v \<longleftrightarrow> (\<forall>e \<in> KernelInv.live s. \<forall>d. pgdir (envs s e) = Some d \<longrightarrow>
     (\<forall>va. low_va va \<longrightarrow> vmap s d va =
        map_option (\<lambda>(f, p). page_pa s f OR p) (vpt v (env_id (envs s e)) (vpn va))))"

text \<open>\<open>uses s v f\<close>: some live environment maps frame \<open>f\<close> at a user address, as the programs see it.\<close>

definition uses :: "kstate \<Rightarrow> vm \<Rightarrow> nat \<Rightarrow> u64 \<Rightarrow> bool" where
  "uses s v f p \<longleftrightarrow> (\<exists>e \<in> KernelInv.live s. \<exists>va. low_va va \<and> vpt v (env_id (envs s e)) (vpn va) = Some (f, p))"

definition frame_shown :: "kstate \<Rightarrow> vm \<Rightarrow> nat \<Rightarrow> bool" where
  "frame_shown s v f \<longleftrightarrow> frefs v f = unat (page_ref s f) \<and> (\<forall>i < 4096. frames v f i = pbyte s (f * 4096 + i))"

definition vm_shown :: "u32 \<Rightarrow> kstate \<Rightarrow> vm \<Rightarrow> bool" where
  "vm_shown self s v \<longleftrightarrow> ids_shown self s v \<and> pages_shown s v \<and>
     (\<forall>f p. uses s v f p \<longrightarrow> f < 2 ^ 18 \<and> perm_ok p \<and> p AND VALID \<noteq> 0 \<and> frame_shown s v f) \<and>
     (\<forall>f < 2 ^ 18. \<not> page_used s f \<longrightarrow> frefs v f = 0)"

lemma pbyte_frame: "ram s' f = ram s f \<Longrightarrow> i < 4096 \<Longrightarrow> pbyte s' (f * 4096 + i) = pbyte s (f * 4096 + i)"
  by (simp add: pbyte_def)

lemma frame_shownI:
  assumes "frame_shown s v f" and "ram s' f = ram s f" and "frames v' f = frames v f"
    and "frefs v f = unat (page_ref s f) \<Longrightarrow> frefs v' f = unat (page_ref s' f)"
  shows "frame_shown s' v' f"
  using assms pbyte_frame [OF assms(2)] by (simp add: frame_shown_def)

lemma vm_shownI:
  assumes "ids_shown self s v" and "pages_shown s v"
    and "\<And>f p. uses s v f p \<Longrightarrow> f < 2 ^ 18 \<and> perm_ok p \<and> p AND VALID \<noteq> 0 \<and> frame_shown s v f"
    and "\<And>f. f < 2 ^ 18 \<Longrightarrow> \<not> page_used s f \<Longrightarrow> frefs v f = 0"
  shows "vm_shown self s v"
  using assms unfolding vm_shown_def by blast

lemma vm_shownD:
  assumes "vm_shown self s v"
  shows "ids_shown self s v" "pages_shown s v"
    "uses s v f p \<Longrightarrow> f < 2 ^ 18" "uses s v f p \<Longrightarrow> perm_ok p" "uses s v f p \<Longrightarrow> p AND VALID \<noteq> 0"
    "uses s v f p \<Longrightarrow> frame_shown s v f"
    "f < 2 ^ 18 \<Longrightarrow> \<not> page_used s f \<Longrightarrow> frefs v f = 0"
  using assms unfolding vm_shown_def by blast+

lemma ids_injective:
  assumes "ids_shown self s v" and "e \<in> KernelInv.live s" and "e' \<in> KernelInv.live s"
  shows "env_id (envs s e) = env_id (envs s e') \<longleftrightarrow> e = e'"
  using assms unfolding ids_shown_def by metis

text \<open>A frame in use is an allocated page that is no table.\<close>

lemma used_frame:
  assumes inv: "kinv s" and sh: "vm_shown self s v" and u: "uses s v f p"
  shows "page_used s f" "\<not> is_table s (dirs s) f" "page_ref s f > 0"
proof -
  obtain e va where e: "e \<in> KernelInv.live s" "low_va va" "vpt v (env_id (envs s e)) (vpn va) = Some (f, p)"
    using u by (auto simp: uses_def)
  obtain d where d: "pgdir (envs s e) = Some d" "d \<in> dirs s" by (rule kinv_dir [OF inv e(1)])
  have fp: "f < 2 ^ 18" "perm_ok p" using sh u by (auto simp: vm_shown_def)
  have va: "user_va va" using e(2) by (simp add: low_va_def)
  have m: "vmap s d va = Some (page_pa s f OR p)"
    using sh e d unfolding vm_shown_def pages_shown_def by simp
  have "pte_page (page_pa s f OR p) = f"
    using kinv_spaces(2) [OF inv] fp perm_ok_addr [of p] by (simp add: pa_ok_def pte_page_OR)
  then have n: "node s d (vpath va) = Some f" using m va by (simp add: vmap_node)
  show "page_ref s f > 0" by (rule wf_mapped_ref [OF kinv_spaces(1) [OF inv] d(2) _ n]) (simp add: va)
  then show "page_used s f" by (rule wf_ref_used [OF kinv_spaces(1) [OF inv]])
  show "\<not> is_table s (dirs s) f"
    by (rule wf_leaf_not_table [OF kinv_spaces(1) [OF inv] d(2) _ n]) (simp add: va)
qed

section \<open>One entry changes\<close>

definition shown_entry :: "'a pmem_scheme \<Rightarrow> (nat \<times> u64) option \<Rightarrow> u64 option" where
  "shown_entry s x = map_option (\<lambda>(f, p). page_pa s f OR p) x"

text \<open>The kernel replaces the entry of one page by the one that \<open>x\<close> stands for.\<close>

definition entry_set :: "kstate \<Rightarrow> nat \<Rightarrow> u64 \<Rightarrow> (nat \<times> u64) option \<Rightarrow> kstate \<Rightarrow> bool" where
  "entry_set s d va x s' \<longleftrightarrow> pmem.more s' = pmem.more s \<and> page_pa s' = page_pa s \<and>
     (\<forall>d' \<in> dirs s. \<forall>va'. user_va va' \<longrightarrow>
        vmap s' d' va' = (if d' = d \<and> same_vpage va' va then shown_entry s x else vmap s d' va'))"

lemma more_live:
  assumes "pmem.more s' = pmem.more s"
  shows "KernelInv.live s' = KernelInv.live s" "envs s' = envs s" "curenv s' = curenv s"
proof -
  note K = kstate_more [OF assms]
  show "KernelInv.live s' = KernelInv.live s" by (simp add: KernelInv.live_def K)
  show "envs s' = envs s" "curenv s' = curenv s" by (simp_all add: K)
qed

lemma entry_set_pages:
  assumes inv: "kinv s" and sh: "pages_shown s v" "ids_shown self s v"
    and e: "e \<in> KernelInv.live s" "pgdir (envs s e) = Some d" and va: "low_va va"
    and set: "entry_set s d va x s'"
    and v': "vpt v' = (vpt v)(env_id (envs s e) := (vpt v (env_id (envs s e)))(vpn va := x))"
  shows "pages_shown s' v'"
proof -
  note M = more_live [of s' s] set [unfolded entry_set_def]
  have dist: "e' = e" if "e' \<in> KernelInv.live s" "pgdir (envs s e') = Some d" for e'
    using inv that e unfolding kinv_def dirs_ok_def by metis
  have "vmap s' d' va' = map_option (\<lambda>(f, p). page_pa s f OR p) (vpt v' (env_id (envs s e')) (vpn va'))"
    if e': "e' \<in> KernelInv.live s" "pgdir (envs s e') = Some d'" and lo: "low_va va'" for e' d' va'
  proof -
    have d': "d' \<in> dirs s" using e' by (auto simp: dirs_def)
    have "user_va va'" using lo by (simp add: low_va_def)
    then have "vmap s' d' va' = (if d' = d \<and> vpn va' = vpn va then shown_entry s x else vmap s d' va')"
      using M d' vpath_vpn [OF lo va] by simp
    moreover have "d' = d \<longleftrightarrow> env_id (envs s e') = env_id (envs s e)"
      using ids_injective [OF sh(2) e'(1) e(1)] dist [OF e'(1)] e'(2) e(2) by auto
    moreover have "vmap s d' va' = map_option (\<lambda>(f, p). page_pa s f OR p) (vpt v (env_id (envs s e')) (vpn va'))"
      using sh(1) e' lo by (simp add: pages_shown_def)
    ultimately show ?thesis by (auto simp: v' shown_entry_def)
  qed
  then show ?thesis using M by (simp add: pages_shown_def)
qed

lemma entry_set_uses:
  assumes "pmem.more s' = pmem.more s" and "uses s' v' f p"
    and "vpt v' = (vpt v)(i := (vpt v i)(n := x))"
  shows "uses s v f p \<or> x = Some (f, p)"
  using assms more_live [OF assms(1)] by (auto simp: uses_def split: if_splits)

lemma ids_shown_cong:
  assumes "ids_shown self s v" and "pmem.more s' = pmem.more s" and "Vm.live v' = Vm.live v"
  shows "ids_shown self s' v'"
  using assms more_live [OF assms(2)] by (simp add: ids_shown_def)

text \<open>The entry that the program's model has for a page is the one the kernel finds.\<close>

lemma shown_lookup:
  assumes inv: "kinv s" and sh: "vm_shown self s v" and e: "e \<in> KernelInv.live s" "pgdir (envs s e) = Some d"
    and va: "low_va va"
  shows "vmap s d va = shown_entry s (vpt v (env_id (envs s e)) (vpn va))"
    "map_option pte_page (vmap s d va) = frame_of (env_id (envs s e)) (vpn va) v"
    "vpt v (env_id (envs s e)) (vpn va) = Some (f, p) \<Longrightarrow> uses s v f p"
proof -
  show m: "vmap s d va = shown_entry s (vpt v (env_id (envs s e)) (vpn va))"
    using sh e va unfolding vm_shown_def pages_shown_def shown_entry_def by blast
  show u: "vpt v (env_id (envs s e)) (vpn va) = Some (f, p) \<Longrightarrow> uses s v f p" for f p
    using e va by (auto simp: uses_def)
  show "map_option pte_page (vmap s d va) = frame_of (env_id (envs s e)) (vpn va) v"
  proof (cases "vpt v (env_id (envs s e)) (vpn va)")
    case None
    then show ?thesis by (simp add: m shown_entry_def frame_of_def)
  next
    case (Some x)
    obtain f p where x: "x = (f, p)" by (cases x)
    have "f < 2 ^ 18" "perm_ok p" using sh u [of f p] Some x by (auto simp: vm_shown_def)
    then have "pte_page (page_pa s f OR p) = f"
      using kinv_spaces(2) [OF inv] perm_ok_addr [of p] by (simp add: pa_ok_def pte_page_OR)
    then show ?thesis using Some x by (simp add: m shown_entry_def frame_of_def)
  qed
qed

section \<open>Removing and inserting\<close>

lemma remove_shown:
  assumes inv: "kinv s" and sh: "vm_shown self s v" and e: "e \<in> KernelInv.live s" "pgdir (envs s e) = Some d"
    and va: "low_va va"
  shows "vm_shown self (page_remove d va s) (unmap_page (env_id (envs s e)) (vpn va) v)"
proof -
  let ?i = "env_id (envs s e)" and ?s = "page_remove d va s"
  note L = shown_lookup [OF inv sh e va]
  have d: "d \<in> dirs s" using e by (auto simp: dirs_def)
  have uv: "user_va va" using va by (simp add: low_va_def)
  show ?thesis
  proof (cases "vpt v ?i (vpn va)")
    case None
    then show ?thesis using sh L(1) by (simp add: unmap_page_def shown_entry_def page_remove_unmapped)
  next
    case (Some x)
    obtain f p where x: "x = (f, p)" by (cases x)
    let ?v = "unmap_page ?i (vpn va) v"
    have v': "vpt ?v = (vpt v)(?i := (vpt v ?i)(vpn va := None))" "Vm.live ?v = Vm.live v" "frames ?v = frames v"
      "frefs ?v = (frefs v)(f := frefs v f - 1)" by (simp_all add: unmap_page_def Some x)
    note F = page_remove_frame [OF kinv_spaces(1) [OF inv] d uv]
    have more: "pmem.more ?s = pmem.more s" by simp
    have old: "map_option pte_page (vmap s d va) = Some f" using L(2) Some x by (simp add: frame_of_def)
    have set: "entry_set s d va None ?s"
      using page_remove_wf(3) [OF kinv_spaces(1) [OF inv] d uv] F(1) more
      by (simp add: entry_set_def shown_entry_def vmap_def)
    have uf: "uses s v f p" by (rule L(3)) (simp add: Some x)
    have fs: "frefs v f = unat (page_ref s f)" using sh uf by (auto simp: vm_shown_def frame_shown_def)
    have "frame_shown ?s ?v q" if "uses s v q p'" for q p'
    proof -
      have "ram ?s q = ram s q" by (rule F(2) [OF used_frame(2) [OF inv sh that]])
      moreover have "unat (page_ref s q - 1) = unat (page_ref s q) - 1"
        using used_frame(3) [OF inv sh that] by (simp add: unat_minus_one word_gt_0)
      ultimately show ?thesis using F(3) [of q] old
        by (intro frame_shownI [OF vm_shownD(6) [OF sh that]]) (auto simp: v')
    qed
    then have frame: "frame_shown ?s ?v q" if "uses s v q p'" for q p' using that by blast
    show ?thesis
    proof (rule vm_shownI)
      show "ids_shown self ?s ?v" by (rule ids_shown_cong [OF vm_shownD(1) [OF sh] more v'(2)])
      show "pages_shown ?s ?v"
        by (rule entry_set_pages [OF inv vm_shownD(2,1) [OF sh] e va set v'(1)])
      show "q < 2 ^ 18 \<and> perm_ok p' \<and> p' AND VALID \<noteq> 0 \<and> frame_shown ?s ?v q" if "uses ?s ?v q p'" for q p'
        using entry_set_uses [OF more that v'(1)] vm_shownD [OF sh] frame by blast
      show "frefs ?v q = 0" if "q < 2 ^ 18" "\<not> page_used ?s q" for q
        using vm_shownD(7) [OF sh that(1)] that(2) F(4) [of q] old fs by (auto simp: v' pred_pos)
    qed
  qed
qed

text \<open>The counts of the model after mapping a page.\<close>

lemma map_page_frefs:
  "frefs (map_page i n f perm v) q =
    (if frame_of i n v = Some f then frefs v q
     else frefs v q - (if frame_of i n v = Some q then 1 else 0) + (if q = f then 1 else 0))"
  by (auto simp: map_page_def unmap_page_def frame_of_def Let_def split: option.splits)

lemma mapped_page_fields:
  "vpt (map_page i n f perm v) = (vpt v)(i := (vpt v i)(n := Some (f, perm OR VALID)))"
  "Vm.live (map_page i n f perm v) = Vm.live v" "frames (map_page i n f perm v) = frames v"
  by (auto simp: map_page_def unmap_page_def Let_def fun_eq_iff split: option.splits)

lemma insert_shown:
  assumes inv: "kinv s" and sh: "vm_shown self s v" and e: "e \<in> KernelInv.live s" "pgdir (envs s e) = Some d"
    and va: "low_va va" "perm_ok perm"
    and f: "f < 2 ^ 18" "page_used s f" "\<not> is_table s (dirs s) f" "page_ref s f \<noteq> -1" "frame_shown s v f"
    and ins: "page_insert d f va perm s = (r, s')"
  shows "r = 0 \<and> vm_shown self s' (map_page (env_id (envs s e)) (vpn va) f perm v) \<or>
    r = -1 \<and> vm_shown self s' v"
proof -
  let ?i = "env_id (envs s e)" and ?S = "wf_spaces s (dirs s)"
  let ?v = "if r = 0 then map_page ?i (vpn va) f perm v else v"
  have d: "d \<in> dirs s" using e by (auto simp: dirs_def)
  have uv: "user_va va" using va by (simp add: low_va_def)
  have I: "inserts s (dirs s) d va (pte_for s f perm) (r, s')"
    using page_insert_inserts [OF kinv_spaces [OF inv] d uv va(2) f(1-4)] ins by simp
  have C: "insert_counts s (dirs s) (frame_of ?i (vpn va) v) f (r, s')"
    using page_insert_counts [OF kinv_spaces [OF inv] d uv f(2,3)] ins shown_lookup(2) [OF inv sh e va(1)] by metis
  have r: "r = 0 \<or> r = -1" using I by (simp add: inserts_def)
  have pa: "page_pa s' = page_pa s" using C by (simp add: insert_counts_def)
  have more: "pmem.more s' = pmem.more s" using ins by (metis more_page_insert snd_conv)
  define x where "x = (if r = 0 then Some (f, perm OR VALID) else vpt v ?i (vpn va))"
  have v': "vpt ?v = (vpt v)(?i := (vpt v ?i)(vpn va := x))" "Vm.live ?v = Vm.live v" "frames ?v = frames v"
    by (auto simp: x_def mapped_page_fields)
  have set: "entry_set s d va x s'"
  proof -
    have "vmap s' d' va' = (if d' = d \<and> same_vpage va' va then shown_entry s x else vmap s d' va')"
      if "d' \<in> dirs s" "user_va va'" for d' va'
      using inserts_vmap [OF I that] shown_lookup(1) [OF inv sh e va(1)]
      by (auto simp: x_def shown_entry_def pte_for_def vmap_def)
    then show ?thesis using more pa by (simp add: entry_set_def)
  qed
  have frame: "frame_shown s' ?v q" if q: "q = f \<or> uses s v q p" for q p
  proof (rule frame_shownI)
    have t: "page_used s q" "\<not> is_table s (dirs s) q" using q f used_frame [OF inv sh] by auto
    show "frame_shown s v q" using q f(5) vm_shownD(6) [OF sh] by blast
    show "ram s' q = ram s q" using I t by (simp add: inserts_def)
    show "frames ?v q = frames v q" by (simp add: v')
    assume a: "frefs v q = unat (page_ref s q)"
    have R: "page_ref s' q = (if r = 0 \<and> frame_of ?i (vpn va) v \<noteq> Some f
           then page_ref s q - (if frame_of ?i (vpn va) v = Some q then 1 else 0) + (if q = f then 1 else 0)
           else page_ref s q)" using C t by (simp add: insert_counts_def)
    have up: "unat (page_ref s f + 1) = unat (page_ref s f) + 1" using f(4) by (rule unat_plus_one)
    have down: "unat (page_ref s q - 1) = unat (page_ref s q) - 1" if "q \<noteq> f"
      using q that used_frame(3) [OF inv sh] by (auto simp: unat_minus_one word_gt_0)
    show "frefs ?v q = unat (page_ref s' q)"
      using up down R a by (cases "q = f") (auto simp: map_page_frefs)
  qed
  have ok: "(perm OR VALID) AND VALID \<noteq> 0" "perm_ok (perm OR VALID)"
    using va(2) by (simp_all add: perm_ok_def bit.conj_disj_distrib2 or.commute bit.conj_disj_distrib)
  have "vm_shown self s' ?v"
  proof (rule vm_shownI)
    show "ids_shown self s' ?v" by (rule ids_shown_cong [OF vm_shownD(1) [OF sh] more v'(2)])
    show "pages_shown s' ?v" by (rule entry_set_pages [OF inv vm_shownD(2,1) [OF sh] e va(1) set v'(1)])
    show "q < 2 ^ 18 \<and> perm_ok p \<and> p AND VALID \<noteq> 0 \<and> frame_shown s' ?v q" if u: "uses s' ?v q p" for q p
    proof -
      have "uses s v q p \<or> r = 0 \<and> q = f \<and> p = perm OR VALID"
        using entry_set_uses [OF more u v'(1)] shown_lookup(3) [OF inv sh e va(1)] by (auto simp: x_def split: if_splits)
      then show ?thesis using frame [of q p] vm_shownD [OF sh] f(1) ok by blast
    qed
    show "frefs ?v q = 0" if "q < 2 ^ 18" "\<not> page_used s' q" for q
    proof (cases "page_used s q")
      case True
      then have "\<not> is_table s (dirs s) q" using C that(2) by (auto simp: insert_counts_def)
      then have "r = 0" "frame_of ?i (vpn va) v \<noteq> Some f" "frame_of ?i (vpn va) v = Some q" "page_ref s q = 1"
        using C True that(2) by (auto simp: insert_counts_def)
      moreover from this obtain p where "uses s v q p"
        using shown_lookup(3) [OF inv sh e va(1)] by (auto simp: frame_of_def)
      ultimately show ?thesis using vm_shownD(6) [OF sh] by (auto simp: map_page_frefs frame_shown_def)
    next
      case False
      then have "q \<noteq> f" using f(2) by auto
      then show ?thesis using vm_shownD(7) [OF sh that(1) False] by (simp add: map_page_frefs)
    qed
  qed
  then show ?thesis using r by auto
qed

section \<open>Fresh frames\<close>

lemma vm_shown_frames:
  assumes sh: "vm_shown self s v" and more: "pmem.more s' = pmem.more s"
    and pa: "page_pa s' = page_pa s" and ref: "page_ref s' = page_ref s"
    and map: "\<And>d va. d \<in> dirs s \<Longrightarrow> user_va va \<Longrightarrow> vmap s' d va = vmap s d va"
    and v': "vpt v' = vpt v" "Vm.live v' = Vm.live v" "frefs v' = frefs v"
    and same: "\<And>f p. uses s v f p \<Longrightarrow> ram s' f = ram s f \<and> frames v' f = frames v f"
    and used: "\<And>f. f < 2 ^ 18 \<Longrightarrow> \<not> page_used s' f \<Longrightarrow> \<not> page_used s f"
  shows "vm_shown self s' v'"
proof (rule vm_shownI)
  note M = more_live [OF more]
  have u: "uses s' v' f p = uses s v f p" for f p by (simp add: uses_def M v')
  show "ids_shown self s' v'" by (rule ids_shown_cong [OF vm_shownD(1) [OF sh] more v'(2)])
  show "pages_shown s' v'"
    unfolding pages_shown_def M v' pa
  proof (intro ballI allI impI)
    fix e d va assume a: "e \<in> KernelInv.live s" "pgdir (envs s e) = Some d" "low_va va"
    then have "vmap s' d va = vmap s d va" by (intro map) (auto simp: dirs_def low_va_def)
    then show "vmap s' d va = map_option (\<lambda>(f, p). page_pa s f OR p) (vpt v (env_id (envs s e)) (vpn va))"
      using vm_shownD(2) [OF sh] a by (simp add: pages_shown_def)
  qed
  show "f < 2 ^ 18 \<and> perm_ok p \<and> p AND VALID \<noteq> 0 \<and> frame_shown s' v' f" if "uses s' v' f p" for f p
    using vm_shownD(3-6) [OF sh, of f p] same that
    by (auto simp: u v' ref intro!: frame_shownI [of s v f])
  show "frefs v' f = 0" if "f < 2 ^ 18" "\<not> page_used s' f" for f
    using vm_shownD(7) [OF sh] used that v' by simp
qed

text \<open>A page the allocator hands out is nobody's, so programs may be shown any bytes in it: it is cleared.\<close>

lemma alloc_shown:
  assumes inv: "kinv s" and sh: "vm_shown self s v" and al: "page_alloc s = (Some f, s1)"
  shows "vm_shown self s1 v" "vm_shown self s1 (v\<lparr>frames := (frames v)(f := \<lambda>_. 0)\<rparr>)"
    "frame_shown s1 (v\<lparr>frames := (frames v)(f := \<lambda>_. 0)\<rparr>) f" "frefs v f = 0"
proof -
  note F = page_alloc_fresh [OF al] and S = page_alloc_spaces [OF kinv_spaces [OF inv] al]
  have nf: "q \<noteq> f" if "uses s v q p" for q p using used_frame(1) [OF inv sh that] F(2) by auto
  have map: "vmap s1 d va = vmap s d va" if "d \<in> dirs s" "user_va va" for d va
    using S(3) that by (simp add: only_tables_added_def vmap_def)
  note V = vm_shown_frames [OF sh more_page_allocD [OF al] F(8,7) map]
  show "vm_shown self s1 v" "vm_shown self s1 (v\<lparr>frames := (frames v)(f := \<lambda>_. 0)\<rparr>)"
    by (rule V; use nf F(4,6) in auto)+
  show z: "frefs v f = 0" by (rule vm_shownD(7) [OF sh F(1,2)])
  show "frame_shown s1 (v\<lparr>frames := (frames v)(f := \<lambda>_. 0)\<rparr>) f"
    by (simp add: frame_shown_def z F(5,7) S(5) pbyte_def)
qed

lemma uncleared_shown:
  assumes "vm_shown self s (v\<lparr>frames := (frames v)(f := b)\<rparr>)" and "\<And>p. \<not> uses s v f p"
  shows "vm_shown self s v"
  by (rule vm_shown_frames [OF assms(1)]) (use assms(2) in \<open>auto simp: uses_def\<close>)

text \<open>The relation looks at memory, the identifiers and the directories only.\<close>

lemma vm_shown_cong:
  assumes mem: "same_mem s s'" and view: "\<And>e. same_env_view (envs s e) (envs s' e)"
    and "\<And>e. env_id (envs s' e) = env_id (envs s e)" and "curenv s' = curenv s"
  shows "vm_shown self s' v = vm_shown self s v"
proof -
  note S = same_mem_simps [OF mem]
  have "pgdir (envs s' e) = pgdir (envs s e)" for e using view by (simp add: same_env_view_def)
  moreover have "pbyte s' = pbyte s" by (simp add: pbyte_def S fun_eq_iff)
  ultimately show ?thesis
    by (simp add: vm_shown_def ids_shown_def pages_shown_def uses_def frame_shown_def S assms(3,4)
        same_env_view_live(1) [OF view])
qed

lemma vm_shown_set_reg0: "vm_shown self (set_reg0 x s) v = vm_shown self s v"
  by (rule vm_shown_cong) (simp_all add: set_reg0_def same_mem_refl same_env_view_def)

lemma vm_shown_oracle:
  "vm_shown self s (v\<lparr>slots := x\<rparr>) = vm_shown self s v" "vm_shown self s (v\<lparr>deny := y\<rparr>) = vm_shown self s v"
  by (simp_all add: vm_shown_def ids_shown_def pages_shown_def uses_def frame_shown_def)

section \<open>The calls\<close>

text \<open>
  What a program passes in the registers, and the call of Vm it stands for. \<open>sys_mem_alloc\<close> serves only
  the caller and its children; in Vm every environment may be named.
\<close>

datatype mem_call = Mem_alloc u32 u64 u64 | Mem_map u32 u64 u32 u64 u64 | Mem_unmap u32 u64

fun call_no :: "mem_call \<Rightarrow> nat" where
  "call_no (Mem_alloc _ _ _) = 5" | "call_no (Mem_map _ _ _ _ _) = 6" | "call_no (Mem_unmap _ _) = 7"

fun call_args :: "mem_call \<Rightarrow> u64 list" where
  "call_args (Mem_alloc e va perm) = [ucast e, va, perm, 0, 0]"
| "call_args (Mem_map e va e' va' perm) = [ucast e, va, ucast e', va', perm]"
| "call_args (Mem_unmap e va) = [ucast e, va, 0, 0, 0]"

fun vm_call :: "u32 \<Rightarrow> mem_call \<Rightarrow> vm \<Rightarrow> int \<times> vm" where
  "vm_call self (Mem_alloc e va perm) v = vm_mem_alloc self e (unat va) perm v"
| "vm_call self (Mem_map e va e' va' perm) v = vm_mem_map self e (unat va) e' (unat va') perm v"
| "vm_call self (Mem_unmap e va) v = vm_mem_unmap self e (unat va) v"

definition may_name :: "kstate \<Rightarrow> u32 \<Rightarrow> bool" where
  "may_name s i \<longleftrightarrow> i = 0 \<or> (\<exists>c. curenv s = Some c \<and>
     (ENVX i = c \<or> parent_id (envs s (ENVX i)) = env_id (envs s c)))"

fun call_ok :: "mem_call \<Rightarrow> kstate \<Rightarrow> bool" where
  "call_ok (Mem_alloc e va perm) s \<longleftrightarrow> low_va va \<and> perm_ok perm \<and> may_name s e"
| "call_ok (Mem_map e va e' va' perm) s \<longleftrightarrow> low_va va \<and> low_va va' \<and> perm_ok perm"
| "call_ok (Mem_unmap e va) s \<longleftrightarrow> low_va va"

lemma low_va_bounds:
  assumes "low_va va"
  shows "\<not> KERNBASE \<le> va" "\<not> KBASE \<le> unat va" "unat va div 4096 = vpn va" "user_va va"
proof -
  have "va < 2 ^ 39" using assms by (simp add: low_va_def)
  then show "\<not> KERNBASE \<le> va" "\<not> KBASE \<le> unat va" by (simp_all add: word_less_nat_alt word_le_nat_alt)
  show "unat va div 4096 = vpn va" by (simp add: vpn_def)
  show "user_va va" using assms by (simp add: low_va_def)
qed

text \<open>Both sides find the same environment.\<close>

lemma ENVX_bound: "ENVX i < NENV"
proof -
  have "unat (i AND 1023) \<le> unat (1023 :: u32)" by (metis word_and_le1 word_le_nat_alt)
  then show ?thesis by (simp add: ENVX_def)
qed

lemma with_env_target:
  assumes inv: "kinv s" and ids: "ids_shown self s v" and c: "cp \<longrightarrow> may_name s i"
  shows "target self i v = None \<and> (\<forall>f. with_env i cp f s = answer (-1) s) \<or>
    (\<exists>e d. e \<in> KernelInv.live s \<and> pgdir (envs s e) = Some d \<and> target self i v = Some (env_id (envs s e)) \<and>
      (\<forall>f. with_env i cp f s = f e s))"
proof -
  obtain cu where cu: "curenv s = Some cu" "env_id (envs s cu) = self" using ids by (auto simp: ids_shown_def)
  have l: "cu \<in> KernelInv.live s" by (rule kinv_cur [OF inv cu(1)])
  show ?thesis
  proof (cases "i = 0")
    case True
    obtain d where "pgdir (envs s cu) = Some d" by (rule kinv_dir [OF inv l])
    then show ?thesis using True cu l by (auto simp: target_def with_env_def envid2env_def deref_def)
  next
    case False
    let ?e = "ENVX i"
    have known: "Vm.live v i \<longleftrightarrow> ?e \<in> KernelInv.live s \<and> env_id (envs s ?e) = i"
      using ids by (auto simp: ids_shown_def)
    show ?thesis
    proof (cases "Vm.live v i")
      case True
      then have e: "?e \<in> KernelInv.live s" "env_id (envs s ?e) = i" using known by auto
      obtain d where d: "pgdir (envs s ?e) = Some d" by (rule kinv_dir [OF inv e(1)])
      have "envid2env i cp s = Ret (0, Some ?e) s"
        using e False c cu by (auto simp: envid2env_def KernelInv.live_def deref_def may_name_def Let_def)
      then show ?thesis using False True e d by (auto simp: target_def with_env_def deref_def)
    next
      case nl: False
      then have "status (envs s ?e) = ENV_FREE \<or> env_id (envs s ?e) \<noteq> i"
        using known ENVX_bound by (auto simp: KernelInv.live_def)
      then show ?thesis using False nl by (simp add: target_def with_env_def envid2env_def Let_def)
    qed
  qed
qed

text \<open>The outcome of a call is one that Vm allows, for some answers of the allocator.\<close>

definition call_refined :: "u32 \<Rightarrow> mem_call \<Rightarrow> vm \<Rightarrow> unit kres \<Rightarrow> bool" where
  "call_refined self c v res \<longleftrightarrow> (\<exists>s' r fs ds v'. res = Ret () s' \<and>
     vm_call self c (v\<lparr>slots := fs, deny := ds\<rparr>) = (r, v') \<and> regs (tf_cpu s') 0 = of_int r \<and> vm_shown self s' v')"

lemma target_oracle:
  "target self i (v\<lparr>slots := x\<rparr>) = target self i v" "target self i (v\<lparr>deny := y\<rparr>) = target self i v"
  "target self i (v\<lparr>frames := z\<rparr>) = target self i v"
  by (simp_all add: target_def)

lemma answer_refined:
  assumes "vm_call self c (v\<lparr>slots := fs, deny := ds\<rparr>) = (r, v')" and "vm_shown self s v'"
  shows "call_refined self c v (answer r s)"
  unfolding call_refined_def using assms
  by (intro exI [of _ "set_reg0 (of_int r) s"] exI [of _ r] exI [of _ fs] exI [of _ ds] exI [of _ v'])
    (simp add: answer_def vm_shown_set_reg0, simp add: set_reg0_def)

lemma sys_mem_unmap_refined:
  assumes inv: "kinv s" and sh: "vm_shown self s v" and va: "low_va va" and r0: "regs (tf_cpu s) 0 = 7"
  shows "call_refined self (Mem_unmap i va) v (sys_mem_unmap i va s)"
proof -
  note B = low_va_bounds [OF va]
  have un: "sys_mem_unmap i va s = with_env i False (\<lambda>e s1.
       deref (pgdir (envs s1 e)) (\<lambda>pd s1. Ret () (page_remove pd va s1)) s1) s"
    using B by (simp add: sys_mem_unmap_def)
  have any: "False \<longrightarrow> may_name s i" by simp
  from with_env_target [OF inv vm_shownD(1) [OF sh] any] show ?thesis
  proof (elim disjE exE conjE)
    assume t: "target self i v = None" "\<forall>f. with_env i False f s = answer (-1) s"
    have "vm_call self (Mem_unmap i va) (v\<lparr>slots := [], deny := []\<rparr>) = (-1, v\<lparr>slots := [], deny := []\<rparr>)"
      using B t(1) by (simp add: vm_mem_unmap_def target_oracle)
    from answer_refined [OF this] show ?thesis unfolding un using t(2) sh by (simp add: vm_shown_oracle)
  next
    fix e d assume e: "e \<in> KernelInv.live s" "pgdir (envs s e) = Some d"
      and t: "target self i v = Some (env_id (envs s e))" "\<forall>f. with_env i False f s = f e s"
    let ?v = "v\<lparr>slots := [], deny := []\<rparr>"
    have t': "target self i ?v = Some (env_id (envs s e))" using t(1) by (simp add: target_oracle)
    have "vm_shown self s ?v" using sh by (simp add: vm_shown_oracle)
    from remove_shown [OF inv this e va] show ?thesis
      unfolding un call_refined_def
      by (intro exI [of _ "page_remove d va s"] exI [of _ "7 :: int"] exI [of _ "[] :: nat list"]
          exI [of _ "[] :: bool list"] exI [of _ "unmap_page (env_id (envs s e)) (vpn va) ?v"])
        (use B e t t' r0 in \<open>simp add: deref_def vm_mem_unmap_def\<close>)
  qed
qed

lemma sys_mem_alloc_refined:
  assumes inv: "kinv s" and sh: "vm_shown self s v" and va: "low_va va" "perm_ok perm" and i: "may_name s i"
  shows "call_refined self (Mem_alloc i va perm) v (sys_mem_alloc i va perm s)"
proof -
  note B = low_va_bounds [OF va(1)]
  have al: "sys_mem_alloc i va perm s = with_env i True (\<lambda>e s1.
       (case page_alloc s1 of
          (None, s2) \<Rightarrow> answer (-1) s2
        | (Some pp, s2) \<Rightarrow>
            deref (pgdir (envs s2 e)) (\<lambda>pd s2.
              (case page_insert pd pp va perm s2 of
                 (r, s3) \<Rightarrow> if r < 0 then answer r s3 else answer 0 s3)) s2)) s"
    using B by (simp add: sys_mem_alloc_def)
  have refuse: "vm_call self (Mem_alloc i va perm) (v\<lparr>slots := [], deny := []\<rparr>) =
      (-1, v\<lparr>slots := [], deny := []\<rparr>)"
    using B by (simp add: vm_mem_alloc_def asked_def free_frame_def target_def split: option.split)
  note no = answer_refined [OF refuse]
  have name: "True \<longrightarrow> may_name s i" using i by simp
  from with_env_target [OF inv vm_shownD(1) [OF sh] name] show ?thesis
  proof (elim disjE exE conjE)
    assume "\<forall>f. with_env i True f s = answer (-1) s"
    then show ?thesis unfolding al using no sh by (simp add: vm_shown_oracle)
  next
    fix e d assume e: "e \<in> KernelInv.live s" "pgdir (envs s e) = Some d"
      and t: "target self i v = Some (env_id (envs s e))" "\<forall>f. with_env i True f s = f e s"
    obtain fo s1 where pa: "page_alloc s = (fo, s1)" by fastforce
    show ?thesis
    proof (cases fo)
      case None
      then have "s1 = s" using pa page_alloc_None [of s s1] by simp
      then show ?thesis unfolding al using t pa None no sh by (simp add: vm_shown_oracle)
    next
      case (Some f)
      let ?v = "v\<lparr>slots := [f], deny := []\<rparr>"
      let ?z = "?v\<lparr>frames := (frames ?v)(f := \<lambda>_. 0)\<rparr>"
      have "vm_shown self s ?v" using sh by (simp add: vm_shown_oracle)
      note A = alloc_shown [OF inv this pa [unfolded Some]]
      note K = page_alloc_kinv [OF inv pa]
      note M = more_live [OF more_page_allocD [OF pa]]
      have p: "f < 2 ^ 18" "page_used s1 f" "\<not> is_table s1 (dirs s1) f" "page_ref s1 f = 0"
        using K(5) [OF Some] K(2) by simp_all
      obtain r s2 where ins: "page_insert d f va perm s1 = (r, s2)" by fastforce
      have e1: "e \<in> KernelInv.live s1" "pgdir (envs s1 e) = Some d" using e M by simp_all
      have run: "sys_mem_alloc i va perm s = (if r < 0 then answer r s2 else answer 0 s2)"
        unfolding al using t pa Some e1 ins by (simp add: deref_def)
      from insert_shown [OF K(1) A(2) e1 va p(1-3) _ A(3) ins] p(4) M
      consider (ok) "r = 0" "vm_shown self s2 (map_page (env_id (envs s e)) (vpn va) f perm ?z)"
        | (bad) "r = -1" "vm_shown self s2 ?z" by auto
      then show ?thesis
      proof cases
        case ok
        have "vm_call self (Mem_alloc i va perm) ?v = (0, map_page (env_id (envs s e)) (vpn va) f perm ?z)"
          using B t(1) A(4) by (simp add: vm_mem_alloc_def asked_def free_frame_def target_oracle)
        from answer_refined [OF this ok(2)] show ?thesis using run ok(1) by simp
      next
        case bad
        have more: "pmem.more s2 = pmem.more s"
          using ins more_page_allocD [OF pa] by (metis more_page_insert snd_conv)
        have "\<not> uses s2 ?v f p" for p
        proof
          assume "uses s2 ?v f p"
          then have "uses s ?v f p" using more_live [OF more] by (simp add: uses_def)
          then show False
            using used_frame(1) [OF inv \<open>vm_shown self s ?v\<close>] page_alloc_fresh(2) [OF pa [unfolded Some]] by blast
        qed
        then have "vm_shown self s2 (v\<lparr>slots := [], deny := []\<rparr>)"
          using uncleared_shown [OF bad(2)] by (simp add: vm_shown_oracle)
        from no [OF this] show ?thesis using run bad(1) by simp
      qed
    qed
  qed
qed

lemma sys_mem_map_refined:
  assumes inv: "kinv s" and sh: "vm_shown self s v" and va: "low_va va" "low_va va'" "perm_ok perm"
    and max: "\<forall>q. page_ref s q \<noteq> -1"
  shows "call_refined self (Mem_map i va j va' perm) v (sys_mem_map i va j va' perm s)"
proof -
  note B = low_va_bounds [OF va(1)] low_va_bounds [OF va(2)]
  let ?r = "ROUNDDOWN va BY2PG" and ?r' = "ROUNDDOWN va' BY2PG" and ?v = "v\<lparr>slots := [], deny := []\<rparr>"
  note R = low_va_ROUNDDOWN [OF va(1)] low_va_ROUNDDOWN [OF va(2)]
  have map: "sys_mem_map i va j va' perm s = with_env i False (\<lambda>src s1. with_env j False (\<lambda>dst s2.
          deref (pgdir (envs s2 src)) (\<lambda>spd s2.
            (case page_lookup spd ?r s2 of
               None \<Rightarrow> answer (-1) s2
             | Some (_, pte) \<Rightarrow>
                 (let ppage = pa2page (PTE_ADDR (rd pte s2))
                  in deref (pgdir (envs s2 dst)) (\<lambda>dpd s2.
                       (case page_insert dpd ppage ?r' perm s2 of
                          (r, s3) \<Rightarrow> if r < 0 then answer r s3 else answer 0 s3)) s2))) s2) s1) s"
    using B by (simp add: sys_mem_map_def Let_def)
  have no: "call_refined self (Mem_map i va j va' perm) v (answer (-1) s')"
    if "vm_call self (Mem_map i va j va' perm) (v\<lparr>slots := [], deny := ds\<rparr>) = (-1, ?v)" "vm_shown self s' v" for s' ds
    using answer_refined [OF that(1)] that(2) by (simp add: vm_shown_oracle)
  have any: "False \<longrightarrow> may_name s k" for k by simp
  note T = with_env_target [OF inv vm_shownD(1) [OF sh] any]
  have unknown: "call_refined self (Mem_map i va j va' perm) v (answer (-1) s)"
    if "target self i v = None \<or> target self j v = None"
    by (rule no [of "[]"]) (use that B sh in \<open>auto simp: vm_mem_map_def target_oracle split: option.split\<close>)
  show ?thesis
  proof (cases "target self i v = None \<or> target self j v = None")
    case True
    then show ?thesis unfolding map using T [of i] T [of j] unknown [OF True] by auto
  next
    case False
    obtain e d where e: "e \<in> KernelInv.live s" "pgdir (envs s e) = Some d"
      and t: "target self i v = Some (env_id (envs s e))" "\<And>f. with_env i False f s = f e s"
      using T [of i] False by auto
    obtain e' d' where e': "e' \<in> KernelInv.live s" "pgdir (envs s e') = Some d'"
      and t': "target self j v = Some (env_id (envs s e'))" "\<And>f. with_env j False f s = f e' s"
      using T [of j] False by auto
    have d: "d \<in> dirs s" using e by (auto simp: dirs_def)
    note L = shown_lookup [OF inv sh e R(1)]
    show ?thesis
    proof (cases "page_lookup d ?r s")
      case None
      then have "vmap s d ?r = None" using page_lookup_vmap [of d ?r s] by simp
      then have "vpt v (env_id (envs s e)) (vpn va) = None" using L(1) R(2) by (simp add: shown_entry_def)
      then have "call_refined self (Mem_map i va j va' perm) v (answer (-1) s)"
        by (intro no [of "[]"]) (use B t(1) t'(1) sh in \<open>simp_all add: vm_mem_map_def target_oracle\<close>)
      then show ?thesis unfolding map using t(2) t'(2) e(2) None by (simp add: deref_def)
    next
      case (Some pl)
      obtain f pte where pl: "pl = (f, pte)" by (cases pl)
      note lk = Some [unfolded pl]
      have P: "f = pte_page (rd pte s)" "f < 2 ^ 18" "page_used s f" "\<not> is_table s (dirs s) f"
        using mapped_page [OF kinv_spaces(1) [OF inv] d low_va_bounds(4) [OF R(1)] lk] by auto
      have "vmap s d ?r = Some (rd pte s)"
        using page_lookup_correct [of s d ?r] lk by simp
      then have "frame_of (env_id (envs s e)) (vpn va) v = Some f" using L(2) R(2) P(1) by simp
      then obtain p where p: "vpt v (env_id (envs s e)) (vpn va) = Some (f, p)" by (auto simp: frame_of_def)
      have fs: "frame_shown s v f" by (rule vm_shownD(6) [OF sh L(3) [of f p]]) (simp add: R(2) p)
      obtain r s' where ins: "page_insert d' f ?r' perm s = (r, s')" by fastforce
      have run: "sys_mem_map i va j va' perm s = (if r < 0 then answer r s' else answer 0 s')"
        unfolding map using t(2) t'(2) e(2) e'(2) lk P(1) ins by (simp add: deref_def Let_def pa2page_PTE_ADDR)
      have call: "vm_call self (Mem_map i va j va' perm) (v\<lparr>slots := [], deny := ds\<rparr>) =
          (if ds = [] then (0, map_page (env_id (envs s e')) (vpn va') f perm ?v)
           else if hd ds then (-1, v\<lparr>slots := [], deny := tl ds\<rparr>)
           else (0, map_page (env_id (envs s e')) (vpn va') f perm (v\<lparr>slots := [], deny := tl ds\<rparr>)))" for ds
        using B t(1) t'(1) p by (auto simp: vm_mem_map_def target_oracle asked_def split: list.split)
      have "vm_shown self s ?v" "frame_shown s ?v f" using sh fs by (simp_all add: vm_shown_oracle frame_shown_def)
      from insert_shown [OF inv this(1) e' R(3) va(3) P(2-4) _ this(2) ins] max R(4)
      consider (ok) "r = 0" "vm_shown self s' (map_page (env_id (envs s e')) (vpn va') f perm ?v)"
        | (bad) "r = -1" "vm_shown self s' v" by (auto simp: vm_shown_oracle)
      then show ?thesis
      proof cases
        case ok
        then show ?thesis using run answer_refined [OF _ ok(2)] call [of "[]"] by simp
      next
        case bad
        then show ?thesis using run no [of "[True]"] call [of "[True]"] by simp
      qed
    qed
  qed
qed

lemma ucast_down_up: "ucast (ucast i :: u64) = (i :: u32)"
  by (rule bit_word_eqI) (auto simp: bit_simps)

text \<open>The dispatch of the three calls does what the calls of the model do, and keeps the invariant.\<close>

lemma memory_calls_refine_vm:
  assumes "kinv s" and "vm_shown self s v" and "call_ok c s" and "\<forall>q. page_ref s q \<noteq> -1"
    and "regs (tf_cpu s) 0 = of_nat (call_no c)"
  shows "\<exists>s' r fs ds v'. syscall_handlers dev kc (call_no c) (call_args c) s = Ret () s' \<and>
    vm_call self c (v\<lparr>slots := fs, deny := ds\<rparr>) = (r, v') \<and>
    regs (tf_cpu s') 0 = of_int r \<and> vm_shown self s' v' \<and> kinv s'"
proof -
  let ?res = "syscall_handlers dev kc (call_no c) (call_args c) s"
  have "call_refined self c v ?res \<and> out_inv kinv ?res"
  proof (cases c)
    case (Mem_alloc i va perm)
    then have va: "low_va va" "perm_ok perm" "may_name s i" "user_va va"
      using assms(3) by (auto simp: low_va_bounds)
    have "?res = sys_mem_alloc i va perm s" by (simp add: Mem_alloc syscall_handlers_def ucast_down_up)
    then show ?thesis
      using Mem_alloc sys_mem_alloc_refined [OF assms(1,2) va(1-3)] sys_mem_alloc_kinv [OF assms(1) va(4,2)] by simp
  next
    case (Mem_map i va j va' perm)
    then have va: "low_va va" "low_va va'" "perm_ok perm" "user_va va" "user_va va'"
      using assms(3) by (auto simp: low_va_bounds)
    have "?res = sys_mem_map i va j va' perm s" by (simp add: Mem_map syscall_handlers_def ucast_down_up)
    then show ?thesis
      using Mem_map sys_mem_map_refined [OF assms(1,2) va(1-3) assms(4)]
        sys_mem_map_kinv [OF assms(1) va(4,5,3) assms(4)] by simp
  next
    case (Mem_unmap i va)
    then have va: "low_va va" "user_va va" using assms(3) by (auto simp: low_va_bounds)
    have "?res = sys_mem_unmap i va s" by (simp add: Mem_unmap syscall_handlers_def ucast_down_up)
    then show ?thesis
      using Mem_unmap assms(5) sys_mem_unmap_refined [OF assms(1,2) va(1)] sys_mem_unmap_kinv [OF assms(1) va(2)] by simp
  qed
  then obtain s' r fs ds v' where "?res = Ret () s'" "vm_call self c (v\<lparr>slots := fs, deny := ds\<rparr>) = (r, v')"
    "regs (tf_cpu s') 0 = of_int r" "vm_shown self s' v'" "out_inv kinv ?res"
    unfolding call_refined_def by blast
  moreover from this have "kinv s'" by simp
  ultimately show ?thesis by blast
qed

section \<open>An example\<close>

definition demo_known :: kstate where
  "demo_known = set_env 0 (envs demo_run 0\<lparr>env_id := 0x400\<rparr>) demo_run"

definition demo_vm :: vm where
  "demo_vm = \<lparr>frames = (\<lambda>_ _. 0), frefs = (\<lambda>_. 0), slots = [], deny = [], vpd = (\<lambda>_ _. False), vpm = (\<lambda>_ _. False),
     vpt = (\<lambda>_ _. None), live = (\<lambda>i. i = 0x400), newenvs = [], init_pages = 0, runnable = (\<lambda>_. True),
     handler = (\<lambda>_. None)\<rparr>"

lemma demo_known_live: "KernelInv.live demo_known = {0}"
proof -
  have "same_env_view (envs demo_run e) (envs demo_known e)" for e
    by (simp add: demo_known_def same_env_view_def)
  moreover have "KernelInv.live demo_run = {0}"
    using env_init_lists [of demo_kernel] by (auto simp: KernelInv.live_def demo_run_def null_env_def)
  ultimately show ?thesis using same_env_view_live(1) by metis
qed

lemma demo_known_shown:
  "kinv demo_known" "vm_shown 0x400 demo_known demo_vm" "\<forall>q. page_ref demo_known q \<noteq> -1"
  "regs (tf_cpu demo_known) 0 = 5" "may_name demo_known 0"
proof -
  show "kinv demo_known" unfolding demo_known_def
    by (rule kinv_set_env [OF demo_run_kinv]) (simp add: same_env_view_def)
  have e0: "envs demo_known 0 = null_env\<lparr>status := ENV_RUNNABLE, pri := 1, pgdir := Some 2000,
        pgdir_pa := 8192000, env_id := 0x400\<rparr>" by (simp add: demo_known_def demo_run_def)
  have m: "same_mem demo_mem demo_known"
    using env_init_same_mem [of demo_kernel] by (simp add: demo_known_def demo_run_def demo_kernel_def same_mem_def)
  have "vmap demo_known 2000 va = None" if "low_va va" for va
  proof -
    have "GET_L1_INDEX va \<noteq> 256" using that by (simp add: low_va_def user_va_def self_index_eq)
    then show ?thesis
      unfolding same_mem_simps [OF m]
      by (simp add: vmap_unfold demo_mem_def demo_space_def mark_vis_def set_ref_def rd_def)
  qed
  moreover have "curenv demo_known = Some 0" by (simp add: demo_known_def demo_run_def)
  ultimately show "vm_shown 0x400 demo_known demo_vm"
    by (intro vm_shownI) (auto simp: ids_shown_def pages_shown_def uses_def demo_known_live e0 demo_vm_def ENVX_def)
  show "\<forall>q. page_ref demo_known q \<noteq> -1"
    unfolding same_mem_simps [OF m]
    by (simp add: demo_mem_def demo_space_def demo_boot_def init_boot_pt_ref zero_mem_def)
  show "regs (tf_cpu demo_known) 0 = 5" by (simp add: demo_known_def demo_run_def)
  show "may_name demo_known 0" by (simp add: may_name_def)
qed

end
