(* ===== verification/Ipckernel.thy ===== *)
theory Ipckernel
  imports Vmkernel
begin

text \<open>
  Messages between environments as the kernel passes them: what \<open>sys_ipc_can_send\<close> of
  kernel/syscall_all.c does to the receiver's slot of the environment table and to its memory, which is
  described by the maps of Vm.
\<close>

text \<open>The receiver's slot after the message.\<close>

definition told :: "u32 \<Rightarrow> u64 \<Rightarrow> u64 \<Rightarrow> env \<Rightarrow> env" where
  "told from val perm r = r\<lparr>ipc_value := val, ipc_from := ucast from, ipc_perm := perm, ipc_recving := 0,
     status := ENV_RUNNABLE\<rparr>"

lemma told_view: "e \<in> KernelInv.live s \<Longrightarrow> same_env_view (envs s e) (told from val perm (envs s e))"
  by (simp add: told_def same_env_view_def KernelInv.live_def)

lemma vm_shown_told:
  assumes "e \<in> KernelInv.live s"
  shows "vm_shown self (set_env e (told from val perm (envs s e)) s) v = vm_shown self s v"
  by (rule vm_shown_cong)
    (use told_view [OF assms] in \<open>auto simp: same_mem_refl same_env_view_def told_def\<close>)

text \<open>
  What the sender is told and what happens to memory: without a page nothing; with the address of a
  page that is not mapped the sender gets -1; otherwise the page is mapped at the receiver's address,
  or, when no page is free for the receiver's tables, it is not, and nobody is told.
\<close>

definition page_sent :: "u32 \<Rightarrow> vm \<Rightarrow> u64 \<Rightarrow> u32 \<Rightarrow> u64 \<Rightarrow> u64 \<Rightarrow> int \<Rightarrow> vm \<Rightarrow> bool" where
  "page_sent self v srcva t dstva perm r v' \<longleftrightarrow>
     (if srcva = 0 then r = 0 \<and> v' = v
      else case vpt v self (vpn srcva) of
        None \<Rightarrow> r = -1 \<and> v' = v
      | Some (f, _) \<Rightarrow> r = 0 \<and> (v' = map_page t (vpn dstva) f perm v \<or> v' = v))"

lemma send_refined:
  assumes inv: "kinv s" and sh: "vm_shown self s v" and c: "curenv s = Some c" and e: "e \<in> KernelInv.live s"
    and va: "low_va srcva" "perm_ok perm" "low_va (ipc_dstva (envs s e))" and max: "\<forall>q. page_ref s q \<noteq> -1"
    and i: "\<And>f. with_env i False f s = f e s" and rec: "ipc_recving (envs s e) \<noteq> 0"
  shows "\<exists>s' r v'. sys_ipc_can_send i val srcva perm s = Ret () s' \<and> regs (tf_cpu s') 0 = of_int r \<and>
    envs s' = (envs s)(e := told self val perm (envs s e)) \<and> vm_shown self s' v' \<and>
    page_sent self v srcva (env_id (envs s e)) (ipc_dstva (envs s e)) perm r v'"
proof -
  have self: "env_id (envs s c) = self" using vm_shownD(1) [OF sh] c by (simp add: ids_shown_def)
  define s2 where "s2 = set_env e (told self val perm (envs s e)) s"
  have inv2: "kinv s2" unfolding s2_def by (rule kinv_set_env [OF inv told_view [OF e]])
  have sh2: "vm_shown self s2 v" using sh by (simp add: s2_def vm_shown_told [OF e])
  have same2: "env_id (envs s2 y) = env_id (envs s y)" "ipc_dstva (envs s2 y) = ipc_dstva (envs s y)"
    "status (envs s2 y) = ENV_FREE \<longleftrightarrow> status (envs s y) = ENV_FREE" "page_ref s2 = page_ref s" for y
    using told_view [OF e, of self val perm] by (auto simp: s2_def told_def same_env_view_def)
  then have live2: "KernelInv.live s2 = KernelInv.live s" by (simp add: KernelInv.live_def)
  have c2: "c \<in> KernelInv.live s2" "e \<in> KernelInv.live s2" using kinv_cur [OF inv c] e live2 by simp_all
  obtain d where d: "pgdir (envs s2 c) = Some d" "d \<in> dirs s2" by (rule kinv_dir [OF inv2 c2(1)])
  obtain d' where d': "pgdir (envs s2 e) = Some d'" "d' \<in> dirs s2" by (rule kinv_dir [OF inv2 c2(2)])
  have run: "sys_ipc_can_send i val srcva perm s =
    (if srcva \<noteq> 0 then
       (case page_lookup d srcva s2 of
          None \<Rightarrow> answer (-1) s2
        | Some (p, _) \<Rightarrow> answer 0 (snd (page_insert d' p (ipc_dstva (envs s e)) perm s2)))
     else answer 0 s2)"
    using low_va_bounds(1) [OF va(1)] rec i c self d(1) d'(1) same2(2)
    by (simp add: sys_ipc_can_send_def deref_def s2_def [symmetric] told_def [symmetric] Let_def split: option.split)
  have tell: ?thesis if "sys_ipc_can_send i val srcva perm s = answer r t" "envs t = envs s2" "vm_shown self t v'"
    "page_sent self v srcva (env_id (envs s e)) (ipc_dstva (envs s e)) perm r v'" for r t v'
    using that by (intro exI [of _ "set_reg0 (of_int r) t"] exI [of _ r] exI [of _ v'])
      (simp add: answer_def vm_shown_set_reg0, simp add: set_reg0_def s2_def)
  have uc: "env_id (envs s2 c) = self" using same2(1) self by simp
  note L = shown_lookup [OF inv2 sh2 c2(1) d(1) va(1), unfolded uc]
  show ?thesis
  proof (cases "srcva = 0")
    case True
    then show ?thesis using run sh2 by (intro tell [of 0 s2 v]) (simp_all add: page_sent_def)
  next
    case nz: False
    show ?thesis
    proof (cases "page_lookup d srcva s2")
      case None
      then have "vmap s2 d srcva = None" using page_lookup_vmap [of d srcva s2] by simp
      then have "vpt v self (vpn srcva) = None" using L(1) by (simp add: shown_entry_def)
      then show ?thesis using run None nz sh2 by (intro tell [of "-1" s2 v]) (simp_all add: page_sent_def)
    next
      case (Some pl)
      obtain f pte where pl: "pl = (f, pte)" by (cases pl)
      note lk = Some [unfolded pl]
      note P = mapped_page [OF kinv_spaces(1) [OF inv2] d(2) low_va_bounds(4) [OF va(1)] lk]
      have "vmap s2 d srcva = Some (rd pte s2)"
        using page_lookup_correct [of s2 d srcva] lk by simp
      then have "frame_of self (vpn srcva) v = Some f" using L(2) P(1) by simp
      then obtain p where p: "vpt v self (vpn srcva) = Some (f, p)" by (auto simp: frame_of_def)
      obtain r s3 where ins: "page_insert d' f (ipc_dstva (envs s e)) perm s2 = (r, s3)" by fastforce
      have "envs s3 = envs s2" using ins by (metis more_page_insert snd_conv more_live(2))
      moreover have "page_ref s2 f \<noteq> -1" using max same2(4) by simp
      note I = insert_shown [OF inv2 sh2 c2(2) d'(1) va(3,2) P(2-4) this vm_shownD(6) [OF sh2 L(3) [OF p]] ins]
      moreover obtain v' where v': "vm_shown self s3 v'"
        "v' = map_page (env_id (envs s e)) (vpn (ipc_dstva (envs s e))) f perm v \<or> v' = v"
        using I same2(1) by auto
      ultimately show ?thesis
        using run nz lk ins p by (intro tell [of 0 s3 v']) (simp_all add: page_sent_def)
    qed
  qed
qed


text \<open>The program of the example sends itself a number while it waits for a message.\<close>

definition demo_waiting :: kstate where
  "demo_waiting = set_env 0 (envs demo_known 0\<lparr>ipc_recving := 1\<rparr>) demo_known"


end
