(* ===== verification/Fsformat.thy ===== *)
theory Fsformat
  imports Bytes
begin

text \<open>
  The tool that makes the image of the card: fs/fsformat.c, a program of the host. \<open>disk\<close> is the array of
  blocks byte by byte, 4096 bytes of data and the type of the block for each, so that a write past the end
  of a block goes where it goes in C. A \<open>struct File\<close> lies in the super block or at an address in \<open>disk\<close>.
  A file of the host is its name and its bytes. A failed assertion is a panic. The array \<open>disk\<close> starts as zeros.
\<close>

record fmt =
  disk :: "nat \<Rightarrow> u8"
  super :: "nat \<Rightarrow> u8"
  nextbno :: nat

type_synonym 'r mres = "('r, fmt) outcome"

abbreviation (input) NBLOCK :: nat where "NBLOCK \<equiv> 1024"
abbreviation (input) BY2BLK :: nat where "BY2BLK \<equiv> 4096"
abbreviation (input) BIT2BLK :: nat where "BIT2BLK \<equiv> 32768"
abbreviation (input) FILE2BLK :: nat where "FILE2BLK \<equiv> 16"
abbreviation (input) FS_MAGIC :: u32 where "FS_MAGIC \<equiv> 0x19260817"
abbreviation (input) BLOCK_BOOT :: u32 where "BLOCK_BOOT \<equiv> 1"
abbreviation (input) BLOCK_BMAP :: u32 where "BLOCK_BMAP \<equiv> 2"
abbreviation (input) BLOCK_SUPER :: u32 where "BLOCK_SUPER \<equiv> 3"
abbreviation (input) BLOCK_DATA :: u32 where "BLOCK_DATA \<equiv> 4"
abbreviation (input) BLOCK_FILE :: u32 where "BLOCK_FILE \<equiv> 5"
abbreviation (input) BLOCK_INDEX :: u32 where "BLOCK_INDEX \<equiv> 6"

section \<open>Memory\<close>

definition dget :: "fmt \<Rightarrow> nat \<Rightarrow> u8" where "dget s a = disk s a"
definition dput :: "nat \<Rightarrow> u8 \<Rightarrow> fmt \<Rightarrow> fmt" where "dput a v s = s\<lparr>disk := (disk s)(a := v)\<rparr>"
definition sget :: "fmt \<Rightarrow> nat \<Rightarrow> u8" where "sget s a = super s a"
definition sput :: "nat \<Rightarrow> u8 \<Rightarrow> fmt \<Rightarrow> fmt" where "sput a v s = s\<lparr>super := (super s)(a := v)\<rparr>"

interpretation dm: byte_mem dget dput
  by unfold_locales (simp add: dget_def dput_def)

interpretation sm: byte_mem sget sput
  by unfold_locales (simp add: sget_def sput_def)

definition block_at :: "nat \<Rightarrow> nat" where "block_at b = b * 4100"
definition set_type :: "nat \<Rightarrow> u32 \<Rightarrow> fmt \<Rightarrow> fmt" where "set_type b t s = st32 dput (block_at b + 4096) t s"

text \<open>A \<open>struct File\<close>: the root in the super block, at 8, or one on the disk.\<close>

datatype file_at = Root | At nat

fun file_ld32 :: "fmt \<Rightarrow> file_at \<Rightarrow> nat \<Rightarrow> u32" where
  "file_ld32 s Root i = ld32 sget s (8 + i)"
| "file_ld32 s (At a) i = ld32 dget s (a + i)"

fun file_st32 :: "file_at \<Rightarrow> nat \<Rightarrow> u32 \<Rightarrow> fmt \<Rightarrow> fmt" where
  "file_st32 Root i v s = st32 sput (8 + i) v s"
| "file_st32 (At a) i v s = st32 dput (a + i) v s"

fun file_put :: "file_at \<Rightarrow> nat \<Rightarrow> u8 \<Rightarrow> fmt \<Rightarrow> fmt" where
  "file_put Root i v s = sput (8 + i) v s"
| "file_put (At a) i v s = dput (a + i) v s"

definition m_size :: "fmt \<Rightarrow> file_at \<Rightarrow> u32" where "m_size s f = file_ld32 s f 128"
definition m_direct :: "fmt \<Rightarrow> file_at \<Rightarrow> nat \<Rightarrow> u32" where "m_direct s f i = file_ld32 s f (136 + 4 * i)"
definition m_indirect :: "fmt \<Rightarrow> file_at \<Rightarrow> u32" where "m_indirect s f = file_ld32 s f 176"

section \<open>Operations (fs/fsformat.c)\<close>

definition memset :: "nat \<Rightarrow> u8 \<Rightarrow> nat \<Rightarrow> fmt \<Rightarrow> fmt" where
  "memset a v n s = s\<lparr>disk := (\<lambda>b. if a \<le> b \<and> b < a + n then v else disk s b)\<rparr>"

definition nbitblock :: nat where "nbitblock = (NBLOCK + BIT2BLK - 1) div BIT2BLK"

definition init_disk :: "fmt \<Rightarrow> fmt" where
  "init_disk s =
    (let s = set_type 0 BLOCK_BOOT s;
         s = s\<lparr>nextbno := 2 + nbitblock\<rparr>;
         s = fold (\<lambda>i. set_type (2 + i) BLOCK_BMAP) [0..<nbitblock] s;
         s = fold (\<lambda>i. memset (block_at (2 + i)) 0xff (NBLOCK div 8)) [0..<nbitblock] s;
         diff = NBLOCK mod BY2BLK div 8;
         s = (if NBLOCK \<noteq> nbitblock * BIT2BLK
              then memset (block_at (2 + (nbitblock - 1)) + diff) 0 (BY2BLK - diff) s else s);
         s = set_type 1 BLOCK_SUPER s;
         s = st32 sput 0 FS_MAGIC s;
         s = st32 sput 4 (of_nat NBLOCK) s;
         s = file_st32 Root 132 1 s
     in file_put Root 1 0 (file_put Root 0 47 s))"

definition next_block :: "u32 \<Rightarrow> fmt \<Rightarrow> nat mres" where
  "next_block t s =
    (if nextbno s < NBLOCK then Ret (nextbno s) ((set_type (nextbno s) t s)\<lparr>nextbno := nextbno s + 1\<rparr>)
     else Panic ''nextbno < NBLOCK'' s)"

definition flush_bitmap :: "fmt \<Rightarrow> fmt" where
  "flush_bitmap s =
    fold (\<lambda>i s. let a = block_at (2 + i div BIT2BLK) + 8 * (i mod BIT2BLK div 64)
       in st64 dput a (ld64 dget s a AND NOT (push_bit (i mod 64) 1)) s) [0..<nextbno s] s"

text \<open>\<open>finish_fs\<close>; the image is what it writes to the file.\<close>

definition finish_fs :: "fmt \<Rightarrow> fmt" where
  "finish_fs s = s\<lparr>disk := (\<lambda>a. if block_at 1 \<le> a \<and> a < block_at 1 + 264 then super s (a - block_at 1) else disk s a)\<rparr>"

definition image :: "fmt \<Rightarrow> nat \<Rightarrow> u8" where
  "image s i = disk s (block_at (i div BY2BLK) + i mod BY2BLK)"

text \<open>The entries of an indirect block are written as 8 bytes each, for up to 1024 entries.\<close>

definition save_block_link :: "file_at \<Rightarrow> nat \<Rightarrow> nat \<Rightarrow> fmt \<Rightarrow> unit mres" where
  "save_block_link f nblk bno s =
    (if nblk \<ge> 1024 then Panic ''nblk < NINDIRECT'' s
     else if nblk < 10 then Ret () (file_st32 f (136 + 4 * nblk) (of_nat bno) s)
     else obind (if m_indirect s f = 0
                 then obind (next_block BLOCK_INDEX s) (\<lambda>b s. Ret () (file_st32 f 176 (of_nat b) s)) else Ret () s) (\<lambda>_ s.
            Ret () (st64 dput (block_at (unat (m_indirect s f)) + 8 * nblk) (of_nat bno) s)))"

definition make_link_block :: "file_at \<Rightarrow> nat \<Rightarrow> fmt \<Rightarrow> nat mres" where
  "make_link_block dirf nblk s =
    obind (next_block BLOCK_FILE s) (\<lambda>curbno s.
    obind (save_block_link dirf nblk curbno s) (\<lambda>_ s.
      Ret curbno (file_st32 dirf 128 (m_size s dirf + of_nat BY2BLK) s)))"

definition dir_block :: "file_at \<Rightarrow> nat \<Rightarrow> fmt \<Rightarrow> nat" where
  "dir_block dirf i s =
    (if i < 10 then unat (m_direct s dirf i)
     else unat (ucast (ld64 dget s (block_at (unat (m_indirect s dirf)) + 8 * i)) :: u32))"

definition create_file :: "file_at \<Rightarrow> fmt \<Rightarrow> file_at mres" where
  "create_file dirf s =
    (let nblk = (unat (m_size s dirf) + BY2BLK - 1) div BY2BLK;
         slots = concat (map (\<lambda>i. map (\<lambda>j. block_at (dir_block dirf i s) + 256 * j) [0..<FILE2BLK]) [0..<nblk])
     in case find (\<lambda>a. dget s a = 0) slots of
          Some a \<Rightarrow> Ret (At a) s
        | None \<Rightarrow> obind (make_link_block dirf nblk s) (\<lambda>bno s. Ret (At (block_at bno)) s))"

text \<open>The name of a path is what follows its last slash (47).\<close>

definition base_name :: "u8 list \<Rightarrow> u8 list" where
  "base_name path = rev (takeWhile (\<lambda>c. c \<noteq> 47) (rev path))"

definition put_name :: "file_at \<Rightarrow> u8 list \<Rightarrow> fmt \<Rightarrow> fmt" where
  "put_name f name s = fold (\<lambda>i. file_put f i ((name @ [0]) ! i)) [0..<length name + 1] s"

text \<open>The loop of \<open>write_file\<close>: each piece of the file is read into the next block before that is taken.\<close>

function write_pieces :: "file_at \<Rightarrow> nat \<Rightarrow> u8 list \<Rightarrow> fmt \<Rightarrow> unit mres" where
  "write_pieces target iblk content s =
    (if content = [] then Ret () s
     else let piece = take BY2BLK content;
              s = fold (\<lambda>i. dput (block_at (nextbno s) + i) (piece ! i)) [0..<length piece] s in
       case next_block BLOCK_DATA s of
         Ret nbo s \<Rightarrow>
           (case save_block_link target iblk nbo s of
              Ret _ s \<Rightarrow> write_pieces target (iblk + 1) (drop BY2BLK content) s
            | Eret s \<Rightarrow> Eret s | Panic m s \<Rightarrow> Panic m s | Hang \<Rightarrow> Hang)
       | Eret s \<Rightarrow> Eret s | Panic m s \<Rightarrow> Panic m s | Hang \<Rightarrow> Hang)"
  by pat_completeness auto
termination
  by (relation "measure (\<lambda>(t, i, content, s). length content)") auto

declare write_pieces.simps [simp del]

definition write_file :: "file_at \<Rightarrow> u8 list \<Rightarrow> u8 list \<Rightarrow> fmt \<Rightarrow> unit mres" where
  "write_file dirf path content s =
    obind (create_file dirf s) (\<lambda>target s.
      let s = put_name target (base_name path) s;
          s = file_st32 target 128 (of_nat (length content)) s;
          s = file_st32 target 132 0 s
      in if nextbno s < NBLOCK then write_pieces target 0 content s else Panic ''nextbno < NBLOCK'' s)"

text \<open>\<open>present\<close> says whether the host can open the directory.\<close>

definition write_directory :: "bool \<Rightarrow> file_at \<Rightarrow> u8 list \<Rightarrow> fmt \<Rightarrow> unit mres" where
  "write_directory present dirf name s =
    obind (create_file dirf s) (\<lambda>target s.
      if \<not> present then Ret () s
      else Ret () (file_st32 target 132 1 (file_st32 target 128 0 (put_name target (base_name name) s))))"

text \<open>\<open>main\<close> for the files of the second form of its command line, with the image as result.\<close>

fun write_files :: "(u8 list \<times> u8 list) list \<Rightarrow> fmt \<Rightarrow> unit mres" where
  "write_files [] s = Ret () s"
| "write_files ((path, content) # fs) s = obind (write_file Root path content s) (\<lambda>_ s. write_files fs s)"

definition make_image :: "(u8 list \<times> u8 list) list \<Rightarrow> fmt \<Rightarrow> (nat \<Rightarrow> u8, fmt) outcome" where
  "make_image fs s =
    obind (write_files fs (init_disk s)) (\<lambda>_ s.
      let s = finish_fs (flush_bitmap s) in Ret (image s) s)"

end
