(* ===== verification/Imageprops.thy ===== *)
theory Imageprops
  imports Fsformat
begin

text \<open>
  The disk image tool keeps what it is given: the blocks that an entry names hold the bytes of the file.
\<close>

section \<open>Writes to the disk\<close>

lemma block_at_mono: "b < c \<Longrightarrow> block_at b + 4100 \<le> block_at c"
  by (simp add: block_at_def)

lemma disk_writes:
  "x < a \<or> a + 4 \<le> x \<Longrightarrow> disk (st32 dput a v s) x = disk s x"
  "x < a \<or> a + 8 \<le> x \<Longrightarrow> disk (st64 dput a w s) x = disk s x"
  "x < block_at b + 4096 \<or> block_at (b + 1) \<le> x \<Longrightarrow> disk (set_type b t s) x = disk s x"
  "disk (s\<lparr>nextbno := n\<rparr>) x = disk s x"
  using dm.get_st32 [of a v s x] dm.get_st64 [of a w s x] dm.get_st32 [of "block_at b + 4096" t s x]
  by (auto simp: dget_def set_type_def block_at_def)

lemma disk_fold_dput:
  "disk (fold (\<lambda>i. dput (a + i) (f i)) [0..<n] s) x = (if a \<le> x \<and> x < a + n then f (x - a) else disk s x)"
  "nextbno (fold (\<lambda>i. dput (a + i) (f i)) [0..<n] s) = nextbno s"
  by (induction n) (auto simp: dput_def less_Suc_eq)

lemma nextbno_writes [simp]:
  "nextbno (set_type b t s) = nextbno s" "nextbno (st32 dput a v s) = nextbno s" "nextbno (st64 dput a w s) = nextbno s"
  by (simp_all add: set_type_def st64_def st32_def st16_def dput_def)

section \<open>Entries\<close>

abbreviation (input) ind :: "nat \<Rightarrow> fmt \<Rightarrow> nat" where
  "ind a s \<equiv> unat (m_indirect s (At a))"

text \<open>Where the entry at \<open>a\<close> keeps its block numbers.\<close>

definition slot_bytes :: "nat \<Rightarrow> fmt \<Rightarrow> nat set" where
  "slot_bytes a s = {a + 136..<a + 180} \<union> (if ind a s = 0 then {} else {block_at (ind a s)..<block_at (ind a s) + 4096})"

lemma m_indirect_cong:
  "(\<And>x. a + 176 \<le> x \<Longrightarrow> x < a + 180 \<Longrightarrow> disk s' x = disk s x) \<Longrightarrow> m_indirect s' (At a) = m_indirect s (At a)"
  by (simp add: m_indirect_def) (rule dm.ld32_cong, simp add: dget_def)

lemma dir_block_cong:
  assumes "\<And>x. a + 136 \<le> x \<Longrightarrow> x < a + 180 \<Longrightarrow> disk s' x = disk s x" and "k < 512"
    and "\<And>x. k \<ge> 10 \<Longrightarrow> block_at (ind a s) + 8 * k \<le> x \<Longrightarrow> x < block_at (ind a s) + 8 * k + 8 \<Longrightarrow> disk s' x = disk s x"
  shows "dir_block (At a) k s' = dir_block (At a) k s"
proof (cases "k < 10")
  case True
  have "ld32 dget s' (a + (136 + 4 * k)) = ld32 dget s (a + (136 + 4 * k))"
    by (rule dm.ld32_cong) (use True assms(1) in \<open>simp add: dget_def\<close>)
  then show ?thesis using True by (simp add: dir_block_def m_direct_def)
next
  case False
  have i: "m_indirect s' (At a) = m_indirect s (At a)" by (rule m_indirect_cong) (simp add: assms(1))
  have "ld64 dget s' (block_at (ind a s) + 8 * k) = ld64 dget s (block_at (ind a s) + 8 * k)"
    by (rule dm.ld64_cong) (use False assms(3) in \<open>simp add: dget_def\<close>)
  then show ?thesis using False by (simp add: dir_block_def i)
qed

text \<open>The entry lies before the next block; its table of more blocks exists from the tenth block on.\<close>

definition entry_ok :: "nat \<Rightarrow> nat \<Rightarrow> fmt \<Rightarrow> bool" where
  "entry_ok a i s \<longleftrightarrow> a + 256 \<le> block_at (nextbno s) \<and>
     (if i \<le> 10 then ind a s = 0 else 0 < ind a s \<and> ind a s < nextbno s \<and> a + 256 \<le> block_at (ind a s))"

text \<open>Block \<open>b\<close> becomes block \<open>i\<close> of the entry; \<open>t\<close> is the disk after.\<close>

definition linked :: "nat \<Rightarrow> nat \<Rightarrow> nat \<Rightarrow> fmt \<Rightarrow> fmt \<Rightarrow> bool" where
  "linked a i b s t \<longleftrightarrow> dir_block (At a) i t = b \<and> (\<forall>k < i. dir_block (At a) k t = dir_block (At a) k s) \<and>
     entry_ok a (i + 1) t \<and> nextbno s \<le> nextbno t \<and> nextbno t \<le> nextbno s + (if i = 10 then 1 else 0) \<and>
     ind a t = (if i = 10 then nextbno s else ind a s) \<and>
     (\<forall>x. x < block_at (nextbno s) \<longrightarrow> x \<notin> slot_bytes a s \<longrightarrow> disk t x = disk s x)"

lemma u32_of_nat: "n < 1024 \<Longrightarrow> unat (of_nat n :: u32) = n"
  by (simp add: unsigned_of_nat take_bit_nat_eq_self)

lemma u32_of_u64: "n < 1024 \<Longrightarrow> unat (ucast (of_nat n :: u64) :: u32) = n"
  by (simp add: unsigned_ucast_eq unsigned_of_nat take_bit_nat_eq_self)

lemma link_direct:
  assumes ok: "entry_ok a i s" and i: "i < 10" and b: "b < 1024"
  shows "\<exists>t. save_block_link (At a) i b s = Ret () t \<and> linked a i b s t"
proof -
  let ?t = "st32 dput (a + (136 + 4 * i)) (of_nat b) s"
  have d: "disk ?t x = disk s x" if "x < a + (136 + 4 * i) \<or> a + (136 + 4 * i) + 4 \<le> x" for x
    by (rule disk_writes(1) [OF that])
  have iind: "m_indirect ?t (At a) = m_indirect s (At a)" by (rule m_indirect_cong) (use i d in simp)
  have "dir_block (At a) i ?t = b" using i b by (simp add: dir_block_def m_direct_def dm.ld32_st32 u32_of_nat)
  moreover have "dir_block (At a) k ?t = dir_block (At a) k s" if "k < i" for k
    using that i by (simp add: dir_block_def m_direct_def dm.ld32_st32_other)
  moreover have "save_block_link (At a) i b s = Ret () ?t" using i by (simp add: save_block_link_def)
  ultimately show ?thesis using ok i d by (auto simp: linked_def entry_ok_def iind slot_bytes_def)
qed

text \<open>An entry of the table of more blocks.\<close>

lemma link_table:
  assumes a: "a + 256 \<le> block_at (ind a s)" "0 < ind a s" "ind a s < nextbno s" and i: "10 \<le> i" "i < 512"
    and b: "b < 1024"
  shows "\<exists>t. save_block_link (At a) i b s = Ret () t \<and> dir_block (At a) i t = b \<and>
    (\<forall>k < i. dir_block (At a) k t = dir_block (At a) k s) \<and> ind a t = ind a s \<and> nextbno t = nextbno s \<and>
    (\<forall>x. x < block_at (ind a s) \<or> block_at (ind a s) + 4096 \<le> x \<longrightarrow> disk t x = disk s x)"
proof -
  let ?n = "block_at (ind a s)"
  let ?t = "st64 dput (?n + 8 * i) (of_nat b) s"
  have d: "disk ?t x = disk s x" if "x < ?n + 8 * i \<or> ?n + 8 * i + 8 \<le> x" for x
    by (rule disk_writes(2) [OF that])
  have iind: "m_indirect ?t (At a) = m_indirect s (At a)" by (rule m_indirect_cong) (use a d in simp)
  have "dir_block (At a) i ?t = b" using i b by (simp add: dir_block_def iind dm.ld64_st64 u32_of_u64)
  moreover have "dir_block (At a) k ?t = dir_block (At a) k s" if "k < i" for k
    by (rule dir_block_cong) (use that i a d in auto)
  moreover have "m_indirect s (At a) \<noteq> 0" using a(2) by (auto simp: word_gt_0)
  then have "save_block_link (At a) i b s = Ret () ?t" using i by (simp add: save_block_link_def)
  ultimately show ?thesis using i d by (auto simp: iind)
qed

lemma link_indirect:
  assumes ok: "entry_ok a i s" and i: "10 < i" "i < 512" and b: "b < 1024"
  shows "\<exists>t. save_block_link (At a) i b s = Ret () t \<and> linked a i b s t"
  using link_table [of a s i b] ok i b by (auto simp: linked_def entry_ok_def slot_bytes_def split: if_splits)

lemma link_first_indirect:
  assumes ok: "entry_ok a 10 s" and room: "nextbno s < 1024" and b: "b < 1024" "0 < nextbno s"
  shows "\<exists>t. save_block_link (At a) 10 b s = Ret () t \<and> linked a 10 b s t"
proof -
  let ?n = "nextbno s"
  let ?u = "(set_type ?n BLOCK_INDEX s)\<lparr>nextbno := ?n + 1\<rparr>"
  let ?s = "file_st32 (At a) 176 (of_nat ?n) ?u"
  have a: "a + 256 \<le> block_at ?n" and i0: "ind a s = 0" using ok by (auto simp: entry_ok_def)
  have d: "disk ?s x = disk s x" if "x < block_at ?n" "x < a + 176 \<or> a + 180 \<le> x" for x
    using that disk_writes(1) [of x "a + 176" "of_nat ?n" ?u] disk_writes(3) [of x ?n BLOCK_INDEX s] by auto
  have ind: "ind a ?s = ?n" by (simp add: m_indirect_def dm.ld32_st32 u32_of_nat room)
  have n: "nextbno ?s = ?n + 1" by simp
  obtain t where t: "save_block_link (At a) 10 b ?s = Ret () t" "dir_block (At a) 10 t = b"
    "\<forall>k < 10. dir_block (At a) k t = dir_block (At a) k ?s" "ind a t = ?n" "nextbno t = ?n + 1"
    "\<forall>x. x < block_at ?n \<or> block_at ?n + 4096 \<le> x \<longrightarrow> disk t x = disk ?s x"
    using link_table [of a ?s 10 b, unfolded ind n] a b by auto
  have "save_block_link (At a) 10 b s = save_block_link (At a) 10 b ?s"
  proof -
    have "m_indirect s (At a) = 0" using i0 by (simp add: unat_eq_0)
    moreover have "m_indirect ?s (At a) \<noteq> 0" using ind b(2) by auto
    ultimately show ?thesis by (simp add: save_block_link_def next_block_def room)
  qed
  moreover have "dir_block (At a) k t = dir_block (At a) k s" if "k < 10" for k
  proof -
    have "ld32 dget ?s (a + (136 + 4 * k)) = ld32 dget s (a + (136 + 4 * k))"
      by (rule dm.ld32_cong) (use that d a in \<open>simp add: dget_def\<close>)
    then have "dir_block (At a) k ?s = dir_block (At a) k s" using that by (simp add: dir_block_def m_direct_def)
    then show ?thesis using t(3) that by simp
  qed
  ultimately show ?thesis
    using t a b i0 d block_at_mono [of ?n "?n + 1"]
    by (auto simp: linked_def entry_ok_def slot_bytes_def)
qed

lemma link_block:
  assumes "entry_ok a i s" and "i < 512" and "nextbno s < 1024" "0 < nextbno s" and "b < 1024"
  shows "\<exists>t. save_block_link (At a) i b s = Ret () t \<and> linked a i b s t"
  using link_direct link_first_indirect link_indirect assms by (metis linorder_neqE_nat)

section \<open>The blocks of a file\<close>

definition pieces :: "'a list \<Rightarrow> nat" where
  "pieces xs = (length xs + 4095) div 4096"

lemma pieces_drop: "xs \<noteq> [] \<Longrightarrow> pieces xs = Suc (pieces (drop 4096 xs))"
  by (cases "length xs \<le> 4096") (auto simp: pieces_def neq_Nil_conv le_div_geq)

text \<open>The blocks \<open>i\<close> and later of the entry at \<open>a\<close> are blocks taken from block \<open>n\<close> on and hold \<open>content\<close>.\<close>

definition stored :: "nat \<Rightarrow> nat \<Rightarrow> nat \<Rightarrow> u8 list \<Rightarrow> fmt \<Rightarrow> bool" where
  "stored a i n content t \<longleftrightarrow> (\<forall>p < length content. let c = dir_block (At a) (i + p div 4096) t in
     n \<le> c \<and> c < nextbno t \<and> c \<noteq> ind a t \<and> disk t (block_at c + p mod 4096) = content ! p)"

text \<open>What lies below block \<open>n\<close> stays, except in the slots of the entry.\<close>

definition below_kept :: "nat \<Rightarrow> fmt \<Rightarrow> fmt \<Rightarrow> bool" where
  "below_kept a s t \<longleftrightarrow> (\<forall>x. x < block_at (nextbno s) \<longrightarrow> x \<notin> slot_bytes a s \<longrightarrow> disk t x = disk s x) \<and>
     nextbno s \<le> nextbno t \<and> (ind a t = ind a s \<or> ind a s = 0 \<and> nextbno s \<le> ind a t)"

lemma below_kept_trans:
  assumes "below_kept a s u" and "below_kept a u t"
  shows "below_kept a s t"
proof -
  have n: "block_at (nextbno s) \<le> block_at (nextbno u)" using assms(1) by (simp add: below_kept_def block_at_def)
  have "x \<notin> slot_bytes a u" if "x \<notin> slot_bytes a s" "x < block_at (nextbno s)" for x
  proof -
    have "block_at (nextbno s) \<le> block_at (ind a u)" if "nextbno s \<le> ind a u" using that by (simp add: block_at_def)
    then show ?thesis using that assms(1) by (auto simp: below_kept_def slot_bytes_def split: if_splits)
  qed
  then show ?thesis using assms n by (auto simp: below_kept_def)
qed

lemma piece_step:
  assumes ok: "entry_ok a i s" and i: "i < 512" and n: "nextbno s + 1 < 1024" and p: "length piece \<le> 4096"
  defines "s1 \<equiv> fold (\<lambda>j. dput (block_at (nextbno s) + j) (piece ! j)) [0..<length piece] s"
  shows "\<exists>u t. next_block BLOCK_DATA s1 = Ret (nextbno s) u \<and> save_block_link (At a) i (nextbno s) u = Ret () t \<and>
    dir_block (At a) i t = nextbno s \<and> (\<forall>k < i. dir_block (At a) k t = dir_block (At a) k s) \<and>
    entry_ok a (i + 1) t \<and> below_kept a s t \<and> nextbno s < nextbno t \<and>
    nextbno t \<le> nextbno s + (if i = 10 then 2 else 1) \<and> ind a t \<noteq> nextbno s \<and>
    (\<forall>j < length piece. disk t (block_at (nextbno s) + j) = piece ! j)"
proof -
  let ?b = "nextbno s"
  define u where "u = (set_type ?b BLOCK_DATA s1)\<lparr>nextbno := ?b + 1\<rparr>"
  have n1: "nextbno s1 = ?b" by (simp add: s1_def disk_fold_dput(2))
  have nb: "next_block BLOCK_DATA s1 = Ret ?b u" using n by (simp add: next_block_def n1 u_def)
  have du: "disk u x = disk s x" if "x < block_at ?b" for x
    using that disk_writes(3) [of x ?b BLOCK_DATA s1] by (simp add: u_def s1_def disk_fold_dput(1))
  have dp: "disk u (block_at ?b + j) = piece ! j" if "j < length piece" for j
    using that p disk_writes(3) [of "block_at ?b + j" ?b BLOCK_DATA s1] by (simp add: u_def s1_def disk_fold_dput(1))
  have nu: "nextbno u = ?b + 1" by (simp add: u_def)
  have a: "a + 256 \<le> block_at ?b" using ok by (simp add: entry_ok_def)
  have mi: "m_indirect u (At a) = m_indirect s (At a)" by (rule m_indirect_cong) (use du a in simp)
  have oku: "entry_ok a i u" using ok by (auto simp: entry_ok_def mi nu block_at_def split: if_splits)
  obtain t where t: "save_block_link (At a) i ?b u = Ret () t" "linked a i ?b u t"
    using link_block [OF oku i, of ?b] n nu by auto
  have db: "dir_block (At a) k u = dir_block (At a) k s" if "k < i" for k
  proof (rule dir_block_cong)
    show "k < 512" using that i by simp
    have below: "block_at (ind a s) + 4096 < block_at ?b" if "k \<ge> 10"
      using ok \<open>k < i\<close> that block_at_mono [of "ind a s" ?b] by (simp add: entry_ok_def)
    then show "k \<ge> 10 \<Longrightarrow> block_at (ind a s) + 8 * k \<le> x \<Longrightarrow> x < block_at (ind a s) + 8 * k + 8 \<Longrightarrow> disk u x = disk s x" for x
      using that i by (intro du) (simp add: less_le_trans)
  qed (use du a in simp)
  have sb: "slot_bytes a u = slot_bytes a s" by (simp add: slot_bytes_def mi)
  have it: "ind a t = (if i = 10 then ?b + 1 else ind a s)" using t(2) by (simp add: linked_def nu mi)
  have before: "ind a s < ?b \<or> ind a s = 0" using ok by (auto simp: entry_ok_def split: if_splits)
  have pos: "0 < ?b" using a by (cases "?b = 0") (auto simp: block_at_def)
  have ten: "i = 10 \<Longrightarrow> ind a s = 0" using ok by (simp add: entry_ok_def)
  have b1: "block_at (?b + 1) = block_at ?b + 4100" by (simp add: block_at_def)
  have keep: "disk t x = disk u x" if "x < block_at (?b + 1)" "x \<notin> slot_bytes a s" for x
    using t(2) that by (simp add: linked_def nu sb)
  have "below_kept a s t"
    unfolding below_kept_def
  proof (intro conjI allI impI)
    show "disk t x = disk s x" if "x < block_at ?b" "x \<notin> slot_bytes a s" for x
      using keep [of x] du [of x] that b1 by simp
    show "?b \<le> nextbno t" using t(2) by (simp add: linked_def nu)
    show "ind a t = ind a s \<or> ind a s = 0 \<and> ?b \<le> ind a t" using it ten by auto
  qed
  moreover have "disk t (block_at ?b + j) = piece ! j" if "j < length piece" for j
  proof -
    have "block_at ?b + j \<notin> slot_bytes a s"
      using a before block_at_mono [of "ind a s" ?b] pos by (auto simp: slot_bytes_def)
    then show ?thesis using keep [of "block_at ?b + j"] dp [OF that] that p b1 by simp
  qed
  moreover have "ind a t \<noteq> ?b" using it before pos by auto
  ultimately show ?thesis using nb t db by (auto simp: linked_def nu split: if_splits)
qed

lemma write_pieces_stores:
  assumes "entry_ok a i s" and "i + pieces content \<le> 512"
    and "nextbno s + pieces content + (if i \<le> 10 then 1 else 0) < 1024"
  shows "\<exists>t. write_pieces (At a) i content s = Ret () t \<and> below_kept a s t \<and>
    (\<forall>k < i. dir_block (At a) k t = dir_block (At a) k s) \<and> stored a i (nextbno s) content t"
  using assms
proof (induction content arbitrary: i s rule: measure_induct_rule [where f = length])
  case (less content)
  show ?case
  proof (cases "content = []")
    case True
    then show ?thesis by (subst write_pieces.simps) (simp add: below_kept_def stored_def)
  next
    case False
    let ?p = "take 4096 content" and ?r = "drop 4096 content" and ?b = "nextbno s"
    let ?s1 = "fold (\<lambda>j. dput (block_at ?b + j) (?p ! j)) [0..<length ?p] s"
    note P = pieces_drop [OF False]
    obtain u t where ut: "next_block BLOCK_DATA ?s1 = Ret ?b u" "save_block_link (At a) i ?b u = Ret () t"
      and slot: "dir_block (At a) i t = ?b" "\<forall>k < i. dir_block (At a) k t = dir_block (At a) k s"
      and ok: "entry_ok a (i + 1) t" "below_kept a s t" "?b < nextbno t" "nextbno t \<le> ?b + (if i = 10 then 2 else 1)"
      "ind a t \<noteq> ?b" and data: "\<forall>j < length ?p. disk t (block_at ?b + j) = ?p ! j"
      using piece_step [of a i s ?p] less.prems P by auto
    have len: "length ?r < length content" using False by (cases content) auto
    have room: "i + 1 + pieces ?r \<le> 512" "nextbno t + pieces ?r + (if i + 1 \<le> 10 then 1 else 0) < 1024"
      using ok(4) less.prems(2,3) P by (auto split: if_splits)
    obtain w where w: "write_pieces (At a) (i + 1) ?r t = Ret () w" "below_kept a t w"
      "\<forall>k < i + 1. dir_block (At a) k w = dir_block (At a) k t" "stored a (i + 1) (nextbno t) ?r w"
      using less.IH [OF len ok(1) room] by blast
    have run: "write_pieces (At a) i content s = Ret () w"
      using w(1) by (subst write_pieces.simps) (simp add: False Let_def ut del: length_take)
    have a: "a + 256 \<le> block_at ?b" using less.prems(1) by (simp add: entry_ok_def)
    have here: "dir_block (At a) i w = ?b" "ind a w \<noteq> ?b"
      using w(2,3) slot(1) ok(3,5) by (auto simp: below_kept_def)
    have kept: "disk w (block_at ?b + j) = content ! j" if "j < length content" "j < 4096" for j
    proof -
      have "block_at ?b + j \<notin> slot_bytes a t"
        using a ok(5) that block_at_mono [of "ind a t" ?b] block_at_mono [of ?b "ind a t"]
        by (cases "ind a t < ?b") (auto simp: slot_bytes_def)
      then have "disk w (block_at ?b + j) = disk t (block_at ?b + j)"
        using w(2) that block_at_mono [OF ok(3)] by (simp add: below_kept_def)
      then show ?thesis using data that by simp
    qed
    have "stored a i ?b content w"
      unfolding stored_def Let_def
    proof (intro allI impI)
      fix q assume q: "q < length content"
      show "?b \<le> dir_block (At a) (i + q div 4096) w \<and> dir_block (At a) (i + q div 4096) w < nextbno w \<and>
        dir_block (At a) (i + q div 4096) w \<noteq> ind a w \<and>
        disk w (block_at (dir_block (At a) (i + q div 4096) w) + q mod 4096) = content ! q"
      proof (cases "q < 4096")
        case True
        then show ?thesis using here kept q ok(3) w(2) by (simp add: below_kept_def)
      next
        case far: False
        then have eq: "i + 1 + (q - 4096) div 4096 = i + q div 4096" "(q - 4096) mod 4096 = q mod 4096"
          by (simp_all add: le_div_geq le_mod_geq)
        have "q - 4096 < length ?r" using q far by simp
        from w(4) [unfolded stored_def Let_def, rule_format, OF this, unfolded eq]
        show ?thesis using ok(3) q far by simp
      qed
    qed
    then show ?thesis using run below_kept_trans [OF ok(2) w(2)] w(3) slot(2) by auto
  qed
qed

lemma disk_put_name:
  "disk (put_name (At a) name s) x =
    (if a \<le> x \<and> x < a + (length name + 1) then (name @ [0]) ! (x - a) else disk s x)"
  "nextbno (put_name (At a) name s) = nextbno s"
proof -
  have "file_put (At a) i v = dput (a + i) v" for i v by (rule ext) simp
  then show "disk (put_name (At a) name s) x =
    (if a \<le> x \<and> x < a + (length name + 1) then (name @ [0]) ! (x - a) else disk s x)"
    "nextbno (put_name (At a) name s) = nextbno s"
    using disk_fold_dput [of a "\<lambda>i. (name @ [0]) ! i" "length name + 1" s] by (simp_all only: put_name_def)
qed


text \<open>The first file of an empty image.\<close>

definition empty_image :: fmt where
  "empty_image = \<lparr>disk = (\<lambda>_. 0), super = (\<lambda>_. 0), nextbno = 3\<rparr>"

lemma empty_image_create: "\<exists>s1. create_file Root empty_image = Ret (At (block_at 3)) s1 \<and> nextbno s1 = 4 \<and>
  m_indirect s1 (At (block_at 3)) = 0"
proof -
  define u where "u = (set_type 3 BLOCK_FILE empty_image)\<lparr>nextbno := 4\<rparr>"
  define v where "v = st32 sput (8 + 136) (of_nat 3) u"
  define w where "w = st32 sput (8 + 128) (m_size v Root + of_nat BY2BLK) v"
  have z: "m_size empty_image Root = 0" by (simp add: m_size_def empty_image_def ld32_def ld16_def sget_def)
  have "create_file Root empty_image = Ret (At (block_at 3)) w"
    using z by (simp add: create_file_def make_link_block_def next_block_def save_block_link_def u_def v_def w_def)
      (simp add: empty_image_def)
  moreover have "disk w x = disk u x" "nextbno w = 4" for x
    by (simp_all add: w_def v_def u_def st32_def st16_def sput_def)
  moreover have "disk u x = 0" if "x < block_at 3 + 4096" for x
    using that disk_writes(3) [of x 3 BLOCK_FILE empty_image] by (simp add: u_def empty_image_def)
  ultimately show ?thesis by (simp add: m_indirect_def ld32_def ld16_def dget_def)
qed


end
