(* ===== verification/Loader.thy ===== *)
theory Loader
  imports Counts
begin

text \<open>
  Loading a program keeps memory in order: \<open>load_icode_mapper\<close> of kernel/env.c and \<open>load_elf\<close> of
  kernel/kernel_elfloader.c map fresh pages at the addresses of the segments and write nowhere else.
\<close>

section \<open>Pages to be kept\<close>

text \<open>
  While a program is loaded into the directory \<open>d\<close>, the pages of \<open>Q\<close> (the kernel's and those of the
  image) are allocated and no tables, and \<open>d\<close> maps them at the places of \<open>P\<close> at most.
\<close>

definition load_ok :: "nat \<Rightarrow> nat set \<Rightarrow> nat list set \<Rightarrow> nat set \<Rightarrow> 'a pmem_scheme \<Rightarrow> bool" where
  "load_ok d D P Q s \<longleftrightarrow> wf_spaces s D \<and> pa_ok s \<and>
     (\<forall>q \<in> Q. page_used s q \<and> \<not> is_table s D q \<and> (\<forall>js. leaf_path js \<longrightarrow> node s d js = Some q \<longrightarrow> js \<in> P))"

definition load_step :: "nat \<Rightarrow> nat set \<Rightarrow> nat list set \<Rightarrow> nat set \<Rightarrow> 'a pmem_scheme \<Rightarrow> 'a pmem_scheme \<Rightarrow> bool" where
  "load_step d D P Q s s' \<longleftrightarrow> load_ok d D P Q s' \<and> pmem.more s' = pmem.more s \<and>
     (\<forall>q \<in> Q. ram s' q = ram s q \<and> page_ref s' q = page_ref s q)"

lemma load_step_refl: "load_ok d D P Q s \<Longrightarrow> load_step d D P Q s s"
  by (simp add: load_step_def)

lemma load_step_trans: "load_step d D P Q s t \<Longrightarrow> load_step d D P Q t u \<Longrightarrow> load_step d D P Q s u"
  by (simp add: load_step_def)

lemma load_step_ok: "load_step d D P Q s t \<Longrightarrow> load_ok d D P Q t"
  by (simp add: load_step_def)

text \<open>A page of the program itself.\<close>

definition own_page :: "nat set \<Rightarrow> nat set \<Rightarrow> 'a pmem_scheme \<Rightarrow> nat \<Rightarrow> bool" where
  "own_page D Q s p \<longleftrightarrow> p < 2 ^ 18 \<and> \<not> is_table s D p \<and> p \<notin> Q"

lemma leaf_entry_node: "leaf_entry s' d js = leaf_entry s d js \<Longrightarrow> leaf_path js \<Longrightarrow> node s' d js = node s d js"
  by (simp add: node_leaf)

lemma alloc_load_step:
  assumes ok: "load_ok d D P Q s" and d: "d \<in> D" and al: "page_alloc s = (Some p, s')"
  shows "load_step d D P Q s s'" "own_page D Q s' p" "page_used s' p" "page_ref s' p = 0"
proof -
  have wf: "wf_spaces s D" "pa_ok s" using ok by (simp_all add: load_ok_def)
  note F = page_alloc_fresh [OF al] and S = page_alloc_spaces [OF wf al]
  have n: "node s' d js = node s d js" if "leaf_path js" for js
    by (rule leaf_entry_node) (use S(3) d that in \<open>simp_all add: only_tables_added_def\<close>)
  have q: "q \<noteq> p \<and> page_used s' q \<and> \<not> is_table s' D q \<and> ram s' q = ram s q" if "q \<in> Q" for q
    using ok that S(3) F(2) by (auto simp: load_ok_def only_tables_added_def)
  then show "load_step d D P Q s s'"
    using ok S(1,2) n F(7) more_page_allocD [OF al] by (auto simp: load_step_def load_ok_def)
  show "own_page D Q s' p" using F(1) S(4) q by (auto simp: own_page_def)
  show "page_used s' p" "page_ref s' p = 0" using F S by simp_all
qed

lemma insert_load_step:
  assumes ok: "load_ok d D P Q s" and d: "d \<in> D" and own: "own_page D Q s p" and p: "page_used s p" "page_ref s p = 0"
    and va: "user_va va" "vpath va \<notin> P" "perm_ok perm"
  shows "load_step d D P Q s (snd (page_insert d p va perm s))" "own_page D Q (snd (page_insert d p va perm s)) p"
proof -
  have wf: "wf_spaces s D" "pa_ok s" using ok by (simp_all add: load_ok_def)
  obtain r s' where ins: "page_insert d p va perm s = (r, s')" by fastforce
  have pp: "p < 2 ^ 18" "\<not> is_table s D p" "p \<notin> Q" using own by (auto simp: own_page_def)
  have I: "inserts s D d va (pte_for s p perm) (r, s')"
    using page_insert_inserts [OF wf d va(1,3) pp(1) p(1) pp(2)] p(2) ins by simp
  have C: "insert_counts s D (map_option pte_page (vmap s d va)) p (r, s')"
    using page_insert_counts [OF wf d va(1) p(1) pp(2), of perm] ins by simp
  have old: "map_option pte_page (vmap s d va) \<noteq> Some q" if "q \<in> Q" for q
  proof
    assume "map_option pte_page (vmap s d va) = Some q"
    then have "node s d (vpath va) = Some q" using va(1) by (simp add: vmap_node)
    then show False using ok that va vpath_leaf [OF va(1)] unfolding load_ok_def by blast
  qed
  have q: "page_used s' q \<and> \<not> is_table s' D q \<and> ram s' q = ram s q \<and> page_ref s' q = page_ref s q" if "q \<in> Q" for q
  proof -
    have "page_used s q" "\<not> is_table s D q" "q \<noteq> p" using ok that pp(3) by (auto simp: load_ok_def)
    then show ?thesis using I C old [OF that] by (auto simp: inserts_def insert_counts_def)
  qed
  have n: "js \<in> P" if "q \<in> Q" "leaf_path js" "node s' d js = Some q" for q js
  proof -
    have "leaf_entry s' d js = (if r = 0 \<and> js = vpath va then Some (pte_for s p perm) else leaf_entry s d js)"
      using I d that(2) by (simp add: inserts_def)
    moreover have "pte_page (pte_for s p perm) = p" by (rule pte_for_ok(1) [OF wf(2) pp(1) va(3)])
    ultimately have "node s d js = Some q"
      using that pp(3) by (auto simp: node_leaf split: if_splits)
    then show ?thesis using ok that by (auto simp: load_ok_def)
  qed
  have "pmem.more s' = pmem.more s" using ins by (metis more_page_insert snd_conv)
  then show "load_step d D P Q s (snd (page_insert d p va perm s))"
    using I q n by (auto simp: ins load_step_def load_ok_def inserts_def)
  show "own_page D Q (snd (page_insert d p va perm s)) p" using C p(1) pp by (simp add: ins own_page_def insert_counts_def)
qed

lemma lookup_own_page:
  assumes ok: "load_ok d D P Q s" and d: "d \<in> D" and va: "user_va va" "vpath va \<notin> P"
    and l: "page_lookup d va s = Some (p, pte)"
  shows "own_page D Q s p"
proof -
  have wf: "wf_spaces s D" using ok by (simp add: load_ok_def)
  note M = mapped_page [OF wf d va(1) l]
  have "map_option pa2page (vmap s d va) = Some p" using page_lookup_vmap [of d va s] l by simp
  moreover have "pa2page e = pte_page e" if "vmap s d va = Some e" for e
    using wf_entry [OF wf d vpath_leaf [OF va(1)]] that by (simp add: vmap_def)
  ultimately have n: "node s d (vpath va) = Some p" using va(1) by (auto simp: vmap_node)
  have "p \<notin> Q" using ok n va(2) vpath_leaf [OF va(1)] unfolding load_ok_def by blast
  then show ?thesis using M by (simp add: own_page_def)
qed

text \<open>Writing the bytes of a page of the program.\<close>

lemma bytes_load_step:
  assumes ok: "load_ok d D P Q s" and d: "d \<in> D" and own: "own_page D Q s p"
    and same: "\<And>q. q \<noteq> p \<Longrightarrow> ram s' q = ram s q" and f: "page_ref s' = page_ref s" "page_pa s' = page_pa s"
      "Kern_vis s' = Kern_vis s" "pmem.more s' = pmem.more s"
  shows "load_step d D P Q s s'"
proof -
  have wf: "wf_spaces s D" "pa_ok s" using ok by (simp_all add: load_ok_def)
  have used: "page_used s' q = page_used s q" for q by (simp add: page_used_def f(3))
  have tab: "ram s' t = ram s t" if "is_table s D t" for t
    by (rule same) (use that own in \<open>auto simp: own_page_def\<close>)
  note T = same_tables_wf [OF wf tab f(1,2)]
  have n: "node s' d js = node s d js" if "leaf_path js" for js
    by (rule same_tables_node [OF tab d]) (use that in simp_all)
  have "load_ok d D P Q s'" using ok T(1-3) used n by (simp add: load_ok_def)
  moreover have "ram s' q = ram s q" if "q \<in> Q" for q
    by (rule same) (use that own in \<open>auto simp: own_page_def\<close>)
  ultimately show ?thesis by (simp add: load_step_def f)
qed

lemma copy_load_step:
  assumes "load_ok d D P Q s" and "d \<in> D" and "own_page D Q s p" and len: "off + nat len \<le> 4096"
  shows "load_step d D P Q s (kbcopy src (p * 4096 + off) len s)" "load_step d D P Q s (kbzero (p * 4096 + off) len s)"
proof -
  have page: "a div 4096 \<noteq> q" if "q \<noteq> p" "p * 4096 + off \<le> a" "a < p * 4096 + off + nat len" for a q
  proof -
    have "p * 4096 \<le> a" "a < (p + 1) * 4096" using that len by simp_all
    then have "a div 4096 = p" by (simp add: div_nat_eqI)
    then show ?thesis using that(1) by simp
  qed
  show "load_step d D P Q s (kbcopy src (p * 4096 + off) len s)"
    by (rule bytes_load_step [OF assms(1-3)]) (use page in \<open>auto intro: kbcopy_ram simp: more_copies\<close>)
  show "load_step d D P Q s (kbzero (p * 4096 + off) len s)"
    by (rule bytes_load_step [OF assms(1-3)]) (use page in \<open>auto intro: kbzero_ram simp: more_copies\<close>)
qed

section \<open>A segment\<close>

text \<open>The addresses of a segment are the program's.\<close>

definition seg_ok :: "nat list set \<Rightarrow> u64 \<Rightarrow> u64 \<Rightarrow> bool" where
  "seg_ok P va m \<longleftrightarrow> (\<forall>i \<le> m. user_va (va + i) \<and> vpath (va + i) \<notin> P)"

lemma rw_perm_ok: "perm_ok (PTE_RW OR PTE_USER)"
  by (simp add: perm_ok_def)

lemma fresh_page_step:
  assumes ok: "load_ok d D P Q s" and d: "d \<in> D" and va: "user_va va" "vpath va \<notin> P"
    and al: "page_alloc s = (Some p, s1)"
  shows "load_step d D P Q s (snd (page_insert d p va (PTE_RW OR PTE_USER) s1))"
    "own_page D Q (snd (page_insert d p va (PTE_RW OR PTE_USER) s1)) p"
proof -
  note A = alloc_load_step [OF ok d al]
  note I = insert_load_step [OF load_step_ok [OF A(1)] d A(2-4) va rw_perm_ok]
  show "load_step d D P Q s (snd (page_insert d p va (PTE_RW OR PTE_USER) s1))"
    by (rule load_step_trans [OF A(1) I(1)])
  show "own_page D Q (snd (page_insert d p va (PTE_RW OR PTE_USER) s1)) p" by (rule I(2))
qed

lemma failed_alloc_step: "load_ok d D P Q s \<Longrightarrow> page_alloc s = (None, s') \<Longrightarrow> load_step d D P Q s s'"
  using page_alloc_None [of s s'] by (simp add: load_step_refl)

lemma icode_page_step:
  assumes ok: "load_ok d D P Q s" and d: "d \<in> D" and va: "user_va va" "vpath va \<notin> P"
    and r: "icode_page d va s = (po, s')"
  shows "load_step d D P Q s s'" "po = Some p \<Longrightarrow> own_page D Q s' p"
  using r lookup_own_page [OF ok d va] fresh_page_step [OF ok d va] failed_alloc_step [OF ok] load_step_refl [OF ok]
  by (auto simp: icode_page_def split: option.splits prod.splits)

lemma nat_uint_min: "nat (uint (min (4096 :: u64) x)) \<le> 4096"
proof -
  have "min (4096 :: u64) x \<le> 4096" by simp
  then show ?thesis by (simp add: word_le_nat_alt)
qed

lemma icode_copy_step:
  assumes "load_ok d D P Q s" and "d \<in> D" and "seg_ok P va m" and "n \<le> m" and "i \<le> n"
    and "icode_copy d va bin n i r s = (x, s')"
  shows "load_step d D P Q s s' \<and> (\<forall>i' r'. x = Some (i', r') \<longrightarrow> i' \<le> m)"
  using assms
proof (induction d va bin n i r s rule: icode_copy.induct)
  case (1 d va bin n i r s)
  show ?case
  proof (cases "i < n")
    case False
    then have "x = Some (i, r)" "s' = s" using "1.prems"(6) by (auto simp: icode_copy.simps)
    then show ?thesis using "1.prems"(1,4,5) order_trans by (auto simp: load_step_refl)
  next
    case True
    obtain po s1 where al: "page_alloc s = (po, s1)" by fastforce
    show ?thesis
    proof (cases po)
      case None
      then have "x = None" "s' = s1" using "1.prems"(6) True al by (auto simp: icode_copy.simps)
      then show ?thesis using failed_alloc_step [OF "1.prems"(1)] al None by simp
    next
      case (Some p)
      let ?s2 = "snd (page_insert d p (va + i) (PTE_RW OR PTE_USER) s1)" and ?r = "min 4096 (n - i)"
      let ?s3 = "kbcopy (bin + unat i) (p * 4096) (uint ?r) ?s2"
      have run: "icode_copy d va bin n (i + ?r) ?r ?s3 = (x, s')"
        using "1.prems"(6) True al Some by (subst (asm) icode_copy.simps) (simp add: Let_def)
      have im: "i \<le> m" using True "1.prems"(4) by simp
      have va: "user_va (va + i)" "vpath (va + i) \<notin> P" using "1.prems"(3) im by (simp_all add: seg_ok_def)
      note F = fresh_page_step [OF "1.prems"(1,2) va al [unfolded Some]]
      have c: "load_step d D P Q ?s2 ?s3"
        using copy_load_step(1) [OF load_step_ok [OF F(1)] "1.prems"(2) F(2), of 0 "uint ?r"] nat_uint_min by simp
      have "i + ?r \<le> n"
        using chunk_progress(1) [OF True] True by (simp add: word_le_nat_alt word_less_nat_alt)
      from "1.IH" [OF True al [symmetric] Some refl refl refl load_step_ok [OF c] "1.prems"(2-4) this run]
      show ?thesis using load_step_trans [OF load_step_trans [OF F(1) c]] by blast
    qed
  qed
qed

lemma icode_zero_step:
  assumes "load_ok d D P Q s" and "d \<in> D" and "seg_ok P va m" and "n \<le> m"
    and "icode_zero d va n i s = (x, s')"
  shows "load_step d D P Q s s'"
  using assms
proof (induction d va n i s rule: icode_zero.induct)
  case (1 d va n i s)
  show ?case
  proof (cases "i < n")
    case False
    then show ?thesis using "1.prems"(1,5) by (auto simp: icode_zero.simps load_step_refl)
  next
    case True
    obtain po s1 where al: "page_alloc s = (po, s1)" by fastforce
    show ?thesis
    proof (cases po)
      case None
      then show ?thesis
        using failed_alloc_step [OF "1.prems"(1)] al "1.prems"(5) True by (auto simp: icode_zero.simps)
    next
      case (Some p)
      let ?s2 = "snd (page_insert d p (va + i) (PTE_RW OR PTE_USER) s1)" and ?r = "min 4096 (n - i)"
      let ?s3 = "kbzero (p * 4096) (uint ?r) ?s2"
      have run: "icode_zero d va n (i + ?r) ?s3 = (x, s')"
        using "1.prems"(5) True al Some by (subst (asm) icode_zero.simps) (simp add: Let_def)
      have im: "i \<le> m" using True "1.prems"(4) by simp
      have va: "user_va (va + i)" "vpath (va + i) \<notin> P" using "1.prems"(3) im by (simp_all add: seg_ok_def)
      note F = fresh_page_step [OF "1.prems"(1,2) va al [unfolded Some]]
      have c: "load_step d D P Q ?s2 ?s3"
        using copy_load_step(2) [OF load_step_ok [OF F(1)] "1.prems"(2) F(2), of 0 "uint ?r"] nat_uint_min by simp
      from "1.IH" [OF True al [symmetric] Some refl refl refl load_step_ok [OF c] "1.prems"(2-4) run]
      show ?thesis using load_step_trans [OF load_step_trans [OF F(1) c]] by blast
    qed
  qed
qed

lemma page_rest:
  fixes va :: u64
  defines "off \<equiv> va - ROUNDDOWN va 4096"
  shows "unat off + nat (uint (min x (4096 - off))) \<le> 4096"
proof -
  have "ROUNDDOWN va 4096 \<le> va" by (simp add: word_le_nat_alt unat_ROUNDDOWN)
  then have "unat off = unat va mod 4096"
    by (simp add: off_def unat_sub unat_ROUNDDOWN minus_div_mult_eq_mod)
  then have o: "unat off \<le> 4095" by simp
  then have "unat (4096 - off) = 4096 - unat off" by (simp add: unat_sub word_le_nat_alt)
  moreover have "unat (min x (4096 - off)) \<le> unat (4096 - off)" by (simp add: min_def word_le_nat_alt)
  ultimately show ?thesis using o by simp
qed

lemma partial_page_step:
  assumes ok: "load_ok d D P Q s" and d: "d \<in> D" and va: "user_va va" "vpath va \<notin> P"
    and p: "icode_page d va s = (Some p, s1)"
  defines "off \<equiv> va - ROUNDDOWN va 4096"
  shows "load_step d D P Q s (kbcopy bin (p * 4096 + unat off) (uint (min x (4096 - off))) s1)"
    "load_step d D P Q s (kbzero (p * 4096 + unat off) (uint (min x (4096 - off))) s1)"
proof -
  note I = icode_page_step [OF ok d va p]
  have "unat off + nat (uint (min x (4096 - off))) \<le> 4096" unfolding off_def by (rule page_rest)
  note C = copy_load_step [OF load_step_ok [OF I(1)] d I(2) [OF refl] this]
  show "load_step d D P Q s (kbcopy bin (p * 4096 + unat off) (uint (min x (4096 - off))) s1)"
    "load_step d D P Q s (kbzero (p * 4096 + unat off) (uint (min x (4096 - off))) s1)"
    by (rule load_step_trans [OF I(1) C(1)], rule load_step_trans [OF I(1) C(2)])
qed

lemma load_icode_mapper_step:
  assumes ok: "load_ok d D P Q s" and d: "d \<in> D" and seg: "seg_ok P va (max (ucast sgsize) (ucast bin_size))"
    and run: "load_icode_mapper d va sgsize bin bin_size s = (x, s')"
  shows "load_step d D P Q s s'"
proof -
  let ?n = "ucast bin_size :: u64" and ?m = "ucast sgsize :: u64" and ?off = "va - ROUNDDOWN va BY2PG"
  have va0: "user_va va" "vpath va \<notin> P" using seg by (auto simp: seg_ok_def elim: allE [of _ 0])
  define first where "first = (if ?off > 0 then
             (case icode_page d va s of
                (None, s1) \<Rightarrow> (None, s1)
              | (Some p, s1) \<Rightarrow>
                  (let r = min ?n (BY2PG - ?off)
                   in (Some r, kbcopy bin (p * 4096 + unat ?off) (uint r) s1)))
           else (Some 0, s))"
  obtain ro s1 where f: "first = (ro, s1)" by fastforce
  have s1: "load_step d D P Q s s1"
    using f partial_page_step(1) [OF ok d va0] icode_page_step(1) [OF ok d va0] load_step_refl [OF ok]
    unfolding first_def by (fastforce simp: Let_def split: if_splits prod.splits option.splits)
  show ?thesis
  proof (cases ro)
    case None
    then have "s' = s1" using run f by (simp add: load_icode_mapper_def Let_def first_def [symmetric])
    then show ?thesis using s1 by simp
  next
    case (Some r)
    have rn: "r \<le> ?n" using f Some unfolding first_def
      by (auto simp: Let_def split: if_splits prod.splits option.splits)
    obtain y s2 where c: "icode_copy d va bin ?n r r s1 = (y, s2)" by fastforce
    have C: "load_step d D P Q s1 s2 \<and> (\<forall>i' r'. y = Some (i', r') \<longrightarrow> i' \<le> max ?m ?n)"
      by (rule icode_copy_step [OF load_step_ok [OF s1] d seg _ rn c]) simp
    show ?thesis
    proof (cases y)
      case None
      then have "s' = s2" using run f c \<open>ro = Some r\<close> by (simp add: load_icode_mapper_def Let_def first_def [symmetric])
      then show ?thesis using load_step_trans [OF s1] C by simp
    next
      case y: (Some ir)
      obtain i r' where ir: "ir = (i, r')" by (cases ir)
      let ?off2 = "va + i - ROUNDDOWN (va + i) BY2PG"
      define second where "second = (if ?off2 > 0 then
             (case icode_page d (va + i) s2 of
                (None, s3) \<Rightarrow> (None, s3)
              | (Some p, s3) \<Rightarrow>
                  (let r = min (?m - i) (BY2PG - ?off2)
                   in (Some r, kbzero (p * 4096 + unat ?off2) (uint r) s3)))
           else (Some r', s2))"
      obtain zo s3 where z: "second = (zo, s3)" by fastforce
      have "i \<le> max ?m ?n" using C y ir by simp
      then have va2: "user_va (va + i)" "vpath (va + i) \<notin> P" using seg by (simp_all add: seg_ok_def)
      have s2: "load_ok d D P Q s2" using C load_step_ok by blast
      have s3: "load_step d D P Q s2 s3"
        using z partial_page_step(2) [OF s2 d va2] icode_page_step(1) [OF s2 d va2] load_step_refl [OF s2]
        unfolding second_def by (fastforce simp: Let_def split: if_splits prod.splits option.splits)
      have rest: "load_icode_mapper d va sgsize bin bin_size s =
          (case zo of None \<Rightarrow> (-1, s3) | Some r \<Rightarrow> icode_zero d va ?m (i + r) s3)"
        using f c z \<open>ro = Some r\<close> y ir
        by (simp add: load_icode_mapper_def Let_def first_def [symmetric] second_def [symmetric])
      have "load_step d D P Q s3 s'"
      proof (cases zo)
        case None
        then show ?thesis using run rest load_step_refl [OF load_step_ok [OF s3]] by simp
      next
        case (Some q)
        then have "icode_zero d va ?m (i + q) s3 = (x, s')" using run rest by simp
        from icode_zero_step [OF load_step_ok [OF s3] d seg _ this] show ?thesis by simp
      qed
      then show ?thesis using load_step_trans [OF s1] load_step_trans [OF s3] C load_step_trans by blast
    qed
  qed
qed

section \<open>An image\<close>

text \<open>The headers of the image lie in pages that are kept, and its segments are at the program's addresses.\<close>

definition in_pages :: "nat set \<Rightarrow> nat \<Rightarrow> nat \<Rightarrow> bool" where
  "in_pages Q a n \<longleftrightarrow> (\<forall>b. a \<le> b \<longrightarrow> b < a + n \<longrightarrow> b div 4096 \<in> Q)"

definition segment_ok :: "nat list set \<Rightarrow> nat set \<Rightarrow> 'a pmem_scheme \<Rightarrow> nat \<Rightarrow> bool" where
  "segment_ok P Q s ph \<longleftrightarrow> in_pages Q ph 56 \<and> (phdr_type s ph = PT_LOAD \<longrightarrow>
     seg_ok P (phdr_vaddr s ph) (max (ucast (ucast (phdr_memsz s ph) :: u32)) (ucast (ucast (phdr_filesz s ph) :: u32))))"

definition image_ok :: "nat list set \<Rightarrow> nat set \<Rightarrow> 'a pmem_scheme \<Rightarrow> nat \<Rightarrow> bool" where
  "image_ok P Q s binary \<longleftrightarrow> in_pages Q binary 64 \<and>
     (\<forall>k < unat (ehdr_phnum s binary).
        segment_ok P Q s (binary + unat (ehdr_phoff s binary) + k * unat (ehdr_phentsize s binary)))"

lemma kept_bytes:
  fixes s s' :: "'a pmem_scheme"
  assumes "\<forall>q \<in> Q. ram s' q = ram s q" and "in_pages Q a n" and "a \<le> b" "b < a + n"
  shows "pbyte s' b = pbyte s b"
  using assms by (simp add: pbyte_def in_pages_def)

lemma kept_words:
  fixes s s' :: "'a pmem_scheme"
  assumes "\<forall>q \<in> Q. ram s' q = ram s q" and "in_pages Q a n"
  shows "k + 2 \<le> n \<Longrightarrow> ld16 pbyte s' (a + k) = ld16 pbyte s (a + k)"
    and "k + 4 \<le> n \<Longrightarrow> ld32 pbyte s' (a + k) = ld32 pbyte s (a + k)"
    and "k + 8 \<le> n \<Longrightarrow> ld64 pbyte s' (a + k) = ld64 pbyte s (a + k)"
proof -
  note K = kept_bytes [OF assms]
  show "k + 2 \<le> n \<Longrightarrow> ld16 pbyte s' (a + k) = ld16 pbyte s (a + k)"
    by (simp add: ld16_def K)
  show "k + 4 \<le> n \<Longrightarrow> ld32 pbyte s' (a + k) = ld32 pbyte s (a + k)"
    by (rule phys.ld32_cong) (simp add: K)
  show "k + 8 \<le> n \<Longrightarrow> ld64 pbyte s' (a + k) = ld64 pbyte s (a + k)"
    by (rule phys.ld64_cong) (simp add: K)
qed

lemma segment_kept:
  fixes s s' :: "'a pmem_scheme"
  assumes "\<forall>q \<in> Q. ram s' q = ram s q" and "in_pages Q ph 56"
  shows "phdr_type s' ph = phdr_type s ph" "phdr_vaddr s' ph = phdr_vaddr s ph" "phdr_memsz s' ph = phdr_memsz s ph"
    "phdr_filesz s' ph = phdr_filesz s ph" "segment_ok P Q s' ph = segment_ok P Q s ph"
proof -
  note K = kept_words [OF assms]
  show f: "phdr_type s' ph = phdr_type s ph" "phdr_vaddr s' ph = phdr_vaddr s ph" "phdr_memsz s' ph = phdr_memsz s ph"
    "phdr_filesz s' ph = phdr_filesz s ph"
    using K(2) [of 0] K(3) [of 16] K(3) [of 32] K(3) [of 40]
    by (simp_all add: phdr_type_def phdr_vaddr_def phdr_memsz_def phdr_filesz_def)
  show "segment_ok P Q s' ph = segment_ok P Q s ph" by (simp add: segment_ok_def f)
qed

lemma load_segments_step:
  assumes "load_ok d D P Q s" and "d \<in> D"
    and "\<And>k. k < n \<Longrightarrow> segment_ok P Q s (ph + k * unat esz)"
    and "load_segments (load_icode_mapper d) binary ph esz n s = (x, s')"
  shows "load_step d D P Q s s'"
  using assms
proof (induction n arbitrary: ph s)
  case 0
  then show ?case by (simp add: load_step_refl)
next
  case (Suc n)
  have rest: "segment_ok P Q t (ph + unat esz + k * unat esz)" if "load_step d D P Q s t" "k < n" for k t
  proof -
    have "segment_ok P Q s (ph + Suc k * unat esz)" using Suc.prems(3) [of "Suc k"] that(2) by simp
    then have e: "segment_ok P Q s (ph + unat esz + k * unat esz)" by (simp add: algebra_simps)
    have "\<forall>q \<in> Q. ram t q = ram s q" using that(1) by (simp add: load_step_def)
    moreover have "in_pages Q (ph + unat esz + k * unat esz) 56" using e by (simp add: segment_ok_def)
    ultimately show ?thesis using segment_kept(5) e by blast
  qed
  show ?case
  proof (cases "phdr_type s ph = PT_LOAD")
    case False
    then have "load_segments (load_icode_mapper d) binary (ph + unat esz) esz n s = (x, s')" using Suc.prems(4) by simp
    from Suc.IH [OF Suc.prems(1,2) rest [OF load_step_refl [OF Suc.prems(1)]] this] show ?thesis .
  next
    case True
    obtain r t where m: "load_icode_mapper d (phdr_vaddr s ph) (ucast (phdr_memsz s ph)) (binary + unat (phdr_offset s ph))
        (ucast (phdr_filesz s ph)) s = (r, t)" by fastforce
    have "seg_ok P (phdr_vaddr s ph) (max (ucast (ucast (phdr_memsz s ph) :: u32)) (ucast (ucast (phdr_filesz s ph) :: u32)))"
      using Suc.prems(3) [of 0] True by (simp add: segment_ok_def)
    note t = load_icode_mapper_step [OF Suc.prems(1,2) this m]
    show ?thesis
    proof (cases "r < 0")
      case True
      then have "s' = t" using Suc.prems(4) m \<open>phdr_type s ph = PT_LOAD\<close> by simp
      then show ?thesis using t by simp
    next
      case False
      then have "load_segments (load_icode_mapper d) binary (ph + unat esz) esz n t = (x, s')"
        using Suc.prems(4) m True by simp
      from Suc.IH [OF load_step_ok [OF t] Suc.prems(2) rest [OF t] this] show ?thesis
        by (rule load_step_trans [OF t])
    qed
  qed
qed

lemma load_elf_step:
  assumes "load_ok d D P Q s" and "d \<in> D" and "image_ok P Q s binary"
    and "load_elf (load_icode_mapper d) binary len s = (x, s')"
  shows "load_step d D P Q s s'"
proof (cases "len < 4 \<or> \<not> is_elf_format binary")
  case True
  then show ?thesis using assms(1,4) by (simp add: load_elf_def load_step_refl)
next
  case False
  let ?ph = "binary + unat (ehdr_phoff s binary)" and ?esz = "ehdr_phentsize s binary" and ?n = "unat (ehdr_phnum s binary)"
  obtain r t where l: "load_segments (load_icode_mapper d) binary ?ph ?esz ?n s = (r, t)" by fastforce
  have "load_step d D P Q s t"
    by (rule load_segments_step [OF assms(1,2) _ l]) (use assms(3) in \<open>simp add: image_ok_def\<close>)
  moreover have "s' = t" using assms(4) False l by (auto simp: load_elf_def split: if_splits)
  ultimately show ?thesis by simp
qed

lemma image_kept:
  fixes s s' :: "'a pmem_scheme"
  assumes "\<forall>q \<in> Q. ram s' q = ram s q" and "in_pages Q binary 64"
  shows "image_ok P Q s' binary = image_ok P Q s binary"
proof -
  note K = kept_words [OF assms]
  have f: "ehdr_phnum s' binary = ehdr_phnum s binary" "ehdr_phoff s' binary = ehdr_phoff s binary"
    "ehdr_phentsize s' binary = ehdr_phentsize s binary"
    using K(1) [of 54] K(1) [of 56] K(3) [of 32] by (simp_all add: ehdr_phnum_def ehdr_phoff_def ehdr_phentsize_def)
  have "segment_ok P Q s' ph = segment_ok P Q s ph" for ph
    using segment_kept(5) [OF assms(1), of ph] by (auto simp: segment_ok_def)
  then show ?thesis by (simp add: image_ok_def f)
qed

end
