(* ===== verification/Startup.thy ===== *)
theory Startup
  imports Exceptions Loader
begin

text \<open>
  Creating the first environments: \<open>env_create\<close> of kernel/env.c, called by \<open>kernel_main\<close> (kernel/main.c) for
  every program in the image of the kernel.
\<close>

section \<open>One environment\<close>

text \<open>The places at which every address space shows the first \<open>n\<close> pages.\<close>

definition low_places :: "nat \<Rightarrow> nat list set" where
  "low_places n = (\<lambda>i. vpath (push_bit 12 (of_nat i))) ` {..<n}"

text \<open>The pages of \<open>Q\<close> are in use, and no environment has them as tables.\<close>

definition reserved :: "nat set \<Rightarrow> kstate \<Rightarrow> bool" where
  "reserved Q s \<longleftrightarrow> (\<forall>q \<in> Q. page_used s q \<and> \<not> is_table s (dirs s) q)"

text \<open>What creating an environment does: a slot comes to life, and the kept pages get at most one more reference.\<close>

definition created :: "nat set \<Rightarrow> int \<Rightarrow> kstate \<Rightarrow> kstate \<Rightarrow> bool" where
  "created Q p s s' \<longleftrightarrow> kinv s' \<and> reserved Q s' \<and>
     (\<exists>e < NENV. e \<notin> KernelInv.live s \<and> KernelInv.live s' = insert e (KernelInv.live s) \<and>
        status (envs s' e) = ENV_RUNNABLE \<and> pri (envs s' e) = of_int p \<and>
        (\<forall>e'. e' \<noteq> e \<longrightarrow> envs s' e' = envs s e')) \<and>
     (\<forall>q \<in> Q. ram s' q = ram s q \<and> unat (page_ref s' q) \<le> unat (page_ref s q) + 1)"

lemma fresh_spaceD:
  assumes "fresh_space s D n e p s'"
  shows "user_va va \<Longrightarrow> vmap s' p va = None \<or>
      (\<exists>i < n. vpath va = vpath (push_bit 12 (of_nat i)) \<and> vmap s' p va = Some (pte_for s i low_perm))"
    and "page_used s q \<Longrightarrow> page_used s' q"
    and "page_used s q \<Longrightarrow> \<not> is_table s D q \<Longrightarrow> ram s' q = ram s q \<and> \<not> is_table s' (insert p D) q \<and>
      (page_ref s' q = page_ref s q \<or> q < n \<and> page_ref s' q = page_ref s q + 1)"
  using assms unfolding fresh_space_def by blast+

lemma fresh_space_load_ok:
  assumes f: "fresh_space s (dirs s) n e p s1" and res: "reserved Q s"
  shows "load_ok p (insert p (dirs s)) (low_places n) Q s1"
proof -
  have "js \<in> low_places n" if "leaf_path js" "node s1 p js = Some q" for js q
  proof -
    from that(1) obtain i j k where js: "js = [i, j, k]" "i < 512" "j < 512" "k < 512" "i \<noteq> self_index"
      by (rule leaf_path_cases)
    have v: "vpath (va_of i j k) = js" using js vpath_va_of by simp
    then have uv: "user_va (va_of i j k)" using js by (auto simp: user_va_def vpath_def)
    have some: "vmap s1 p (va_of i j k) \<noteq> None"
      using that(2) uv v vmap_node [of "va_of i j k" s1 p] by (cases "vmap s1 p (va_of i j k)") auto
    obtain m where "m < n" "vpath (va_of i j k) = vpath (push_bit 12 (of_nat m))"
      using fresh_spaceD(1) [OF f uv] some by blast
    then have "js = vpath (push_bit 12 (of_nat m))" "m \<in> {..<n}" using v by simp_all
    then show ?thesis unfolding low_places_def by (rule image_eqI)
  qed
  moreover have "page_used s1 q \<and> \<not> is_table s1 (insert p (dirs s)) q" if "q \<in> Q" for q
    using fresh_spaceD(2,3) [OF f] res that unfolding reserved_def by blast
  ultimately show ?thesis using f by (simp add: load_ok_def fresh_space_def)
qed

lemma more_sched_link:
  "pmem.more t = pmem.more (s :: kstate) \<Longrightarrow> pmem.more (t\<lparr>sched_link := l\<rparr>) = pmem.more (s\<lparr>sched_link := l\<rparr>)"
  by (cases s; cases t) simp

lemma fresh_space_live:
  assumes f: "fresh_space s (dirs s) n e d t" and e: "e < NENV" "e \<notin> KernelInv.live s"
    and st: "status (envs t e) \<noteq> ENV_FREE"
  shows "KernelInv.live t = insert e (KernelInv.live s)" "dirs t = insert d (dirs s)"
proof -
  have o: "\<And>e'. e' \<noteq> e \<Longrightarrow> envs t e' = envs s e'" and d: "pgdir (envs t e) = Some d"
    using f by (simp_all add: fresh_space_def)
  show l: "KernelInv.live t = insert e (KernelInv.live s)"
    using e st o by (auto simp: KernelInv.live_def) metis+
  have "pgdir (envs t e') = pgdir (envs s e')" if "e' \<in> KernelInv.live s" for e'
    using o [of e'] e(2) that by (cases "e' = e") simp_all
  then show "dirs t = insert d (dirs s)" unfolding dirs_def l using d by auto
qed

text \<open>Loading an image into the fresh address space.\<close>

lemma fresh_space_loaded:
  assumes f: "fresh_space s (dirs s) n e d t" and res: "reserved Q s" and img: "image_ok (low_places n) Q s binary"
    and load: "load_elf (load_icode_mapper d) binary len t = (x, u)"
  shows "load_ok d (insert d (dirs s)) (low_places n) Q u" "pmem.more u = pmem.more t"
    "\<forall>q \<in> Q. ram u q = ram s q \<and> unat (page_ref u q) \<le> unat (page_ref s q) + 1"
proof -
  note kept = fresh_spaceD(3) [OF f]
  have ram: "\<forall>q \<in> Q. ram t q = ram s q" using kept res unfolding reserved_def by blast
  have ref: "unat (page_ref t q) \<le> unat (page_ref s q) + 1" if "q \<in> Q" for q
  proof -
    have "page_ref t q = page_ref s q \<or> page_ref t q = page_ref s q + 1"
      using kept [of q] res that unfolding reserved_def by blast
    then show ?thesis using unat_plus_one [of "page_ref s q"] by (cases "page_ref s q = -1") auto
  qed
  have "in_pages Q binary 64" using img by (simp add: image_ok_def)
  from image_kept [OF ram this] have "image_ok (low_places n) Q t binary" using img by (rule iffD2)
  note step = load_elf_step [OF fresh_space_load_ok [OF f res] insertI1 this load]
  show "load_ok d (insert d (dirs s)) (low_places n) Q u" using step by (rule load_step_ok)
  show "pmem.more u = pmem.more t" using step by (simp add: load_step_def)
  show "\<forall>q \<in> Q. ram u q = ram s q \<and> unat (page_ref u q) \<le> unat (page_ref s q) + 1"
    using step ram ref by (simp add: load_step_def)
qed

text \<open>Loading the image and queueing an environment that has just been allocated.\<close>

lemma load_and_queue:
  assumes inv: "kinv s" and res: "reserved Q s" and img: "image_ok (low_places n) Q s binary"
    and f: "fresh_space s (dirs s) n e d t" and st: "status (envs t e) = ENV_RUNNABLE" "pri (envs t e) = of_int p"
    and fl: "repr 0 (e # es) (free_link s)" "set (e # es) = {e. e < NENV} - KernelInv.live s"
    and q: "repr 0 es (free_link t)" "sched_link t = sched_link s" "curenv t = curenv s" "point t = point s"
  shows "\<exists>s'. obind (load_icode stack e binary len t) (\<lambda>_ t. case list_insert_tail 0 e (sched_link t) of
      None \<Rightarrow> Hang | Some l \<Rightarrow> Ret () (t\<lparr>sched_link := l\<rparr>)) = Ret () s' \<and> created Q p s s'"
proof -
  have st0: "status (envs t e) \<noteq> ENV_FREE" using st by simp
  note e = free_slot [OF fl]
  obtain l where l: "list_insert_tail 0 e (sched_link t) = Some l" "kinv (t\<lparr>sched_link := l\<rparr>)"
    by (rule fresh_space_queued [OF inv f st0 fl q])
  obtain x ep u where load: "load_elf (load_icode_mapper d) binary len t = ((x, ep), u)"
    by (metis prod.collapse)
  note U = fresh_space_loaded [OF f res img load]
  note L = fresh_space_live [OF f e(1,2) st0] and K = kstate_more [OF U(2)]
  define v where "v = envs u e\<lparr>tf := (tf (envs u e))\<lparr>elr_el1 := case ep of None \<Rightarrow> stack | Some x \<Rightarrow> x\<rparr>\<rparr>"
  let ?u = "u\<lparr>sched_link := l\<rparr>"
  let ?w = "set_env e v ?u"
  have "pgdir (envs t e) = Some d" using f by (simp add: fresh_space_def)
  then have "load_icode stack e binary len t = Ret () (set_env e v u)"
    using load by (simp add: load_icode_def deref_def Let_def v_def)
  then have go: "obind (load_icode stack e binary len t) (\<lambda>_ t. case list_insert_tail 0 e (sched_link t) of
      None \<Rightarrow> Hang | Some l \<Rightarrow> Ret () (t\<lparr>sched_link := l\<rparr>)) = Ret () ?w"
    using l(1) by (simp add: K)
  have D: "dirs (t\<lparr>sched_link := l\<rparr>) = insert d (dirs s)" using L by (simp add: dirs_def KernelInv.live_def)
  have su: "same_mem u ?u" by (simp add: same_mem_def)
  have ku: "kinv ?u"
    by (rule kinv_mem [OF l(2) more_sched_link [OF U(2)]])
      (use U(1) in \<open>simp_all add: D same_mem_simps [OF su] load_ok_def\<close>)
  have view: "same_env_view (envs ?u x) (envs ?w x)" for x by (simp add: v_def same_env_view_def)
  note W = same_env_view_live [OF view]
  have lw: "KernelInv.live ?w = insert e (KernelInv.live s)" "dirs ?w = insert d (dirs s)"
    using L unfolding W by (simp_all add: KernelInv.live_def dirs_def K)
  have sw: "same_mem u ?w" by (simp add: same_mem_def)
  note Sw = same_mem_simps [OF sw]
  have "kinv ?w" by (rule kinv_set_env [OF ku]) (simp add: v_def same_env_view_def)
  moreover have "reserved Q ?w" using U(1) unfolding reserved_def lw Sw load_ok_def by blast
  moreover have "\<forall>q \<in> Q. ram ?w q = ram s q \<and> unat (page_ref ?w q) \<le> unat (page_ref s q) + 1"
    using U(3) unfolding Sw .
  moreover have "status (envs ?w e) = ENV_RUNNABLE" "pri (envs ?w e) = of_int p" "\<forall>e'. e' \<noteq> e \<longrightarrow> envs ?w e' = envs s e'"
    using st f by (simp_all add: v_def K fresh_space_def)
  ultimately have "created Q p s ?w" using e lw(1) unfolding created_def by blast
  then show ?thesis using go by blast
qed

lemma env_create_result:
  assumes inv: "kinv s" and k: "kernel_pages_ok s (dirs s) (unat (ie div 4096))" and res: "reserved Q s"
    and img: "image_ok (low_places (unat (ie div 4096))) Q s binary" and room: "KernelInv.live s \<noteq> {e. e < NENV}"
  shows "(\<exists>s'. env_create_priority ie stack binary len p s = Ret () s' \<and> created Q p s s') \<or>
    (\<exists>m s'. env_create_priority ie stack binary len p s = Panic m s' \<and> page_alloc s' = (None, s'))"
proof -
  obtain fl where fl: "repr 0 fl (free_link s)" "set fl = {e. e < NENV} - KernelInv.live s"
    using inv unfolding kinv_def queues_ok_def by blast
  have "KernelInv.live s \<subseteq> {e. e < NENV}" unfolding KernelInv.live_def by blast
  then have "{e. e < NENV} - KernelInv.live s \<noteq> {}"
    using room unfolding Diff_eq_empty_iff by (metis subset_antisym)
  then have "fl \<noteq> []" using fl(2) by (metis empty_set)
  then obtain e es where es: "fl = e # es" by (cases fl) auto
  from env_alloc_steps [OF kinv_spaces [OF inv] k fl(1) [unfolded es], of 0] show ?thesis
  proof (elim disjE exE conjE)
    fix d s1
    assume run: "env_alloc ie 0 s = Ret (0, Some e) s1" and f: "fresh_space s (dirs s) (unat (ie div 4096)) e d s1"
      and q: "repr 0 es (free_link s1)" "sched_link s1 = sched_link s" "curenv s1 = curenv s" "point s1 = point s"
      and st: "status (envs s1 e) = ENV_RUNNABLE"
    let ?t = "set_env e (envs s1 e\<lparr>pri := of_int p\<rparr>) s1"
    have same: "same_mem s1 ?t" by (simp add: same_mem_refl)
    have f2: "fresh_space s (dirs s) (unat (ie div 4096)) e d ?t"
      using f unfolding fresh_space_def same_mem_simps [OF same] by simp
    have "env_create_priority ie stack binary len p s = obind (load_icode stack e binary len ?t)
        (\<lambda>_ t. case list_insert_tail 0 e (sched_link t) of None \<Rightarrow> Hang | Some l \<Rightarrow> Ret () (t\<lparr>sched_link := l\<rparr>))"
      using run by (simp add: env_create_priority_def)
    then show ?thesis
      using load_and_queue [OF inv res img f2 _ _ fl [unfolded es], of p stack len] st q by simp
  next
    fix m s' assume "env_alloc ie 0 s = Panic m s'" "page_alloc s' = (None, s')"
    then show ?thesis by (simp add: env_create_priority_def)
  qed
qed

section \<open>The environments of \<open>kernel_main\<close>\<close>

text \<open>
  \<open>kernel_main\<close> initialises the table of environments and creates one environment for each program of the
  kernel's image. The list has, for every program, the value of the uninitialised \<open>entry_point\<close> of
  \<open>load_icode\<close>, the address of the program and its length.
\<close>

fun create_all :: "u64 \<Rightarrow> (u64 \<times> nat \<times> int) list \<Rightarrow> kstate \<Rightarrow> unit kres" where
  "create_all ie [] s = Ret () s"
| "create_all ie ((stack, binary, len) # xs) s = obind (env_create ie stack binary len s) (\<lambda>_ s. create_all ie xs s)"

definition start_envs :: "u64 \<Rightarrow> (u64 \<times> nat \<times> int) list \<Rightarrow> kstate \<Rightarrow> unit kres" where
  "start_envs ie images s = create_all ie images (env_init s)"

text \<open>Ready to create \<open>k\<close> environments: the kernel's pages and the images stay where they are.\<close>

definition can_create :: "u64 \<Rightarrow> nat set \<Rightarrow> (u64 \<times> nat \<times> int) list \<Rightarrow> kstate \<Rightarrow> bool" where
  "can_create ie Q xs s \<longleftrightarrow> kinv s \<and> reserved Q s \<and> unat (ie div 4096) \<le> 2 ^ 18 \<and> {..<unat (ie div 4096)} \<subseteq> Q \<and>
     (\<forall>q \<in> Q. unat (page_ref s q) + length xs \<le> 2 ^ 31) \<and> card (KernelInv.live s) + length xs \<le> NENV \<and>
     (\<forall>(stack, binary, len) \<in> set xs. image_ok (low_places (unat (ie div 4096))) Q s binary)"

lemma can_create_pages:
  assumes "can_create ie Q (x # xs) s"
  shows "kernel_pages_ok s (dirs s) (unat (ie div 4096))"
proof -
  have "page_used s i \<and> \<not> is_table s (dirs s) i \<and> page_ref s i \<noteq> -1" if "i < unat (ie div 4096)" for i
  proof -
    have i: "i \<in> Q" using that assms by (auto simp: can_create_def)
    then have "unat (page_ref s i) \<le> 2 ^ 31" using assms by (fastforce simp: can_create_def)
    then have "page_ref s i \<noteq> -1" by (auto simp: unsigned_minus_1_eq_mask mask_eq_exp_minus_1)
    then show ?thesis using i assms by (simp add: can_create_def reserved_def)
  qed
  then show ?thesis using assms by (simp add: kernel_pages_ok_def can_create_def)
qed

lemma finite_live: "finite (KernelInv.live s)" "KernelInv.live s \<subseteq> {e. e < NENV}"
  by (auto simp: KernelInv.live_def)

lemma can_create_step:
  assumes "can_create ie Q (x # xs) s" and c: "created Q p s s'"
  shows "can_create ie Q xs s'"
proof -
  note D = assms(1) [unfolded can_create_def]
  have ram: "\<forall>q \<in> Q. ram s' q = ram s q" using c by (simp add: created_def)
  have ref: "unat (page_ref s' q) + length xs \<le> 2 ^ 31" if "q \<in> Q" for q
  proof -
    have "unat (page_ref s q) + length (x # xs) \<le> 2 ^ 31" using D that by blast
    moreover have "unat (page_ref s' q) \<le> unat (page_ref s q) + 1" using c that by (simp add: created_def)
    ultimately show ?thesis by simp
  qed
  obtain e where "e \<notin> KernelInv.live s" "KernelInv.live s' = insert e (KernelInv.live s)"
    using c unfolding created_def by blast
  then have card: "card (KernelInv.live s') + length xs \<le> NENV" using D finite_live by simp
  have img: "image_ok (low_places (unat (ie div 4096))) Q s' binary"
    if "(stack, binary, len) \<in> set xs" for stack binary len
  proof -
    have i: "image_ok (low_places (unat (ie div 4096))) Q s binary" using D that by auto
    then have "in_pages Q binary 64" by (simp add: image_ok_def)
    from image_kept [OF ram this] i show ?thesis by (rule iffD2)
  qed
  show ?thesis using D c ref card img unfolding can_create_def by (auto simp: created_def)
qed

lemma env_init_more: "curenv (env_init s) = curenv s" "point (env_init s) = point s" "User_pgdir (env_init s) = User_pgdir s"
proof -
  define t where "t = s\<lparr>free_link := list_init 0 (free_link s), sched_link := list_init 1 (list_init 0 (sched_link s))\<rparr>"
  define g where "g = (\<lambda>i s. let s' = set_env i (envs s i\<lparr>status := ENV_FREE\<rparr>) s
                    in s'\<lparr>free_link := list_insert_head 0 i (free_link s')\<rparr>)"
  have e: "env_init s = fold g (rev [0..<NENV]) t" unfolding env_init_def Let_def g_def t_def ..
  have "curenv (fold g xs t) = curenv t" "point (fold g xs t) = point t" "User_pgdir (fold g xs t) = User_pgdir t" for xs
    by (rule fold_frame; simp add: g_def Let_def)+
  then show "curenv (env_init s) = curenv s" "point (env_init s) = point s" "User_pgdir (env_init s) = User_pgdir s"
    unfolding e by (simp_all add: t_def)
qed

lemma env_init_kinv:
  assumes "wf_spaces s {}" and "pa_ok s" and "curenv s = None" and "point s \<le> 1"
  shows "kinv (env_init s)" "KernelInv.live (env_init s) = {}"
proof -
  note I = env_init_lists [of s] and M = env_init_more [of s] and S = same_mem_simps [OF env_init_same_mem [of s]]
  show live: "KernelInv.live (env_init s) = {}" using I by (auto simp: KernelInv.live_def)
  then have d: "dirs (env_init s) = {}" by (simp add: dirs_def)
  have "repr (point (env_init s)) [] (sched_link (env_init s))"
    "repr (1 - point (env_init s)) [] (sched_link (env_init s))"
    using I assms(4) by (cases "point s"; simp add: M)+
  then have "ring (env_init s) []" using assms(4) unfolding ring_def by (auto simp: M)
  moreover have "set [0..<NENV] = {e. e < NENV} - KernelInv.live (env_init s)" by (auto simp: live)
  ultimately have "queues_ok (env_init s)"
    unfolding queues_ok_def using I assms(3)
    by (intro exI [of _ "[0..<NENV]"] exI [of _ "[]"]) (simp add: waiting_def M live)
  moreover have "dirs_ok (env_init s)" "user_ok (env_init s)"
    using assms(3) by (simp_all add: dirs_ok_def user_ok_def live M)
  ultimately show "kinv (env_init s)" using assms(1,2) by (simp add: kinv_def d S)
qed

definition all_ready :: "kstate \<Rightarrow> bool" where
  "all_ready s \<longleftrightarrow> (\<forall>e \<in> KernelInv.live s. status (envs s e) = ENV_RUNNABLE \<and> pri (envs s e) = 1)"

lemma create_all_result:
  assumes "can_create ie Q xs s" and "all_ready s"
  shows "(\<exists>s'. create_all ie xs s = Ret () s' \<and> kinv s' \<and> all_ready s' \<and> (\<forall>q \<in> Q. ram s' q = ram s q) \<and>
      card (KernelInv.live s') = card (KernelInv.live s) + length xs) \<or>
    (\<exists>m s'. create_all ie xs s = Panic m s' \<and> page_alloc s' = (None, s'))"
  using assms
proof (induction xs arbitrary: s)
  case Nil
  then show ?case by (simp add: can_create_def)
next
  case (Cons x xs)
  obtain stack binary len where x: "x = (stack, binary, len)" by (cases x)
  note D = Cons.prems(1) [unfolded can_create_def]
  have k: "kinv s" "reserved Q s" using D by blast+
  have img: "image_ok (low_places (unat (ie div 4096))) Q s binary" using D x by simp
  have card: "card (KernelInv.live s) + Suc (length xs) \<le> NENV" using D by simp
  have room: "KernelInv.live s \<noteq> {e. e < NENV}"
  proof
    assume "KernelInv.live s = {e. e < NENV}"
    then have "card (KernelInv.live s) = NENV" by simp
    then show False using card by simp
  qed
  from env_create_result [OF k(1) can_create_pages [OF Cons.prems(1)] k(2) img room, of stack len 1]
  show ?case
  proof (elim disjE exE conjE)
    fix t assume r: "env_create_priority ie stack binary len 1 s = Ret () t" and c: "created Q 1 s t"
    then obtain e where e: "e \<notin> KernelInv.live s" "KernelInv.live t = insert e (KernelInv.live s)"
      "status (envs t e) = ENV_RUNNABLE" "pri (envs t e) = 1" "\<forall>e'. e' \<noteq> e \<longrightarrow> envs t e' = envs s e'"
      unfolding created_def by auto
    have "all_ready t" unfolding all_ready_def e(2)
    proof
      fix x assume "x \<in> insert e (KernelInv.live s)"
      then show "status (envs t x) = ENV_RUNNABLE \<and> pri (envs t x) = 1"
        using e(3-5) Cons.prems(2) by (cases "x = e") (auto simp: all_ready_def)
    qed
    note IH = Cons.IH [OF can_create_step [OF Cons.prems(1) c] this]
    have run: "create_all ie (x # xs) s = create_all ie xs t" by (simp add: x r env_create_def)
    have n: "card (KernelInv.live t) = Suc (card (KernelInv.live s))" using e(1,2) finite_live by simp
    have "\<forall>q \<in> Q. ram t q = ram s q" using c by (simp add: created_def)
    then show ?thesis using IH unfolding run n by (elim disjE exE conjE) simp_all
  next
    fix m t assume "env_create_priority ie stack binary len 1 s = Panic m t" "page_alloc t = (None, t)"
    then show ?thesis by (simp add: x env_create_def)
  qed
qed


text \<open>The memory the boot code leaves, with a program of one segment of sixteen bytes at 0x400000 in page 150.\<close>

definition demo_elf :: "nat \<Rightarrow> u64" where
  "demo_elf = (\<lambda>_. 0)(4 := 64, 6 := push_bit 48 56, 7 := 1, 8 := 1, 10 := 0x400000, 13 := 16)"

definition demo_start :: kstate where
  "demo_start = demo_kernel\<lparr>Kern_vis := Kern_vis demo_boot, page_pa := page_pa demo_boot,
     page_ref := page_ref demo_boot, ram := (ram demo_boot)(150 := demo_elf)\<rparr>"

lemma demo_image_ok: "image_ok (low_places 128) {..<1536} demo_start 614400"
proof -
  have f: "ehdr_phnum demo_start 614400 = 1" "ehdr_phoff demo_start 614400 = 64" "ehdr_phentsize demo_start 614400 = 56"
    "phdr_vaddr demo_start 614464 = 0x400000" "phdr_memsz demo_start 614464 = 16" "phdr_filesz demo_start 614464 = 0"
    by (simp_all add: ehdr_phnum_def ehdr_phoff_def ehdr_phentsize_def phdr_vaddr_def phdr_memsz_def phdr_filesz_def
        ld16_def ld64_def ld32_def pbyte_def demo_start_def demo_elf_def)
  have "user_va (0x400000 + i) \<and> vpath (0x400000 + i) \<notin> low_places 128" if "i \<le> 16" for i
  proof -
    have u: "unat (0x400000 + i) = 4194304 + unat i"
      using that by (subst unat_plus_if') (simp add: word_le_nat_alt)
    have "drop_bit 30 (0x400000 + i) = 0" "drop_bit 21 (0x400000 + i) = 2" "drop_bit 12 (0x400000 + i) = 1024"
      using that by (simp_all add: word_unat_eq_iff unat_drop_bit_eq u) (simp_all add: drop_bit_eq_div word_le_nat_alt)
    then have v: "vpath (0x400000 + i) = [0, 2, 0]"
      by (simp add: vpath_def GET_L1_INDEX_def GET_L2_INDEX_def GET_L3_INDEX_def)
    have "[0, 2, 0] \<notin> low_places 128"
    proof
      assume "[0, 2, 0] \<in> low_places 128"
      then obtain k where "k < 128" "vpath (push_bit 12 (of_nat k)) = [0, 2, 0]" by (auto simp: low_places_def)
      then show False using vpath_low [of k] by simp
    qed
    moreover have "user_va (0x400000 + i)" using v by (simp add: user_va_def vpath_def self_index_eq)
    ultimately show ?thesis by (simp add: v)
  qed
  then have "seg_ok (low_places 128) 0x400000 16" by (simp add: seg_ok_def)
  then have "segment_ok (low_places 128) {..<1536} demo_start 614464"
    by (auto simp: segment_ok_def f in_pages_def)
  then show ?thesis by (auto simp: image_ok_def f in_pages_def)
qed


end
