(* ===== verification/Stubs.thy ===== *)
theory Stubs
  imports Vmkernel
begin

text \<open>
  The stubs by which a program calls the kernel: user/syscall_lib.c and \<open>msyscall\<close> (user/syscall_wrap.S). The
  number of the call and its arguments go to registers 0 to 5, the exception enters the kernel's handler, and
  register 0 is the result. \<open>wild\<close> is the kernel's call through what lies behind its table.
\<close>

record platform =
  board :: devices
  kcon :: kconsts
  wild :: "u64 \<Rightarrow> kstate \<Rightarrow> unit kres"

text \<open>The class of the exception that \<open>SVC\<close> raises is 0x15.\<close>

definition msyscall :: "platform \<Rightarrow> u64 \<Rightarrow> u64 \<Rightarrow> u64 \<Rightarrow> u64 \<Rightarrow> u64 \<Rightarrow> u64 \<Rightarrow> kstate \<Rightarrow> u64 kres" where
  "msyscall p n a1 a2 a3 a4 a5 s =
    (let r = (regs (tf_cpu s))(0 := n, 1 := a1, 2 := a2, 3 := a3, 4 := a4, 5 := a5);
         s = s\<lparr>tf_cpu := (tf_cpu s)\<lparr>regs := r\<rparr>\<rparr>
     in obind (synchronous_exception_handler (board p) (kcon p) (wild p) 0x54000000 0 s)
          (\<lambda>_ s. Ret (regs (tf_cpu s) 0) s))"

text \<open>A stub that returns an \<open>int\<close> or nothing.\<close>

definition as_int :: "u64 kres \<Rightarrow> int kres" where
  "as_int m = obind m (\<lambda>r s. Ret (sint (ucast r :: u32)) s)"

definition as_void :: "u64 kres \<Rightarrow> unit kres" where
  "as_void m = obind m (\<lambda>_ s. Ret () s)"

section \<open>The stubs (user/syscall_lib.c)\<close>

definition syscall_putchar :: "platform \<Rightarrow> u8 \<Rightarrow> kstate \<Rightarrow> unit kres" where
  "syscall_putchar p ch s = as_void (msyscall p 0 (ucast ch) 0 0 0 0 s)"

definition syscall_getenvid :: "platform \<Rightarrow> kstate \<Rightarrow> int kres" where
  "syscall_getenvid p s = as_int (msyscall p 1 0 0 0 0 0 s)"

definition syscall_yield :: "platform \<Rightarrow> kstate \<Rightarrow> unit kres" where
  "syscall_yield p s = as_void (msyscall p 2 0 0 0 0 0 s)"

definition syscall_env_destroy :: "platform \<Rightarrow> u64 \<Rightarrow> kstate \<Rightarrow> int kres" where
  "syscall_env_destroy p envid s = as_int (msyscall p 3 envid 0 0 0 0 s)"

definition syscall_set_pgfault_handler :: "platform \<Rightarrow> u64 \<Rightarrow> u64 \<Rightarrow> u64 \<Rightarrow> kstate \<Rightarrow> int kres" where
  "syscall_set_pgfault_handler p envid func xtop s = as_int (msyscall p 4 envid func xtop 0 0 s)"

definition syscall_mem_alloc_svc :: "platform \<Rightarrow> u64 \<Rightarrow> u64 \<Rightarrow> u64 \<Rightarrow> kstate \<Rightarrow> int kres" where
  "syscall_mem_alloc_svc p envid va perm s = as_int (msyscall p 5 envid va perm 0 0 s)"

definition syscall_mem_map_svc :: "platform \<Rightarrow> u64 \<Rightarrow> u64 \<Rightarrow> u64 \<Rightarrow> u64 \<Rightarrow> u64 \<Rightarrow> kstate \<Rightarrow> int kres" where
  "syscall_mem_map_svc p srcid srcva dstid dstva perm s = as_int (msyscall p 6 srcid srcva dstid dstva perm s)"

definition syscall_mem_unmap_svc :: "platform \<Rightarrow> u64 \<Rightarrow> u64 \<Rightarrow> kstate \<Rightarrow> int kres" where
  "syscall_mem_unmap_svc p envid va s = as_int (msyscall p 7 envid va 0 0 0 s)"

definition syscall_env_alloc :: "platform \<Rightarrow> kstate \<Rightarrow> u64 kres" where
  "syscall_env_alloc p s = msyscall p 8 0 0 0 0 0 s"

definition syscall_set_env_status :: "platform \<Rightarrow> u64 \<Rightarrow> u64 \<Rightarrow> kstate \<Rightarrow> int kres" where
  "syscall_set_env_status p envid st s = as_int (msyscall p 9 envid st 0 0 0 s)"

text \<open>The kernel panics with the message, so there is no result.\<close>

definition syscall_panic :: "platform \<Rightarrow> u64 \<Rightarrow> kstate \<Rightarrow> unit kres" where
  "syscall_panic p msg s = as_void (msyscall p 11 msg 0 0 0 0 s)"

definition syscall_ipc_can_send :: "platform \<Rightarrow> u64 \<Rightarrow> u64 \<Rightarrow> u64 \<Rightarrow> u64 \<Rightarrow> kstate \<Rightarrow> int kres" where
  "syscall_ipc_can_send p envid v srcva perm s = as_int (msyscall p 12 envid v srcva perm 0 s)"

definition syscall_ipc_recv :: "platform \<Rightarrow> u64 \<Rightarrow> kstate \<Rightarrow> unit kres" where
  "syscall_ipc_recv p dstva s = as_void (msyscall p 13 dstva 0 0 0 0 s)"

definition syscall_cgetc :: "platform \<Rightarrow> kstate \<Rightarrow> int kres" where
  "syscall_cgetc p s = as_int (msyscall p 14 0 0 0 0 0 s)"

text \<open>The function has no return statement; the register of the result still holds that of \<open>msyscall\<close>.\<close>

definition syscall_getenvs :: "platform \<Rightarrow> kstate \<Rightarrow> u64 kres" where
  "syscall_getenvs p s = msyscall p 15 0 0 0 0 0 s"

definition syscall_write_sd_svc :: "platform \<Rightarrow> u64 \<Rightarrow> u32 \<Rightarrow> kstate \<Rightarrow> int kres" where
  "syscall_write_sd_svc p src secno s = as_int (msyscall p 16 src (ucast secno) 0 0 0 s)"

definition syscall_read_sd_svc :: "platform \<Rightarrow> u64 \<Rightarrow> u32 \<Rightarrow> kstate \<Rightarrow> int kres" where
  "syscall_read_sd_svc p dst secno s = as_int (msyscall p 17 dst (ucast secno) 0 0 0 s)"

definition syscall_get_pageref :: "platform \<Rightarrow> int \<Rightarrow> kstate \<Rightarrow> int kres" where
  "syscall_get_pageref p num s = as_int (msyscall p 18 (of_int num) 0 0 0 0 s)"

definition syscall_getc :: "platform \<Rightarrow> kstate \<Rightarrow> int kres" where
  "syscall_getc p s = as_int (msyscall p 19 0 0 0 0 0 s)"

section \<open>What the kernel runs\<close>

definition enter :: "u64 \<Rightarrow> u64 list \<Rightarrow> kstate \<Rightarrow> kstate" where
  "enter n a s = s\<lparr>tf_cpu := (tf_cpu s)\<lparr>regs := (regs (tf_cpu s))(0 := n, 1 := a ! 0, 2 := a ! 1, 3 := a ! 2, 4 := a ! 3, 5 := a ! 4)\<rparr>\<rparr>"

lemma msyscall_handlers:
  assumes "n < 32"
  shows "msyscall p n a1 a2 a3 a4 a5 s =
    obind (syscall_handlers (board p) (kcon p) (unat n) [a1, a2, a3, a4, a5] (enter n [a1, a2, a3, a4, a5] s))
      (\<lambda>_ s. Ret (regs (tf_cpu s) 0) s)"
  using assms by (simp add: msyscall_def Let_def synchronous_exception_handler_def enter_def)

text \<open>The state but for the registers of the caller.\<close>

lemma enter_kept:
  "kinv s \<Longrightarrow> kinv (enter n a s)" "vm_shown self (enter n a s) v = vm_shown self s v"
  "call_ok c (enter n a s) = call_ok c s" "page_ref (enter n a s) = page_ref s" "regs (tf_cpu (enter n a s)) 0 = n"
proof -
  have m: "same_mem s (enter n a s)" by (simp add: enter_def same_mem_refl)
  show "kinv s \<Longrightarrow> kinv (enter n a s)"
    by (erule kinv_cong) (simp_all add: m, simp_all add: enter_def same_env_view_def)
  show "vm_shown self (enter n a s) v = vm_shown self s v"
    by (rule vm_shown_cong [OF m]) (simp_all add: enter_def same_env_view_def)
  show "call_ok c (enter n a s) = call_ok c s" by (cases c) (simp_all add: may_name_def enter_def)
qed (simp_all add: enter_def)

text \<open>The stub for each of the calls on memory.\<close>

fun stub_call :: "platform \<Rightarrow> mem_call \<Rightarrow> kstate \<Rightarrow> int kres" where
  "stub_call p (Mem_alloc e va perm) s = syscall_mem_alloc_svc p (ucast e) va perm s"
| "stub_call p (Mem_map e va e' va' perm) s = syscall_mem_map_svc p (ucast e) va (ucast e') va' perm s"
| "stub_call p (Mem_unmap e va) s = syscall_mem_unmap_svc p (ucast e) va s"

lemma stub_call_enters:
  "stub_call p c s = as_int (obind (syscall_handlers (board p) (kcon p) (call_no c) (call_args c)
     (enter (of_nat (call_no c)) (call_args c) s)) (\<lambda>_ s. Ret (regs (tf_cpu s) 0) s))"
  by (cases c) (simp_all add: syscall_mem_alloc_svc_def syscall_mem_map_svc_def syscall_mem_unmap_svc_def msyscall_handlers)

lemma vm_call_results: "fst (vm_call self c v) \<in> {-1, 0, 7}"
  by (cases c)
    (simp_all add: vm_mem_alloc_def vm_mem_map_def vm_mem_unmap_def split: option.split prod.split)

lemma small_result: "r \<in> {-1, 0, 7} \<Longrightarrow> sint (ucast (of_int r :: u64) :: u32) = r"
proof -
  have "ucast (-1 :: u64) = (-1 :: u32)" by (rule bit_word_eqI) (simp add: bit_simps)
  then show "r \<in> {-1, 0, 7} \<Longrightarrow> sint (ucast (of_int r :: u64) :: u32) = r" by auto
qed


definition demo_platform :: platform where
  "demo_platform = \<lparr>board = demo_devices, kcon = demo_consts, wild = (\<lambda>_ s. Ret () s)\<rparr>"


section \<open>Every stub\<close>

text \<open>Each stub enters the handler of its name, with the arguments cut to the types the handler declares.\<close>

definition returns :: "unit kres \<Rightarrow> u64 kres" where
  "returns m = obind m (\<lambda>_ s. Ret (regs (tf_cpu s) 0) s)"

lemma stub_handlers:
  "syscall_putchar p ch s = as_void (returns (sys_putchar (board p) (ucast ch) (enter 0 [ucast ch, 0, 0, 0, 0] s)))"
  "syscall_getenvid p s = as_int (returns (sys_getenvid (enter 1 [0, 0, 0, 0, 0] s)))"
  "syscall_yield p s = as_void (returns (sys_yield (enter 2 [0, 0, 0, 0, 0] s)))"
  "syscall_env_destroy p e s = as_int (returns (sys_env_destroy (ucast e) (enter 3 [e, 0, 0, 0, 0] s)))"
  "syscall_set_pgfault_handler p e func xtop s =
     as_int (returns (sys_set_pgfault_handler (ucast e) func xtop (enter 4 [e, func, xtop, 0, 0] s)))"
  "syscall_env_alloc p s = returns (sys_env_alloc (kcon p) (enter 8 [0, 0, 0, 0, 0] s))"
  "syscall_set_env_status p e st s = as_int (returns (sys_set_env_status (ucast e) (ucast st) (enter 9 [e, st, 0, 0, 0] s)))"
  "syscall_panic p msg s = as_void (returns (sys_panic (enter 11 [msg, 0, 0, 0, 0] s)))"
  "syscall_ipc_can_send p e v va perm s =
     as_int (returns (sys_ipc_can_send (ucast e) v va perm (enter 12 [e, v, va, perm, 0] s)))"
  "syscall_ipc_recv p va s = as_void (returns (sys_ipc_recv va (enter 13 [va, 0, 0, 0, 0] s)))"
  "syscall_getenvs p s = returns (sys_get_envs (kcon p) (enter 15 [0, 0, 0, 0, 0] s))"
  "syscall_write_sd_svc p va n s = as_int (returns (sys_write_sd (board p) va n (enter 16 [va, ucast n, 0, 0, 0] s)))"
  "syscall_read_sd_svc p va n s = as_int (returns (sys_read_sd (board p) va n (enter 17 [va, ucast n, 0, 0, 0] s)))"
  "syscall_get_pageref p k s = as_int (returns (sys_get_pageref (ucast (of_int k :: u64)) (enter 18 [of_int k, 0, 0, 0, 0] s)))"
  "syscall_getc p s = as_int (returns (sys_getc (board p) (enter 19 [0, 0, 0, 0, 0] s)))"
  by (simp_all add: returns_def syscall_putchar_def syscall_getenvid_def syscall_yield_def syscall_env_destroy_def
      syscall_set_pgfault_handler_def syscall_env_alloc_def syscall_set_env_status_def syscall_panic_def
      syscall_ipc_can_send_def syscall_ipc_recv_def syscall_getenvs_def syscall_write_sd_svc_def syscall_read_sd_svc_def
      syscall_get_pageref_def syscall_getc_def msyscall_handlers syscall_handlers_def ucast_down_up)

text \<open>The call that the kernel has no handler for.\<close>

lemma cgetc_panics: "\<exists>m t. syscall_cgetc p s = Panic m t"
  by (simp add: syscall_cgetc_def msyscall_handlers syscall_handlers_def as_int_def)

end
