(* ===== verification/Mmio.thy ===== *)
theory Mmio
  imports Prelude "HOL-Library.State_Monad"
begin

text \<open>
  Device registers. A driver reads and writes registers and waits; the state keeps the list of everything it
  did. What a register yields is an argument, a function of that list, so every device that answers
  depending on what the driver did so far is such a function. Registers are named by their virtual addresses.
\<close>

datatype access = Rd nat u32 | Wr nat u32 | Pause u32 | Cycles u32 | Clean nat u32

type_synonym device = "access list \<Rightarrow> nat \<Rightarrow> u32"

record mmio =
  accesses :: "access list"

abbreviation (input) ret :: "'a \<Rightarrow> ('s, 'a) state" where "ret \<equiv> State_Monad.return"

definition did :: "access \<Rightarrow> ('a mmio_scheme, unit) state" where
  "did x = State (\<lambda>s. ((), s\<lparr>accesses := accesses s @ [x]\<rparr>))"

definition rdreg :: "device \<Rightarrow> nat \<Rightarrow> ('a mmio_scheme, u32) state" where
  "rdreg dev r = State (\<lambda>s. let v = dev (accesses s) r in (v, s\<lparr>accesses := accesses s @ [Rd r v]\<rparr>))"

definition wrreg :: "nat \<Rightarrow> u32 \<Rightarrow> ('a mmio_scheme, unit) state" where
  "wrreg r v = did (Wr r v)"

text \<open>The fields of the driver's own state.\<close>

definition field :: "('s \<Rightarrow> 'a) \<Rightarrow> ('s, 'a) state" where "field f = State (\<lambda>s. (f s, s))"
definition change :: "('s \<Rightarrow> 's) \<Rightarrow> ('s, unit) state" where "change f = State (\<lambda>s. ((), f s))"

lemma run_mmio [simp]:
  "run_state (did x) s = ((), s\<lparr>accesses := accesses s @ [x]\<rparr>)"
  "run_state (rdreg dev r) s = (dev (accesses s) r, s\<lparr>accesses := accesses s @ [Rd r (dev (accesses s) r)]\<rparr>)"
  "run_state (wrreg r v) s = ((), s\<lparr>accesses := accesses s @ [Wr r v]\<rparr>)"
  "run_state (field f) s = (f s, s)" "run_state (change g) s = ((), g s)"
  by (simp_all add: did_def rdreg_def wrreg_def field_def change_def Let_def)

text \<open>Steps one after the other for the elements of a list.\<close>

fun steps :: "'b list \<Rightarrow> ('b \<Rightarrow> ('s, unit) state) \<Rightarrow> ('s, unit) state" where
  "steps [] f = ret ()"
| "steps (x # xs) f = do { f x; steps xs f }"

end
