(* ===== verification/Emmc.thy ===== *)
theory Emmc
  imports Mmio
begin

text \<open>
  The driver of the SD card: lib/sd.c. Buffers are words of memory by their addresses. Messages are left out.
\<close>

record emmc = mmio +
  sd_scr0 :: u64
  sd_scr1 :: u64
  sd_rca :: u64
  sd_err :: u64
  sd_hv :: u64
  words :: "nat \<Rightarrow> u32"

section \<open>Registers and commands\<close>

text \<open>The registers of the controller are at \<open>MMIO_BASE + KERNBASE\<close>; those of the pins lack \<open>KERNBASE\<close>.\<close>

abbreviation (input) EMMC :: nat where "EMMC \<equiv> 0xffffff803f300000"
abbreviation (input) EMMC_BLKSIZECNT :: nat where "EMMC_BLKSIZECNT \<equiv> EMMC + 0x04"
abbreviation (input) EMMC_ARG1 :: nat where "EMMC_ARG1 \<equiv> EMMC + 0x08"
abbreviation (input) EMMC_CMDTM :: nat where "EMMC_CMDTM \<equiv> EMMC + 0x0c"
abbreviation (input) EMMC_RESP0 :: nat where "EMMC_RESP0 \<equiv> EMMC + 0x10"
abbreviation (input) EMMC_RESP1 :: nat where "EMMC_RESP1 \<equiv> EMMC + 0x14"
abbreviation (input) EMMC_RESP2 :: nat where "EMMC_RESP2 \<equiv> EMMC + 0x18"
abbreviation (input) EMMC_RESP3 :: nat where "EMMC_RESP3 \<equiv> EMMC + 0x1c"
abbreviation (input) EMMC_DATA :: nat where "EMMC_DATA \<equiv> EMMC + 0x20"
abbreviation (input) EMMC_STATUS :: nat where "EMMC_STATUS \<equiv> EMMC + 0x24"
abbreviation (input) EMMC_CONTROL0 :: nat where "EMMC_CONTROL0 \<equiv> EMMC + 0x28"
abbreviation (input) EMMC_CONTROL1 :: nat where "EMMC_CONTROL1 \<equiv> EMMC + 0x2c"
abbreviation (input) EMMC_INTERRUPT :: nat where "EMMC_INTERRUPT \<equiv> EMMC + 0x30"
abbreviation (input) EMMC_INT_MASK :: nat where "EMMC_INT_MASK \<equiv> EMMC + 0x34"
abbreviation (input) EMMC_INT_EN :: nat where "EMMC_INT_EN \<equiv> EMMC + 0x38"
abbreviation (input) EMMC_SLOTISR_VER :: nat where "EMMC_SLOTISR_VER \<equiv> EMMC + 0xfc"

abbreviation (input) CMD_NEED_APP :: u32 where "CMD_NEED_APP \<equiv> 0x80000000"
abbreviation (input) CMD_RSPNS_48 :: u32 where "CMD_RSPNS_48 \<equiv> 0x00020000"
abbreviation (input) CMD_ERRORS_MASK :: u32 where "CMD_ERRORS_MASK \<equiv> 0xfff9c004"
abbreviation (input) CMD_RCA_MASK :: u32 where "CMD_RCA_MASK \<equiv> 0xffff0000"
abbreviation (input) CMD_GO_IDLE :: u32 where "CMD_GO_IDLE \<equiv> 0"
abbreviation (input) CMD_ALL_SEND_CID :: u32 where "CMD_ALL_SEND_CID \<equiv> 0x02010000"
abbreviation (input) CMD_SEND_REL_ADDR :: u32 where "CMD_SEND_REL_ADDR \<equiv> 0x03020000"
abbreviation (input) CMD_CARD_SELECT :: u32 where "CMD_CARD_SELECT \<equiv> 0x07030000"
abbreviation (input) CMD_SEND_IF_COND :: u32 where "CMD_SEND_IF_COND \<equiv> 0x08020000"
abbreviation (input) CMD_STOP_TRANS :: u32 where "CMD_STOP_TRANS \<equiv> 0x0C030000"
abbreviation (input) CMD_READ_SINGLE :: u32 where "CMD_READ_SINGLE \<equiv> 0x11220010"
abbreviation (input) CMD_READ_MULTI :: u32 where "CMD_READ_MULTI \<equiv> 0x12220032"
abbreviation (input) CMD_SET_BLOCKCNT :: u32 where "CMD_SET_BLOCKCNT \<equiv> 0x17020000"
abbreviation (input) CMD_WRITE_SINGLE :: u32 where "CMD_WRITE_SINGLE \<equiv> 0x18220000"
abbreviation (input) CMD_WRITE_MULTI :: u32 where "CMD_WRITE_MULTI \<equiv> 0x19220022"
abbreviation (input) CMD_APP_CMD :: u32 where "CMD_APP_CMD \<equiv> 0x37000000"
abbreviation (input) CMD_SET_BUS_WIDTH :: u32 where "CMD_SET_BUS_WIDTH \<equiv> 0x86020000"
abbreviation (input) CMD_SEND_OP_COND :: u32 where "CMD_SEND_OP_COND \<equiv> 0xA9020000"
abbreviation (input) CMD_SEND_SCR :: u32 where "CMD_SEND_SCR \<equiv> 0xB3220010"

abbreviation (input) SR_READ_AVAILABLE :: u32 where "SR_READ_AVAILABLE \<equiv> 0x800"
abbreviation (input) SR_WRITE_AVAILABLE :: u32 where "SR_WRITE_AVAILABLE \<equiv> 0x400"
abbreviation (input) SR_DAT_INHIBIT :: u32 where "SR_DAT_INHIBIT \<equiv> 2"
abbreviation (input) SR_CMD_INHIBIT :: u32 where "SR_CMD_INHIBIT \<equiv> 1"
abbreviation (input) SR_APP_CMD :: u32 where "SR_APP_CMD \<equiv> 0x20"
abbreviation (input) INT_DATA_TIMEOUT :: u32 where "INT_DATA_TIMEOUT \<equiv> 0x100000"
abbreviation (input) INT_CMD_TIMEOUT :: u32 where "INT_CMD_TIMEOUT \<equiv> 0x10000"
abbreviation (input) INT_READ_RDY :: u32 where "INT_READ_RDY \<equiv> 0x20"
abbreviation (input) INT_WRITE_RDY :: u32 where "INT_WRITE_RDY \<equiv> 0x10"
abbreviation (input) INT_DATA_DONE :: u32 where "INT_DATA_DONE \<equiv> 2"
abbreviation (input) INT_CMD_DONE :: u32 where "INT_CMD_DONE \<equiv> 1"
abbreviation (input) INT_ERROR_MASK :: u32 where "INT_ERROR_MASK \<equiv> 0x017E8000"
abbreviation (input) SCR_SD_BUS_WIDTH_4 :: u64 where "SCR_SD_BUS_WIDTH_4 \<equiv> 0x400"
abbreviation (input) SCR_SUPP_SET_BLKCNT :: u64 where "SCR_SUPP_SET_BLKCNT \<equiv> 0x02000000"
abbreviation (input) SCR_SUPP_CCS :: u64 where "SCR_SUPP_CCS \<equiv> 1"

abbreviation (input) SD_OK :: int where "SD_OK \<equiv> 0"
abbreviation (input) SD_TIMEOUT :: int where "SD_TIMEOUT \<equiv> - 1"
abbreviation (input) SD_ERROR :: int where "SD_ERROR \<equiv> - 2"

abbreviation (input) err_is :: "int \<Rightarrow> (emmc, unit) state" where "err_is r \<equiv> change (sd_err_update (\<lambda>_. of_int r))"

section \<open>Waiting\<close>

text \<open>The loops count down; the counter is -1 when they give up. A condition that comes true at the last
  moment leaves 0, which counts as giving up too.\<close>

fun status_wait :: "device \<Rightarrow> u32 \<Rightarrow> nat \<Rightarrow> (emmc, int) state" where
  "status_wait dev m cnt = do {
     v \<leftarrow> rdreg dev EMMC_STATUS;
     if v AND m = 0 then ret (int cnt)
     else do {
       i \<leftarrow> rdreg dev EMMC_INTERRUPT;
       if i AND INT_ERROR_MASK \<noteq> 0 then ret (int cnt)
       else (case cnt of 0 \<Rightarrow> ret (- 1) | Suc c \<Rightarrow> do { did (Pause 1); status_wait dev m c }) } }"

declare status_wait.simps [simp del]

definition sd_status :: "device \<Rightarrow> u32 \<Rightarrow> (emmc, int) state" where
  "sd_status dev m = do {
     cnt \<leftarrow> status_wait dev m 500000;
     if cnt \<le> 0 then ret SD_ERROR
     else do { i \<leftarrow> rdreg dev EMMC_INTERRUPT; ret (if i AND INT_ERROR_MASK \<noteq> 0 then SD_ERROR else SD_OK) } }"

fun int_wait :: "device \<Rightarrow> u32 \<Rightarrow> nat \<Rightarrow> (emmc, int) state" where
  "int_wait dev m cnt = do {
     i \<leftarrow> rdreg dev EMMC_INTERRUPT;
     if i AND m \<noteq> 0 then ret (int cnt)
     else (case cnt of
         0 \<Rightarrow> ret (- 1)
       | Suc c \<Rightarrow> do { did (Pause 1); did (Clean EMMC_INTERRUPT 8); int_wait dev m c }) }"

declare int_wait.simps [simp del]

definition sd_int :: "device \<Rightarrow> u32 \<Rightarrow> (emmc, int) state" where
  "sd_int dev m = do {
     cnt \<leftarrow> int_wait dev (m OR INT_ERROR_MASK) 1000000;
     r \<leftarrow> rdreg dev EMMC_INTERRUPT;
     if cnt \<le> 0 \<or> r AND INT_CMD_TIMEOUT \<noteq> 0 \<or> r AND INT_DATA_TIMEOUT \<noteq> 0 then do { wrreg EMMC_INTERRUPT r; ret SD_TIMEOUT }
     else if r AND INT_ERROR_MASK \<noteq> 0 then do { wrreg EMMC_INTERRUPT r; ret SD_ERROR }
     else do { wrreg EMMC_INTERRUPT m; ret SD_OK } }"

section \<open>Commands\<close>

text \<open>The results of a command are bits of the response.\<close>

definition cmd_result :: "device \<Rightarrow> u32 \<Rightarrow> u32 \<Rightarrow> u32 \<Rightarrow> (emmc, u32) state" where
  "cmd_result dev code arg r =
    (if code = CMD_GO_IDLE \<or> code = CMD_APP_CMD then ret 0
     else if code = CMD_APP_CMD OR CMD_RSPNS_48 then ret (r AND SR_APP_CMD)
     else if code = CMD_SEND_OP_COND then ret r
     else if code = CMD_SEND_IF_COND then ret (if r = arg then 0 else of_int SD_ERROR)
     else if code = CMD_ALL_SEND_CID then do {
       a \<leftarrow> rdreg dev EMMC_RESP3; b \<leftarrow> rdreg dev EMMC_RESP2; c \<leftarrow> rdreg dev EMMC_RESP1;
       ret (r OR a OR b OR c) }
     else if code = CMD_SEND_REL_ADDR then do {
       change (sd_err_update (\<lambda>_. ucast (((r AND 0x1fff) OR push_bit 6 (r AND 0x2000) OR push_bit 8 (r AND 0x4000) OR
         push_bit 8 (r AND 0x8000)) AND CMD_ERRORS_MASK)));
       ret (r AND CMD_RCA_MASK) }
     else ret (r AND CMD_ERRORS_MASK))"

definition cmd_pause :: "u32 \<Rightarrow> (emmc, unit) state" where
  "cmd_pause code =
    (if code = CMD_SEND_OP_COND then did (Pause 1000)
     else if code = CMD_SEND_IF_COND \<or> code = CMD_APP_CMD then did (Pause 100) else ret ())"

definition send_cmd :: "device \<Rightarrow> u32 \<Rightarrow> u32 \<Rightarrow> (emmc, u32) state" where
  "send_cmd dev code arg = do {
     busy \<leftarrow> sd_status dev SR_CMD_INHIBIT;
     if busy \<noteq> SD_OK then do { err_is SD_TIMEOUT; ret 0 }
     else do {
       i \<leftarrow> rdreg dev EMMC_INTERRUPT;
       wrreg EMMC_INTERRUPT i;
       wrreg EMMC_ARG1 arg;
       wrreg EMMC_CMDTM code;
       cmd_pause code;
       r \<leftarrow> sd_int dev INT_CMD_DONE;
       if r \<noteq> SD_OK then do { err_is r; ret 0 }
       else do { r \<leftarrow> rdreg dev EMMC_RESP0; cmd_result dev code arg r } } }"

text \<open>The command before an application command is itself no application command.\<close>

function sd_cmd :: "device \<Rightarrow> u32 \<Rightarrow> u32 \<Rightarrow> (emmc, u32) state" where
  "sd_cmd dev code arg = do {
     err_is SD_OK;
     if code AND CMD_NEED_APP \<noteq> 0 then do {
       rca \<leftarrow> field sd_rca;
       r \<leftarrow> sd_cmd dev (CMD_APP_CMD OR (if rca \<noteq> 0 then CMD_RSPNS_48 else 0)) (ucast rca);
       rca \<leftarrow> field sd_rca;
       if rca \<noteq> 0 \<and> r = 0 then do { err_is SD_ERROR; ret 0 }
       else send_cmd dev (code AND NOT CMD_NEED_APP) arg }
     else send_cmd dev code arg }"
  by pat_completeness auto
termination
  by (relation "measure (\<lambda>(dev, code, arg). if code AND CMD_NEED_APP \<noteq> 0 then 1 else 0)") auto

declare sd_cmd.simps [simp del]

text \<open>A command, and what follows when \<open>sd_err\<close> is 0 then.\<close>

definition after_cmd :: "device \<Rightarrow> u32 \<Rightarrow> u32 \<Rightarrow> (u64 \<Rightarrow> 'a) \<Rightarrow> (emmc, 'a) state \<Rightarrow> (emmc, 'a) state" where
  "after_cmd dev code arg bad rest = do {
     sd_cmd dev code arg;
     e \<leftarrow> field sd_err;
     if e \<noteq> 0 then ret (bad e) else rest }"

section \<open>Blocks\<close>

definition load_block :: "device \<Rightarrow> nat \<Rightarrow> (emmc, unit) state" where
  "load_block dev buf = steps [0..<128] (\<lambda>d. do {
     v \<leftarrow> rdreg dev EMMC_DATA; change (words_update (\<lambda>w. w(buf + 4 * d := v))) })"

text \<open>The turn of one block, which goes by \<open>move\<close>: a command of its own for a card that is addressed by bytes, and
  the wait until the controller is ready. The result is whether all went well.\<close>

definition turn :: "device \<Rightarrow> u32 \<Rightarrow> u32 \<Rightarrow> u32 \<Rightarrow> (emmc, unit) state \<Rightarrow> (emmc, bool) state" where
  "turn dev single arg ready move = do {
     scr \<leftarrow> field sd_scr0;
     ok \<leftarrow> (if scr AND SCR_SUPP_CCS = 0 then after_cmd dev single arg (\<lambda>_. False) (ret True) else ret True);
     if \<not> ok then ret False
     else do {
       r \<leftarrow> sd_int dev ready;
       if r \<noteq> SD_OK then do { err_is r; ret False } else do { move; ret True } } }"

text \<open>The loop over the blocks, of which \<open>n\<close> are left.\<close>

fun read_blocks :: "device \<Rightarrow> u32 \<Rightarrow> nat \<Rightarrow> nat \<Rightarrow> u32 \<Rightarrow> (emmc, bool) state" where
  "read_blocks dev lba buf 0 c = ret True"
| "read_blocks dev lba buf (Suc n) c = do {
     ok \<leftarrow> turn dev CMD_READ_SINGLE ((lba + c) * 512) INT_READ_RDY (load_block dev buf);
     if ok then read_blocks dev lba (buf + 512) n (c + 1) else ret False }"

text \<open>What reading and writing have in common: the commands before the blocks are moved and after.\<close>

definition announce :: "device \<Rightarrow> u32 \<Rightarrow> u32 \<Rightarrow> u32 \<Rightarrow> u32 \<Rightarrow> (emmc, bool) state" where
  "announce dev single multi lba num = do {
     scr \<leftarrow> field sd_scr0;
     if scr AND SCR_SUPP_CCS \<noteq> 0 then do {
       ok \<leftarrow> (if num > 1 \<and> scr AND SCR_SUPP_SET_BLKCNT \<noteq> 0
             then after_cmd dev CMD_SET_BLOCKCNT num (\<lambda>_. False) (ret True) else ret True);
       if \<not> ok then ret False
       else do {
         wrreg EMMC_BLKSIZECNT (push_bit 16 num OR 512);
         after_cmd dev (if num = 1 then single else multi) lba (\<lambda>_. False) (ret True) } }
     else do { wrreg EMMC_BLKSIZECNT (push_bit 16 1 OR 512); ret True } }"

definition conclude :: "device \<Rightarrow> u32 \<Rightarrow> (emmc, u32) state" where
  "conclude dev num = do {
     scr \<leftarrow> field sd_scr0;
     (if num > 1 \<and> scr AND SCR_SUPP_SET_BLKCNT = 0 \<and> scr AND SCR_SUPP_CCS \<noteq> 0
      then do { sd_cmd dev CMD_STOP_TRANS 0; ret () } else ret ());
     e \<leftarrow> field sd_err;
     ret (if e \<noteq> 0 then 0 else num * 512) }"

definition sd_readblock :: "device \<Rightarrow> u32 \<Rightarrow> nat \<Rightarrow> u32 \<Rightarrow> (emmc, u32) state" where
  "sd_readblock dev lba buffer num0 = do {
     let num = (if num0 < 1 then 1 else num0);
     busy \<leftarrow> sd_status dev SR_DAT_INHIBIT;
     if busy \<noteq> SD_OK then do { err_is SD_TIMEOUT; ret 0 }
     else do {
       ok \<leftarrow> announce dev CMD_READ_SINGLE CMD_READ_MULTI lba num;
       if \<not> ok then ret 0
       else do {
         ok \<leftarrow> read_blocks dev lba buffer (unat num) 0;
         if \<not> ok then ret 0 else conclude dev num } } }"

definition store_block :: "nat \<Rightarrow> (emmc, unit) state" where
  "store_block buf = steps [0..<128] (\<lambda>d. do { w \<leftarrow> field words; wrreg EMMC_DATA (w (buf + 4 * d)) })"

fun write_blocks :: "device \<Rightarrow> u32 \<Rightarrow> nat \<Rightarrow> nat \<Rightarrow> u32 \<Rightarrow> (emmc, bool) state" where
  "write_blocks dev lba buf 0 c = ret True"
| "write_blocks dev lba buf (Suc n) c = do {
     ok \<leftarrow> turn dev CMD_WRITE_SINGLE ((lba + c) * 512) INT_WRITE_RDY (store_block buf);
     if ok then write_blocks dev lba (buf + 512) n (c + 1) else ret False }"

definition sd_writeblock :: "device \<Rightarrow> nat \<Rightarrow> u32 \<Rightarrow> u32 \<Rightarrow> (emmc, u32) state" where
  "sd_writeblock dev buffer lba num0 = do {
     let num = (if num0 < 1 then 1 else num0);
     busy \<leftarrow> sd_status dev (SR_DAT_INHIBIT OR SR_WRITE_AVAILABLE);
     if busy \<noteq> SD_OK then do { err_is SD_TIMEOUT; ret 0 }
     else do {
       ok \<leftarrow> announce dev CMD_WRITE_SINGLE CMD_WRITE_MULTI lba num;
       if \<not> ok then ret 0
       else do {
         ok \<leftarrow> write_blocks dev lba buffer (unat num) 0;
         if \<not> ok then ret 0
         else do {
           r \<leftarrow> sd_int dev INT_DATA_DONE;
           if r \<noteq> SD_OK then do { err_is r; ret 0 } else conclude dev num } } } }"

section \<open>Initialisation\<close>

text \<open>Polling a register while it is \<open>busy\<close>, with a pause between two reads.\<close>

fun poll :: "device \<Rightarrow> nat \<Rightarrow> (u32 \<Rightarrow> bool) \<Rightarrow> u32 \<Rightarrow> nat \<Rightarrow> (emmc, int) state" where
  "poll dev r busy p cnt = do {
     v \<leftarrow> rdreg dev r;
     if \<not> busy v then ret (int cnt)
     else (case cnt of 0 \<Rightarrow> ret (- 1) | Suc c \<Rightarrow> do { did (Pause p); poll dev r busy p c }) }"

declare poll.simps [simp del]

definition or_reg :: "device \<Rightarrow> nat \<Rightarrow> u32 \<Rightarrow> (emmc, unit) state" where
  "or_reg dev r x = do { v \<leftarrow> rdreg dev r; wrreg r (v OR x) }"

text \<open>The shift of the divider: the position of the highest bit of \<open>x\<close>, less one, at most 7.\<close>

definition clk_shift :: "u32 \<Rightarrow> u32" where
  "clk_shift x =
    (if x = 0 then 0
     else let (x, s) = (if x AND 0xffff0000 = 0 then (push_bit 16 x, 32 - 16) else (x, 32 :: u32));
              (x, s) = (if x AND 0xff000000 = 0 then (push_bit 8 x, s - 8) else (x, s));
              (x, s) = (if x AND 0xf0000000 = 0 then (push_bit 4 x, s - 4) else (x, s));
              (x, s) = (if x AND 0xc0000000 = 0 then (push_bit 2 x, s - 2) else (x, s));
              (x, s) = (if x AND 0x80000000 = 0 then (push_bit 1 x, s - 1) else (x, s));
              s = (if s > 0 then s - 1 else s)
          in if s > 7 then 7 else s)"

definition clk_divider :: "u64 \<Rightarrow> u32 \<Rightarrow> u32" where
  "clk_divider hv f =
    (let c = 41666666 div f; s = clk_shift (c - 1);
         d = (if hv > 1 then c else push_bit (unat s) 1);
         d = (if d \<le> 2 then 2 else d);
         h = (if hv > 1 then drop_bit 2 (d AND 0x300) else 0)
     in push_bit 8 (d AND 0xff) OR h)"

definition sd_clk :: "device \<Rightarrow> u32 \<Rightarrow> (emmc, int) state" where
  "sd_clk dev f = do {
     cnt \<leftarrow> poll dev EMMC_STATUS (\<lambda>v. v AND (SR_CMD_INHIBIT OR SR_DAT_INHIBIT) \<noteq> 0) 1 100000;
     if cnt \<le> 0 then ret SD_ERROR
     else do {
       v \<leftarrow> rdreg dev EMMC_CONTROL1;
       wrreg EMMC_CONTROL1 (v AND NOT 4);
       did (Pause 10);
       hv \<leftarrow> field sd_hv;
       v \<leftarrow> rdreg dev EMMC_CONTROL1;
       wrreg EMMC_CONTROL1 ((v AND 0xffff003f) OR clk_divider hv f);
       did (Pause 10);
       or_reg dev EMMC_CONTROL1 4;
       did (Pause 10);
       cnt \<leftarrow> poll dev EMMC_CONTROL1 (\<lambda>v. v AND 2 = 0) 10 10000;
       ret (if cnt \<le> 0 then SD_ERROR else SD_OK) } }"

text \<open>The pins of the card.\<close>

abbreviation (input) GPFSEL4 :: nat where "GPFSEL4 \<equiv> 0x3f200010"
abbreviation (input) GPFSEL5 :: nat where "GPFSEL5 \<equiv> 0x3f200014"
abbreviation (input) GPHEN1 :: nat where "GPHEN1 \<equiv> 0x3f200068"
abbreviation (input) GPPUD :: nat where "GPPUD \<equiv> 0x3f200094"
abbreviation (input) GPPUDCLK1 :: nat where "GPPUDCLK1 \<equiv> 0x3f20009c"

definition pull_pins :: "u32 \<Rightarrow> (emmc, unit) state" where
  "pull_pins pins = do {
     wrreg GPPUD 2; did (Cycles 150); wrreg GPPUDCLK1 pins; did (Cycles 150); wrreg GPPUD 0; wrreg GPPUDCLK1 0 }"

definition setup_pins :: "device \<Rightarrow> (emmc, unit) state" where
  "setup_pins dev = do {
     r \<leftarrow> rdreg dev GPFSEL4; wrreg GPFSEL4 (r AND NOT (push_bit 21 7));
     pull_pins (push_bit 15 1);
     or_reg dev GPHEN1 (push_bit 15 1);
     or_reg dev GPFSEL4 (push_bit 24 7 OR push_bit 27 7);
     pull_pins (push_bit 16 1 OR push_bit 17 1);
     or_reg dev GPFSEL5 (7 OR push_bit 3 7 OR push_bit 6 7 OR push_bit 9 7);
     pull_pins (push_bit 18 1 OR push_bit 19 1 OR push_bit 20 1 OR push_bit 21 1) }"

text \<open>A call whose result other than 0 is returned, and what follows otherwise.\<close>

definition checked :: "('s, int) state \<Rightarrow> (int \<Rightarrow> 'a) \<Rightarrow> ('s, 'a) state \<Rightarrow> ('s, 'a) state" where
  "checked m bad rest = do { r \<leftarrow> m; if r \<noteq> 0 then ret (bad r) else rest }"

definition err_int :: "u64 \<Rightarrow> int" where "err_int e = sint (ucast e :: u32)"

text \<open>The host controller: its version, reset, clock and interrupts.\<close>

definition reset_host :: "device \<Rightarrow> (emmc, int) state" where
  "reset_host dev = do {
     v \<leftarrow> rdreg dev EMMC_SLOTISR_VER;
     change (sd_hv_update (\<lambda>_. ucast (drop_bit 16 (v AND 0xff0000))));
     wrreg EMMC_CONTROL0 0;
     or_reg dev EMMC_CONTROL1 0x01000000;
     did (Pause 10);
     cnt \<leftarrow> poll dev EMMC_CONTROL1 (\<lambda>v. v AND 0x01000000 \<noteq> 0) 10 10000;
     if cnt \<le> 0 then ret SD_ERROR
     else do {
       or_reg dev EMMC_CONTROL1 (1 OR 0x000e0000);
       did (Pause 10);
       checked (sd_clk dev 400000) (\<lambda>r. r) (do {
         wrreg EMMC_INT_EN (- 1);
         wrreg EMMC_INT_MASK (- 1);
         change (\<lambda>s. s\<lparr>sd_scr0 := 0, sd_scr1 := 0, sd_rca := 0, sd_err := 0\<rparr>);
         ret 0 }) } }"

text \<open>The loop that asks for the operating conditions; the results are an error, the last answer and the counter.\<close>

fun op_cond :: "device \<Rightarrow> u32 \<Rightarrow> nat \<Rightarrow> (emmc, int \<times> u32 \<times> int) state" where
  "op_cond dev r cnt =
    (if r AND 0x80000000 \<noteq> 0 then ret (0, r, int cnt)
     else (case cnt of
         0 \<Rightarrow> ret (0, r, - 1)
       | Suc c \<Rightarrow> do {
           did (Cycles 400);
           r \<leftarrow> sd_cmd dev CMD_SEND_OP_COND 0x51ff8000;
           e \<leftarrow> field sd_err;
           if e \<noteq> of_int SD_TIMEOUT \<and> e \<noteq> of_int SD_OK then ret (err_int e, r, int c) else op_cond dev r c }))"

declare op_cond.simps [simp del]

text \<open>The card: its conditions, address, clock and the request for its configuration. The results are the error
  and the flag of a card that is addressed by blocks.\<close>

definition find_card :: "device \<Rightarrow> (emmc, int \<times> u64) state" where
  "find_card dev =
    after_cmd dev CMD_GO_IDLE 0 (\<lambda>e. (err_int e, 0)) (
    after_cmd dev CMD_SEND_IF_COND 0x1AA (\<lambda>e. (err_int e, 0)) (do {
      (e, r, cnt) \<leftarrow> op_cond dev 0 6;
      if e \<noteq> 0 then ret (e, 0)
      else if r AND 0x80000000 = 0 \<or> cnt = 0 then ret (SD_TIMEOUT, 0)
      else if r AND 0x00ff8000 = 0 then ret (SD_ERROR, 0)
      else do {
        let ccs = (if r AND 0x40000000 \<noteq> 0 then SCR_SUPP_CCS else 0);
        sd_cmd dev CMD_ALL_SEND_CID 0;
        rca \<leftarrow> sd_cmd dev CMD_SEND_REL_ADDR 0;
        change (sd_rca_update (\<lambda>_. scast rca));
        e \<leftarrow> field sd_err;
        if e \<noteq> 0 then ret (err_int e, 0)
        else checked (sd_clk dev 25000000) (\<lambda>r. (r, 0)) (do {
          rca \<leftarrow> field sd_rca;
          after_cmd dev CMD_CARD_SELECT (ucast rca) (\<lambda>e. (err_int e, 0)) (
          checked (sd_status dev SR_DAT_INHIBIT) (\<lambda>_. (SD_TIMEOUT, 0)) (do {
            wrreg EMMC_BLKSIZECNT (push_bit 16 1 OR 8);
            after_cmd dev CMD_SEND_SCR 0 (\<lambda>e. (err_int e, 0)) (
            checked (sd_int dev INT_READ_RDY) (\<lambda>_. (SD_TIMEOUT, 0)) (ret (0, ccs))) })) }) } }))"

text \<open>The two words of the configuration. The counter of this loop is never counted down.\<close>

partial_function (option) read_scr :: "device \<Rightarrow> nat \<Rightarrow> emmc \<Rightarrow> emmc option" where
  "read_scr dev r s =
    (if r < 2 then
       (case run_state (rdreg dev EMMC_STATUS) s of (v, s) \<Rightarrow>
          if v AND SR_READ_AVAILABLE \<noteq> 0 then
            (case run_state (rdreg dev EMMC_DATA) s of (w, s) \<Rightarrow>
               read_scr dev (r + 1) (if r = 0 then s\<lparr>sd_scr0 := ucast w\<rparr> else s\<lparr>sd_scr1 := ucast w\<rparr>))
          else read_scr dev r (snd (run_state (did (Pause 1)) s)))
     else Some s)"

definition setup_bus :: "device \<Rightarrow> u64 \<Rightarrow> (emmc, int) state" where
  "setup_bus dev ccs = do {
     scr \<leftarrow> field sd_scr0;
     rca \<leftarrow> field sd_rca;
     r \<leftarrow> (if scr AND SCR_SD_BUS_WIDTH_4 \<noteq> 0
          then after_cmd dev CMD_SET_BUS_WIDTH (ucast (rca OR 2)) err_int (do { or_reg dev EMMC_CONTROL0 2; ret 0 })
          else ret 0);
     if r \<noteq> 0 then ret r
     else do { change (sd_scr0_update (\<lambda>v. (v AND NOT SCR_SUPP_CCS) OR ccs)); ret SD_OK } }"

definition emmc_init :: "device \<Rightarrow> emmc \<Rightarrow> (int \<times> emmc) option" where
  "emmc_init dev s =
    (case run_state (do { setup_pins dev; checked (reset_host dev) (\<lambda>r. (r, 0)) (find_card dev) }) s of
       ((r, ccs), s) \<Rightarrow>
         if r \<noteq> 0 then Some (r, s)
         else case read_scr dev 0 s of None \<Rightarrow> None | Some s \<Rightarrow> Some (run_state (setup_bus dev ccs) s))"

text \<open>\<open>sd_init\<close> tries up to 101 times; a success of the last try is a panic too.\<close>

fun init_tries :: "device \<Rightarrow> nat \<Rightarrow> emmc \<Rightarrow> (unit, emmc) outcome" where
  "init_tries dev left s =
    (case emmc_init dev s of
       None \<Rightarrow> Hang
     | Some (r, s) \<Rightarrow>
         (case left of
            0 \<Rightarrow> Panic ''sd init error'' s
          | Suc k \<Rightarrow> if r = SD_OK then Ret () s else init_tries dev k s))"

declare init_tries.simps [simp del]

definition sd_init :: "device \<Rightarrow> emmc \<Rightarrow> (unit, emmc) outcome" where
  "sd_init dev s = init_tries dev 100 s"

end
