(* ===== verification/Mmioprops.thy ===== *)
theory Mmioprops
  imports Mmio
begin

text \<open>Reasoning about drivers: what a run does, and what passed through a register.\<close>

section \<open>Runs\<close>

text \<open>After a run of \<open>m\<close> from \<open>s\<close>, \<open>Q\<close> holds of the result, the state and the accesses made.\<close>

definition does :: "('a mmio_scheme, 'b) state \<Rightarrow> 'a mmio_scheme \<Rightarrow> ('b \<Rightarrow> 'a mmio_scheme \<Rightarrow> access list \<Rightarrow> bool) \<Rightarrow> bool" where
  "does m s Q \<longleftrightarrow> (case run_state m s of (x, t) \<Rightarrow> \<exists>l. accesses t = accesses s @ l \<and> Q x t l)"

lemma does_ret [intro]: "Q x s [] \<Longrightarrow> does (ret x) s Q"
  by (simp add: does_def)

lemma does_bind:
  assumes "does m s (\<lambda>x t l. does (f x) t (\<lambda>y u l'. Q y u (l @ l')))"
  shows "does (m \<bind> f) s Q"
  using assms by (auto simp: does_def split: prod.splits)

lemma does_mono: "does m s Q \<Longrightarrow> (\<And>x t l. Q x t l \<Longrightarrow> Q' x t l) \<Longrightarrow> does m s Q'"
  by (auto simp: does_def)

lemma does_then:
  assumes "does m s P" and "\<And>x t l. P x t l \<Longrightarrow> does (f x) t (\<lambda>y u l'. Q y u (l @ l'))"
  shows "does (m \<bind> f) s Q"
  by (rule does_bind) (rule does_mono [OF assms])

lemma does_run:
  assumes "run_state m s = (x, t)" and "accesses t = accesses s @ l0" and "does (f x) t (\<lambda>y u l. Q y u (l0 @ l))"
  shows "does (m \<bind> f) s Q"
  using assms by (auto simp: does_def)

lemma does_did: "Q () (s\<lparr>accesses := accesses s @ [x]\<rparr>) [x] \<Longrightarrow> does (did x) s Q"
  by (simp add: does_def)

lemma does_rdreg:
  "(\<And>v. Q v (s\<lparr>accesses := accesses s @ [Rd r v]\<rparr>) [Rd r v]) \<Longrightarrow> does (rdreg dev r) s Q"
  by (simp add: does_def)

lemma does_wrreg: "Q () (s\<lparr>accesses := accesses s @ [Wr r v]\<rparr>) [Wr r v] \<Longrightarrow> does (wrreg r v) s Q"
  by (simp add: does_def)

lemma does_field: "Q (f s) s [] \<Longrightarrow> does (field f) s Q"
  by (simp add: does_def)

lemma does_change: "accesses (f s) = accesses s \<Longrightarrow> Q () (f s) [] \<Longrightarrow> does (change f) s Q"
  by (simp add: does_def)

lemmas does_prims = does_did does_rdreg does_wrreg does_field does_change does_ret

section \<open>Traffic of a register\<close>

definition sent :: "nat \<Rightarrow> access list \<Rightarrow> u32 list" where
  "sent r l = concat (map (\<lambda>x. case x of Wr r' v \<Rightarrow> if r' = r then [v] else [] | _ \<Rightarrow> []) l)"

lemma sent_append [simp]: "sent r (l @ l') = sent r l @ sent r l'" "sent r [] = []"
  "sent r (x # l) = (case x of Wr r' v \<Rightarrow> if r' = r then [v] else [] | _ \<Rightarrow> []) @ sent r l"
  by (simp_all add: sent_def)

end
