(* ===== verification/Emmcprops.thy ===== *)
theory Emmcprops
  imports Emmc Mmioprops
begin

text \<open>What the SD card driver moves: the commands it sends, and the words between the data register and memory.\<close>

section \<open>What a card sees\<close>

text \<open>The accesses that reach the card, in their order: the size and number of blocks, the commands with their
  arguments, and the words of the data register.\<close>

fun on_bus :: "access \<Rightarrow> bool" where
  "on_bus (Wr r v) \<longleftrightarrow> r \<in> {EMMC_BLKSIZECNT, EMMC_ARG1, EMMC_CMDTM, EMMC_DATA}"
| "on_bus (Rd r v) \<longleftrightarrow> r = EMMC_DATA"
| "on_bus _ \<longleftrightarrow> False"

definition seen :: "access list \<Rightarrow> access list" where "seen l = filter on_bus l"

lemma seen_simps [simp]: "seen [] = []" "seen (l @ l') = seen l @ seen l'" "seen (x # l) = (if on_bus x then x # seen l else seen l)"
  by (simp_all add: seen_def)

abbreviation (input) silent :: "access list \<Rightarrow> bool" where "silent l \<equiv> seen l = []"

abbreviation (input) says :: "u32 \<Rightarrow> u32 \<Rightarrow> access list" where
  "says code arg \<equiv> [Wr EMMC_ARG1 arg, Wr EMMC_CMDTM code]"

text \<open>The driver's own state but for the error code and the memory.\<close>

definition settled :: "emmc \<Rightarrow> emmc \<Rightarrow> bool" where
  "settled s t \<longleftrightarrow> sd_scr0 t = sd_scr0 s \<and> sd_scr1 t = sd_scr1 s \<and> sd_rca t = sd_rca s \<and> sd_hv t = sd_hv s"

lemma settled_trans: "settled s t \<Longrightarrow> settled t u \<Longrightarrow> settled s u"
  by (simp add: settled_def)

definition waited :: "emmc \<Rightarrow> emmc \<Rightarrow> access list \<Rightarrow> bool" where
  "waited s t l \<longleftrightarrow> silent l \<and> t = s\<lparr>accesses := accesses s @ l\<rparr>"

text \<open>Runs are computed step by step, with the accesses collected.\<close>

lemmas does_steps = does_bind does_prims

lemma status_wait_waits: "does (status_wait dev m cnt) s (\<lambda>_ t l. waited s t l)"
proof (induction cnt arbitrary: s)
  case 0
  show ?case by (subst status_wait.simps) (auto simp: waited_def intro!: does_steps)
next
  case (Suc cnt)
  show ?case
    by (subst status_wait.simps)
      (auto intro!: does_steps does_mono [OF Suc.IH], auto simp: waited_def )
qed

lemma int_wait_waits: "does (int_wait dev m cnt) s (\<lambda>_ t l. waited s t l)"
proof (induction cnt arbitrary: s)
  case 0
  show ?case by (subst int_wait.simps) (auto simp: waited_def intro!: does_steps)
next
  case (Suc cnt)
  show ?case
    by (subst int_wait.simps)
      (auto intro!: does_steps does_mono [OF Suc.IH], auto simp: waited_def )
qed

lemma sd_status_waits: "does (sd_status dev m) s (\<lambda>r t l. waited s t l \<and> r \<in> {SD_OK, SD_ERROR})"
  unfolding sd_status_def
  by (rule does_then [OF status_wait_waits]) (auto intro!: does_steps simp: waited_def  split: if_splits)

lemma sd_int_waits: "does (sd_int dev m) s (\<lambda>r t l. waited s t l \<and> r \<in> {SD_OK, SD_TIMEOUT, SD_ERROR})"
  unfolding sd_int_def
  by (rule does_then [OF int_wait_waits]) (auto intro!: does_steps simp: waited_def )

section \<open>Commands\<close>

text \<open>A command changes no more than the error code; when that stays 0, it has gone out.\<close>

definition commanded :: "emmc \<Rightarrow> emmc \<Rightarrow> access list \<Rightarrow> access list \<Rightarrow> bool" where
  "commanded s t l es \<longleftrightarrow> settled s t \<and> words t = words s \<and> (sd_err t = 0 \<longrightarrow> seen l = es)"

lemma cmd_result_waits:
  assumes "code \<noteq> CMD_SEND_REL_ADDR"
  shows "does (cmd_result dev code arg r) s (\<lambda>_ t l. waited s t l)"
  unfolding cmd_result_def using assms by (auto intro!: does_steps simp: waited_def )

lemma cmd_pause_waits: "does (cmd_pause code) s (\<lambda>_ t l. waited s t l)"
  unfolding cmd_pause_def by (auto intro!: does_steps simp: waited_def )

lemma send_cmd_commands:
  assumes "code \<noteq> CMD_SEND_REL_ADDR"
  shows "does (send_cmd dev code arg) s (\<lambda>_ t l. commanded s t l (says code arg))"
  unfolding send_cmd_def
  by (rule does_then [OF sd_status_waits])
    (auto intro!: does_steps does_then [OF sd_int_waits] does_then [OF cmd_pause_waits]
       does_mono [OF cmd_result_waits [OF assms]], auto simp: waited_def commanded_def settled_def )

definition plain :: "u32 \<Rightarrow> bool" where
  "plain code \<longleftrightarrow> code AND CMD_NEED_APP = 0 \<and> code \<noteq> CMD_SEND_REL_ADDR"

lemma sd_cmd_commands:
  assumes "plain code"
  shows "does (sd_cmd dev code arg) s (\<lambda>_ t l. commanded s t l (says code arg))"
proof -
  have "sd_cmd dev code arg = do { err_is SD_OK; send_cmd dev code arg }"
    using assms by (subst sd_cmd.simps) (simp add: plain_def)
  moreover have "commanded (sd_err_update (\<lambda>_. of_int SD_OK) s) t l es \<Longrightarrow> commanded s t l es" for t l es
    by (simp add: commanded_def settled_def)
  ultimately show ?thesis
    using assms by (auto intro!: does_bind does_change does_mono [OF send_cmd_commands] simp: plain_def)
qed

lemma after_cmd_commands:
  assumes "plain code"
  shows "does (after_cmd dev code arg (\<lambda>_. False) (ret True)) s
    (\<lambda>ok t l. settled s t \<and> words t = words s \<and> (ok \<longleftrightarrow> sd_err t = 0) \<and> (ok \<longrightarrow> seen l = says code arg))"
  unfolding after_cmd_def
  by (rule does_then [OF sd_cmd_commands [OF assms]]) (auto intro!: does_steps simp: commanded_def)

section \<open>Blocks\<close>

text \<open>Words placed one behind the other from \<open>buf\<close> on.\<close>

definition put_words :: "nat \<Rightarrow> u32 list \<Rightarrow> (nat \<Rightarrow> u32) \<Rightarrow> nat \<Rightarrow> u32" where
  "put_words buf ws w = (\<lambda>a. if buf \<le> a \<and> 4 dvd a - buf \<and> (a - buf) div 4 < length ws then ws ! ((a - buf) div 4) else w a)"

lemma put_words_Nil [simp]: "put_words buf [] w = w"
  by (simp add: put_words_def)

lemma put_words_append: "put_words (buf + 4 * length ws) vs (put_words buf ws w) = put_words buf (ws @ vs) w"
proof
  fix a
  show "put_words (buf + 4 * length ws) vs (put_words buf ws w) a = put_words buf (ws @ vs) w a"
  proof (cases "buf \<le> a \<and> 4 dvd a - buf")
    case True
    then obtain k where a: "a = buf + 4 * k" by (auto simp: dvd_def) (metis le_add_diff_inverse)
    show ?thesis
    proof (cases "k < length ws")
      case True
      then show ?thesis by (simp add: put_words_def a nth_append)
    next
      case False
      then have "4 * k - 4 * length ws = 4 * (k - length ws)" by simp
      then show ?thesis using False by (auto simp: put_words_def a nth_append)
    qed
  next
    case False
    have "4 dvd a - buf" if "buf + 4 * length ws \<le> a" "4 dvd a - (buf + 4 * length ws)"
    proof -
      have "a - buf = a - (buf + 4 * length ws) + 4 * length ws" using that(1) by simp
      then show ?thesis using that(2) by simp
    qed
    then show ?thesis using False by (auto simp: put_words_def)
  qed
qed

lemma put_words_out: "a < buf \<or> buf + 4 * length ws \<le> a \<Longrightarrow> put_words buf ws w a = w a"
  by (auto simp: put_words_def)

lemma put_words_one: "put_words buf [v] w = w(buf := v)"
  by (auto simp: put_words_def fun_eq_iff dvd_def)

text \<open>One block from the data register, or to it.\<close>

lemma load_words:
  "does (steps [k..<k + n] (\<lambda>d. do { v \<leftarrow> rdreg dev EMMC_DATA; change (words_update (\<lambda>w. w(buf + 4 * d := v))) })) s
    (\<lambda>_ t l. \<exists>ws. length ws = n \<and> seen l = map (Rd EMMC_DATA) ws \<and>
       t = s\<lparr>accesses := accesses s @ l, words := put_words (buf + 4 * k) ws (words s)\<rparr>)"
proof (induction n arbitrary: k s)
  case 0
  show ?case by (auto intro!: does_steps)
next
  case (Suc n)
  have up: "[k..<k + Suc n] = k # [Suc k..<Suc (k + n)]" by (simp add: upt_rec [of k])
  have P: "put_words (buf + (4 + 4 * k)) ws (\<lambda>a. if a = buf + 4 * k then v else w a) = put_words (buf + 4 * k) (v # ws) w"
    for ws v w
    using put_words_append [of "buf + 4 * k" "[v]" ws w]
    by (simp add: put_words_one fun_upd_def add.commute add.left_commute)
  have Q: "Rd r v # map (Rd r) ws = map (Rd r) (v # ws)" for r v ws by simp
  show ?case
    unfolding up steps.simps
    by (rule does_run, simp, simp, rule does_mono [OF Suc.IH [of "Suc k", unfolded add_Suc]])
      (clarsimp simp: P Q simp del: list.map, metis length_Cons)
qed

lemma store_words:
  "does (steps [k..<k + n] (\<lambda>d. do { w \<leftarrow> field words; wrreg EMMC_DATA (w (buf + 4 * d)) })) s
    (\<lambda>_ t l. seen l = map (\<lambda>i. Wr EMMC_DATA (words s (buf + 4 * i))) [k..<k + n] \<and> t = s\<lparr>accesses := accesses s @ l\<rparr>)"
proof (induction n arbitrary: k s)
  case 0
  show ?case by (auto intro!: does_steps)
next
  case (Suc n)
  have up: "[k..<k + Suc n] = k # [Suc k..<Suc (k + n)]" by (simp add: upt_rec [of k])
  show ?case
    unfolding up steps.simps
    by (rule does_run, simp, simp, rule does_mono [OF Suc.IH [of "Suc k", unfolded add_Suc]]) auto
qed

definition buffer :: "emmc \<Rightarrow> nat \<Rightarrow> u32 list" where
  "buffer s buf = map (\<lambda>i. words s (buf + 4 * i)) [0..<128]"

lemma buffer_same: "words t = words s \<Longrightarrow> buffer t buf = buffer s buf"
  by (simp add: buffer_def)

lemma length_buffer [simp]: "length (buffer s buf) = 128"
  by (simp add: buffer_def)

lemma load_block_moves:
  "does (load_block dev buf) s (\<lambda>_ t l. \<exists>b. length b = 128 \<and> seen l = map (Rd EMMC_DATA) b \<and>
     t = s\<lparr>accesses := accesses s @ l, words := put_words buf b (words s)\<rparr>)"
  using load_words [of 0 128 dev buf s] by (simp add: load_block_def)

lemma store_block_moves:
  "does (store_block buf) s (\<lambda>_ t l. seen l = map (Wr EMMC_DATA) (buffer s buf) \<and> t = s\<lparr>accesses := accesses s @ l\<rparr>)"
  using store_words [of 0 128 buf s] by (simp add: store_block_def buffer_def comp_def)

text \<open>The command of one block, which only a card needs that is addressed by bytes.\<close>

abbreviation (input) turn_says :: "u32 \<Rightarrow> u32 \<Rightarrow> u64 \<Rightarrow> access list" where
  "turn_says single arg scr \<equiv> if scr AND SCR_SUPP_CCS = 0 then says single arg else []"

lemma turn_moves:
  assumes "plain single"
    and move: "\<And>t. settled s t \<Longrightarrow> words t = words s \<Longrightarrow> does move t (\<lambda>_ u l. R (seen l) u \<and> settled t u \<and> sd_err u = sd_err t)"
  shows "does (turn dev single arg ready move) s (\<lambda>ok t l. settled s t \<and>
    (\<not> ok \<longrightarrow> sd_err t \<noteq> 0 \<and> words t = words s) \<and>
    (ok \<longrightarrow> (\<exists>es. R es t \<and> seen l = turn_says single arg (sd_scr0 s) @ es) \<and>
       (sd_err s = 0 \<or> sd_scr0 s AND SCR_SUPP_CCS = 0 \<longrightarrow> sd_err t = 0)))"
proof -
  let ?cs = "turn_says single arg (sd_scr0 s)"
  have go: "does (do { r \<leftarrow> sd_int dev ready; if r \<noteq> SD_OK then do { err_is r; ret False } else do { move; ret True } }) t
      (\<lambda>ok u l'. settled s u \<and> (\<not> ok \<longrightarrow> sd_err u \<noteq> 0 \<and> words u = words s) \<and>
        (ok \<longrightarrow> (\<exists>es. R es u \<and> seen (l @ l') = ?cs @ es) \<and> sd_err u = sd_err t))"
    if "settled s t" "words t = words s" "seen l = ?cs" for t l
  proof (rule does_then [OF sd_int_waits])
    fix r u l'
    assume w: "waited t u l' \<and> r \<in> {SD_OK, SD_TIMEOUT, SD_ERROR}"
    have u: "settled s u" "words u = words s" "sd_err u = sd_err t" "seen (l @ l') = ?cs"
      using w that by (auto simp: waited_def settled_def)
    show "does (if r \<noteq> SD_OK then do { err_is r; ret False } else do { move; ret True }) u
        (\<lambda>ok u l''. settled s u \<and> (\<not> ok \<longrightarrow> sd_err u \<noteq> 0 \<and> words u = words s) \<and>
          (ok \<longrightarrow> (\<exists>es. R es u \<and> seen (l @ l' @ l'') = ?cs @ es) \<and> sd_err u = sd_err t))"
    proof (cases "r = SD_OK")
      case False
      then show ?thesis using w u by (auto intro!: does_steps simp: settled_def)
    next
      case True
      have "does (do { move; ret True }) u
          (\<lambda>ok u l''. settled s u \<and> (\<not> ok \<longrightarrow> sd_err u \<noteq> 0 \<and> words u = words s) \<and>
            (ok \<longrightarrow> (\<exists>es. R es u \<and> seen (l @ l' @ l'') = ?cs @ es) \<and> sd_err u = sd_err t))"
        by (rule does_then [OF move [OF u(1,2)]], rule does_ret)
          (use u(3,4) settled_trans [OF u(1)] in \<open>auto simp del: if_split\<close>)
      then show ?thesis using True by simp
    qed
  qed
  show ?thesis
  proof (cases "sd_scr0 s AND SCR_SUPP_CCS = 0")
    case True
    then show ?thesis unfolding turn_def
      by (intro does_bind [of "field _"] does_field, simp)
        (rule does_then [OF after_cmd_commands [OF assms(1)]], auto intro!: does_ret does_mono [OF go] simp: True)
  next
    case False
    then show ?thesis unfolding turn_def
      by (intro does_bind [of "field _"] does_field, simp)
        (auto intro!: does_mono [OF go [of s "[]"]] simp: settled_def)
  qed
qed

section \<open>Whole transfers\<close>

text \<open>What the card sees of a transfer. A card that is addressed by blocks gets one command for all of them, with
  the number of blocks before it or a stop behind it; a card that is addressed by bytes gets one for each block.\<close>

fun block_evs :: "u32 \<Rightarrow> u32 \<Rightarrow> u32 \<Rightarrow> u64 \<Rightarrow> access list list \<Rightarrow> access list" where
  "block_evs single lba c scr [] = []"
| "block_evs single lba c scr (b # bs) = turn_says single ((lba + c) * 512) scr @ b @ block_evs single lba (c + 1) scr bs"

definition first_evs :: "u32 \<Rightarrow> u32 \<Rightarrow> u32 \<Rightarrow> u32 \<Rightarrow> u64 \<Rightarrow> access list" where
  "first_evs single multi lba num scr =
    (if scr AND SCR_SUPP_CCS = 0 then [Wr EMMC_BLKSIZECNT 0x10200]
     else (if num > 1 \<and> scr AND SCR_SUPP_SET_BLKCNT \<noteq> 0 then says CMD_SET_BLOCKCNT num else []) @
       [Wr EMMC_BLKSIZECNT (push_bit 16 num OR 512)] @ says (if num = 1 then single else multi) lba)"

definition last_evs :: "u32 \<Rightarrow> u64 \<Rightarrow> access list" where
  "last_evs num scr =
    (if num > 1 \<and> scr AND SCR_SUPP_SET_BLKCNT = 0 \<and> scr AND SCR_SUPP_CCS \<noteq> 0 then says CMD_STOP_TRANS 0 else [])"

definition transfer_evs :: "u32 \<Rightarrow> u32 \<Rightarrow> u32 \<Rightarrow> u32 \<Rightarrow> u64 \<Rightarrow> access list list \<Rightarrow> access list" where
  "transfer_evs single multi lba num scr bs =
    first_evs single multi lba num scr @ block_evs single lba 0 scr bs @ last_evs num scr"

abbreviation (input) incoming :: "u32 list list \<Rightarrow> access list list" where "incoming bs \<equiv> map (map (Rd EMMC_DATA)) bs"
abbreviation (input) outgoing :: "u32 list list \<Rightarrow> access list list" where "outgoing bs \<equiv> map (map (Wr EMMC_DATA)) bs"

lemma plain_codes: "plain CMD_READ_SINGLE" "plain CMD_READ_MULTI" "plain CMD_WRITE_SINGLE" "plain CMD_WRITE_MULTI"
  "plain CMD_SET_BLOCKCNT" "plain CMD_STOP_TRANS"
  by (simp_all add: plain_def)

definition told :: "emmc \<Rightarrow> nat \<Rightarrow> bool \<Rightarrow> emmc \<Rightarrow> bool" where
  "told s n ok t \<longleftrightarrow> settled s t \<and> (\<not> ok \<longrightarrow> sd_err t \<noteq> 0) \<and>
     (ok \<and> (sd_err s = 0 \<or> n > 0 \<and> sd_scr0 s AND SCR_SUPP_CCS = 0) \<longrightarrow> sd_err t = 0)"

text \<open>Whole blocks come from the card to memory; without an error they are \<open>n\<close>, and \<open>mk\<close> is what was seen of them.\<close>

definition filled :: "emmc \<Rightarrow> nat \<Rightarrow> nat \<Rightarrow> (access list list \<Rightarrow> access list) \<Rightarrow> bool \<Rightarrow> emmc \<Rightarrow> access list \<Rightarrow> bool" where
  "filled s buf n mk ok t l \<longleftrightarrow> (\<exists>bs. length bs \<le> n \<and> (\<forall>b \<in> set bs. length b = 128) \<and>
     words t = put_words buf (concat bs) (words s) \<and> (ok \<longrightarrow> length bs = n \<and> seen l = mk (incoming bs)))"

lemma filledI:
  "length bs = n \<Longrightarrow> \<forall>b \<in> set bs. length b = 128 \<Longrightarrow> words t = put_words buf (concat bs) (words s) \<Longrightarrow>
    seen l = mk (incoming bs) \<Longrightarrow> filled s buf n mk ok t l"
  "words t = words s \<Longrightarrow> filled s buf n mk False t l"
  unfolding filled_def by blast (rule exI [of _ "[]"], simp)

lemma filled_failed: "filled s buf n mk False t l \<Longrightarrow> n \<le> m \<Longrightarrow> filled s buf m mk' False t l'"
  unfolding filled_def by (meson order_trans)

lemma told_more: "told s n True t \<Longrightarrow> told t m ok u \<Longrightarrow> n > 0 \<Longrightarrow> told s (n + m) ok u"
  by (auto simp: told_def settled_def)

lemma turn_reads:
  "does (turn dev CMD_READ_SINGLE arg INT_READ_RDY (load_block dev buf)) s (\<lambda>ok t l. told s 1 ok t \<and>
    (if ok then \<exists>b. length b = 128 \<and> words t = put_words buf b (words s) \<and>
        seen l = turn_says CMD_READ_SINGLE arg (sd_scr0 s) @ map (Rd EMMC_DATA) b
     else words t = words s))"
proof -
  let ?R = "\<lambda>es t. \<exists>b. length b = 128 \<and> es = map (Rd EMMC_DATA) b \<and> words t = put_words buf b (words s)"
  have "does (load_block dev buf) t (\<lambda>_ u l. ?R (seen l) u \<and> settled t u \<and> sd_err u = sd_err t)" if "words t = words s" for t
    by (rule does_mono [OF load_block_moves]) (use that in \<open>auto simp: settled_def\<close>)
  note turn_moves [of CMD_READ_SINGLE _ _ ?R, OF plain_codes(1) this]
  then show ?thesis by (rule does_mono) (auto simp: told_def)
qed

lemma filled_next:
  assumes "length b = 128" and "words t = put_words buf b (words s)" and "seen l = e @ map (Rd EMMC_DATA) b"
    and "filled t (buf + 512) n mk ok u l'" and "\<And>bs. mk' (map (Rd EMMC_DATA) b # bs) = e @ map (Rd EMMC_DATA) b @ mk bs"
  shows "filled s buf (Suc n) mk' ok u (l @ l')"
proof -
  obtain bs where bs: "length bs \<le> n" "\<forall>b \<in> set bs. length b = 128" "words u = put_words (buf + 512) (concat bs) (words t)"
    "ok \<longrightarrow> length bs = n \<and> seen l' = mk (incoming bs)" using assms(4) by (auto simp: filled_def)
  have "words u = put_words buf (b @ concat bs) (words s)"
    using put_words_append [of buf b "concat bs" "words s"] assms(1,2) bs(3) by simp
  then show ?thesis using assms(1,3,5) bs(1,2,4) unfolding filled_def by (intro exI [of _ "b # bs"]) auto
qed

lemma read_blocks_moves:
  "does (read_blocks dev lba buf n c) s (\<lambda>ok t l. told s n ok t \<and>
    filled s buf n (block_evs CMD_READ_SINGLE lba c (sd_scr0 s)) ok t l)"
proof (induction n arbitrary: buf c s)
  case 0
  show ?case by (auto intro!: does_ret simp: settled_def told_def filled_def)
next
  case (Suc n)
  let ?e = "turn_says CMD_READ_SINGLE ((lba + c) * 512) (sd_scr0 s)"
  show ?case unfolding read_blocks.simps
  proof (rule does_then [OF turn_reads], elim conjE)
    fix ok t l
    assume t: "told s 1 ok t" and b: "if ok then \<exists>b. length b = 128 \<and> words t = put_words buf b (words s) \<and>
        seen l = ?e @ map (Rd EMMC_DATA) b else words t = words s"
    show "does (if ok then read_blocks dev lba (buf + 512) n (c + 1) else ret False) t (\<lambda>ok u l'. told s (Suc n) ok u \<and>
      filled s buf (Suc n) (block_evs CMD_READ_SINGLE lba c (sd_scr0 s)) ok u (l @ l'))"
    proof (cases ok)
      case False
      then show ?thesis using t b by (auto intro!: does_ret filledI(2) simp: told_def)
    next
      case True
      have scr: "sd_scr0 t = sd_scr0 s" using t by (simp add: told_def settled_def)
      obtain b where b: "length b = 128" "words t = put_words buf b (words s)" "seen l = ?e @ map (Rd EMMC_DATA) b"
        using b True by auto
      have more: "told s (Suc n) ok u \<and> filled s buf (Suc n) (block_evs CMD_READ_SINGLE lba c (sd_scr0 s)) ok u (l @ l')"
        if "told t n ok u" "filled t (buf + 512) n (block_evs CMD_READ_SINGLE lba (c + 1) (sd_scr0 t)) ok u l'" for ok u l'
        using told_more [of s 1 t n] that(1) t True filled_next [OF b that(2)] by (simp add: scr)
      have "does (read_blocks dev lba (buf + 512) n (c + 1)) t (\<lambda>ok u l'. told s (Suc n) ok u \<and>
        filled s buf (Suc n) (block_evs CMD_READ_SINGLE lba c (sd_scr0 s)) ok u (l @ l'))"
        by (rule does_mono [OF Suc.IH]) (elim conjE, rule more)
      then show ?thesis using True by (simp only: if_True)
    qed
  qed
qed

text \<open>The other direction.\<close>

fun buffers :: "emmc \<Rightarrow> nat \<Rightarrow> nat \<Rightarrow> u32 list list" where
  "buffers s buf 0 = []"
| "buffers s buf (Suc n) = buffer s buf # buffers s (buf + 512) n"

lemma buffers_same: "words t = words s \<Longrightarrow> buffers t buf n = buffers s buf n"
  by (induction n arbitrary: buf) (simp, simp, metis buffer_same)

definition emptied :: "emmc \<Rightarrow> nat \<Rightarrow> nat \<Rightarrow> (access list list \<Rightarrow> access list) \<Rightarrow> bool \<Rightarrow> emmc \<Rightarrow> access list \<Rightarrow> bool" where
  "emptied s buf n mk ok t l \<longleftrightarrow> words t = words s \<and> (ok \<longrightarrow> seen l = mk (outgoing (buffers s buf n)))"

lemma turn_writes:
  "does (turn dev CMD_WRITE_SINGLE arg INT_WRITE_RDY (store_block buf)) s (\<lambda>ok t l. told s 1 ok t \<and> words t = words s \<and>
    (ok \<longrightarrow> seen l = turn_says CMD_WRITE_SINGLE arg (sd_scr0 s) @ map (Wr EMMC_DATA) (buffer s buf)))"
proof -
  let ?R = "\<lambda>es t. es = map (Wr EMMC_DATA) (buffer s buf) \<and> words t = words s"
  have "does (store_block buf) t (\<lambda>_ u l. ?R (seen l) u \<and> settled t u \<and> sd_err u = sd_err t)" if "words t = words s" for t
    by (rule does_mono [OF store_block_moves]) (use that in \<open>auto simp: settled_def buffer_same [OF that]\<close>)
  note turn_moves [of CMD_WRITE_SINGLE _ _ ?R, OF plain_codes(3) this]
  then show ?thesis by (rule does_mono) (auto simp: told_def split del: if_split)
qed

lemma write_blocks_moves:
  "does (write_blocks dev lba buf n c) s (\<lambda>ok t l. told s n ok t \<and>
    emptied s buf n (block_evs CMD_WRITE_SINGLE lba c (sd_scr0 s)) ok t l)"
proof (induction n arbitrary: buf c s)
  case 0
  show ?case by (auto intro!: does_ret simp: settled_def told_def emptied_def)
next
  case (Suc n)
  show ?case unfolding write_blocks.simps
  proof (rule does_then [OF turn_writes], elim conjE)
    fix ok t l
    assume t: "told s 1 ok t" "words t = words s"
      "ok \<longrightarrow> seen l = turn_says CMD_WRITE_SINGLE ((lba + c) * 512) (sd_scr0 s) @ map (Wr EMMC_DATA) (buffer s buf)"
    show "does (if ok then write_blocks dev lba (buf + 512) n (c + 1) else ret False) t (\<lambda>ok u l'. told s (Suc n) ok u \<and>
      emptied s buf (Suc n) (block_evs CMD_WRITE_SINGLE lba c (sd_scr0 s)) ok u (l @ l'))"
    proof (cases ok)
      case False
      then show ?thesis using t by (auto intro!: does_ret simp: told_def emptied_def)
    next
      case True
      then have "sd_scr0 t = sd_scr0 s" using t(1) by (simp add: told_def settled_def)
      then have more: "told s (Suc n) ok u \<and> emptied s buf (Suc n) (block_evs CMD_WRITE_SINGLE lba c (sd_scr0 s)) ok u (l @ l')"
        if "told t n ok u" "emptied t (buf + 512) n (block_evs CMD_WRITE_SINGLE lba (c + 1) (sd_scr0 t)) ok u l'" for ok u l'
        using told_more [of s 1 t n] that t True by (simp add: emptied_def buffers_same [OF t(2)] split del: if_split)
      have "does (write_blocks dev lba (buf + 512) n (c + 1)) t (\<lambda>ok u l'. told s (Suc n) ok u \<and>
        emptied s buf (Suc n) (block_evs CMD_WRITE_SINGLE lba c (sd_scr0 s)) ok u (l @ l'))"
        by (rule does_mono [OF Suc.IH]) (elim conjE, rule more)
      then show ?thesis using True by (simp only: if_True)
    qed
  qed
qed

lemma size_and_cmd:
  assumes "plain code"
  shows "does (do { wrreg EMMC_BLKSIZECNT x; after_cmd dev code lba (\<lambda>_. False) (ret True) }) s (\<lambda>ok t l.
    settled s t \<and> words t = words s \<and> (ok \<longleftrightarrow> sd_err t = 0) \<and> (ok \<longrightarrow> seen l = Wr EMMC_BLKSIZECNT x # says code lba))"
  by (rule does_run, simp, simp, rule does_mono [OF after_cmd_commands [OF assms]]) (auto simp: settled_def )

lemma announce_commands:
  assumes "plain single" and "plain multi"
  shows "does (announce dev single multi lba num) s (\<lambda>ok t l. settled s t \<and> words t = words s \<and> (\<not> ok \<longrightarrow> sd_err t \<noteq> 0) \<and>
    (ok \<longrightarrow> seen l = first_evs single multi lba num (sd_scr0 s) \<and> (sd_scr0 s AND SCR_SUPP_CCS \<noteq> 0 \<longrightarrow> sd_err t = 0)))"
proof (cases "sd_scr0 s AND SCR_SUPP_CCS = 0")
  case True
  then show ?thesis unfolding announce_def by (auto intro!: does_steps simp: settled_def  first_evs_def)
next
  case False
  define code where "code = (if num = 1 then single else multi)"
  have p: "plain code" using assms by (simp add: code_def)
  let ?cs = "if num > 1 \<and> sd_scr0 s AND SCR_SUPP_SET_BLKCNT \<noteq> 0 then says CMD_SET_BLOCKCNT num else []"
  have count: "does (if num > 1 \<and> sd_scr0 s AND SCR_SUPP_SET_BLKCNT \<noteq> 0
      then after_cmd dev CMD_SET_BLOCKCNT num (\<lambda>_. False) (ret True) else ret True) s
      (\<lambda>ok t l. settled s t \<and> words t = words s \<and> (\<not> ok \<longrightarrow> sd_err t \<noteq> 0) \<and> (ok \<longrightarrow> seen l = ?cs))"
    by (auto intro!: does_ret does_mono [OF after_cmd_commands [OF plain_codes(5)]] simp: settled_def )
  have "does (do { ok \<leftarrow> (if num > 1 \<and> sd_scr0 s AND SCR_SUPP_SET_BLKCNT \<noteq> 0
             then after_cmd dev CMD_SET_BLOCKCNT num (\<lambda>_. False) (ret True) else ret True);
       if \<not> ok then ret False
       else do { wrreg EMMC_BLKSIZECNT (push_bit 16 num OR 512); after_cmd dev code lba (\<lambda>_. False) (ret True) } }) s
    (\<lambda>ok t l. settled s t \<and> words t = words s \<and> (\<not> ok \<longrightarrow> sd_err t \<noteq> 0) \<and>
      (ok \<longrightarrow> seen l = ?cs @ [Wr EMMC_BLKSIZECNT (push_bit 16 num OR 512)] @ says code lba \<and> sd_err t = 0))"
  proof (rule does_then [OF count], elim conjE)
    fix ok t l
    assume t: "settled s t" "words t = words s" "\<not> ok \<longrightarrow> sd_err t \<noteq> 0" "ok \<longrightarrow> seen l = ?cs"
    show "does (if \<not> ok then ret False
       else do { wrreg EMMC_BLKSIZECNT (push_bit 16 num OR 512); after_cmd dev code lba (\<lambda>_. False) (ret True) }) t
      (\<lambda>ok u l'. settled s u \<and> words u = words s \<and> (\<not> ok \<longrightarrow> sd_err u \<noteq> 0) \<and>
        (ok \<longrightarrow> seen (l @ l') = ?cs @ [Wr EMMC_BLKSIZECNT (push_bit 16 num OR 512)] @ says code lba \<and> sd_err u = 0))"
    proof (cases ok)
      case False
      then show ?thesis using t by (auto intro!: does_ret)
    next
      case True
      then show ?thesis using True
        by (simp only: not_True_eq_False if_False True)
          (rule does_mono [OF size_and_cmd [OF p]], use t(2,4) True settled_trans [OF t(1)] in \<open>auto split del: if_split\<close>)
    qed
  qed
  then show ?thesis using False unfolding announce_def code_def [symmetric]
    by (intro does_bind [of "field _"] does_field) (simp add: first_evs_def code_def [symmetric])
qed

lemma conclude_commands:
  assumes "sd_err s = 0"
  shows "does (conclude dev num) s (\<lambda>r t l. settled s t \<and> words t = words s \<and> (sd_err t = 0 \<longrightarrow> r = num * 512 \<and>
    seen l = last_evs num (sd_scr0 s)) \<and> (sd_err t \<noteq> 0 \<longrightarrow> r = 0))"
  unfolding conclude_def last_evs_def using assms
  by (intro does_bind [of "field _"] does_field, simp)
    (auto intro!: does_steps does_then [OF sd_cmd_commands [OF plain_codes(6)]]
      simp: settled_def  commanded_def)

lemma bytes_moved:
  assumes "num < 2 ^ 23" and "num \<noteq> 0"
  shows "num * 512 \<noteq> (0 :: u32)"
proof -
  have "unat num < 2 ^ 23" using assms(1) by (simp add: word_less_nat_alt)
  then have "unat (num * 512) = unat num * 512"
    by (subst unat_mult_lem [THEN iffD1]) auto
  moreover have "unat num \<noteq> 0" using assms(2) by (simp add: unat_eq_0)
  ultimately show ?thesis by (metis mult_eq_0_iff unat_0 zero_neq_numeral)
qed

text \<open>How a transfer ends: with the error code 0 and the number of bytes, or with an error code and the result 0.\<close>

definition ended :: "emmc \<Rightarrow> u32 \<Rightarrow> bool \<Rightarrow> u32 \<Rightarrow> emmc \<Rightarrow> bool" where
  "ended s k done r t \<longleftrightarrow> settled s t \<and> (if sd_err t = 0 then r = k * 512 \<and> done else r = 0)"

lemma does_conclude:
  assumes "sd_err s = 0"
  shows "does (conclude dev num) s (\<lambda>r t l. words t = words s \<and> ended s num (seen l = last_evs num (sd_scr0 s)) r t)"
  by (rule does_mono [OF conclude_commands [OF assms]]) (auto simp: ended_def)

lemma ended_more:
  assumes "settled s t" and "ended t k P r u" and "sd_err u = 0 \<Longrightarrow> P \<Longrightarrow> P'"
  shows "ended s k P' r u"
  using assms settled_trans [OF assms(1), of u] by (auto simp: ended_def)

lemma ended_bad: "settled s t \<Longrightarrow> sd_err t \<noteq> 0 \<Longrightarrow> ended s k P 0 t"
  by (simp add: ended_def)

lemma read_and_conclude:
  assumes t: "settled s t" "words t = words s" "seen l = first_evs CMD_READ_SINGLE CMD_READ_MULTI lba k (sd_scr0 s)"
    "sd_scr0 s AND SCR_SUPP_CCS \<noteq> 0 \<longrightarrow> sd_err t = 0" and k: "unat k > 0"
  shows "does (do { ok \<leftarrow> read_blocks dev lba buf (unat k) 0; if \<not> ok then ret 0 else conclude dev k }) t
    (\<lambda>r u l'. filled s buf (unat k) (\<lambda>_. []) False u l' \<and>
       ended s k (filled s buf (unat k) (transfer_evs CMD_READ_SINGLE CMD_READ_MULTI lba k (sd_scr0 s)) True u (l @ l')) r u)"
proof (rule does_then [OF read_blocks_moves], elim conjE)
  fix ok u l'
  have scr: "sd_scr0 t = sd_scr0 s" using t(1) by (simp add: settled_def)
  assume told: "told t (unat k) ok u" and fill: "filled t buf (unat k) (block_evs CMD_READ_SINGLE lba 0 (sd_scr0 t)) ok u l'"
  have su: "settled s u" using t(1) told settled_trans by (auto simp: told_def)
  have fs: "filled s buf (unat k) (block_evs CMD_READ_SINGLE lba 0 (sd_scr0 s)) ok u l'"
    using fill t(2) by (simp add: filled_def scr)
  show "does (if \<not> ok then ret 0 else conclude dev k) u (\<lambda>r v l''. filled s buf (unat k) (\<lambda>_. []) False v (l' @ l'') \<and>
     ended s k (filled s buf (unat k) (transfer_evs CMD_READ_SINGLE CMD_READ_MULTI lba k (sd_scr0 s)) True v (l @ l' @ l'')) r v)"
  proof (cases ok)
    case False
    then show ?thesis using told su fs by (auto intro!: does_ret ended_bad simp: told_def filled_def)
  next
    case True
    have e: "sd_err u = 0" using told True k t(4) by (auto simp: told_def scr)
    have scru: "sd_scr0 u = sd_scr0 s" using su by (simp add: settled_def)
    obtain bs where bs: "length bs = unat k" "\<forall>b \<in> set bs. length b = 128" "words u = put_words buf (concat bs) (words s)"
      "seen l' = block_evs CMD_READ_SINGLE lba 0 (sd_scr0 s) (incoming bs)"
      using fs True by (auto simp: filled_def)
    have F: "filled s buf (unat k) (transfer_evs CMD_READ_SINGLE CMD_READ_MULTI lba k (sd_scr0 s)) True v (l @ l' @ l'')"
      if "words v = words u" "seen l'' = last_evs k (sd_scr0 s)" for v l''
      by (rule filledI(1) [OF bs(1,2)]) (simp_all add: that bs(3,4) t(3) transfer_evs_def)
    have "filled s buf (unat k) (\<lambda>_. []) False v l''" if "words v = words u" for v l''
      using that bs unfolding filled_def by (intro exI [of _ bs]) simp
    then have "does (conclude dev k) u (\<lambda>r v l''. filled s buf (unat k) (\<lambda>_. []) False v (l' @ l'') \<and>
      ended s k (filled s buf (unat k) (transfer_evs CMD_READ_SINGLE CMD_READ_MULTI lba k (sd_scr0 s)) True v (l @ l' @ l'')) r v)"
      by (intro does_mono [OF does_conclude [OF e]]) (auto intro: ended_more [OF su] F simp: scru)
    then show ?thesis using True by simp
  qed
qed

lemma sd_readblock_moves:
  assumes k: "k = (if num < 1 then 1 else num)"
  shows "does (sd_readblock dev lba buf num) s (\<lambda>r t l. filled s buf (unat k) (\<lambda>_. []) False t l \<and>
    ended s k (filled s buf (unat k) (transfer_evs CMD_READ_SINGLE CMD_READ_MULTI lba k (sd_scr0 s)) True t l) r t)"
  unfolding sd_readblock_def Let_def k [symmetric]
proof (rule does_then [OF sd_status_waits])
  fix busy t l
  assume w: "waited s t l \<and> busy \<in> {SD_OK, SD_ERROR}"
  then have t: "settled s t" "words t = words s" "silent l" "sd_scr0 t = sd_scr0 s" by (auto simp: waited_def settled_def)
  have k0: "unat k > 0" by (auto simp: k word_less_nat_alt unat_gt_0)
  let ?goal = "\<lambda>l r u l'. filled s buf (unat k) (\<lambda>_. []) False u (l @ l') \<and>
    ended s k (filled s buf (unat k) (transfer_evs CMD_READ_SINGLE CMD_READ_MULTI lba k (sd_scr0 s)) True u (l @ l')) r u"
  have "does (do { ok \<leftarrow> announce dev CMD_READ_SINGLE CMD_READ_MULTI lba k; if \<not> ok then ret 0
      else do { ok \<leftarrow> read_blocks dev lba buf (unat k) 0; if \<not> ok then ret 0 else conclude dev k } }) t (\<lambda>r u l'. filled s buf (unat k) (\<lambda>_. []) False u (l @ l') \<and>
    ended s k (filled s buf (unat k) (transfer_evs CMD_READ_SINGLE CMD_READ_MULTI lba k (sd_scr0 s)) True u (l @ l')) r u)"
  proof (rule does_then [OF announce_commands [OF plain_codes(1,2)]], elim conjE)
    fix ok u l'
    assume u: "settled t u" "words u = words t" "\<not> ok \<longrightarrow> sd_err u \<noteq> 0"
      "ok \<longrightarrow> seen l' = first_evs CMD_READ_SINGLE CMD_READ_MULTI lba k (sd_scr0 t) \<and> (sd_scr0 t AND SCR_SUPP_CCS \<noteq> 0 \<longrightarrow> sd_err u = 0)"
    note su = settled_trans [OF t(1) u(1)]
    show "does (if \<not> ok then ret 0
      else do { ok \<leftarrow> read_blocks dev lba buf (unat k) 0; if \<not> ok then ret 0 else conclude dev k }) u
      (\<lambda>y u l''. filled s buf (unat k) (\<lambda>_. []) False u (l @ l' @ l'') \<and>
        ended s k (filled s buf (unat k) (transfer_evs CMD_READ_SINGLE CMD_READ_MULTI lba k (sd_scr0 s)) True u (l @ l' @ l'')) y u)"
    proof (cases ok)
      case False
      then show ?thesis using u(2,3) su t(2) by (auto intro!: does_ret ended_bad filledI(2))
    next
      case True
      have "seen (l @ l') = first_evs CMD_READ_SINGLE CMD_READ_MULTI lba k (sd_scr0 s)"
        using t(3,4) u(4) True by simp
      from read_and_conclude [OF su _ this _ k0, of dev buf]
      show ?thesis using True u t by (auto elim: does_mono simp: filled_def)
    qed
  qed
  then show "does (if busy \<noteq> SD_OK then do { err_is SD_TIMEOUT; ret 0 }
      else do { ok \<leftarrow> announce dev CMD_READ_SINGLE CMD_READ_MULTI lba k; if \<not> ok then ret 0
      else do { ok \<leftarrow> read_blocks dev lba buf (unat k) 0; if \<not> ok then ret 0 else conclude dev k } }) t (\<lambda>r u l'. filled s buf (unat k) (\<lambda>_. []) False u (l @ l') \<and>
    ended s k (filled s buf (unat k) (transfer_evs CMD_READ_SINGLE CMD_READ_MULTI lba k (sd_scr0 s)) True u (l @ l')) r u)"
    using t by (auto intro!: does_steps ended_bad filledI(2) simp: settled_def)
qed

lemma write_and_conclude:
  assumes t: "settled s t" "words t = words s" "seen l = first_evs CMD_WRITE_SINGLE CMD_WRITE_MULTI lba k (sd_scr0 s)"
    "sd_scr0 s AND SCR_SUPP_CCS \<noteq> 0 \<longrightarrow> sd_err t = 0" and k: "unat k > 0"
  shows "does (do { ok \<leftarrow> write_blocks dev lba buf (unat k) 0; if \<not> ok then ret 0
      else do { r \<leftarrow> sd_int dev INT_DATA_DONE; if r \<noteq> SD_OK then do { err_is r; ret 0 } else conclude dev k } }) t
    (\<lambda>r u l'. words u = words s \<and>
       ended s k (emptied s buf (unat k) (transfer_evs CMD_WRITE_SINGLE CMD_WRITE_MULTI lba k (sd_scr0 s)) True u (l @ l')) r u)"
proof (rule does_then [OF write_blocks_moves], elim conjE)
  fix ok u l'
  have scr: "sd_scr0 t = sd_scr0 s" using t(1) by (simp add: settled_def)
  assume told: "told t (unat k) ok u" and full: "emptied t buf (unat k) (block_evs CMD_WRITE_SINGLE lba 0 (sd_scr0 t)) ok u l'"
  have su: "settled s u" using t(1) told settled_trans by (auto simp: told_def)
  have wu: "words u = words s" using full t(2) by (simp add: emptied_def)
  show "does (if \<not> ok then ret 0
      else do { r \<leftarrow> sd_int dev INT_DATA_DONE; if r \<noteq> SD_OK then do { err_is r; ret 0 } else conclude dev k }) u
    (\<lambda>r v l''. words v = words s \<and>
     ended s k (emptied s buf (unat k) (transfer_evs CMD_WRITE_SINGLE CMD_WRITE_MULTI lba k (sd_scr0 s)) True v (l @ l' @ l'')) r v)"
  proof (cases ok)
    case False
    then show ?thesis using told su wu by (auto intro!: does_ret ended_bad simp: told_def)
  next
    case True
    have l': "seen l' = block_evs CMD_WRITE_SINGLE lba 0 (sd_scr0 s) (outgoing (buffers s buf (unat k)))"
      using full True buffers_same [OF t(2)] by (simp add: emptied_def scr)
    have "does (do { r \<leftarrow> sd_int dev INT_DATA_DONE; if r \<noteq> SD_OK then do { err_is r; ret 0 } else conclude dev k }) u
      (\<lambda>r v l''. words v = words s \<and>
       ended s k (emptied s buf (unat k) (transfer_evs CMD_WRITE_SINGLE CMD_WRITE_MULTI lba k (sd_scr0 s)) True v (l @ l' @ l'')) r v)"
    proof (rule does_then [OF sd_int_waits])
      fix r v m
      assume w: "waited u v m \<and> r \<in> {SD_OK, SD_TIMEOUT, SD_ERROR}"
      then have sv: "settled s v" "words v = words s" "silent m" and e: "sd_err v = sd_err u"
        using su wu by (auto simp: waited_def settled_def)
      have scrv: "sd_scr0 v = sd_scr0 s" using sv by (simp add: settled_def)
      show "does (if r \<noteq> SD_OK then do { err_is r; ret 0 } else conclude dev k) v (\<lambda>r v m'. words v = words s \<and>
       ended s k (emptied s buf (unat k) (transfer_evs CMD_WRITE_SINGLE CMD_WRITE_MULTI lba k (sd_scr0 s)) True v (l @ l' @ m @ m')) r v)"
      proof (cases "r = SD_OK")
        case False
        then show ?thesis using w sv by (auto intro!: does_steps ended_bad simp: settled_def)
      next
        case ok': True
        have "sd_err v = 0" using told True k t(4) e by (auto simp: told_def scr)
        moreover have "emptied s buf (unat k) (transfer_evs CMD_WRITE_SINGLE CMD_WRITE_MULTI lba k (sd_scr0 s)) True x (l @ l' @ m @ m')"
          if "words x = words s" "seen m' = last_evs k (sd_scr0 s)" for x m'
          using that by (simp add: l' t(3) sv(3) transfer_evs_def emptied_def)
        ultimately show ?thesis using ok' sv
          by (auto intro!: does_mono [OF does_conclude] intro: ended_more [OF sv(1)] simp: scrv)
      qed
    qed
    then show ?thesis using True by simp
  qed
qed

lemma sd_writeblock_moves:
  assumes k: "k = (if num < 1 then 1 else num)"
  shows "does (sd_writeblock dev buf lba num) s (\<lambda>r t l. words t = words s \<and>
    ended s k (emptied s buf (unat k) (transfer_evs CMD_WRITE_SINGLE CMD_WRITE_MULTI lba k (sd_scr0 s)) True t l) r t)"
  unfolding sd_writeblock_def Let_def k [symmetric]
proof (rule does_then [OF sd_status_waits])
  fix busy t l
  assume w: "waited s t l \<and> busy \<in> {SD_OK, SD_ERROR}"
  then have t: "settled s t" "words t = words s" "silent l" "sd_scr0 t = sd_scr0 s" by (auto simp: waited_def settled_def)
  have k0: "unat k > 0" by (auto simp: k word_less_nat_alt unat_gt_0)
  let ?done = "do { ok \<leftarrow> write_blocks dev lba buf (unat k) 0; if \<not> ok then ret 0
      else do { r \<leftarrow> sd_int dev INT_DATA_DONE; if r \<noteq> SD_OK then do { err_is r; ret 0 } else conclude dev k } }"
  have "does (do { ok \<leftarrow> announce dev CMD_WRITE_SINGLE CMD_WRITE_MULTI lba k; if \<not> ok then ret 0 else ?done }) t
    (\<lambda>r u l'. words u = words s \<and>
    ended s k (emptied s buf (unat k) (transfer_evs CMD_WRITE_SINGLE CMD_WRITE_MULTI lba k (sd_scr0 s)) True u (l @ l')) r u)"
  proof (rule does_then [OF announce_commands [OF plain_codes(3,4)]], elim conjE)
    fix ok u l'
    assume u: "settled t u" "words u = words t" "\<not> ok \<longrightarrow> sd_err u \<noteq> 0"
      "ok \<longrightarrow> seen l' = first_evs CMD_WRITE_SINGLE CMD_WRITE_MULTI lba k (sd_scr0 t) \<and> (sd_scr0 t AND SCR_SUPP_CCS \<noteq> 0 \<longrightarrow> sd_err u = 0)"
    note su = settled_trans [OF t(1) u(1)]
    show "does (if \<not> ok then ret 0 else ?done) u
      (\<lambda>y u l''. words u = words s \<and>
        ended s k (emptied s buf (unat k) (transfer_evs CMD_WRITE_SINGLE CMD_WRITE_MULTI lba k (sd_scr0 s)) True u (l @ l' @ l'')) y u)"
    proof (cases ok)
      case False
      then show ?thesis using u(2,3) su t(2) by (auto intro!: does_ret ended_bad)
    next
      case True
      have "seen (l @ l') = first_evs CMD_WRITE_SINGLE CMD_WRITE_MULTI lba k (sd_scr0 s)"
        using t(3,4) u(4) True by simp
      from write_and_conclude [OF su _ this _ k0, of dev buf]
      show ?thesis using True u t by auto
    qed
  qed
  then show "does (if busy \<noteq> SD_OK then do { err_is SD_TIMEOUT; ret 0 }
      else do { ok \<leftarrow> announce dev CMD_WRITE_SINGLE CMD_WRITE_MULTI lba k; if \<not> ok then ret 0 else ?done }) t
    (\<lambda>r u l'. words u = words s \<and>
    ended s k (emptied s buf (unat k) (transfer_evs CMD_WRITE_SINGLE CMD_WRITE_MULTI lba k (sd_scr0 s)) True u (l @ l')) r u)"
    using t by (auto intro!: does_steps ended_bad simp: settled_def)
qed

section \<open>Reading and writing\<close>

lemma does_runs: "does m s Q \<Longrightarrow> run_state m s = (x, t) \<Longrightarrow> \<exists>l. accesses t = accesses s @ l \<and> Q x t l"
  by (auto simp: does_def)

text \<open>C26: \<open>sd_readblock\<close> reports what it did. Whatever the card answers and however long it takes, the call returns,
  writes to no memory but the buffer, where it puts whole blocks of words one behind the other, and returns 0 exactly
  when it leaves an error code. Without an error the card has seen a transfer of \<open>k\<close> blocks from \<open>lba\<close> on and nothing
  else, in this order: the size and number of the blocks, each command behind its argument, and the words it gave,
  which are those in the buffer; and the result is the size in bytes. The limit is where this size is no longer 32
  bits wide.\<close>

theorem sd_readblock_delivers:
  assumes "num < 2 ^ 23" and "k = (if num < 1 then 1 else num)"
    and "run_state (sd_readblock dev lba buf num) s = (r, t)"
  shows "(r = 0 \<longleftrightarrow> sd_err t \<noteq> 0) \<and> (\<exists>l bs. accesses t = accesses s @ l \<and>
    words t = put_words buf (concat bs) (words s) \<and> length bs \<le> unat k \<and> (\<forall>b \<in> set bs. length b = 128) \<and>
    (sd_err t = 0 \<longrightarrow> r = k * 512 \<and> length bs = unat k \<and>
       seen l = transfer_evs CMD_READ_SINGLE CMD_READ_MULTI lba k (sd_scr0 s) (incoming bs)))"
proof -
  obtain l where l: "accesses t = accesses s @ l" "filled s buf (unat k) (\<lambda>_. []) False t l"
    "ended s k (filled s buf (unat k) (transfer_evs CMD_READ_SINGLE CMD_READ_MULTI lba k (sd_scr0 s)) True t l) r t"
    using does_runs [OF sd_readblock_moves [OF assms(2)] assms(3)] by blast
  have "k * 512 \<noteq> 0" using assms by (intro bytes_moved) (auto split: if_splits)
  then have "r = 0 \<longleftrightarrow> sd_err t \<noteq> 0" using l(3) by (auto simp: ended_def)
  moreover obtain bs where "words t = put_words buf (concat bs) (words s)" "length bs \<le> unat k"
    "\<forall>b \<in> set bs. length b = 128" "sd_err t = 0 \<longrightarrow> r = k * 512 \<and> length bs = unat k \<and>
       seen l = transfer_evs CMD_READ_SINGLE CMD_READ_MULTI lba k (sd_scr0 s) (incoming bs)"
    using l(2,3) by (cases "sd_err t = 0") (auto simp: ended_def filled_def)
  ultimately show ?thesis using l(1) by blast
qed

text \<open>A card that is always ready, whatever its data; it is addressed by blocks.\<close>

definition ready_with :: "(access list \<Rightarrow> u32) \<Rightarrow> device" where
  "ready_with f l r = (if r = EMMC_INTERRUPT then 0x33 else if r = EMMC_DATA then f l else 0)"

abbreviation (input) ready_card :: device where "ready_card \<equiv> ready_with (\<lambda>l. of_nat (length l))"

definition idle_driver :: emmc where
  "idle_driver = \<lparr>accesses = [], sd_scr0 = SCR_SUPP_CCS, sd_scr1 = 0, sd_rca = 0x10000, sd_err = 0, sd_hv = 2, words = of_nat\<rparr>"

lemma ready_status: "run_state (sd_status (ready_with f) m) s =
  (SD_OK, s\<lparr>accesses := accesses s @ [Rd EMMC_STATUS 0, Rd EMMC_INTERRUPT 0x33]\<rparr>)"
  by (simp add: sd_status_def status_wait.simps ready_with_def)

lemma int_wait_now: "dev (accesses s) EMMC_INTERRUPT AND m \<noteq> 0 \<Longrightarrow> run_state (int_wait dev m cnt) s =
  (int cnt, s\<lparr>accesses := accesses s @ [Rd EMMC_INTERRUPT (dev (accesses s) EMMC_INTERRUPT)]\<rparr>)"
  by (subst int_wait.simps) simp

lemma ready_int: "m \<in> {INT_CMD_DONE, INT_DATA_DONE, INT_READ_RDY, INT_WRITE_RDY} \<Longrightarrow> run_state (sd_int (ready_with f) m) s =
  (SD_OK, s\<lparr>accesses := accesses s @ [Rd EMMC_INTERRUPT 0x33, Rd EMMC_INTERRUPT 0x33, Wr EMMC_INTERRUPT m]\<rparr>)"
  by (auto simp: sd_int_def int_wait_now ready_with_def)

abbreviation (input) busy_check :: "access list" where "busy_check \<equiv> [Rd EMMC_STATUS 0, Rd EMMC_INTERRUPT 0x33]"
abbreviation (input) answer :: "u32 \<Rightarrow> access list" where
  "answer m \<equiv> [Rd EMMC_INTERRUPT 0x33, Rd EMMC_INTERRUPT 0x33, Wr EMMC_INTERRUPT m]"

lemma ready_cmd:
  assumes "code \<in> {CMD_READ_SINGLE, CMD_WRITE_SINGLE}"
  shows "run_state (sd_cmd (ready_with f) code arg) s = (0, s\<lparr>sd_err := 0, accesses := accesses s @ busy_check @
    [Rd EMMC_INTERRUPT 0x33, Wr EMMC_INTERRUPT 0x33, Wr EMMC_ARG1 arg, Wr EMMC_CMDTM code] @ answer INT_CMD_DONE @ [Rd EMMC_RESP0 0]\<rparr>)"
proof -
  have "plain code" using assms plain_codes by auto
  then have "sd_cmd (ready_with f) code arg = do { err_is SD_OK; send_cmd (ready_with f) code arg }"
    by (subst sd_cmd.simps) (simp add: plain_def)
  then show ?thesis using assms
    by (auto simp: send_cmd_def ready_status ready_int cmd_pause_def cmd_result_def ready_with_def)
qed

lemma load_block_keeps:
  "sd_err (snd (run_state (load_block dev buf) s)) = sd_err s" "sd_scr0 (snd (run_state (load_block dev buf) s)) = sd_scr0 s"
  using load_block_moves [of dev buf s] by (auto simp: does_def split: prod.splits)

lemma store_block_keeps:
  "sd_err (snd (run_state (store_block buf) s)) = sd_err s" "sd_scr0 (snd (run_state (store_block buf) s)) = sd_scr0 s"
  using store_block_moves [of buf s] by (auto simp: does_def split: prod.splits)

lemmas transfer_steps = announce_def after_cmd_def turn_def conclude_def ready_status ready_int ready_cmd split_beta

lemma idle_scr: "sd_scr0 idle_driver = SCR_SUPP_CCS" "accesses idle_driver = []"
  by (simp_all add: idle_driver_def)

lemma ready_reads:
  "sd_scr0 s = SCR_SUPP_CCS \<Longrightarrow> sd_err (snd (run_state (sd_readblock (ready_with f) lba buf 1) s)) = 0"
  by (simp add: sd_readblock_def transfer_steps load_block_keeps)

lemma sd_readblock_delivers_witness:
  "case run_state (sd_readblock ready_card 5 0x1000 0) idle_driver of (r, t) \<Rightarrow> sd_err t = 0 \<and> r = 512 \<and>
    (\<exists>b. length b = 128 \<and> words t = put_words 0x1000 b (words idle_driver) \<and>
       seen (accesses t) = Wr EMMC_BLKSIZECNT 0x10200 # says CMD_READ_SINGLE 5 @ map (Rd EMMC_DATA) b)"
proof -
  obtain r t where run: "run_state (sd_readblock ready_card 5 0x1000 0) idle_driver = (r, t)" by force
  moreover have "sd_readblock ready_card 5 0x1000 0 = sd_readblock ready_card 5 0x1000 1" by (simp add: sd_readblock_def)
  ultimately have "sd_err t = 0" using ready_reads [OF idle_scr(1)] by (metis snd_conv)
  then show ?thesis using sd_readblock_delivers [OF _ refl run]
    by (auto simp: run length_Suc_conv transfer_evs_def first_evs_def last_evs_def idle_scr)
qed

text \<open>C27: \<open>sd_writeblock\<close> reports what it did. Whatever the card answers and however long it takes, the call returns
  and leaves memory as it was, and it returns 0 exactly when it leaves an error code. Without an error the card has
  seen a transfer of \<open>k\<close> blocks from \<open>lba\<close> on and nothing else, in this order: the size and number of the blocks,
  each command behind its argument, and the words of the buffer; and the result is the size in bytes.\<close>

theorem sd_writeblock_sends:
  assumes "num < 2 ^ 23" and "k = (if num < 1 then 1 else num)"
    and "run_state (sd_writeblock dev buf lba num) s = (r, t)"
  shows "(r = 0 \<longleftrightarrow> sd_err t \<noteq> 0) \<and> words t = words s \<and> (\<exists>l. accesses t = accesses s @ l \<and>
    (sd_err t = 0 \<longrightarrow> r = k * 512 \<and> seen l =
       transfer_evs CMD_WRITE_SINGLE CMD_WRITE_MULTI lba k (sd_scr0 s) (outgoing (buffers s buf (unat k)))))"
proof -
  obtain l where "accesses t = accesses s @ l" "words t = words s"
    "ended s k (emptied s buf (unat k) (transfer_evs CMD_WRITE_SINGLE CMD_WRITE_MULTI lba k (sd_scr0 s)) True t l) r t"
    using does_runs [OF sd_writeblock_moves [OF assms(2)] assms(3)] by blast
  moreover have "k * 512 \<noteq> 0" using assms by (intro bytes_moved) (auto split: if_splits)
  ultimately show ?thesis by (auto simp: ended_def emptied_def)
qed

lemma ready_writes:
  "sd_scr0 s = SCR_SUPP_CCS \<Longrightarrow> sd_err (snd (run_state (sd_writeblock (ready_with f) buf lba 1) s)) = 0"
  by (simp add: sd_writeblock_def transfer_steps store_block_keeps)

lemma sd_writeblock_sends_witness:
  "case run_state (sd_writeblock ready_card 0x1000 5 1) idle_driver of (r, t) \<Rightarrow> sd_err t = 0 \<and> r = 512 \<and>
    seen (accesses t) = Wr EMMC_BLKSIZECNT 0x10200 # says CMD_WRITE_SINGLE 5 @
      map (\<lambda>i. Wr EMMC_DATA (of_nat (0x1000 + 4 * i))) [0..<128]"
proof -
  obtain r t where run: "run_state (sd_writeblock ready_card 0x1000 5 1) idle_driver = (r, t)" by force
  then have "sd_err t = 0" using ready_writes [OF idle_scr(1)] by (metis snd_conv)
  moreover have "buffers idle_driver 0x1000 (unat (1 :: u32)) = [map (\<lambda>i. of_nat (0x1000 + 4 * i)) [0..<128]]"
    by (simp add: buffer_def idle_driver_def del: upt.simps)
  ultimately show ?thesis using sd_writeblock_sends [OF _ refl run]
    by (auto simp: run transfer_evs_def first_evs_def last_evs_def idle_scr simp del: upt.simps)
qed

end
