(* ===== verification/Sdcard.thy ===== *)
theory Sdcard
  imports Emmcprops
begin

text \<open>
  The driver in front of a card that keeps what it is given: an array of words. What such a card does is a
  hypothesis on the device, \<open>plays\<close>; all other registers may answer anything at any time.
\<close>

section \<open>The card\<close>

record card =
  card_arg :: u32
  card_pos :: nat
  card_cells :: "nat \<Rightarrow> u32"

text \<open>A command for a transfer sets the position: its argument counts blocks or bytes. The words that pass through
  the data register move it on.\<close>

fun card_step :: "bool \<Rightarrow> access \<Rightarrow> card \<Rightarrow> card" where
  "card_step ccs (Wr r v) c =
    (if r = EMMC_ARG1 then c\<lparr>card_arg := v\<rparr>
     else if r = EMMC_CMDTM then
       (if v \<in> {CMD_READ_SINGLE, CMD_READ_MULTI, CMD_WRITE_SINGLE, CMD_WRITE_MULTI}
        then c\<lparr>card_pos := (if ccs then unat (card_arg c) * 128 else unat (card_arg c) div 4)\<rparr> else c)
     else if r = EMMC_DATA then c\<lparr>card_cells := (card_cells c)(card_pos c := v), card_pos := card_pos c + 1\<rparr>
     else c)"
| "card_step ccs (Rd r v) c = (if r = EMMC_DATA then c\<lparr>card_pos := card_pos c + 1\<rparr> else c)"
| "card_step ccs _ c = c"

definition card_after :: "bool \<Rightarrow> card \<Rightarrow> access list \<Rightarrow> card" where
  "card_after ccs c l = fold (card_step ccs) (seen l) c"

definition plays :: "device \<Rightarrow> bool \<Rightarrow> card \<Rightarrow> bool" where
  "plays dev ccs c \<longleftrightarrow> (\<forall>l. dev l EMMC_DATA = card_cells (card_after ccs c l) (card_pos (card_after ccs c l)))"

text \<open>The words read are those at the position.\<close>

fun answers :: "bool \<Rightarrow> card \<Rightarrow> access list \<Rightarrow> bool" where
  "answers ccs c [] = True"
| "answers ccs c (x # l) = ((case x of Rd r v \<Rightarrow> v = card_cells c (card_pos c) | _ \<Rightarrow> True) \<and> answers ccs (card_step ccs x c) l)"

lemma answers_append: "answers ccs c (l @ l') \<longleftrightarrow> answers ccs c l \<and> answers ccs (fold (card_step ccs) l c) l'"
  by (induction l arbitrary: c) auto

lemma card_after_append: "card_after ccs c (l @ l') = fold (card_step ccs) (seen l') (card_after ccs c l)"
  by (simp add: card_after_def)

text \<open>Runs on such a card.\<close>

definition played :: "bool \<Rightarrow> card \<Rightarrow> (emmc, 'b) state \<Rightarrow> bool" where
  "played ccs c m \<longleftrightarrow> (\<forall>s. does m s (\<lambda>_ _ l. answers ccs (card_after ccs c (accesses s)) (seen l)))"

lemma does_adds: "does m s P \<Longrightarrow> does m s (\<lambda>x t l. accesses t = accesses s @ l \<and> P x t l)"
  by (auto simp: does_def)

lemma played_bind:
  assumes "played ccs c m" and "\<And>x. played ccs c (f x)"
  shows "played ccs c (m \<bind> f)"
  unfolding played_def
proof
  fix s
  have m: "does m s (\<lambda>_ _ l. answers ccs (card_after ccs c (accesses s)) (seen l))" using assms(1) by (simp add: played_def)
  show "does (m \<bind> f) s (\<lambda>_ _ l. answers ccs (card_after ccs c (accesses s)) (seen l))"
  proof (rule does_then [OF does_adds [OF m]], elim conjE)
    fix x l and t :: emmc
    assume "accesses t = accesses s @ l" "answers ccs (card_after ccs c (accesses s)) (seen l)"
    then show "does (f x) t (\<lambda>_ _ l'. answers ccs (card_after ccs c (accesses s)) (seen (l @ l')))"
      using assms(2) [of x, unfolded played_def, THEN spec [of _ t]]
      by (auto elim!: does_mono simp: answers_append card_after_append)
  qed
qed

lemma played_ret: "played ccs c (ret x)"
  by (auto simp: played_def)

lemma played_prims:
  "\<not> on_bus x \<Longrightarrow> played ccs c (did x)" "played ccs c (wrreg r v)" "played ccs c (field f)"
  "(\<And>s. accesses (g s) = accesses s) \<Longrightarrow> played ccs c (change g)"
  by (auto simp: played_def intro!: does_prims)

lemma played_rdreg: "plays dev ccs c \<Longrightarrow> played ccs c (rdreg dev r)"
  by (simp add: played_def plays_def does_def)

lemma played_steps: "(\<And>x. played ccs c (f x)) \<Longrightarrow> played ccs c (steps xs f)"
  by (induction xs) (auto intro: played_ret played_bind)

lemmas played_rules = played_bind played_ret played_prims played_steps


lemma played_status_wait: "plays dev ccs c \<Longrightarrow> played ccs c (status_wait dev m n)"
proof (induction n)
  case 0
  then show ?case by (subst status_wait.simps) (auto intro!: played_rules played_rdreg)
next
  case (Suc n)
  then show ?case by (subst status_wait.simps) (auto intro!: played_rules played_rdreg)
qed

lemma played_int_wait: "plays dev ccs c \<Longrightarrow> played ccs c (int_wait dev m n)"
proof (induction n)
  case 0
  then show ?case by (subst int_wait.simps) (auto intro!: played_rules played_rdreg)
next
  case (Suc n)
  then show ?case by (subst int_wait.simps) (auto intro!: played_rules played_rdreg)
qed

lemma played_waits:
  assumes "plays dev ccs c"
  shows "played ccs c (sd_status dev m)" "played ccs c (sd_int dev m)"
  unfolding sd_status_def sd_int_def
  by (auto intro!: played_rules played_rdreg played_status_wait played_int_wait assms)

lemma played_send_cmd: "plays dev ccs c \<Longrightarrow> played ccs c (send_cmd dev code arg)"
  unfolding send_cmd_def cmd_pause_def cmd_result_def by (auto intro!: played_rules played_rdreg played_waits)

lemma played_sd_cmd: "plays dev ccs c \<Longrightarrow> played ccs c (sd_cmd dev code arg)"
proof (induction dev code arg rule: sd_cmd.induct)
  case (1 dev code arg)
  then show ?case by (subst sd_cmd.simps) (auto intro!: played_rules played_send_cmd)
qed

lemma played_after_cmd: "plays dev ccs c \<Longrightarrow> played ccs c rest \<Longrightarrow> played ccs c (after_cmd dev code arg bad rest)"
  unfolding after_cmd_def by (auto intro!: played_rules played_sd_cmd)

lemma played_turn: "plays dev ccs c \<Longrightarrow> played ccs c move \<Longrightarrow> played ccs c (turn dev single arg ready move)"
  unfolding turn_def by (auto intro!: played_rules played_after_cmd played_waits)

lemma played_announce: "plays dev ccs c \<Longrightarrow> played ccs c (announce dev single multi lba num)"
  unfolding announce_def by (auto intro!: played_rules played_after_cmd)

lemma played_conclude: "plays dev ccs c \<Longrightarrow> played ccs c (conclude dev num)"
  unfolding conclude_def by (auto intro!: played_rules played_sd_cmd)

lemma played_read_blocks: "plays dev ccs c \<Longrightarrow> played ccs c (read_blocks dev lba buf n k)"
  by (induction n arbitrary: buf k) (auto intro!: played_rules played_rdreg played_turn simp: load_block_def)

lemma played_sd_readblock: "plays dev ccs c \<Longrightarrow> played ccs c (sd_readblock dev lba buf num)"
  unfolding sd_readblock_def Let_def
  by (auto intro!: played_rules played_waits played_announce played_read_blocks played_conclude simp del: read_blocks.simps)

section \<open>Transfers\<close>

definition write_at :: "nat \<Rightarrow> u32 list \<Rightarrow> (nat \<Rightarrow> u32) \<Rightarrow> nat \<Rightarrow> u32" where
  "write_at p ws m = (\<lambda>a. if p \<le> a \<and> a < p + length ws then ws ! (a - p) else m a)"

lemma write_at_Nil [simp]: "write_at p [] m = m"
  by (auto simp: write_at_def fun_eq_iff)

lemma write_at_append: "write_at (p + length ws) vs (write_at p ws m) = write_at p (ws @ vs) m"
  by (auto simp: write_at_def fun_eq_iff nth_append)

lemma write_at_one: "m(p := v) = write_at p [v] m"
  by (auto simp: write_at_def fun_eq_iff)

lemma words_out: "fold (card_step ccs) (map (Wr EMMC_DATA) b) c =
  c\<lparr>card_cells := write_at (card_pos c) b (card_cells c), card_pos := card_pos c + length b\<rparr>"
proof (induction b arbitrary: c)
  case (Cons v b)
  then show ?case using write_at_append [of "card_pos c" "[v]" b "card_cells c"] by (simp add: write_at_one)
qed simp

lemma words_in: "fold (card_step ccs) (map (Rd EMMC_DATA) b) c = c\<lparr>card_pos := card_pos c + length b\<rparr>"
  by (induction b arbitrary: c) simp_all

lemma answers_in: "answers ccs c (map (Rd EMMC_DATA) b) \<longleftrightarrow> b = map (card_cells c) [card_pos c..<card_pos c + length b]"
proof (induction b arbitrary: c)
  case (Cons v b)
  have "[card_pos c..<card_pos c + length (v # b)] = card_pos c # [card_pos c + 1..<card_pos c + 1 + length b]"
    by (subst upt_rec) simp
  then show ?case using Cons.IH [of "c\<lparr>card_pos := card_pos c + 1\<rparr>"] by simp
qed simp

text \<open>The command of one block: afterwards the position is right, whatever addresses the card.\<close>

lemma block_address:
  fixes lba :: u32
  assumes "(unat lba + i) * 512 < 2 ^ 32"
  shows "unat ((lba + of_nat i) * 512) div 4 = (unat lba + i) * 128"
proof -
  have "lba + of_nat i = of_nat (unat lba + i)" by simp
  then have "(lba + of_nat i) * 512 = of_nat ((unat lba + i) * 512)" by simp
  then have "unat ((lba + of_nat i) * 512) = (unat lba + i) * 512"
    using assms by (simp only: unat_of_nat) simp
  then show ?thesis by simp
qed

text \<open>The blocks of a transfer, the first being the \<open>i\<close>th. A card that is addressed by blocks is in position already.\<close>

definition in_reach :: "u64 \<Rightarrow> u32 \<Rightarrow> nat \<Rightarrow> nat \<Rightarrow> card \<Rightarrow> bool" where
  "in_reach scr lba i n c \<longleftrightarrow>
    (if scr AND SCR_SUPP_CCS = 0 then (unat lba + i + n) * 512 \<le> 2 ^ 32 else card_pos c = (unat lba + i) * 128)"

abbreviation (input) by_blocks :: "u64 \<Rightarrow> bool" where "by_blocks scr \<equiv> scr AND SCR_SUPP_CCS \<noteq> 0"

lemma turn_position:
  assumes "in_reach scr lba i (Suc n) c" and "single \<in> {CMD_READ_SINGLE, CMD_WRITE_SINGLE}"
  shows "\<exists>a. fold (card_step (by_blocks scr)) (turn_says single ((lba + of_nat i) * 512) scr) c =
    c\<lparr>card_arg := a, card_pos := (unat lba + i) * 128\<rparr>"
proof (cases "scr AND SCR_SUPP_CCS = 0")
  case True
  then have "(unat lba + i) * 512 < 2 ^ 32" using assms(1) by (simp add: in_reach_def)
  from block_address [OF this] True assms(2) show ?thesis by (intro exI [of _ "(lba + of_nat i) * 512"]) auto
next
  case False
  then show ?thesis using assms(1) by (intro exI [of _ "card_arg c"]) (simp add: in_reach_def)
qed

lemma in_reach_next:
  "in_reach scr lba i (Suc n) c \<Longrightarrow> card_pos d = (unat lba + i) * 128 + 128 \<Longrightarrow> in_reach scr lba (Suc i) n d"
  by (auto simp: in_reach_def)

lemma blocks_out:
  assumes "\<forall>b \<in> set bs. length b = 128" and "in_reach scr lba i (length bs) c"
  shows "card_cells (fold (card_step (by_blocks scr)) (block_evs CMD_WRITE_SINGLE lba (of_nat i) scr (outgoing bs)) c) =
    write_at ((unat lba + i) * 128) (concat bs) (card_cells c)"
  using assms
proof (induction bs arbitrary: i c)
  case Nil
  then show ?case by simp
next
  case (Cons b bs)
  obtain a where a: "fold (card_step (by_blocks scr)) (turn_says CMD_WRITE_SINGLE ((lba + of_nat i) * 512) scr) c =
    c\<lparr>card_arg := a, card_pos := (unat lba + i) * 128\<rparr>"
    using turn_position [of scr lba i "length bs" c CMD_WRITE_SINGLE] Cons.prems(2) by auto
  let ?d = "c\<lparr>card_arg := a, card_cells := write_at ((unat lba + i) * 128) b (card_cells c), card_pos := (unat lba + i) * 128 + 128\<rparr>"
  have b: "length b = 128" "\<forall>b \<in> set bs. length b = 128" using Cons.prems(1) by auto
  have "in_reach scr lba (Suc i) (length bs) ?d"
    using Cons.prems(2) by (intro in_reach_next) simp_all
  from Cons.IH [OF b(2) this] show ?case
    using write_at_append [of "(unat lba + i) * 128" b "concat bs" "card_cells c"]
    by (simp only: block_evs.simps list.map fold_append comp_apply a words_out) (simp add: b add.commute add.left_commute)
qed

lemma blocks_in:
  assumes "\<forall>b \<in> set bs. length b = 128" and "in_reach scr lba i (length bs) c"
    and "answers (by_blocks scr) c (block_evs CMD_READ_SINGLE lba (of_nat i) scr (incoming bs))"
  shows "card_cells (fold (card_step (by_blocks scr)) (block_evs CMD_READ_SINGLE lba (of_nat i) scr (incoming bs)) c) = card_cells c \<and>
    concat bs = map (card_cells c) [(unat lba + i) * 128..<(unat lba + i + length bs) * 128]"
  using assms
proof (induction bs arbitrary: i c)
  case Nil
  then show ?case by simp
next
  case (Cons b bs)
  obtain a where a: "fold (card_step (by_blocks scr)) (turn_says CMD_READ_SINGLE ((lba + of_nat i) * 512) scr) c =
    c\<lparr>card_arg := a, card_pos := (unat lba + i) * 128\<rparr>"
    using turn_position [of scr lba i "length bs" c CMD_READ_SINGLE] Cons.prems(2) by auto
  let ?d = "c\<lparr>card_arg := a, card_pos := (unat lba + i) * 128 + 128\<rparr>"
  have b: "length b = 128" "\<forall>b \<in> set bs. length b = 128" using Cons.prems(1) by auto
  have r: "in_reach scr lba (Suc i) (length bs) ?d"
    using Cons.prems(2) by (intro in_reach_next) simp_all
  have c: "of_nat i + 1 = (of_nat (Suc i) :: u32)" by simp
  have ans: "b = map (card_cells c) [(unat lba + i) * 128..<(unat lba + i) * 128 + 128]"
    "answers (by_blocks scr) ?d (block_evs CMD_READ_SINGLE lba (of_nat (Suc i)) scr (incoming bs))"
    using Cons.prems(3) unfolding block_evs.simps list.map answers_append a c words_in answers_in by (simp_all add: b)
  have "[(unat lba + i) * 128..<(unat lba + i + length (b # bs)) * 128] =
      [(unat lba + i) * 128..<(unat lba + i) * 128 + 128] @ [(unat lba + Suc i) * 128..<(unat lba + Suc i + length bs) * 128]"
    using upt_add_eq_append [of "(unat lba + i) * 128" "(unat lba + i) * 128 + 128" "length bs * 128"] by (simp add: algebra_simps)
  then show ?case using Cons.IH [OF b(2) r ans(2)] ans(1)
    by (simp only: block_evs.simps list.map fold_append comp_apply a c words_in) (simp add: b)
qed

lemma first_step:
  assumes "single \<in> {CMD_READ_SINGLE, CMD_WRITE_SINGLE}" and "multi \<in> {CMD_READ_MULTI, CMD_WRITE_MULTI}"
  shows "card_cells (fold (card_step (by_blocks scr)) (first_evs single multi lba num scr) c) = card_cells c \<and>
    (by_blocks scr \<longrightarrow> card_pos (fold (card_step (by_blocks scr)) (first_evs single multi lba num scr) c) = unat lba * 128) \<and>
    answers (by_blocks scr) c (first_evs single multi lba num scr)"
  using assms by (auto simp: first_evs_def)

lemma last_step: "card_cells (fold (card_step ccs) (last_evs num scr) c) = card_cells c"
  by (auto simp: last_evs_def)

section \<open>An array of blocks\<close>

definition addressable :: "u64 \<Rightarrow> u32 \<Rightarrow> u32 \<Rightarrow> bool" where
  "addressable scr lba k \<longleftrightarrow> (scr AND SCR_SUPP_CCS = 0 \<longrightarrow> (unat lba + unat k) * 512 \<le> 2 ^ 32)"

abbreviation (input) held :: "emmc \<Rightarrow> card \<Rightarrow> nat \<Rightarrow> u32" where
  "held s c \<equiv> card_cells (card_after (by_blocks (sd_scr0 s)) c (accesses s))"

text \<open>A count of 0 is taken for 1.\<close>

abbreviation (input) blocks_of :: "u32 \<Rightarrow> u32" where "blocks_of num \<equiv> if num < 1 then 1 else num"

lemma length_buffers [simp]: "length (buffers s buf n) = n"
  by (induction n arbitrary: buf) simp_all

lemma buffers_full: "\<forall>b \<in> set (buffers s buf n). length b = 128"
  by (induction n arbitrary: buf) simp_all

text \<open>Writing stores the buffer.\<close>

lemma sd_writeblock_stores:
  assumes run: "run_state (sd_writeblock dev buf lba num) s = (r, t)" and ok: "sd_err t = 0"
    and fits: "addressable (sd_scr0 s) lba (blocks_of num)"
  shows "held t c = write_at (unat lba * 128) (concat (buffers s buf (unat (blocks_of num)))) (held s c) \<and>
    words t = words s \<and> sd_scr0 t = sd_scr0 s"
proof -
  define k where "k = blocks_of num"
  let ?bs = "buffers s buf (unat k)" and ?step = "fold (card_step (by_blocks (sd_scr0 s)))"
  obtain l where l: "accesses t = accesses s @ l" "words t = words s"
    "ended s k (emptied s buf (unat k) (transfer_evs CMD_WRITE_SINGLE CMD_WRITE_MULTI lba k (sd_scr0 s)) True t l) r t"
    using does_runs [OF sd_writeblock_moves [OF k_def] run] by blast
  have scr: "sd_scr0 t = sd_scr0 s" and e: "seen l = transfer_evs CMD_WRITE_SINGLE CMD_WRITE_MULTI lba k (sd_scr0 s) (outgoing ?bs)"
    using l(3) ok by (simp_all add: ended_def emptied_def settled_def)
  define d where "d = ?step (first_evs CMD_WRITE_SINGLE CMD_WRITE_MULTI lba k (sd_scr0 s)) (card_after (by_blocks (sd_scr0 s)) c (accesses s))"
  have d: "card_cells d = held s c" "in_reach (sd_scr0 s) lba 0 (length ?bs) d"
    using first_step [of CMD_WRITE_SINGLE CMD_WRITE_MULTI "sd_scr0 s" lba k] fits
    by (simp_all add: d_def in_reach_def addressable_def k_def)
  have "held t c = card_cells (?step (block_evs CMD_WRITE_SINGLE lba (of_nat 0) (sd_scr0 s) (outgoing ?bs)) d)"
    by (simp add: scr l(1) card_after_append e transfer_evs_def last_step d_def)
  also have "\<dots> = write_at (unat lba * 128) (concat ?bs) (card_cells d)"
    using blocks_out [OF buffers_full d(2)] by simp
  finally show ?thesis using d(1) l(2) scr by (simp add: k_def)
qed

text \<open>Reading fetches what the card holds.\<close>

lemma sd_readblock_fetches:
  assumes run: "run_state (sd_readblock dev lba buf num) s = (r, t)" and ok: "sd_err t = 0"
    and fits: "addressable (sd_scr0 s) lba (blocks_of num)" and plays: "plays dev (by_blocks (sd_scr0 s)) c"
  shows "held t c = held s c \<and> sd_scr0 t = sd_scr0 s \<and>
    words t = put_words buf (map (held s c) [unat lba * 128..<(unat lba + unat (blocks_of num)) * 128]) (words s)"
proof -
  define k where "k = blocks_of num"
  let ?ccs = "by_blocks (sd_scr0 s)" let ?step = "fold (card_step ?ccs)" and ?c = "card_after ?ccs c (accesses s)"
  obtain l where l: "accesses t = accesses s @ l"
    "ended s k (filled s buf (unat k) (transfer_evs CMD_READ_SINGLE CMD_READ_MULTI lba k (sd_scr0 s)) True t l) r t"
    using does_runs [OF sd_readblock_moves [OF k_def] run] by blast
  obtain bs where bs: "sd_scr0 t = sd_scr0 s" "length bs = unat k" "\<forall>b \<in> set bs. length b = 128"
    "words t = put_words buf (concat bs) (words s)"
    "seen l = transfer_evs CMD_READ_SINGLE CMD_READ_MULTI lba k (sd_scr0 s) (incoming bs)"
    using l(2) ok by (auto simp: ended_def filled_def settled_def)
  have "answers ?ccs ?c (seen l)"
    using played_sd_readblock [OF plays, of lba buf num, unfolded played_def, THEN spec [of _ s]] l(1)
    by (auto simp: does_def run)
  moreover define d where "d = ?step (first_evs CMD_READ_SINGLE CMD_READ_MULTI lba k (sd_scr0 s)) ?c"
  ultimately have a: "answers ?ccs d (block_evs CMD_READ_SINGLE lba (of_nat 0) (sd_scr0 s) (incoming bs))"
    by (simp add: bs(5) transfer_evs_def answers_append)
  have d: "card_cells d = held s c" "in_reach (sd_scr0 s) lba 0 (length bs) d"
    using first_step [of CMD_READ_SINGLE CMD_READ_MULTI "sd_scr0 s" lba k] fits
    by (simp_all add: d_def in_reach_def addressable_def k_def bs(2))
  note b = blocks_in [OF bs(3) d(2) a]
  have "held t c = card_cells (?step (block_evs CMD_READ_SINGLE lba (of_nat 0) (sd_scr0 s) (incoming bs)) d)"
    by (simp add: bs(1,5) l(1) card_after_append transfer_evs_def last_step d_def)
  then show ?thesis using b bs(1,2,4) d(1) by (simp add: k_def)
qed

text \<open>C28: The driver and a card that keeps its data are an array of blocks. After \<open>sd_writeblock\<close> and \<open>sd_readblock\<close>
  have returned without an error, the buffer of the read holds, for every block that was written, the words that were in
  the buffer of the write, and for every other block what the card held before; no other memory has changed. It holds
  for transfers of any sizes that overlap in any way, for cards addressed by blocks or by bytes, with or without a
  block count, and whatever the other registers answer. The device yields at its data register what the card holds at
  its position, which the last command for a transfer set; the blocks are within reach of a 32-bit address.\<close>

theorem sd_write_read_roundtrip:
  assumes "run_state (sd_writeblock dev buf lba num) s = (r, t)" and "sd_err t = 0"
    and "run_state (sd_readblock dev lba' buf' num') t = (r', u)" and "sd_err u = 0"
    and "addressable (sd_scr0 s) lba (blocks_of num)" and "addressable (sd_scr0 s) lba' (blocks_of num')"
    and "plays dev (by_blocks (sd_scr0 s)) c"
  shows "words u = put_words buf'
    (map (write_at (unat lba * 128) (concat (buffers s buf (unat (blocks_of num)))) (held s c))
       [unat lba' * 128..<(unat lba' + unat (blocks_of num')) * 128]) (words s)"
proof -
  note w = sd_writeblock_stores [OF assms(1,2,5), of c]
  have scr: "sd_scr0 t = sd_scr0 s" using w by blast
  note sd_readblock_fetches [OF assms(3,4), unfolded scr, OF assms(6,7)]
  then show ?thesis using w unfolding scr by (elim conjE) (simp only:)
qed

text \<open>Such a card, empty at first, and always ready.\<close>

definition empty_card :: card where "empty_card = \<lparr>card_arg = 0, card_pos = 0, card_cells = (\<lambda>_. 0)\<rparr>"

definition keeping_card :: device where
  "keeping_card = ready_with (\<lambda>l. card_cells (card_after True empty_card l) (card_pos (card_after True empty_card l)))"

lemma keeping_card_plays: "plays keeping_card True empty_card"
  by (simp add: plays_def keeping_card_def ready_with_def)

lemma idle_buffer: "buffers idle_driver 0x1000 (unat (1 :: u32)) = [map (\<lambda>i. of_nat (0x1000 + 4 * i)) [0..<128]]"
  by (simp add: buffer_def idle_driver_def del: upt.simps)

lemma write_at_read: "map (write_at p ws m) [p..<p + length ws] = ws"
  by (rule nth_equalityI) (auto simp: write_at_def)

lemma sd_write_read_roundtrip_witness:
  "case run_state (sd_writeblock keeping_card 0x1000 5 1) idle_driver of (r, t) \<Rightarrow>
   case run_state (sd_readblock keeping_card 5 0x2000 1) t of (r', u) \<Rightarrow>
     words u = put_words 0x2000 (map (\<lambda>i. of_nat (0x1000 + 4 * i)) [0..<128]) (words idle_driver)"
proof -
  obtain r t where w: "run_state (sd_writeblock keeping_card 0x1000 5 1) idle_driver = (r, t)" by force
  obtain r' u where v: "run_state (sd_readblock keeping_card 5 0x2000 1) t = (r', u)" by force
  let ?ws = "map (\<lambda>i. of_nat (0x1000 + 4 * i) :: u32) [0..<128]"
  have fits: "addressable (sd_scr0 idle_driver) 5 (blocks_of 1)" by (simp add: addressable_def idle_scr)
  have t: "sd_err t = 0" using ready_writes [OF idle_scr(1)] w by (metis keeping_card_def snd_conv)
  have "sd_scr0 t = SCR_SUPP_CCS" using sd_writeblock_stores [OF w t fits, of empty_card] by (simp add: idle_scr)
  then have u: "sd_err u = 0" using ready_reads v by (metis keeping_card_def snd_conv)
  have "words u = put_words 0x2000 (map (write_at 640 ?ws (held idle_driver empty_card)) [640..<768]) (words idle_driver)"
    using sd_write_read_roundtrip [OF w t v u fits fits, of empty_card] keeping_card_plays idle_buffer
    by (simp add: idle_scr del: upt.simps buffers.simps)
  moreover have "map (write_at 640 ?ws m) [640..<768] = ?ws" for m
    using write_at_read [of 640 ?ws m] by (simp del: upt.simps)
  ultimately show ?thesis by (simp add: w v del: upt.simps)
qed

end
