(* ===== verification/Uart.thy ===== *)
theory Uart
  imports Mmio
begin

text \<open>
  The serial line, the mailbox and the timers: boot/uart.c, drivers/gxconsole/console.c, boot/mailbox.c and
  lib/delay.c. A loop that waits for a register ends only when the device lets it (\<open>None\<close> when it never does).
  While booting the registers are at their physical addresses, later at \<open>KERNBASE\<close> above them.
  \<open>wait_cycles\<close> and the delays of \<open>uart_init\<close> only take time; they are the accesses \<open>Cycles\<close>.
\<close>

abbreviation (input) MMIO_BASE :: nat where "MMIO_BASE \<equiv> 0x3f000000"
abbreviation (input) KERNEL_MMIO :: nat where "KERNEL_MMIO \<equiv> MMIO_BASE + 0xffffff8000000000"
abbreviation (input) UART0_DR :: "nat \<Rightarrow> nat" where "UART0_DR base \<equiv> base + 0x201000"
abbreviation (input) UART0_FR :: "nat \<Rightarrow> nat" where "UART0_FR base \<equiv> base + 0x201018"
abbreviation (input) SYSTMR_LO :: nat where "SYSTMR_LO \<equiv> KERNEL_MMIO + 0x3004"
abbreviation (input) SYSTMR_HI :: nat where "SYSTMR_HI \<equiv> KERNEL_MMIO + 0x3008"

definition after :: "('s, 'a) state \<Rightarrow> 's \<Rightarrow> 's" where
  "after m s = snd (run_state m s)"

text \<open>Reading a register until the bits are clear.\<close>

partial_function (option) wait_clear :: "device \<Rightarrow> nat \<Rightarrow> u32 \<Rightarrow> mmio \<Rightarrow> mmio option" where
  "wait_clear dev r m s =
    (case run_state (rdreg dev r) s of (v, s) \<Rightarrow> if v AND m \<noteq> 0 then wait_clear dev r m s else Some s)"

section \<open>Characters\<close>

definition serial_send :: "device \<Rightarrow> nat \<Rightarrow> u32 \<Rightarrow> mmio \<Rightarrow> mmio option" where
  "serial_send dev base c s = map_option (after (wrreg (UART0_DR base) c)) (wait_clear dev (UART0_FR base) 0x20 s)"

definition uart_send :: "device \<Rightarrow> u32 \<Rightarrow> mmio \<Rightarrow> mmio option" where
  "uart_send dev c s = serial_send dev MMIO_BASE c s"

definition printcharc :: "device \<Rightarrow> u8 \<Rightarrow> mmio \<Rightarrow> mmio option" where
  "printcharc dev c s = serial_send dev KERNEL_MMIO (ucast c) s"

text \<open>The data register is read as one byte, and the character is printed as an echo.\<close>

definition readcharc :: "device \<Rightarrow> mmio \<Rightarrow> (u8 \<times> mmio) option" where
  "readcharc dev s =
    (case wait_clear dev (UART0_FR KERNEL_MMIO) 0x10 s of
       None \<Rightarrow> None
     | Some s \<Rightarrow> (case run_state (rdreg dev (UART0_DR KERNEL_MMIO)) s of (v, s) \<Rightarrow>
         let c = ucast v in map_option (Pair c) (printcharc dev c s)))"

text \<open>A string in memory, with a carriage return before every newline.\<close>

partial_function (option) put_string :: "(u8 \<Rightarrow> mmio \<Rightarrow> mmio option) \<Rightarrow> (nat \<Rightarrow> u8) \<Rightarrow> nat \<Rightarrow> mmio \<Rightarrow> mmio option" where
  "put_string send m p s =
    (if m p = 0 then Some s
     else Option.bind (if m p = 10 then send 13 s else Some s) (\<lambda>s.
       Option.bind (send (m p) s) (put_string send m (p + 1))))"

definition printstr :: "device \<Rightarrow> (nat \<Rightarrow> u8) \<Rightarrow> nat \<Rightarrow> mmio \<Rightarrow> mmio option" where
  "printstr dev m p s = put_string (printcharc dev) m p s"

definition uart_puts :: "device \<Rightarrow> (nat \<Rightarrow> u8) \<Rightarrow> nat \<Rightarrow> mmio \<Rightarrow> mmio option" where
  "uart_puts dev m p s = put_string (\<lambda>c. uart_send dev (ucast c)) m p s"

section \<open>The mailbox (boot/mailbox.c)\<close>

text \<open>\<open>mb\<close> is the address of the message buffer, which the other processor writes to; it counts as registers.\<close>

abbreviation (input) MBOX_READ :: nat where "MBOX_READ \<equiv> MMIO_BASE + 0xb880"
abbreviation (input) MBOX_STATUS :: nat where "MBOX_STATUS \<equiv> MMIO_BASE + 0xb898"
abbreviation (input) MBOX_WRITE :: nat where "MBOX_WRITE \<equiv> MMIO_BASE + 0xb8a0"
abbreviation (input) MBOX_RESPONSE :: u32 where "MBOX_RESPONSE \<equiv> 0x80000000"
abbreviation (input) MBOX_FULL :: u32 where "MBOX_FULL \<equiv> 0x80000000"
abbreviation (input) MBOX_EMPTY :: u32 where "MBOX_EMPTY \<equiv> 0x40000000"

partial_function (option) mbox_answer :: "device \<Rightarrow> nat \<Rightarrow> u32 \<Rightarrow> mmio \<Rightarrow> (bool \<times> mmio) option" where
  "mbox_answer dev mb r s =
    (case wait_clear dev MBOX_STATUS MBOX_EMPTY s of
       None \<Rightarrow> None
     | Some s \<Rightarrow> (case run_state (rdreg dev MBOX_READ) s of (v, s) \<Rightarrow>
         if r = v then (case run_state (rdreg dev (mb + 4)) s of (x, s) \<Rightarrow> Some (x = MBOX_RESPONSE, s))
         else mbox_answer dev mb r s))"

definition mbox_call :: "device \<Rightarrow> nat \<Rightarrow> u8 \<Rightarrow> mmio \<Rightarrow> (bool \<times> mmio) option" where
  "mbox_call dev mb ch s =
    (let r = (of_nat mb AND NOT 0xf) OR (ucast ch AND 0xf)
     in Option.bind (wait_clear dev MBOX_STATUS MBOX_FULL s) (\<lambda>s. mbox_answer dev mb r (after (wrreg MBOX_WRITE r) s)))"

text \<open>The request for the clock of the serial line.\<close>

definition clock_request :: "nat \<Rightarrow> (mmio, unit) state" where
  "clock_request mb = do {
     wrreg mb (9 * 4);
     wrreg (mb + 4) 0;
     wrreg (mb + 8) 0x38002;
     wrreg (mb + 12) 12;
     wrreg (mb + 16) 8;
     wrreg (mb + 20) 2;
     wrreg (mb + 24) 4000000;
     wrreg (mb + 28) 0;
     wrreg (mb + 32) 0 }"

definition setup_line :: "device \<Rightarrow> (mmio, unit) state" where
  "setup_line dev = do {
     r \<leftarrow> rdreg dev (MMIO_BASE + 0x200004);
     wrreg (MMIO_BASE + 0x200004) ((r AND NOT (push_bit 12 7 OR push_bit 15 7)) OR (push_bit 12 4 OR push_bit 15 4));
     wrreg (MMIO_BASE + 0x200094) 0;
     did (Cycles 150);
     wrreg (MMIO_BASE + 0x200098) (push_bit 14 1 OR push_bit 15 1);
     did (Cycles 150);
     wrreg (MMIO_BASE + 0x200098) 0;
     wrreg (MMIO_BASE + 0x201044) 0x7ff;
     wrreg (MMIO_BASE + 0x201024) 2;
     wrreg (MMIO_BASE + 0x201028) 0xb;
     wrreg (MMIO_BASE + 0x20102c) (push_bit 4 7);
     wrreg (MMIO_BASE + 0x201030) 0x301 }"

definition uart_init :: "device \<Rightarrow> nat \<Rightarrow> mmio \<Rightarrow> mmio option" where
  "uart_init dev mb s =
    map_option (\<lambda>(ok, s). after (setup_line dev) s)
      (mbox_call dev mb 8 (after (clock_request mb) (after (wrreg (MMIO_BASE + 0x201030) 0) s)))"

section \<open>Timers (lib/delay.c)\<close>

definition get_system_timer :: "device \<Rightarrow> (mmio, u64) state" where
  "get_system_timer dev = do {
     h \<leftarrow> rdreg dev SYSTMR_HI;
     l \<leftarrow> rdreg dev SYSTMR_LO;
     h' \<leftarrow> rdreg dev SYSTMR_HI;
     if h \<noteq> h' then do {
       h \<leftarrow> rdreg dev SYSTMR_HI;
       l \<leftarrow> rdreg dev SYSTMR_LO;
       ret (push_bit 32 (ucast h) OR ucast l) }
     else ret (push_bit 32 (ucast h) OR ucast l) }"

partial_function (option) timer_wait :: "device \<Rightarrow> u64 \<Rightarrow> mmio \<Rightarrow> mmio option" where
  "timer_wait dev t s =
    (case run_state (get_system_timer dev) s of (x, s) \<Rightarrow> if x < t then timer_wait dev t s else Some s)"

definition wait_msec_st :: "device \<Rightarrow> u32 \<Rightarrow> mmio \<Rightarrow> mmio option" where
  "wait_msec_st dev n s =
    (case run_state (get_system_timer dev) s of (t, s) \<Rightarrow> if t \<noteq> 0 then timer_wait dev (t + ucast n) s else Some s)"

text \<open>The processor's own counter: \<open>counter k\<close> is its value at the reading \<open>k\<close>, \<open>freq\<close> its frequency. The
  result is the number of readings.\<close>

partial_function (option) counter_wait :: "(nat \<Rightarrow> u64) \<Rightarrow> u64 \<Rightarrow> nat \<Rightarrow> nat option" where
  "counter_wait counter t k = (if counter k < t then counter_wait counter t (k + 1) else Some (k + 1))"

definition wait_msec :: "u64 \<Rightarrow> (nat \<Rightarrow> u64) \<Rightarrow> u32 \<Rightarrow> nat \<Rightarrow> nat option" where
  "wait_msec freq counter n k = counter_wait counter (counter k + freq div 1000 * ucast n div 1000) (k + 1)"

end
