(* ===== verification/Uartprops.thy ===== *)
theory Uartprops
  imports Uart Mmioprops
begin

text \<open>What the serial line sends, when waiting ends, and what the system timer reads.\<close>

section \<open>Waiting\<close>

text \<open>The accesses after \<open>n\<close> more reads of a register. A device lets a bit go when enough reads find it clear.\<close>

fun polled :: "device \<Rightarrow> nat \<Rightarrow> access list \<Rightarrow> nat \<Rightarrow> access list" where
  "polled dev r l 0 = l"
| "polled dev r l (Suc n) = polled dev r (l @ [Rd r (dev l r)]) n"

definition lets_go :: "device \<Rightarrow> nat \<Rightarrow> u32 \<Rightarrow> bool" where
  "lets_go dev r m \<longleftrightarrow> (\<forall>l. \<exists>n. dev (polled dev r l n) r AND m = 0)"

definition reads_of :: "nat \<Rightarrow> access list \<Rightarrow> bool" where
  "reads_of r l \<longleftrightarrow> (\<forall>x \<in> set l. \<exists>v. x = Rd r v)"

lemma wait_clear_from:
  "dev (polled dev r (accesses s) n) r AND m = 0 \<Longrightarrow> \<exists>l v. v AND m = 0 \<and> reads_of r l \<and>
    wait_clear dev r m s = Some (s\<lparr>accesses := accesses s @ l @ [Rd r v]\<rparr>)"
proof (induction n arbitrary: s)
  case 0
  then show ?case
    by (intro exI [of _ "[]"] exI [of _ "dev (accesses s) r"], subst wait_clear.simps) (simp add: reads_of_def)
next
  case (Suc n)
  let ?v = "dev (accesses s) r" and ?s = "s\<lparr>accesses := accesses s @ [Rd r (dev (accesses s) r)]\<rparr>"
  show ?case
  proof (cases "?v AND m = 0")
    case True
    then show ?thesis
      by (intro exI [of _ "[]"] exI [of _ ?v], subst wait_clear.simps) (simp add: reads_of_def)
  next
    case False
    obtain l v where "v AND m = 0" "reads_of r l" "wait_clear dev r m ?s = Some (?s\<lparr>accesses := accesses ?s @ l @ [Rd r v]\<rparr>)"
      using Suc.IH [of ?s] Suc.prems by (simp only: polled.simps mmio.select_convs mmio.update_convs mmio.surjective) auto
    then have "v AND m = 0" "reads_of r (Rd r ?v # l)"
      "wait_clear dev r m s = Some (s\<lparr>accesses := accesses s @ (Rd r ?v # l) @ [Rd r v]\<rparr>)"
      using False by (auto simp: reads_of_def wait_clear.simps [of dev r m s])
    then show ?thesis by blast
  qed
qed

lemma wait_clear_returns:
  "lets_go dev r m \<Longrightarrow> \<exists>l v. v AND m = 0 \<and> reads_of r l \<and> wait_clear dev r m s = Some (s\<lparr>accesses := accesses s @ l @ [Rd r v]\<rparr>)"
  using wait_clear_from unfolding lets_go_def by blast

section \<open>The serial line\<close>

text \<open>Each character goes out right after the line was found ready, and no other register is written or read.\<close>

fun paced :: "nat \<Rightarrow> bool \<Rightarrow> access list \<Rightarrow> bool" where
  "paced base ready [] = True"
| "paced base ready (Rd r v # l) = (r = UART0_FR base \<and> paced base (v AND 0x20 = 0) l)"
| "paced base ready (Wr r v # l) = (r = UART0_DR base \<and> ready \<and> paced base False l)"
| "paced base ready (x # l) = False"

lemma paced_reads: "reads_of (UART0_FR base) l \<Longrightarrow> paced base b (l @ Rd r v # l') = (r = UART0_FR base \<and> paced base (v AND 0x20 = 0) l')"
  by (induction l arbitrary: b) (auto simp: reads_of_def)

lemma paced_append: "paced base b l \<Longrightarrow> paced base False l' \<Longrightarrow> paced base b (l @ l')"
proof (induction base b l rule: paced.induct)
  case (1 base ready)
  then show ?case by (cases l' rule: list.exhaust) (auto elim: paced.elims)
qed auto

lemma sent_reads: "reads_of r l \<Longrightarrow> sent r' l = []"
  by (induction l) (auto simp: reads_of_def)

definition sends :: "nat \<Rightarrow> mmio \<Rightarrow> u32 list \<Rightarrow> mmio \<Rightarrow> bool" where
  "sends base s cs t \<longleftrightarrow> (\<exists>l. t = s\<lparr>accesses := accesses s @ l\<rparr> \<and> sent (UART0_DR base) l = cs \<and> paced base False l)"

lemma sends_Nil: "sends base s [] s"
  unfolding sends_def by (rule exI [of _ "[]"]) simp

lemma sends_append: "sends base s cs t \<Longrightarrow> sends base t ds u \<Longrightarrow> sends base s (cs @ ds) u"
  unfolding sends_def using paced_append by fastforce

lemma serial_send_sends:
  assumes "lets_go dev (UART0_FR base) 0x20"
  shows "\<exists>t. serial_send dev base c s = Some t \<and> sends base s [c] t"
proof -
  obtain l v where "v AND 0x20 = 0" "reads_of (UART0_FR base) l"
    "wait_clear dev (UART0_FR base) 0x20 s = Some (s\<lparr>accesses := accesses s @ l @ [Rd (UART0_FR base) v]\<rparr>)"
    using wait_clear_returns [OF assms] by blast
  then show ?thesis
    by (auto simp: serial_send_def after_def sends_def paced_reads sent_reads intro!: exI [of _ "l @ [Rd (UART0_FR base) v, Wr (UART0_DR base) c]"])
qed

definition crlf :: "u8 list \<Rightarrow> u32 list" where
  "crlf cs = concat (map (\<lambda>c. (if c = 10 then [13] else []) @ [ucast c]) cs)"

definition string_at :: "(nat \<Rightarrow> u8) \<Rightarrow> nat \<Rightarrow> u8 list \<Rightarrow> bool" where
  "string_at m p cs \<longleftrightarrow> (\<forall>i < length cs. m (p + i) = cs ! i) \<and> 0 \<notin> set cs \<and> m (p + length cs) = 0"

lemma string_at_Cons: "string_at m p (c # cs) \<longleftrightarrow> m p = c \<and> c \<noteq> 0 \<and> string_at m (p + 1) cs"
  by (auto simp: string_at_def All_less_Suc2)

lemma put_string_sends:
  assumes "\<And>c s. \<exists>t. send c s = Some t \<and> sends base s [ucast c] t"
  shows "string_at m p cs \<Longrightarrow> \<exists>t. put_string send m p s = Some t \<and> sends base s (crlf cs) t"
proof (induction cs arbitrary: p s)
  case Nil
  then show ?case by (subst put_string.simps) (simp add: string_at_def crlf_def sends_Nil)
next
  case (Cons c cs)
  obtain s1 where s1: "(if c = 10 then send 13 s else Some s) = Some s1" "sends base s (if c = 10 then [13] else []) s1"
    using assms [of 13 s] sends_Nil [of base s] by (cases "c = 10") auto
  obtain s2 where s2: "send c s1 = Some s2" "sends base s1 [ucast c] s2" using assms by blast
  obtain t where t: "put_string send m (p + 1) s2 = Some t" "sends base s2 (crlf cs) t"
    using Cons by (auto simp: string_at_Cons)
  have "put_string send m p s = Some t"
    using Cons.prems s1(1) s2(1) t(1) by (subst put_string.simps) (simp add: string_at_Cons)
  moreover have "sends base s (crlf (c # cs)) t"
    using sends_append [OF sends_append [OF s1(2) s2(2)] t(2)] by (simp add: crlf_def)
  ultimately show ?case by blast
qed

lemma printcharc_sends: "lets_go dev (UART0_FR KERNEL_MMIO) 0x20 \<Longrightarrow> \<exists>t. printcharc dev c s = Some t \<and> sends KERNEL_MMIO s [ucast c] t"
  using serial_send_sends by (auto simp: printcharc_def)

text \<open>C29: \<open>printstr\<close> prints a string and returns, on every line whose busy bit is clear again after enough reads,
  however many. The characters go out in their order, each newline behind a carriage return, each character only
  right after the line was found ready, and nothing else is read from or written to the device.\<close>

theorem printstr_sends:
  assumes "lets_go dev (UART0_FR KERNEL_MMIO) 0x20" and "string_at m p cs"
  shows "\<exists>t l. printstr dev m p s = Some t \<and> t = s\<lparr>accesses := accesses s @ l\<rparr> \<and>
    sent (UART0_DR KERNEL_MMIO) l = crlf cs \<and> paced KERNEL_MMIO False l"
  using put_string_sends [OF printcharc_sends [OF assms(1)] assms(2)]
  by (auto simp: printstr_def sends_def)

text \<open>A line that is busy at every second read.\<close>

definition slow_line :: device where
  "slow_line l r = (if even (length l) then 0x20 else 0)"

lemma slow_line_lets_go: "lets_go slow_line r 0x20"
  unfolding lets_go_def
proof
  fix l
  show "\<exists>n. slow_line (polled slow_line r l n) r AND 0x20 = 0"
    by (rule exI [of _ "if even (length l) then 1 else 0"]) (simp add: slow_line_def)
qed

lemma printstr_sends_witness:
  "\<exists>t. printstr slow_line ((\<lambda>_. 0)(100 := 72, 101 := 10)) 100 \<lparr>accesses = []\<rparr> = Some t \<and>
    sent (UART0_DR KERNEL_MMIO) (accesses t) = [72, 13, 10]"
proof -
  have "string_at ((\<lambda>_. 0)(100 := 72, 101 := 10)) 100 [72, 10]"
    by (simp add: string_at_Cons) (simp add: string_at_def)
  from printstr_sends [OF slow_line_lets_go this, of "\<lparr>accesses = []\<rparr>"] show ?thesis by (auto simp: crlf_def)
qed

section \<open>The system timer\<close>

text \<open>A timer that counts in 64 bits and shows its halves in two registers; \<open>time n\<close> is its value when the access
  \<open>n\<close> is made.\<close>

definition timer :: "(nat \<Rightarrow> nat) \<Rightarrow> device" where
  "timer time l r =
    (if r = SYSTMR_HI then of_nat (time (length l) div 2 ^ 32)
     else if r = SYSTMR_LO then of_nat (time (length l)) else 0)"

lemma halves: "unat (push_bit 32 (ucast (h :: u32)) OR ucast (l :: u32) :: u64) = unat h * 2 ^ 32 + unat l"
proof -
  have "uint (push_bit 32 (ucast h) OR ucast l :: u64) = concat_bit 32 (uint l) (uint h)"
    by (rule bit_eqI) (auto simp: bit_concat_bit_iff bit_simps dest: bit_imp_le_length)
  also have "\<dots> = uint l + uint h * 2 ^ 32"
    by (simp add: concat_bit_eq push_bit_eq_mult take_bit_int_eq_self_iff uint_lt2p [of l, simplified])
  finally have "int (unat (push_bit 32 (ucast h) OR ucast l :: u64)) = int (unat h * 2 ^ 32 + unat l)"
    unfolding uint_nat by (simp only: of_nat_add of_nat_mult of_nat_power of_nat_numeral add.commute)
  then show ?thesis by (simp only: of_nat_eq_iff)
qed

lemma one_carry:
  assumes "a \<le> b" "b \<le> c" "c \<le> d" "d < a + N" "a div N \<noteq> b div N"
  shows "c div N = (d :: nat) div N"
proof -
  have "d div N \<le> (a + N) div N" using assms(4) by (intro div_le_mono) simp
  also have "(a + N) div N = a div N + 1" using assms(1-4) by (simp add: div_add_self2)
  finally have "d div N \<le> a div N + 1" .
  moreover have "a div N \<le> b div N" "b div N \<le> c div N" "c div N \<le> d div N" using assms(1-3) by (simp_all add: div_le_mono)
  ultimately show ?thesis using assms(5) by linarith
qed

text \<open>C30: the system timer is read as one number although it takes up to five reads of its halves. When the timer
  runs forwards and moves on by less than \<open>2 ^ 32\<close> during the call, the result is the time of one of these reads,
  also when the low half wraps around between them.\<close>

theorem get_system_timer_exact:
  assumes "\<And>i j. i \<le> j \<Longrightarrow> time i \<le> time j" and "k = length (accesses s)"
    and "time (k + 4) < 2 ^ 64" and "time (k + 4) < time k + 2 ^ 32"
    and "run_state (get_system_timer (timer time)) s = (x, t)"
  shows "\<exists>j. k \<le> j \<and> j < length (accesses t) \<and> unat x = time j"
proof -
  let ?hi = "\<lambda>n. time n div 2 ^ 32"
  have le: "time k \<le> time (k + 1)" "time (k + 1) \<le> time (k + 2)" "time (k + 2) \<le> time (k + 3)" "time (k + 3) \<le> time (k + 4)"
    by (simp_all add: assms(1))
  have hi: "unat (of_nat (?hi n) :: u32) = ?hi n" if "n \<le> k + 4" for n
    using assms(1) [OF that] assms(3) by (simp add: unat_of_nat take_bit_nat_eq_self_iff less_mult_imp_div_less)
  have join: "unat (push_bit 32 (ucast (of_nat (?hi n) :: u32)) OR ucast (of_nat (time m) :: u32) :: u64) = time m"
    if "n \<le> k + 4" "?hi n = ?hi m" for n m
    using hi [OF that(1)] that(2) by (simp add: halves unat_of_nat take_bit_eq_mod)
  have same: "of_nat (?hi k) = (of_nat (?hi (k + 2)) :: u32) \<longleftrightarrow> ?hi k = ?hi (k + 2)"
    using hi [of k] hi [of "k + 2"] by (metis le_add1 le_add2 nat_add_left_cancel_le numeral_le_iff semiring_norm(68) semiring_norm(71))
  have up: "k + 1 = Suc k" "k + 2 = Suc (Suc k)" "k + 3 = Suc (Suc (Suc k))" "k + 4 = Suc (Suc (Suc (Suc k)))" by simp_all
  show ?thesis
  proof (cases "?hi k = ?hi (k + 2)")
    case True
    then have "?hi k = ?hi (k + 1)"
      using div_le_mono [OF le(1), of "2 ^ 32"] div_le_mono [OF le(2), of "2 ^ 32"] by (simp only: order_antisym)
    from join [OF _ this, unfolded up] show ?thesis using assms(5) True [unfolded up]
      by (auto simp: get_system_timer_def timer_def assms(2) [symmetric] intro: exI [of _ "Suc k"])
  next
    case False
    then have "?hi (k + 3) = ?hi (k + 4)" using one_carry [OF order_trans [OF le(1,2)] le(3,4) assms(4)] by blast
    from join [OF _ this, unfolded up] show ?thesis using assms(5) False [folded same, unfolded up]
      by (auto simp: get_system_timer_def timer_def assms(2) [symmetric] intro: exI [of _ "Suc (Suc (Suc (Suc k)))"])
  qed
qed

text \<open>The low half wraps around between the first two reads.\<close>

lemma get_system_timer_exact_witness:
  "\<exists>j. j < 5 \<and> unat (fst (run_state (get_system_timer (timer (\<lambda>n. 2 ^ 32 - 1 + n))) \<lparr>accesses = []\<rparr>)) = 2 ^ 32 - 1 + j"
proof -
  let ?m = "get_system_timer (timer (\<lambda>n. 2 ^ 32 - 1 + n))"
  obtain x t where run: "run_state ?m \<lparr>accesses = []\<rparr> = (x, t)" by force
  moreover have "length (accesses t) \<le> 5"
    using run by (auto simp: get_system_timer_def split: if_splits)
  ultimately show ?thesis
    using get_system_timer_exact [OF _ _ _ _ run] by force
qed

end
