(* ===== verification/Own.thy ===== *)
theory Own
  imports File Fdprops
begin

text \<open>
  The memory a program has to itself: pages that are mapped, writable and at one place only. Stores there change
  the program's memory as a function, and nothing else of the state but the contents of frames.
\<close>

definition own_pages :: "u32 \<Rightarrow> nat set \<Rightarrow> 'a vm_scheme \<Rightarrow> bool" where
  "own_pages self P s \<longleftrightarrow> (\<forall>p \<in> P. \<exists>f q. vpt s self p = Some (f, q) \<and> q AND PTE_RO = 0 \<and>
     (\<forall>p' q'. vpt s self p' = Some (f, q') \<longrightarrow> p' = p))"

definition refilled :: "'a vm_scheme \<Rightarrow> 'a vm_scheme \<Rightarrow> bool" where
  "refilled s t \<longleftrightarrow> (\<exists>F. t = s\<lparr>frames := F\<rparr>)"

definition in_pages :: "nat set \<Rightarrow> nat \<Rightarrow> nat \<Rightarrow> bool" where
  "in_pages P a n \<longleftrightarrow> (\<forall>i < n. (a + i) div 4096 \<in> P)"

lemma in_pagesD: "in_pages P a n \<Longrightarrow> a \<le> b \<Longrightarrow> b < a + n \<Longrightarrow> b div 4096 \<in> P"
  unfolding in_pages_def by (metis le_add_diff_inverse add_less_cancel_left)

lemma in_pages_part: "in_pages P a n \<Longrightarrow> a \<le> b \<Longrightarrow> b + m \<le> a + n \<Longrightarrow> in_pages P b m"
  unfolding in_pages_def [of P b] using in_pagesD by (metis add_less_cancel_left le_add1 le_trans less_le_trans)

lemma refilled_refl [simp]: "refilled s s"
  unfolding refilled_def by (rule exI [of _ "frames s"]) simp

lemma refilled_trans: "refilled s t \<Longrightarrow> refilled t u \<Longrightarrow> refilled s u"
  by (auto simp: refilled_def)

lemma refilled_fields: "refilled s t \<Longrightarrow> vpt t = vpt s \<and> vpd t = vpd s \<and> vpm t = vpm s"
  by (auto simp: refilled_def)

lemma own_refilled: "refilled s t \<Longrightarrow> own_pages self P t \<longleftrightarrow> own_pages self P s"
  by (simp add: own_pages_def refilled_fields)

lemma mem_write:
  assumes "own_pages self P s" and "a div 4096 \<in> P"
  shows "refilled s (vwrite self a v s) \<and> vread self (vwrite self a v s) = fput a v (vread self s)"
proof -
  obtain f q where f: "vpt s self (a div 4096) = Some (f, q)" "\<And>p' q'. vpt s self p' = Some (f, q') \<Longrightarrow> p' = a div 4096"
    using assms unfolding own_pages_def by blast
  have w: "vwrite self a v s = s\<lparr>frames := (frames s)(f := (frames s f)(a mod 4096 := v))\<rparr>"
    by (simp add: vwrite_def f(1) put_frame_def)
  have "vread self (vwrite self a v s) b = fput a v (vread self s) b" for b
  proof (cases "b = a")
    case True
    then show ?thesis by (simp add: w vread_def f(1) fput_def)
  next
    case False
    then have differ: "b div 4096 \<noteq> a div 4096 \<or> b mod 4096 \<noteq> a mod 4096" by (metis div_mult_mod_eq)
    show ?thesis
    proof (cases "vpt s self (b div 4096)")
      case None
      then show ?thesis using False by (simp add: w vread_def fput_def)
    next
      case (Some gr)
      obtain g r where g: "vpt s self (b div 4096) = Some (g, r)" using Some by (cases gr) blast
      have "g \<noteq> f \<or> b mod 4096 \<noteq> a mod 4096" using differ f(2) g by blast
      then show ?thesis using False by (auto simp: w vread_def fput_def g)
    qed
  qed
  then show ?thesis unfolding refilled_def w by blast
qed

lemma mem_follows:
  assumes "own_pages self P s" and "in_pages P dst n"
  shows "follows (\<lambda>s. vread self s) (vwrite self) (refilled s) (vread self) dst n"
  unfolding follows_def
  using assms mem_write own_refilled refilled_trans in_pagesD by blast

lemma mem_touch:
  assumes "own_pages self P s" and "a div 4096 \<in> P"
  shows "touch_page self a s = Ret () s"
  using assms unfolding own_pages_def touch_page_def by (force split: option.split)

text \<open>Stores and copies to own pages.\<close>

lemma mem_store:
  assumes "own_pages self P s" and "a div 4096 \<in> P"
  shows "\<exists>t. ustore self a v s = Ret () t \<and> refilled s t \<and> vread self t = fput a v (vread self s)"
  using mem_touch [OF assms] mem_write [OF assms] by (auto simp: ustore_def)

lemma mem_store64:
  assumes o: "own_pages self P s" and P: "in_pages P a 8"
  shows "\<exists>t. ustore64 self a v s = Ret () t \<and> refilled s t \<and> vread self t = st64 fput a v (vread self s)"
proof -
  note f = mem_follows [OF o P]
  let ?u = "st32 (vwrite self) a (ucast v) s"
  have u: "refilled s ?u" "vread self ?u = st32 fput a (ucast v) (vread self s)"
    using follows_st32 [OF f refilled_refl, of a "ucast v"] by simp_all
  have "a div 4096 \<in> P" using in_pagesD [OF P, of a] by simp
  then show ?thesis
    using follows_st32 [OF f u(1), of "a + 4" "ucast (drop_bit 32 v)"] u(2) mem_touch [OF o]
    by (simp add: ustore64_def st64_def)
qed

lemma each_touch:
  assumes "own_pages self P s"
  shows "set ps \<subseteq> P \<Longrightarrow> each ps (\<lambda>p s. touch_page self (p * 4096) s) s = Ret () s"
  using mem_touch [OF assms] by (induction ps) simp_all

lemma mem_copy:
  assumes o: "own_pages self P s" and P: "in_pages P dst n" and apart: "src + n \<le> dst \<or> dst + n \<le> src"
  shows "\<exists>t. ubcopy self src dst n s = Ret () t \<and> refilled s t \<and>
    vread self t = (\<lambda>b. if dst \<le> b \<and> b < dst + n then vread self s (src + (b - dst)) else vread self s b)"
proof -
  let ?ps = "if n = 0 then [] else [dst div 4096..<(dst + n - 1) div 4096 + 1]"
  have "p \<in> P" if p: "p \<in> set ?ps" for p
  proof (cases "p = dst div 4096")
    case True
    then show ?thesis using p in_pagesD [OF P, of dst] by (auto split: if_splits)
  next
    case False
    then have "dst div 4096 < p" "p \<le> (dst + n - 1) div 4096" "n \<noteq> 0" using p by (auto split: if_splits)
    then have "dst \<le> p * 4096" "p * 4096 < dst + n"
      by (auto simp: div_less_iff_less_mult less_eq_div_iff_mult_less_eq)
    then show ?thesis using in_pagesD [OF P, of "p * 4096"] by simp
  qed
  then have "each ?ps (\<lambda>p s. touch_page self (p * 4096) s) s = Ret () s" by (intro each_touch [OF o]) blast
  then show ?thesis
    using follows_user_bcopy [OF mem_follows [OF o P] refilled_refl, of src] fm.get_user_bcopy [OF apart, of "vread self s"]
    by (auto simp: ubcopy_def fun_eq_iff)
qed

end
