(* ===== verification/Fileprops.thy ===== *)
theory Fileprops
  imports Own
begin

text \<open>Reading and writing open files through their descriptors: user/fd.c over user/file.c.\<close>

text \<open>Descriptor \<open>i\<close> is an open file with its descriptor page among the program's own pages.\<close>

definition open_at :: "'a dev list \<Rightarrow> 'a client \<Rightarrow> nat set \<Rightarrow> nat \<Rightarrow> 'a vm_scheme \<Rightarrow> bool" where
  "open_at devtab c P i s \<longleftrightarrow> i < 32 \<and> tables_ok s \<and> own_pages (self_id c) P s \<and>
     INDEX2FD (int i) div 4096 \<in> P \<and> find (\<lambda>d. dev_id d = DEV_FILE) devtab = Some (devfile c) \<and>
     fd_dev_id (self_id c) (INDEX2FD (int i)) s = DEV_FILE"

abbreviation (input) data_va :: "nat \<Rightarrow> nat" where "data_va i \<equiv> INDEX2DATA (int i)"

lemma fd_page_at: "i < 32 \<Longrightarrow> k < 4096 \<Longrightarrow> (INDEX2FD (int i) + k) div 4096 = INDEX2FD (int i) div 4096"
  by (simp add: INDEX2FD_nat)

lemma tables_refilled: "refilled s t \<Longrightarrow> tables_ok t \<longleftrightarrow> tables_ok s"
  by (simp add: tables_ok_def refilled_fields)

lemma open_lookup_fd:
  assumes "open_at devtab c P i s"
  shows "fd_lookup (self_id c) (int i) s = (0, INDEX2FD (int i))"
proof -
  have "vpt s (self_id c) (INDEX2FD (int i) div 4096) \<noteq> None"
    using assms unfolding open_at_def own_pages_def by (metis option.distinct(1))
  then show ?thesis using assms by (auto simp: fd_lookup_def Let_def open_at_def fd_mapped_iff)
qed

lemma fields_of_fd: "fd_offset self fd s = ld64 (\<lambda>m. m) (vread self s) (fd + 8)"
  "fd_omode self fd s = ld32 (\<lambda>m. m) (vread self s) (fd + 16)" "fd_dev_id self fd s = ld32 (\<lambda>m. m) (vread self s) fd"
  "ffd_size self fd s = ld32 (\<lambda>m. m) (vread self s) (fd + 160)"
  by (simp_all add: fd_offset_def fd_omode_def fd_dev_id_def ffd_size_def ld64_def ld32_def ld16_def)

lemma offset_sets:
  assumes "own_pages self P s" and "in_pages P (fd + 8) 8"
  shows "\<exists>t. set_fd_offset self fd v s = Ret () t \<and> refilled s t \<and> fd_offset self fd t = v \<and>
    (\<forall>b. b < fd + 8 \<or> fd + 16 \<le> b \<longrightarrow> vread self t b = vread self s b)"
proof -
  obtain t where "ustore64 self (fd + 8) v s = Ret () t" "refilled s t" "vread self t = st64 fput (fd + 8) v (vread self s)"
    using mem_store64 [OF assms] by blast
  then show ?thesis by (auto simp: set_fd_offset_def fields_of_fd fm.ld64_st64 fm.get_st64)
qed

lemma advance_sets:
  assumes "own_pages self P s" and "in_pages P (fd + 8) 8" and "fd_offset self fd s = of_nat off"
  shows "\<exists>t. advance self fd (int k) s = Ret () t \<and> refilled s t \<and> fd_offset self fd t = of_nat (off + k) \<and>
    (\<forall>b. b < fd + 8 \<or> fd + 16 \<le> b \<longrightarrow> vread self t b = vread self s b)"
  using assms(3) offset_sets [OF assms(1,2), of "of_nat (off + k)"] by (cases "k = 0") (simp_all add: advance_def)

section \<open>Reading\<close>

text \<open>\<open>k\<close> bytes of the file from the position on are in the buffer, a 0 behind them, the position has moved on,
  and nothing else has changed.\<close>

definition took :: "u32 \<Rightarrow> nat \<Rightarrow> nat \<Rightarrow> nat \<Rightarrow> nat \<Rightarrow> 'a vm_scheme \<Rightarrow> 'a vm_scheme \<Rightarrow> bool" where
  "took self i off buf k s t \<longleftrightarrow> refilled s t \<and> fd_offset self (INDEX2FD (int i)) t = of_nat (off + k) \<and>
     (\<forall>j < k. vread self t (buf + j) = vread self s (data_va i + off + j)) \<and> vread self t (buf + k) = 0 \<and>
     (\<forall>b. (b < buf \<or> buf + k < b) \<and> (b < INDEX2FD (int i) + 8 \<or> INDEX2FD (int i) + 16 \<le> b) \<longrightarrow> vread self t b = vread self s b)"

lemma file_read_copies:
  assumes "own_pages (self_id c) P s" and "in_pages P buf n" and "off + n < 2 ^ 32" and "n < 2 ^ 31"
    and "fd = INDEX2FD (int i)" and "i < 32" and "sz = unat (ffd_size (self_id c) fd s)"
    and "buf + n \<le> data_va i \<or> data_va i + sz \<le> buf" and "k = min n (sz - off)"
  shows "\<exists>t. file_read c fd buf (of_nat n) (of_nat off) s = Ret (int k) t \<and> refilled s t \<and>
    vread (self_id c) t = (\<lambda>b. if buf \<le> b \<and> b < buf + k then vread (self_id c) s (data_va i + off + (b - buf)) else vread (self_id c) s b)"
proof -
  have off: "unat (of_nat off :: u32) = off" using assms(3) by (simp add: unat_of_nat take_bit_nat_eq_self_iff)
  have fdd: "fd2data fd = data_va i" using assms(5,6) by (simp add: fd2data_INDEX2FD INDEX2DATA_nat)
  show ?thesis
  proof (cases "off > sz")
    case True
    then have "(of_nat off :: u32) > ffd_size (self_id c) fd s" using off assms(7) by (simp add: word_less_nat_alt)
    then show ?thesis using True assms(9) by (auto simp: file_read_def fun_eq_iff)
  next
    case False
    let ?n = "if of_nat off + of_nat n > ffd_size (self_id c) fd s then ffd_size (self_id c) fd s - of_nat off else (of_nat n :: u32)"
    have sum: "unat (of_nat off + of_nat n :: u32) = off + n"
      using assms(3) by (simp add: unat_of_nat take_bit_nat_eq_self_iff flip: of_nat_add)
    have le: "(of_nat off :: u32) \<le> ffd_size (self_id c) fd s" using False off assms(7) by (simp add: word_le_nat_alt)
    have n: "unat ?n = k"
      using sum le off assms(3,7,9) by (auto simp: word_less_nat_alt unat_sub unat_of_nat take_bit_nat_eq_self_iff)
    have "sint ?n = int k"
      unfolding sint_uint uint_nat n using assms(4,9) by (intro signed_take_bit_int_eq_self) auto
    moreover have "in_pages P buf k" using in_pages_part [OF assms(2)] assms(9) by simp
    moreover have "data_va i + off + k \<le> buf \<or> buf + k \<le> data_va i + off" using assms(8,9) by auto
    ultimately show ?thesis
      using mem_copy [OF assms(1), of buf k "data_va i + off"] le n off fdd by (auto simp: file_read_def Let_def not_less)
  qed
qed

text \<open>A region apart from the descriptor's page and from the data of the file.\<close>

definition room :: "nat set \<Rightarrow> nat \<Rightarrow> nat \<Rightarrow> nat \<Rightarrow> nat \<Rightarrow> bool" where
  "room P i buf n sz \<longleftrightarrow> in_pages P buf n \<and> buf + n \<le> 2 ^ 63 \<and>
     (buf + n \<le> INDEX2FD (int i) \<or> INDEX2FD (int i) + 4096 \<le> buf) \<and> (buf + n \<le> data_va i \<or> data_va i + sz \<le> buf)"

lemma read_takes:
  assumes "open_at devtab c P i s" and "fd_omode (self_id c) (INDEX2FD (int i)) s AND O_ACCMODE \<noteq> O_WRONLY"
    and "fd_offset (self_id c) (INDEX2FD (int i)) s = of_nat off" and "off + n < 2 ^ 32" and "n < 2 ^ 31"
    and "sz = unat (ffd_size (self_id c) (INDEX2FD (int i)) s)" and "room P i buf (n + 1) sz"
  shows "\<exists>t. read devtab (self_id c) (int i) buf (of_nat n) s = Ret (int (min n (sz - off))) t \<and>
    took (self_id c) i off buf (min n (sz - off)) s t"
proof -
  let ?self = "self_id c" and ?fd = "INDEX2FD (int i)" and ?k = "min n (sz - off)"
  have own: "own_pages ?self P s" and i: "i < 32" and page: "in_pages P ?fd 4096"
    using assms(1) fd_page_at [of i] by (auto simp: open_at_def in_pages_def)
  have buf: "in_pages P buf n" "buf + n \<le> data_va i \<or> data_va i + sz \<le> buf" "buf + n < 2 ^ 64"
    using assms(7) in_pages_part [of P buf "n + 1" buf n] by (auto simp: room_def)
  obtain s1 where s1: "file_read c ?fd buf (of_nat n) (of_nat off) s = Ret (int ?k) s1" "refilled s s1"
    "vread ?self s1 = (\<lambda>b. if buf \<le> b \<and> b < buf + ?k then vread ?self s (data_va i + off + (b - buf)) else vread ?self s b)"
    using file_read_copies [OF own buf(1) assms(4,5) refl i assms(6) buf(2) refl] by blast
  have apart: "buf + n < ?fd \<or> ?fd + 4096 \<le> buf" using assms(7) by (auto simp: room_def)
  have "fd_offset ?self ?fd s1 = of_nat off"
    unfolding assms(3) [symmetric] fields_of_fd by (rule fm.ld64_cong) (use apart s1(3) in auto)
  then obtain s2 where s2: "advance ?self ?fd (int ?k) s1 = Ret () s2" "refilled s1 s2" "fd_offset ?self ?fd s2 = of_nat (off + ?k)"
    "\<forall>b. b < ?fd + 8 \<or> ?fd + 16 \<le> b \<longrightarrow> vread ?self s2 b = vread ?self s1 b"
    using advance_sets [of ?self P s1 ?fd off ?k] own_refilled [OF s1(2)] own in_pages_part [OF page, of "?fd + 8" 8] by auto
  have at: "addr64 (int buf + int ?k) = buf + ?k" using buf(3) by (simp add: addr64_def flip: of_nat_add)
  have "(buf + ?k) div 4096 \<in> P" using assms(7) in_pagesD [of P buf "n + 1"] by (simp add: room_def)
  then obtain t where t: "ustore ?self (buf + ?k) 0 s2 = Ret () t" "refilled s2 t" "vread ?self t = fput (buf + ?k) 0 (vread ?self s2)"
    using mem_store own_refilled [OF refilled_trans [OF s1(2) s2(2)]] own by blast
  have small: "ucast (of_nat n :: u64) = (of_nat n :: u32)" "ucast (of_nat off :: u64) = (of_nat off :: u32)"
    using assms(4) by (auto intro!: word_unat_eq_iff [THEN iffD2] simp: unat_of_nat take_bit_nat_eq_self_iff unsigned_ucast_eq)
  have "read devtab ?self (int i) buf (of_nat n) s = Ret (int ?k) t"
    using open_lookup_fd [OF assms(1)] assms(1-3) s1(1) s2(1) t(1)
    by (simp add: read_def dev_lookup_def open_at_def devfile_def small at)
  moreover have "took ?self i off buf ?k s t"
  proof -
    have "fd_offset ?self ?fd t = fd_offset ?self ?fd s2"
      unfolding fields_of_fd by (rule fm.ld64_cong) (use apart t(3) in \<open>auto simp: fput_def\<close>)
    moreover have "vread ?self t b = vread ?self s1 b" if "b < ?fd + 8 \<or> ?fd + 16 \<le> b" "b \<noteq> buf + ?k" for b
      using that s2(4) t(3) by (auto simp: fput_def)
    ultimately show ?thesis
      using refilled_trans [OF refilled_trans [OF s1(2) s2(2)] t(2)] s1(3) s2(3) t(3) apart unfolding took_def
      by (auto simp: fput_def)
  qed
  ultimately show ?thesis by blast
qed

section \<open>Writing\<close>

text \<open>\<open>n\<close> bytes of the buffer are in the file at the position, which has moved on, and nothing else has changed.\<close>

definition gave :: "u32 \<Rightarrow> nat \<Rightarrow> nat \<Rightarrow> nat \<Rightarrow> nat \<Rightarrow> 'a vm_scheme \<Rightarrow> 'a vm_scheme \<Rightarrow> bool" where
  "gave self i off buf n s t \<longleftrightarrow> refilled s t \<and> fd_offset self (INDEX2FD (int i)) t = of_nat (off + n) \<and>
     (\<forall>b. b < INDEX2FD (int i) + 8 \<or> INDEX2FD (int i) + 16 \<le> b \<longrightarrow> vread self t b =
       (if data_va i + off \<le> b \<and> b < data_va i + off + n then vread self s (buf + (b - (data_va i + off))) else vread self s b))"

lemma small_number: "k < 2 ^ 32 \<Longrightarrow> ucast (of_nat k :: u64) = (of_nat k :: u32)" "k < 2 ^ 32 \<Longrightarrow> unat (of_nat k :: u32) = k"
  by (auto intro!: word_unat_eq_iff [THEN iffD2] simp: unat_of_nat take_bit_nat_eq_self_iff unsigned_ucast_eq)

lemma write_gives:
  assumes "open_at devtab c P i s" and "fd_omode (self_id c) (INDEX2FD (int i)) s AND O_ACCMODE \<noteq> O_RDONLY"
    and "fd_offset (self_id c) (INDEX2FD (int i)) s = of_nat off" and "sz = unat (ffd_size (self_id c) (INDEX2FD (int i)) s)"
    and "off + n \<le> sz" and "off + n \<le> FILE_MAX" and "in_pages P (data_va i + off) n"
    and "buf + n \<le> data_va i \<or> data_va i + sz \<le> buf"
  shows "\<exists>t. write_fd devtab (self_id c) (int i) buf (of_nat n) s = Ret (int n) t \<and> gave (self_id c) i off buf n s t"
proof -
  let ?self = "self_id c" and ?fd = "INDEX2FD (int i)" and ?d = "data_va i + off"
  have own: "own_pages ?self P s" and i: "i < 32" and page: "in_pages P (?fd + 8) 8"
    using assms(1) fd_page_at [of i] by (auto simp: open_at_def in_pages_def add.assoc)
  have fdd: "fd2data ?fd = data_va i" using i by (simp add: fd2data_INDEX2FD INDEX2DATA_nat)
  have tot: "unat (of_nat off + of_nat n :: u32) = off + n" "unat (of_nat off :: u32) = off" "unat (of_nat n :: u32) = n"
    using small_number(2) [of "off + n"] small_number(2) [of off] small_number(2) [of n] assms(6) by simp_all
  then have le: "\<not> of_nat off + of_nat n > ffd_size ?self ?fd s" using assms(4,5) by (simp add: word_less_nat_alt)
  have sn: "sint (of_nat n :: u32) = int n"
    unfolding sint_uint uint_nat tot(3) using assms(6) by (intro signed_take_bit_int_eq_self) auto
  obtain s1 where s1: "ubcopy ?self buf ?d n s = Ret () s1" "refilled s s1"
    "vread ?self s1 = (\<lambda>b. if ?d \<le> b \<and> b < ?d + n then vread ?self s (buf + (b - ?d)) else vread ?self s b)"
    using mem_copy [OF own assms(7), of buf] assms(5,8) by auto
  have w: "file_write c ?fd buf (of_nat n) (of_nat off) s = Ret (int n) s1"
    using s1(1) tot le assms(6) by (simp add: file_write_def fdd sn)
  have below: "?fd + 4096 \<le> ?d" using i by (simp add: INDEX2FD_nat INDEX2DATA_nat)
  have "fd_offset ?self ?fd s1 = of_nat off"
    unfolding assms(3) [symmetric] fields_of_fd by (rule fm.ld64_cong) (use below s1(3) in auto)
  then obtain t where t: "advance ?self ?fd (int n) s1 = Ret () t" "refilled s1 t" "fd_offset ?self ?fd t = of_nat (off + n)"
    "\<forall>b. b < ?fd + 8 \<or> ?fd + 16 \<le> b \<longrightarrow> vread ?self t b = vread ?self s1 b"
    using advance_sets [of ?self P s1 ?fd off n] own_refilled [OF s1(2)] own page by auto
  have "write_fd devtab ?self (int i) buf (of_nat n) s = Ret (int n) t"
    using open_lookup_fd [OF assms(1)] assms(1-3,6) w t(1) small_number(1) [of n] small_number(1) [of off]
    by (simp add: write_fd_def dev_lookup_def open_at_def devfile_def)
  then show ?thesis using refilled_trans [OF s1(2) t(2)] t(3,4) s1(3) unfolding gave_def by auto
qed

section \<open>Both\<close>

lemma gave_open:
  assumes "gave (self_id c) i off buf n s t" and "open_at devtab c P i s"
  shows "open_at devtab c P i t" and "fd_omode (self_id c) (INDEX2FD (int i)) t = fd_omode (self_id c) (INDEX2FD (int i)) s"
    and "ffd_size (self_id c) (INDEX2FD (int i)) t = ffd_size (self_id c) (INDEX2FD (int i)) s"
proof -
  let ?self = "self_id c" and ?fd = "INDEX2FD (int i)"
  have "?fd + 4096 \<le> data_va i" using assms(2) by (simp add: open_at_def INDEX2FD_nat INDEX2DATA_nat)
  then have same: "vread ?self t b = vread ?self s b" if "?fd \<le> b" "b < ?fd + 4096" "b < ?fd + 8 \<or> ?fd + 16 \<le> b" for b
    using that assms(1) by (auto simp: gave_def)
  have "fd_dev_id ?self ?fd t = fd_dev_id ?self ?fd s"
    unfolding fields_of_fd by (rule fm.ld32_cong, rule same, simp_all)
  moreover have r: "refilled s t" using assms(1) by (simp add: gave_def)
  ultimately show "open_at devtab c P i t"
    using assms(2) own_refilled [OF r] tables_refilled [OF r] by (simp add: open_at_def)
  show "fd_omode ?self ?fd t = fd_omode ?self ?fd s" "ffd_size ?self ?fd t = ffd_size ?self ?fd s"
    unfolding fields_of_fd by (rule fm.ld32_cong, rule same, simp_all)+
qed

lemma seek_sets:
  assumes "open_at devtab c P i s"
  shows "\<exists>t. seek (self_id c) (int i) v s = Ret 0 t \<and> refilled s t \<and> fd_offset (self_id c) (INDEX2FD (int i)) t = v \<and>
    (\<forall>b. b < INDEX2FD (int i) + 8 \<or> INDEX2FD (int i) + 16 \<le> b \<longrightarrow> vread (self_id c) t b = vread (self_id c) s b)"
proof -
  have "own_pages (self_id c) P s" "in_pages P (INDEX2FD (int i) + 8) 8"
    using assms fd_page_at [of i] by (auto simp: open_at_def in_pages_def add.assoc)
  from offset_sets [OF this, of v] show ?thesis
    using open_lookup_fd [OF assms] by (auto simp: seek_def)
qed

text \<open>C36: what is written to an open file is read back from it. Within the size of the file, \<open>write\<close> of \<open>n\<close> bytes,
  \<open>seek\<close> back to where they went and \<open>read\<close> of \<open>n\<close> bytes all succeed in full and bring the bytes into the other
  buffer; the position is behind them again.\<close>

theorem file_write_read_roundtrip:
  assumes "open_at devtab c P i s" and "fd_omode (self_id c) (INDEX2FD (int i)) s AND O_ACCMODE = 2"
    and "fd_offset (self_id c) (INDEX2FD (int i)) s = of_nat off" and "sz = unat (ffd_size (self_id c) (INDEX2FD (int i)) s)"
    and "off + n \<le> sz" and "off + n \<le> FILE_MAX" and "in_pages P (data_va i + off) n"
    and "buf + n \<le> data_va i \<or> data_va i + sz \<le> buf" and "room P i buf' (n + 1) sz"
  shows "\<exists>t u v. write_fd devtab (self_id c) (int i) buf (of_nat n) s = Ret (int n) t \<and>
    seek (self_id c) (int i) (of_nat off) t = Ret 0 u \<and> read devtab (self_id c) (int i) buf' (of_nat n) u = Ret (int n) v \<and>
    (\<forall>j < n. vread (self_id c) v (buf' + j) = vread (self_id c) s (buf + j)) \<and>
    fd_offset (self_id c) (INDEX2FD (int i)) v = of_nat (off + n)"
proof -
  let ?self = "self_id c" and ?fd = "INDEX2FD (int i)"
  obtain t where t: "write_fd devtab ?self (int i) buf (of_nat n) s = Ret (int n) t" "gave ?self i off buf n s t"
    using write_gives [OF assms(1) _ assms(3-8)] assms(2) by auto
  note o = gave_open [OF t(2) assms(1)]
  obtain u where u: "seek ?self (int i) (of_nat off) t = Ret 0 u" "refilled t u" "fd_offset ?self ?fd u = of_nat off"
    "\<And>b. b < ?fd + 8 \<or> ?fd + 16 \<le> b \<Longrightarrow> vread ?self u b = vread ?self t b"
    using seek_sets [OF o(1), of "of_nat off"] by blast
  have fields: "fd_dev_id ?self ?fd u = fd_dev_id ?self ?fd t" "fd_omode ?self ?fd u = fd_omode ?self ?fd t"
    "ffd_size ?self ?fd u = ffd_size ?self ?fd t"
    unfolding fields_of_fd by (rule fm.ld32_cong, rule u(4), simp)+
  then have ou: "open_at devtab c P i u" using o(1) own_refilled [OF u(2)] tables_refilled [OF u(2)] by (simp add: open_at_def)
  obtain v where v: "read devtab ?self (int i) buf' (of_nat n) u = Ret (int n) v" "took ?self i off buf' n u v"
    using read_takes [OF ou _ u(3), of n sz buf'] assms(2,4-6,9) fields o by auto
  have "vread ?self v (buf' + j) = vread ?self s (buf + j)" if "j < n" for j
  proof -
    have "?fd + 16 \<le> data_va i + off + j" using assms(1) by (simp add: open_at_def INDEX2FD_nat INDEX2DATA_nat)
    then show ?thesis using v(2) u(4) t(2) that by (simp add: took_def gave_def)
  qed
  then show ?thesis using t(1) u(1) v by (auto simp: took_def)
qed

end
