(* ===== verification/Progs.thy ===== *)
theory Progs
  imports File Console Printf Env
begin

text \<open>
  Programs of the user: user/cat.c, user/echo.c, user/touch.c, user/mkdir.c, user/ls.c, the frame user/libos.c they
  run in, the first programs user/init.c and user/icode.c, and what they print with, user/fprintf.c and user/cursor.c. The arguments of a program are the pointers of
  \<open>argv\<close>; \<open>exit\<close> is \<open>Eret\<close>.
\<close>

definition chars :: "string \<Rightarrow> u8 list" where "chars = map of_char"

abbreviation (input) FTYPE_REG :: u32 where "FTYPE_REG \<equiv> 0"
abbreviation (input) FTYPE_DIR :: u32 where "FTYPE_DIR \<equiv> 1"

section \<open>Printing\<close>

fun on_terminal :: "terminal \<Rightarrow> (unit, u8 list) outcome \<Rightarrow> unit tres" where
  "on_terminal s (Ret _ con) = Ret () (s\<lparr>shown := con\<rparr>)"
| "on_terminal s (Eret con) = Eret (s\<lparr>shown := con\<rparr>)"
| "on_terminal s (Panic m con) = Panic m (s\<lparr>shown := con\<rparr>)"
| "on_terminal s Hang = Hang"

definition say :: "string \<Rightarrow> arg list \<Rightarrow> terminal \<Rightarrow> unit tres" where
  "say fmt va s = on_terminal s (writef (chars fmt) va (shown s))"

definition die :: "string \<Rightarrow> u32 \<Rightarrow> string \<Rightarrow> arg list \<Rightarrow> terminal \<Rightarrow> 'b tres" where
  "die file line fmt va s =
    (case on_terminal s (user_panic (chars file) line (chars fmt) va (shown s)) of
       Ret _ s \<Rightarrow> Panic ''user_panic'' s | Eret s \<Rightarrow> Eret s | Panic m s \<Rightarrow> Panic m s | Hang \<Rightarrow> Hang)"

text \<open>A string in memory as an argument.\<close>

definition with_string :: "u32 \<Rightarrow> nat \<Rightarrow> (u8 list \<Rightarrow> terminal \<Rightarrow> 'b tres) \<Rightarrow> terminal \<Rightarrow> 'b tres" where
  "with_string self p f s =
    (case strlen (\<lambda>s. vread self s) p s of
       None \<Rightarrow> Hang
     | Some n \<Rightarrow> f (map (\<lambda>i. vread self s (p + i)) [0..<n]) s)"

text \<open>\<open>fwritef\<close> collects the text in 512 bytes at \<open>at\<close> on its stack; a longer one runs over its return address.\<close>

definition collected :: "printed \<Rightarrow> u8 list" where
  "collected out = concat (filter (\<lambda>x. x \<noteq> [0]) out)"

definition fwritef :: "unit terminal_ext dev list \<Rightarrow> u32 \<Rightarrow> nat \<Rightarrow> int \<Rightarrow> u8 list \<Rightarrow> arg list \<Rightarrow> terminal \<Rightarrow> int tres" where
  "fwritef devtab self at fd fmt va s =
    obind (each [0..<512] (\<lambda>i s. ustore self (at + i) 0 s) s) (\<lambda>_ s.
      case user_lp_Print fmt va [] of
        Ret _ out \<Rightarrow>
          (let text = collected out in
           if length text \<ge> 512 then Panic ''stack'' s
           else obind (each [0..<length text] (\<lambda>i s. ustore self (at + i) (text ! i) s) s) (\<lambda>_ s.
             obind (ustore self (at + length text) 0 s) (\<lambda>_ s.
               case strlen (\<lambda>s. vread self s) at s of
                 None \<Rightarrow> Hang
               | Some n \<Rightarrow> write_fd devtab self fd at (of_nat n) s)))
      | Eret _ \<Rightarrow> Eret s | Panic m _ \<Rightarrow> Panic m s | Hang \<Rightarrow> Hang)"

abbreviation (input) put :: "unit terminal_ext dev list \<Rightarrow> u32 \<Rightarrow> nat \<Rightarrow> string \<Rightarrow> arg list \<Rightarrow> terminal \<Rightarrow> unit tres" where
  "put devtab self at fmt va s \<equiv> obind (fwritef devtab self at 1 (chars fmt) va s) (\<lambda>_ s. Ret () s)"

definition cursor :: "u32 \<Rightarrow> nat \<Rightarrow> int \<Rightarrow> terminal \<Rightarrow> unit tres" where
  "cursor self p n s =
    (let c = vread self s p; esc = (\<lambda>k. on_terminal s (writef ([27, 91, 37, 100] @ chars [k]) [Num (of_int n)] (shown s))) in
     if c = of_char CHR ''U'' then esc CHR ''A''
     else if c = of_char CHR ''D'' then esc CHR ''B''
     else if c = of_char CHR ''R'' then esc CHR ''C''
     else if c = of_char CHR ''L'' then esc CHR ''D''
     else if c = of_char CHR ''C'' then on_terminal s (writef [27, 91, 75] [] (shown s))
     else die ''cursor.c'' 21 ''error!!!\<newline>'' [] s)"

section \<open>Options (include/args.h)\<close>

partial_function (option) option_chars :: "u32 \<Rightarrow> (u8 \<Rightarrow> 'o \<Rightarrow> terminal \<Rightarrow> 'o tres) \<Rightarrow> nat \<Rightarrow> 'o \<Rightarrow> terminal \<Rightarrow> 'o tres option" where
  "option_chars self h p x s =
    (if vread self s p = 0 then Some (Ret x s)
     else case h (vread self s p) x s of
       Ret x s \<Rightarrow> option_chars self h (p + 1) x s
     | Eret s \<Rightarrow> Some (Eret s) | Panic m s \<Rightarrow> Some (Panic m s) | Hang \<Rightarrow> Some Hang)"

text \<open>The result is what the options set and what follows them; a lone \<open>--\<close> ends them.\<close>

fun options :: "u32 \<Rightarrow> (u8 \<Rightarrow> 'o \<Rightarrow> terminal \<Rightarrow> 'o tres) \<Rightarrow> nat list \<Rightarrow> 'o \<Rightarrow> terminal \<Rightarrow> ('o \<times> nat list) tres" where
  "options self h [] x s = Ret (x, []) s"
| "options self h (p # ps) x s =
    (if vread self s p = 45 \<and> vread self s (p + 1) \<noteq> 0 then
       (if vread self s (p + 1) = 45 \<and> vread self s (p + 2) = 0 then Ret (x, ps) s
        else obind (of_opt (option_chars self h (p + 1) x s)) (\<lambda>x s. options self h ps x s))
     else Ret (x, p # ps) s)"

abbreviation (input) no_options :: "u8 \<Rightarrow> unit \<Rightarrow> terminal \<Rightarrow> unit tres" where
  "no_options c x s \<equiv> Ret () s"

fun for_each :: "nat list \<Rightarrow> (nat \<Rightarrow> terminal \<Rightarrow> unit tres) \<Rightarrow> terminal \<Rightarrow> unit tres" where
  "for_each [] f s = Ret () s"
| "for_each (x # xs) f s = obind (f x s) (\<lambda>_ s. for_each xs f s)"

section \<open>cat\<close>

text \<open>The buffer of 127 bytes is at \<open>buf\<close>, the name of the file at \<open>p\<close>.\<close>

partial_function (option) cat :: "unit terminal_ext dev list \<Rightarrow> u32 \<Rightarrow> nat \<Rightarrow> int \<Rightarrow> nat \<Rightarrow> terminal \<Rightarrow> unit tres option" where
  "cat devtab self buf f p s =
    (case read devtab self f buf 127 s of
       Ret n s \<Rightarrow>
         if n > 0 then
           (case write_fd devtab self 1 buf (of_int n) s of
              Ret r s \<Rightarrow>
                if r \<noteq> n then Some (with_string self p (\<lambda>name s.
                  obind (say ''write error copying %s: %d'' [Str name, Num (of_int n)] s) (\<lambda>_ s. Eret s)) s)
                else cat devtab self buf f p s
            | Eret s \<Rightarrow> Some (Eret s) | Panic m s \<Rightarrow> Some (Panic m s) | Hang \<Rightarrow> Some Hang)
         else if n < 0 then Some (with_string self p (\<lambda>name s.
           obind (say ''error reading %s: %d\<newline>'' [Str name, Num (of_int n)] s) (\<lambda>_ s. Eret s)) s)
         else Some (Ret () s)
     | Eret s \<Rightarrow> Some (Eret s) | Panic m s \<Rightarrow> Some (Panic m s) | Hang \<Rightarrow> Some Hang)"

definition cat_umain where
  "cat_umain devtab c buf stdin_name argv s =
    (let self = self_id c in
     if length argv = 1 then of_opt (cat devtab self buf 0 stdin_name s)
     else for_each (tl argv) (\<lambda>p s.
       obind (open_file c p O_RDONLY s) (\<lambda>f s.
         if f < 0 then with_string self p (\<lambda>name s.
           obind (say ''can't open %s: %d'' [Str name, Num (of_int f)] s) (\<lambda>_ s. Eret s)) s
         else obind (of_opt (cat devtab self buf f p s)) (\<lambda>_ s.
           obind (close devtab self f s) (\<lambda>_ s. Ret () s)))) s)"

section \<open>echo, touch, mkdir\<close>

text \<open>Each argument is itself the format it is printed with.\<close>

definition echo_umain where
  "echo_umain devtab self at argv s =
    obind (options self no_options (tl argv) () s) (\<lambda>(_, argv) s.
      for_each argv (\<lambda>p s. with_string self p (\<lambda>fmt s.
        obind (fwritef devtab self at 1 fmt [] s) (\<lambda>_ s. put devtab self at ''\<newline>'' [] s)) s) s)"

definition touch_usage where
  "touch_usage devtab self at code p s =
    (if code = (- 2 :: int) then with_string self p (\<lambda>name s. put devtab self at ''file can't create for path: %s\<newline>'' [Str name] s) s
     else obind (if code = - 1 then put devtab self at ''touch: missing file operand\<newline>'' [] s else Ret () s) (\<lambda>_ s. Eret s))"

definition touch :: "unit terminal_ext dev list \<Rightarrow> unit terminal_ext client \<Rightarrow> nat \<Rightarrow> nat \<Rightarrow> terminal \<Rightarrow> unit tres" where
  "touch devtab c at p s =
    obind (open_file c p O_RDONLY s) (\<lambda>fd s.
      if fd \<ge> 0 then Ret () s
      else obind (create c p FTYPE_REG s) (\<lambda>r s.
        if r < 0 then touch_usage devtab (self_id c) at (- 2) p s else Ret () s))"

definition touch_umain where
  "touch_umain devtab c at argv s =
    obind (options (self_id c) no_options (tl argv) () s) (\<lambda>(_, argv) s.
      if argv = [] then touch_usage devtab (self_id c) at (- 1) 0 s else for_each argv (touch devtab c at) s)"

definition mkdir_usage where
  "mkdir_usage devtab self at code p s =
    (if code = (- 2 :: int) then with_string self p (\<lambda>name s. put devtab self at ''directory can't create at path: %s\<newline>'' [Str name] s) s
     else obind (if code = - 1 then put devtab self at ''mkdir: missing operand\<newline>'' [] s else Ret () s) (\<lambda>_ s. Eret s))"

text \<open>\<open>file\<close> is the pointer the program never sets: the address of the descriptor goes there, and the type is read
  from behind it.\<close>

definition mkdir :: "unit terminal_ext dev list \<Rightarrow> unit terminal_ext client \<Rightarrow> nat \<Rightarrow> nat \<Rightarrow> nat \<Rightarrow> terminal \<Rightarrow> unit tres" where
  "mkdir devtab c at file p s =
    (let self = self_id c in
     obind (open_file c p O_RDONLY s) (\<lambda>fd s.
       if fd \<ge> 0 then
         (case fd_lookup self fd s of (r, va) \<Rightarrow>
           obind (if r = 0 then ustore64 self file (of_nat va) s else Ret () s) (\<lambda>_ s.
             if r \<noteq> 0 then die ''mkdir.c'' 10 ''assertion failed: %s'' [Str (chars ''r == 0'')] s
             else if ld32 (\<lambda>s. vread self s) s (file + 132) = FTYPE_REG then
               with_string self p (\<lambda>name s. obind (put devtab self at ''file exist at path: %s\<newline>'' [Str name] s) (\<lambda>_ s. Eret s)) s
             else Ret () s))
       else obind (create c p FTYPE_DIR s) (\<lambda>r s.
         if r < 0 then mkdir_usage devtab self at (- 2) p s else Ret () s)))"

definition mkdir_umain where
  "mkdir_umain devtab c at file argv s =
    obind (options (self_id c) no_options (tl argv) () s) (\<lambda>(_, argv) s.
      if argv = [] then mkdir_usage devtab (self_id c) at (- 1) 0 s else for_each argv (mkdir devtab c at file) s)"

section \<open>ls\<close>

text \<open>The options \<open>d\<close>, \<open>F\<close> and \<open>l\<close> count how often they were given.\<close>

type_synonym lsflags = "char \<Rightarrow> nat"

record ls_places =
  out_at :: nat
  stat_at :: nat
  file_at :: nat
  dev_addr :: "u32 \<Rightarrow> u64"

definition ls_write :: "unit terminal_ext dev list \<Rightarrow> u32 \<Rightarrow> nat \<Rightarrow> lsflags \<Rightarrow> nat option \<Rightarrow> bool \<Rightarrow> u64 \<Rightarrow> nat \<Rightarrow> terminal \<Rightarrow> unit tres" where
  "ls_write devtab self at flag prefix isdir sz name s =
    obind (if flag CHR ''l'' \<noteq> 0
           then put devtab self at ''%11d %c '' [Num sz, Num (if isdir then of_char CHR ''d'' else of_char CHR ''-'')] s
           else Ret () s) (\<lambda>_ s.
    obind (case prefix of
             None \<Rightarrow> Ret () s
           | Some p \<Rightarrow> with_string self p (\<lambda>pre s.
               put devtab self at ''%s%s'' [Str pre, Str (if pre \<noteq> [] \<and> last pre \<noteq> 47 then [47] else [])] s) s) (\<lambda>_ s.
    obind (with_string self name (\<lambda>n s. put devtab self at ''%s'' [Str n] s) s) (\<lambda>_ s.
    obind (if flag CHR ''F'' \<noteq> 0 \<and> isdir then put devtab self at ''/'' [] s else Ret () s) (\<lambda>_ s.
    put devtab self at '' '' [] s))))"

text \<open>A directory is read entry by entry; an entry without a name is free.\<close>

partial_function (option) ls_entries ::
    "unit terminal_ext dev list \<Rightarrow> u32 \<Rightarrow> ls_places \<Rightarrow> lsflags \<Rightarrow> nat \<Rightarrow> int \<Rightarrow> terminal \<Rightarrow> int tres option" where
  "ls_entries devtab self pl flag prefix fd s =
    (case readn devtab self fd (file_at pl) 256 s of
       Ret n s \<Rightarrow>
         if n \<noteq> 256 then Some (Ret n s)
         else (case (if vread self s (file_at pl) \<noteq> 0 then
                 ls_write devtab self (out_at pl) flag (Some prefix) (ld32 (\<lambda>s. vread self s) s (file_at pl + 132) = FTYPE_DIR)
                   (ucast (ld32 (\<lambda>s. vread self s) s (file_at pl + 128))) (file_at pl) s
               else Ret () s) of
           Ret _ s \<Rightarrow> ls_entries devtab self pl flag prefix fd s
         | Eret s \<Rightarrow> Some (Eret s) | Panic m s \<Rightarrow> Some (Panic m s) | Hang \<Rightarrow> Some Hang)
     | r \<Rightarrow> Some r)"

definition lsdir where
  "lsdir devtab c pl flag path prefix s =
    obind (open_file c path O_RDONLY s) (\<lambda>fd s.
      if fd < 0 then with_string (self_id c) path (\<lambda>name s. die ''ls.c'' 26 ''open %s: %e'' [Str name, Num (of_int fd)] s) s
      else obind (of_opt (ls_entries devtab (self_id c) pl flag prefix fd s)) (\<lambda>n s.
        if n > 0 then with_string (self_id c) path (\<lambda>name s. die ''ls.c'' 34 ''short read in directory %s'' [Str name] s) s
        else if n < 0 then with_string (self_id c) path (\<lambda>name s.
          die ''ls.c'' 36 ''error reading directory %s: %e'' [Str name, Num (of_int n)] s) s
        else Ret () s))"

definition ls where
  "ls devtab c pl flag path prefix s =
    (let self = self_id c; st = stat_at pl in
     obind (stat devtab (dev_addr pl) (open_file c) self path st s) (\<lambda>r s.
       if r < 0 then with_string self path (\<lambda>name s. die ''ls.c'' 14 ''stat %s: %e'' [Str name, Num (of_int r)] s) s
       else let isdir = (ld32 (\<lambda>s. vread self s) s (st + 132) \<noteq> 0) in
         if isdir \<and> flag CHR ''d'' = 0 then lsdir devtab c pl flag path prefix s
         else ls_write devtab self (out_at pl) flag None isdir (ucast (ld32 (\<lambda>s. vread self s) s (st + 128))) path s))"

definition ls_usage where
  "ls_usage devtab self at s = obind (put devtab self at ''usage: ls [-dFl] [file...]\<newline>'' [] s) (\<lambda>_ s. Eret s)"

definition ls_option where
  "ls_option devtab self at c flag s =
    (if c \<in> of_char ` {CHR ''d'', CHR ''F'', CHR ''l''}
     then Ret (\<lambda>k. if of_char k = c then flag k + 1 else flag k) s else ls_usage devtab self at s)"

definition ls_umain where
  "ls_umain devtab c pl root nothing argv s =
    obind (options (self_id c) (ls_option devtab (self_id c) (out_at pl)) (tl argv) (\<lambda>_. 0 :: nat) s) (\<lambda>(flag, argv) s.
      if argv = [] then
        obind (ls devtab c pl flag root nothing s) (\<lambda>_ s. put devtab (self_id c) (out_at pl) ''\<newline>'' [] s)
      else for_each argv (\<lambda>p s.
        obind (ls devtab c pl flag p p s) (\<lambda>_ s. put devtab (self_id c) (out_at pl) ''\<newline>'' [] s)) s)"

section \<open>init and icode\<close>

text \<open>Multiplication by repeated addition, and the exclusive or of the products of index and byte.\<close>

fun MY_MUL :: "u32 \<Rightarrow> nat \<Rightarrow> u32" where
  "MY_MUL a 0 = 0"
| "MY_MUL a (Suc b) = MY_MUL a b + a"

definition init_sum :: "(nat \<Rightarrow> u8) \<Rightarrow> nat \<Rightarrow> u32" where
  "init_sum m n = fold (\<lambda>i tot. tot XOR MY_MUL (of_nat i) (unat (m i))) [0..<n] 0"

lemma MY_MUL_times: "MY_MUL a b = a * of_nat b"
  by (induction b) (simp_all add: algebra_simps)

text \<open>\<open>umain\<close> of init: the checksums of \<open>data\<close> and \<open>bss\<close>, the console, and one shell after the other. Starting a program
  and waiting for it are arguments; so are the addresses of the two arrays and of the text written.\<close>

record starter =
  st_spawnl :: "string \<Rightarrow> string list \<Rightarrow> terminal \<Rightarrow> int tres"
  st_wait :: "int \<Rightarrow> terminal \<Rightarrow> unit tres"

definition init_check :: "u32 \<Rightarrow> nat \<Rightarrow> nat \<Rightarrow> terminal \<Rightarrow> unit tres" where
  "init_check self data bss s =
    obind (say ''init: running\<newline>'' [] s) (\<lambda>_ s.
    obind (let x = init_sum (\<lambda>i. vread self s (data + i)) 6000 in
      if x \<noteq> 0xf989e then say ''init: data is not initialized: got sum %08x wanted %08x\<newline>'' [Num (ucast x), Num 0xf989e] s
      else say ''init: data seems okay\<newline>'' [] s) (\<lambda>_ s.
    let x = init_sum (\<lambda>i. vread self s (bss + i)) 6000 in
      if x \<noteq> 0 then say ''bss is not initialized: wanted sum 0 got %08x\<newline>'' [Num (ucast x)] s
      else say ''init: bss seems okay\<newline>'' [] s))"

partial_function (option) init_loop :: "starter \<Rightarrow> terminal \<Rightarrow> unit tres option" where
  "init_loop st s =
    (case obind (say ''init: starting sh\<newline>'' [] s) (\<lambda>_ s.
          obind (st_spawnl st ''sh.b'' [''sh''] s) (\<lambda>r s.
            if r < 0 then say ''init: spawn sh: %e\<newline>'' [Num (of_int r)] s else st_wait st r s)) of
       Ret _ s \<Rightarrow> init_loop st s
     | r \<Rightarrow> Some r)"

definition init_umain where
  "init_umain devtab self st data bss lala argv s =
    obind (init_check self data bss s) (\<lambda>_ s.
    obind (say ''init: args:'' [] s) (\<lambda>_ s.
    obind (say ''argc: %d\<newline>'' [Num (of_nat (length argv))] s) (\<lambda>_ s.
    obind (for_each argv (\<lambda>p s. with_string self p (\<lambda>a s.
      say ('' '' @ [CHR 0x27] @ ''%s'' @ [CHR 0x27]) [Str a] s) s) s) (\<lambda>_ s.
    obind (say ''\<newline>'' [] s) (\<lambda>_ s.
    obind (say ''init: running sh\<newline>'' [] s) (\<lambda>_ s.
    obind (close devtab self 0 s) (\<lambda>_ s.
    obind (opencons self s) (\<lambda>r s.
      if r < 0 then die ''init.c'' 61 ''opencons: %e'' [Num (of_int r)] s
      else if r \<noteq> 0 then die ''init.c'' 63 ''first opencons used fd %d'' [Num (of_int r)] s
      else obind (dup devtab self 0 1 s) (\<lambda>r s.
        if r < 0 then die ''init.c'' 65 ''dup: %d'' [Num (of_int r)] s
        else obind (write_fd devtab self 1 lala 4 s) (\<lambda>_ s. of_opt (init_loop st s)))))))))))"

text \<open>icode prints the message of the day, 512 bytes at a time up to the first 0 among them, and starts init.\<close>

partial_function (option) icode_loop :: "unit terminal_ext dev list \<Rightarrow> u32 \<Rightarrow> nat \<Rightarrow> int \<Rightarrow> terminal \<Rightarrow> unit tres option" where
  "icode_loop devtab self buf fd s =
    (case read devtab self fd buf 512 s of
       Ret n s \<Rightarrow>
         if n \<le> 0 then Some (Ret () s)
         else (case obind (ustore self (addr64 (int buf + n)) 0 s) (\<lambda>_ s.
             with_string self buf (\<lambda>t s. say ''%s\<newline>'' [Str t] s) s) of
           Ret _ s \<Rightarrow> icode_loop devtab self buf fd s
         | r \<Rightarrow> Some r)
     | Eret s \<Rightarrow> Some (Eret s) | Panic m s \<Rightarrow> Some (Panic m s) | Hang \<Rightarrow> Some Hang)"

definition icode_umain where
  "icode_umain devtab c st motd buf s =
    (let self = self_id c in
     obind (say ''icode: open /motd\<newline>'' [] s) (\<lambda>_ s.
     obind (open_file c motd O_RDONLY s) (\<lambda>fd s.
       if fd < 0 then die ''icode.c'' 11 ''icode: open /motd: %d'' [Num (of_int fd)] s
       else obind (say ''icode: read /motd\<newline>'' [] s) (\<lambda>_ s.
         obind (of_opt (icode_loop devtab self buf fd s)) (\<lambda>_ s.
         obind (say ''icode: close /motd\<newline>'' [] s) (\<lambda>_ s.
         obind (say ''icode: spawn /init\<newline>'' [] s) (\<lambda>_ s.
         obind (st_spawnl st ''init.b'' [''init'', ''initarg1'', ''initarg2''] s) (\<lambda>r s.
           if r < 0 then die ''icode.c'' 23 ''icode: spawn /init: %e'' [Num (of_int r)] s
           else say ''icode: exiting\<newline>'' [] s))))))))"

section \<open>Around a program (user/libos.c, user/wait.c)\<close>

text \<open>\<open>umain\<close> gets what \<open>user_envid\<close> and the index of \<open>env\<close> are set to.\<close>

definition libmain where
  "libmain getenvid umain argv s =
    (let envid = getenvid :: u32 in obind (umain envid (ENVX envid) argv s) (\<lambda>_ s. Eret s))"

text \<open>\<open>look k\<close> is the identifier and whether it is in use that the entry shows at the look \<open>k\<close>.\<close>

partial_function (option) wait_env :: "(nat \<Rightarrow> u32 \<times> bool) \<Rightarrow> u32 \<Rightarrow> nat \<Rightarrow> nat option" where
  "wait_env look envid k = (if fst (look k) = envid \<and> snd (look k) then wait_env look envid (k + 1) else Some k)"

end
