(* ===== verification/Progprops.thy ===== *)
theory Progprops
  imports Fileprops Progs
begin

text \<open>What \<open>cat\<close> shows of a file.\<close>

definition console_at :: "unit terminal_ext dev list \<Rightarrow> u32 \<Rightarrow> nat set \<Rightarrow> terminal \<Rightarrow> bool" where
  "console_at devtab self P s \<longleftrightarrow> tables_ok s \<and> own_pages self P s \<and> INDEX2FD 1 div 4096 \<in> P \<and>
     find (\<lambda>d. dev_id d = DEV_CONS) devtab = Some (devcons self) \<and> fd_dev_id self (INDEX2FD 1) s = DEV_CONS \<and>
     fd_omode self (INDEX2FD 1) s AND O_ACCMODE \<noteq> O_RDONLY"

text \<open>Nothing but the buffer and the positions of the two descriptors has changed in memory.\<close>

definition undisturbed :: "u32 \<Rightarrow> nat \<Rightarrow> nat \<Rightarrow> terminal \<Rightarrow> terminal \<Rightarrow> bool" where
  "undisturbed self i buf s t \<longleftrightarrow> vpt t = vpt s \<and> vpd t = vpd s \<and> vpm t = vpm s \<and>
     (\<forall>b. (b < buf \<or> buf + 128 \<le> b) \<and> (b < INDEX2FD (int i) + 8 \<or> INDEX2FD (int i) + 16 \<le> b) \<and>
       (b < INDEX2FD 1 + 8 \<or> INDEX2FD 1 + 16 \<le> b) \<longrightarrow> vread self t b = vread self s b)"

lemma console_lookup:
  assumes "console_at devtab self P s"
  shows "fd_lookup self 1 s = (0, INDEX2FD 1)"
proof -
  have "vpt s self (INDEX2FD 1 div 4096) \<noteq> None"
    using assms unfolding console_at_def own_pages_def by (metis option.distinct(1))
  then show ?thesis using assms by (auto simp: fd_lookup_def Let_def console_at_def fd_mapped_iff)
qed

lemma write_shows:
  assumes "console_at devtab self P s" and "k \<le> 127"
  shows "\<exists>t. write_fd devtab self 1 buf (of_nat k) s = Ret (int k) t \<and>
    shown t = shown s @ map (\<lambda>j. vread self s (buf + j)) [0..<k] \<and> vpt t = vpt s \<and> vpd t = vpd s \<and> vpm t = vpm s \<and>
    (\<forall>b. b < INDEX2FD 1 + 8 \<or> INDEX2FD 1 + 16 \<le> b \<longrightarrow> vread self t b = vread self s b)"
proof -
  let ?s = "s\<lparr>shown := shown s @ map (\<lambda>j. vread self s (buf + j)) [0..<k]\<rparr>"
  have k: "unat (ucast (of_nat k :: u64) :: u32) = k"
    using assms(2) by (simp add: unat_of_nat take_bit_nat_eq_self_iff unsigned_ucast_eq)
  have v: "vread self ?s = vread self s" by (auto simp: vread_def fun_eq_iff split: option.split)
  have own: "own_pages self P ?s" using assms(1) by (simp add: own_pages_def console_at_def)
  have "in_pages P (INDEX2FD 1) 4096" using assms(1) fd_page_at [of 1] by (simp add: console_at_def in_pages_def)
  then have "in_pages P (INDEX2FD 1 + 8) 8" using in_pages_part by force
  from advance_sets [OF own this, of "unat (fd_offset self (INDEX2FD 1) ?s)" k] obtain t where
    t: "advance self (INDEX2FD 1) (int k) ?s = Ret () t" "refilled ?s t"
      "\<forall>b. b < INDEX2FD 1 + 8 \<or> INDEX2FD 1 + 16 \<le> b \<longrightarrow> vread self t b = vread self ?s b" by auto
  have "write_fd devtab self 1 buf (of_nat k) s = Ret (int k) t"
    using console_lookup [OF assms(1)] assms t(1) k
    by (simp add: write_fd_def dev_lookup_def console_at_def devcons_def cons_write_def Let_def min_absorb1)
  moreover have "shown t = shown ?s" using t(2) by (auto simp: refilled_def)
  ultimately show ?thesis using refilled_fields [OF t(2)] t(3) v by auto
qed

text \<open>What the loop needs stays true.\<close>

lemma undisturbed_fd:
  assumes "undisturbed self i buf s t" and "fd \<in> {INDEX2FD (int i), INDEX2FD 1}" and "i < 32"
    and "buf + 128 \<le> fd \<or> fd + 4096 \<le> buf"
  shows "fd_dev_id self fd t = fd_dev_id self fd s" and "fd_omode self fd t = fd_omode self fd s"
    and "ffd_size self fd t = ffd_size self fd s"
proof -
  have same: "vread self t b = vread self s b" if "fd \<le> b" "b < fd + 4096" "b < fd + 8 \<or> fd + 16 \<le> b" for b
  proof -
    have "i \<noteq> 1 \<Longrightarrow> INDEX2FD (int i) + 4096 \<le> INDEX2FD 1 \<or> INDEX2FD 1 + 4096 \<le> INDEX2FD (int i)"
      using INDEX2FD_nat [OF assms(3)] INDEX2FD_nat [of 1] by (cases "i = 0") auto
    then have "b < buf \<or> buf + 128 \<le> b" "b < INDEX2FD (int i) + 8 \<or> INDEX2FD (int i) + 16 \<le> b"
      "b < INDEX2FD 1 + 8 \<or> INDEX2FD 1 + 16 \<le> b"
      using assms(2,4) that by (cases "i = 1", auto)+
    then show ?thesis using assms(1) by (simp add: undisturbed_def)
  qed
  show "fd_dev_id self fd t = fd_dev_id self fd s" "fd_omode self fd t = fd_omode self fd s"
    "ffd_size self fd t = ffd_size self fd s"
    unfolding fields_of_fd by (rule fm.ld32_cong, rule same, simp_all)+
qed

lemma undisturbed_data:
  assumes "undisturbed self i buf s t" and "i < 32" and "buf + 128 \<le> data_va i \<or> data_va i + sz \<le> buf" and "j < sz"
  shows "vread self t (data_va i + j) = vread self s (data_va i + j)"
proof -
  have "INDEX2FD (int i) + 16 \<le> data_va i + j" "INDEX2FD 1 + 16 \<le> data_va i + j"
    using assms(2) INDEX2FD_nat [of 1] by (simp_all add: INDEX2FD_nat INDEX2DATA_nat)
  moreover have "data_va i + j < buf \<or> buf + 128 \<le> data_va i + j" using assms(3,4) by linarith
  ultimately show ?thesis using assms(1) by (simp add: undisturbed_def)
qed

text \<open>A file that is open at \<open>i\<close> with \<open>sz\<close> bytes and the position \<open>off\<close>, the console at 1 and the buffer of \<open>cat\<close>.\<close>

definition cat_ready :: "unit terminal_ext dev list \<Rightarrow> unit terminal_ext client \<Rightarrow> nat set \<Rightarrow> nat \<Rightarrow> nat \<Rightarrow> nat \<Rightarrow> nat \<Rightarrow> terminal \<Rightarrow> bool" where
  "cat_ready devtab c P i buf sz off s \<longleftrightarrow>
     open_at devtab c P i s \<and> console_at devtab (self_id c) P s \<and> i \<noteq> 1 \<and>
     fd_omode (self_id c) (INDEX2FD (int i)) s AND O_ACCMODE \<noteq> O_WRONLY \<and>
     fd_offset (self_id c) (INDEX2FD (int i)) s = of_nat off \<and> unat (ffd_size (self_id c) (INDEX2FD (int i)) s) = sz \<and>
     room P i buf 128 sz \<and> (buf + 128 \<le> INDEX2FD 1 \<or> INDEX2FD 1 + 4096 \<le> buf)"

lemma cat_ready_undisturbed:
  assumes "cat_ready devtab c P i buf sz off s" and "undisturbed (self_id c) i buf s t"
    and "fd_offset (self_id c) (INDEX2FD (int i)) t = of_nat off'"
  shows "cat_ready devtab c P i buf sz off' t"
proof -
  have m: "vpt t = vpt s" "vpd t = vpd s" "vpm t = vpm s" using assms(2) by (simp_all add: undisturbed_def)
  have i: "i < 32" using assms(1) by (simp add: cat_ready_def open_at_def)
  note fd = undisturbed_fd [OF assms(2) _ i, of "INDEX2FD (int i)"] and one = undisturbed_fd [OF assms(2) _ i, of "INDEX2FD 1"]
  show ?thesis
    using assms(1,3) fd one m
    by (simp add: cat_ready_def open_at_def console_at_def own_pages_def tables_ok_def room_def)
qed

text \<open>One turn: up to 127 bytes are read and shown.\<close>

lemma cat_turn:
  assumes r: "cat_ready devtab c P i buf sz off s" and n: "off + 127 < 2 ^ 32" and k: "k = min 127 (sz - off)"
  shows "\<exists>t u. read devtab (self_id c) (int i) buf 127 s = Ret (int k) t \<and> shown t = shown s \<and>
    write_fd devtab (self_id c) 1 buf (of_nat k) t = Ret (int k) u \<and>
    shown u = shown s @ map (\<lambda>j. vread (self_id c) s (data_va i + j)) [off..<off + k] \<and>
    undisturbed (self_id c) i buf s u \<and> cat_ready devtab c P i buf sz (off + k) u"
proof -
  let ?self = "self_id c" and ?fd = "INDEX2FD (int i)"
  have i: "i < 32" "i \<noteq> 1" and room: "room P i buf 128 sz" "buf + 128 \<le> INDEX2FD 1 \<or> INDEX2FD 1 + 4096 \<le> buf"
    using r by (auto simp: cat_ready_def open_at_def)
  obtain t where t: "read devtab ?self (int i) buf 127 s = Ret (int k) t" "took ?self i off buf k s t"
    using read_takes [of devtab c P i s off 127 sz buf] r n k by (auto simp: cat_ready_def)
  have tm: "refilled s t" "shown t = shown s" "k \<le> 127" using t(2) k by (auto simp: took_def refilled_def)
  have ut: "undisturbed ?self i buf s t"
    using t(2) tm(3) refilled_fields [OF tm(1)] by (auto simp: undisturbed_def took_def)
  then have rt: "cat_ready devtab c P i buf sz (off + k) t"
    using cat_ready_undisturbed [OF r ut] t(2) by (simp add: took_def)
  then have "console_at devtab ?self P t" by (simp add: cat_ready_def)
  from write_shows [OF this tm(3), of buf] obtain u where
    u: "write_fd devtab ?self 1 buf (of_nat k) t = Ret (int k) u" "shown u = shown t @ map (\<lambda>j. vread ?self t (buf + j)) [0..<k]"
      "vpt u = vpt t" "vpd u = vpd t" "vpm u = vpm t"
      "\<forall>b. b < INDEX2FD 1 + 8 \<or> INDEX2FD 1 + 16 \<le> b \<longrightarrow> vread ?self u b = vread ?self t b" by blast
  have "map (\<lambda>j. vread ?self t (buf + j)) [0..<k] = map (\<lambda>j. vread ?self s (data_va i + j)) [off..<off + k]"
    using t(2) by (intro nth_equalityI) (simp_all add: took_def add.assoc)
  moreover have uu: "undisturbed ?self i buf s u" using ut u(3-6) by (auto simp: undisturbed_def)
  moreover have "?fd + 16 \<le> INDEX2FD 1 \<or> INDEX2FD 1 + 16 \<le> ?fd + 8"
    using i INDEX2FD_nat [OF i(1)] INDEX2FD_nat [of 1] by (cases "i = 0") auto
  then have "fd_offset ?self ?fd u = fd_offset ?self ?fd t"
    unfolding fields_of_fd by (intro fm.ld64_cong) (use u(6) in auto)
  then have "cat_ready devtab c P i buf sz (off + k) u"
    using cat_ready_undisturbed [OF r uu] t(2) by (simp add: took_def)
  ultimately show ?thesis using t(1) tm(2) u(1,2) by auto
qed

lemma cat_copies:
  "cat_ready devtab c P i buf sz off s \<Longrightarrow> off \<le> sz \<Longrightarrow> sz + 127 < 2 ^ 32 \<Longrightarrow>
    \<exists>t. cat devtab (self_id c) buf (int i) p s = Some (Ret () t) \<and>
      shown t = shown s @ map (\<lambda>j. vread (self_id c) s (data_va i + j)) [off..<sz]"
proof (induction "sz - off" arbitrary: off s rule: less_induct)
  case less
  define k where "k = min 127 (sz - off)"
  have "off + 127 < 2 ^ 32" using less.prems by simp
  from cat_turn [OF less.prems(1) this k_def] obtain t u where
    t: "read devtab (self_id c) (int i) buf 127 s = Ret (int k) t" "shown t = shown s" and
    u: "write_fd devtab (self_id c) 1 buf (of_nat k) t = Ret (int k) u" 
      "shown u = shown s @ map (\<lambda>j. vread (self_id c) s (data_va i + j)) [off..<off + k]"
      "undisturbed (self_id c) i buf s u" "cat_ready devtab c P i buf sz (off + k) u" by blast
  show ?case
  proof (cases "k = 0")
    case True
    then show ?thesis using t less.prems(2) k_def by (subst cat.simps) simp
  next
    case False
    have i: "i < 32" "buf + 128 \<le> data_va i \<or> data_va i + sz \<le> buf"
      using less.prems(1) by (auto simp: cat_ready_def open_at_def room_def)
    have "sz - (off + k) < sz - off" "off + k \<le> sz" using False k_def less.prems(2) by auto
    from less.hyps [OF this(1) u(4) this(2) less.prems(3)] obtain v where
      v: "cat devtab (self_id c) buf (int i) p u = Some (Ret () v)"
        "shown v = shown u @ map (\<lambda>j. vread (self_id c) u (data_va i + j)) [off + k..<sz]" by blast
    have "map (\<lambda>j. vread (self_id c) u (data_va i + j)) [off + k..<sz] = map (\<lambda>j. vread (self_id c) s (data_va i + j)) [off + k..<sz]"
      using undisturbed_data [OF u(3) i] by simp
    moreover have "[off..<sz] = [off..<off + k] @ [off + k..<sz]"
      using \<open>off + k \<le> sz\<close> by (metis le_add1 le_add_diff_inverse upt_add_eq_append)
    moreover have "cat devtab (self_id c) buf (int i) p s = Some (Ret () v)"
      using t(1) u(1) v(1) False by (subst cat.simps) simp
    ultimately show ?thesis using v(2) u(2) by simp
  qed
qed

text \<open>C37: \<open>cat\<close> shows the file. When a descriptor is open for a file and descriptor 1 for the console, \<open>cat\<close>
  returns after printing the bytes of the file from the position of the descriptor to its end, each once and in
  order, and nothing else, whatever the size. The buffer has 127 bytes, but the byte behind it is overwritten as
  well, so the room it needs is 128 bytes.\<close>

theorem cat_shows_file:
  assumes "cat_ready devtab c P i buf sz off s" and "off \<le> sz" and "sz + 127 < 2 ^ 32"
  shows "\<exists>t. cat devtab (self_id c) buf (int i) p s = Some (Ret () t) \<and>
    shown t = shown s @ map (\<lambda>j. vread (self_id c) s (data_va i + j)) [off..<sz]"
  using cat_copies [OF assms] .

text \<open>A file of three bytes at descriptor 0, of which the first has been read.\<close>

definition demo_bytes :: "nat \<Rightarrow> nat \<Rightarrow> u8" where
  "demo_bytes f =
    (if f = 1 then (\<lambda>_. 0)(0 := 102, 8 := 1, 16 := 2, 160 := 3)
     else if f = 2 then (\<lambda>_. 0)(0 := 99, 16 := 2)
     else if f = 4 then (\<lambda>_. 0)(0 := 72, 1 := 105, 2 := 10) else (\<lambda>_. 0))"

definition demo_space :: "nat \<Rightarrow> (nat \<times> u64) option" where
  "demo_space = [0x70000 \<mapsto> (1, USER_RW), 0x70001 \<mapsto> (2, USER_RW), 0x500 \<mapsto> (3, USER_RW), 0x80000 \<mapsto> (4, USER_RW)]"

definition demo_shell :: terminal where
  "demo_shell = \<lparr>frames = demo_bytes, frefs = (\<lambda>f. if f \<in> {1..4} then 1 else 0), slots = [], deny = [],
     vpd = (\<lambda>_ _. True), vpm = (\<lambda>_ _. True), vpt = (\<lambda>_. demo_space), live = (\<lambda>e. e = 1), newenvs = [], init_pages = 0,
     runnable = (\<lambda>_. True), handler = (\<lambda>_. None), typed = [], shown = []\<rparr>"

definition demo_client :: "unit terminal_ext client" where
  "demo_client = \<lparr>self_id = 1, fsipcbuf = 0x600000, server = (\<lambda>_ _ _ _. None)\<rparr>"

abbreviation (input) demo_devices :: "unit terminal_ext dev list" where
  "demo_devices \<equiv> [devfile demo_client, devcons 1]"

lemma demo_places: "INDEX2FD 0 = 0x70000000" "INDEX2FD 1 = 0x70001000" "INDEX2DATA 0 = 0x80000000"
  using INDEX2FD_nat [of 0] INDEX2FD_nat [of 1] INDEX2DATA_nat [of 0] by simp_all

lemma demo_reads: "vread 1 demo_shell a = (case demo_space (a div 4096) of None \<Rightarrow> 0 | Some (f, _) \<Rightarrow> demo_bytes f (a mod 4096))"
  by (simp add: vread_def demo_shell_def split: option.split)

lemma demo_fields:
  "fd_dev_id 1 0x70000000 demo_shell = 102" "fd_dev_id 1 0x70001000 demo_shell = 99" "fd_offset 1 0x70000000 demo_shell = 1"
  "fd_omode 1 0x70000000 demo_shell = 2" "fd_omode 1 0x70001000 demo_shell = 2" "ffd_size 1 0x70000000 demo_shell = 3"
  by (simp_all add: fields_of_fd ld64_def ld32_def ld16_def demo_reads demo_space_def demo_bytes_def)

lemma demo_open: "open_at demo_devices demo_client {0x70000, 0x70001, 0x500, 0x80000} 0 demo_shell"
  "room {0x70000, 0x70001, 0x500, 0x80000} 0 0x500000 128 3"
proof -
  have "own_pages 1 {0x70000, 0x70001, 0x500, 0x80000} demo_shell" "tables_ok demo_shell"
    by (auto simp: own_pages_def tables_ok_def demo_shell_def demo_space_def split: if_splits)
  then show "open_at demo_devices demo_client {0x70000, 0x70001, 0x500, 0x80000} 0 demo_shell"
    by (simp add: open_at_def demo_client_def devfile_def demo_places demo_fields)
  show "room {0x70000, 0x70001, 0x500, 0x80000} 0 0x500000 128 3"
    by (auto simp: room_def in_pages_def demo_places div_nat_eqI)
qed

lemma demo_cat_ready: "cat_ready demo_devices demo_client {0x70000, 0x70001, 0x500, 0x80000} 0 0x500000 3 1 demo_shell"
  using demo_open
  by (simp add: cat_ready_def console_at_def open_at_def demo_client_def devfile_def devcons_def demo_places demo_fields)

lemma cat_shows_file_witness:
  "\<exists>t. cat demo_devices 1 0x500000 0 0x700000 demo_shell = Some (Ret () t) \<and> shown t = [105, 10]"
proof -
  have "map (\<lambda>j. vread 1 demo_shell (data_va 0 + j)) [1..<3] = [105, 10]"
    by (simp add: demo_reads demo_places demo_space_def demo_bytes_def upt_rec)
  then show ?thesis
    using cat_shows_file [OF demo_cat_ready, of "0x700000"] by (simp add: demo_client_def demo_shell_def)
qed

lemma file_write_read_roundtrip_witness:
  "\<exists>t u v. write_fd demo_devices 1 0 0x600000 2 demo_shell = Ret 2 t \<and> seek 1 0 1 t = Ret 0 u \<and>
    read demo_devices 1 0 0x500000 2 u = Ret 2 v"
proof -
  have P: "in_pages {0x70000, 0x70001, 0x500, 0x80000} (data_va 0 + 1) 2"
    by (auto simp: in_pages_def demo_places div_nat_eqI)
  have "room {0x70000, 0x70001, 0x500, 0x80000} 0 0x500000 (2 + 1) 3"
    using demo_open(2) in_pages_part by (auto simp: room_def demo_places)
  from file_write_read_roundtrip [OF demo_open(1), of 1 3 2 "0x600000", OF _ _ _ _ _ _ _ this] show ?thesis
    using P by (auto simp: demo_client_def demo_places demo_fields)
qed

end
