(* ===== verification/Shell.thy ===== *)
theory Shell
  imports Progs Sh
begin

text \<open>
  The main program of the shell (user/sh.c): options, and the loop that reads a line, forks and waits. The
  commands go by \<open>runcmd\<close> of theory Sh, over the library's calls as arguments.
\<close>

record shell_flags =
  interactive :: int
  echocmds :: bool
  debug :: nat

definition sh_usage :: "terminal \<Rightarrow> 'b tres" where
  "sh_usage s = obind (say ''usage: sh [-dix] [command-file]\<newline>'' [] s) (\<lambda>_ s. Eret s)"

definition sh_option :: "u8 \<Rightarrow> shell_flags \<Rightarrow> terminal \<Rightarrow> shell_flags tres" where
  "sh_option c fl s =
    (if c = of_char CHR ''d'' then Ret (fl\<lparr>debug := debug fl + 1\<rparr>) s
     else if c = of_char CHR ''i'' then Ret (fl\<lparr>interactive := 1\<rparr>) s
     else if c = of_char CHR ''x'' then Ret (fl\<lparr>echocmds := True\<rparr>) s
     else sh_usage s)"

text \<open>The frame of the greeting is printed line by line.\<close>

definition greet :: "terminal \<Rightarrow> unit tres" where
  "greet s =
    (let bar = replicate 61 CHR '':''; side = ''::'' in
     obind (say (''\<newline>'' @ bar @ ''\<newline>'') [] s) (\<lambda>_ s.
     obind (say (side @ replicate 57 CHR '' '' @ side @ ''\<newline>'') [] s) (\<lambda>_ s.
     obind (say (side @ replicate 14 CHR '' '' @ ''Super Shell  V2.3.3_3'' @ replicate 22 CHR '' '' @ side @ ''\<newline>'') [] s) (\<lambda>_ s.
     obind (say (side @ replicate 57 CHR '' '' @ side @ ''\<newline>'') [] s) (\<lambda>_ s.
     say (bar @ ''\<newline>'') [] s)))))"

text \<open>One line and the child for it: \<open>None\<close> for a comment, otherwise the result of \<open>fork\<close>.\<close>

definition next_line ::
    "unit terminal_ext dev list \<Rightarrow> u32 \<Rightarrow> terminal sh_calls \<Rightarrow> shell_flags \<Rightarrow> nat \<Rightarrow> nat \<Rightarrow> terminal \<Rightarrow> int option tres" where
  "next_line devtab self sh fl buf at s =
    obind (if interactive fl \<noteq> 0 then put devtab self at ''\<newline>$ '' [] s else Ret () s) (\<lambda>_ s.
    obind (readline self (read devtab self 0) buf 1024 s) (\<lambda>_ s.
      if vread self s buf = 35 then Ret None s
      else obind (if echocmds fl then with_string self buf (\<lambda>l s. put devtab self at ''# %s\<newline>'' [Str l] s) s else Ret () s) (\<lambda>_ s.
        obind (sh_fork sh s) (\<lambda>r s. Ret (Some r) s))))"

partial_function (option) sh_loop ::
    "unit terminal_ext dev list \<Rightarrow> u32 \<Rightarrow> terminal sh_calls \<Rightarrow> scanner \<Rightarrow> shell_flags \<Rightarrow> nat \<Rightarrow> nat \<Rightarrow> terminal \<Rightarrow> unit tres option" where
  "sh_loop devtab self sh k fl buf at s =
    (case next_line devtab self sh fl buf at s of
       Ret None s \<Rightarrow> sh_loop devtab self sh k fl buf at s
     | Ret (Some r) s \<Rightarrow>
         if r < 0 then Some (die ''sh.c'' 230 ''fork: %e'' [Num (of_int r)] s)
         else if r = 0 then Some (obind (runcmd (\<lambda>s. vread self s) (vwrite self) sh k buf s) (\<lambda>_ s. Eret s))
         else (case sh_wait sh r s of
             Ret _ s \<Rightarrow> sh_loop devtab self sh k fl buf at s
           | Eret s \<Rightarrow> Some (Eret s) | Panic m s \<Rightarrow> Some (Panic m s) | Hang \<Rightarrow> Some Hang)
     | Eret s \<Rightarrow> Some (Eret s) | Panic m s \<Rightarrow> Some (Panic m s) | Hang \<Rightarrow> Some Hang)"

text \<open>Behind the options, \<open>argv[1]\<close> of one argument is the null pointer, and its panic takes an argument more than it has.\<close>

definition sh_umain where
  "sh_umain devtab c sh k buf at argv s =
    (let self = self_id c in
     obind (greet s) (\<lambda>_ s.
     obind (options self sh_option (tl argv) \<lparr>interactive = 63, echocmds = False, debug = 0\<rparr> s) (\<lambda>(fl, argv) s.
     obind (if length argv > 1 then sh_usage s
            else if length argv = 1 then
              obind (close devtab self 0 s) (\<lambda>_ s.
              obind (open_file c 0 O_RDONLY s) (\<lambda>r s.
                if r < 0 then die ''sh.c'' 214 ''open %s: %e'' [Num (of_int r)] s
                else if r \<noteq> 0 then die ''sh.c'' 215 ''assertion failed: %s'' [Str (chars ''r == 0'')] s
                else Ret () s))
            else Ret () s) (\<lambda>_ s.
     of_opt (sh_loop devtab self sh k (if interactive fl = 63 then fl\<lparr>interactive := iscons self 0 s\<rparr> else fl) buf at s)))))"

text \<open>A line that starts with \<open>#\<close> is skipped, and a command in the foreground is waited for before the next line.\<close>

lemma sh_loop_comment:
  "next_line devtab self sh fl buf at s = Ret None t \<Longrightarrow> sh_loop devtab self sh k fl buf at s = sh_loop devtab self sh k fl buf at t"
  by (subst sh_loop.simps) simp

lemma sh_loop_waits:
  "next_line devtab self sh fl buf at s = Ret (Some r) t \<Longrightarrow> r > 0 \<Longrightarrow> sh_wait sh r t = Ret () u \<Longrightarrow>
    sh_loop devtab self sh k fl buf at s = sh_loop devtab self sh k fl buf at u"
  by (subst sh_loop.simps) simp

end
