(* ===== verification/Spec2Isabelle.thy ===== *)
theory Spec2Isabelle
  imports Memory Exceptions Servprops Printfprops Forkprops Fdprops Pipeprops Console Shprops Spawnprops Ipckernel Imageprops Startup Stubs Sdcard Uartprops Progprops Shell
begin

text \<open>
  A verification of the core of a small operating system for the Raspberry Pi 3: the kernel (mm/, boot/,
  kernel/), the file server (fs/) and the library of user programs (user/).

  \<^bold>\<open>How the program is put together.\<close> The kernel manages pages (mm/pmap.c), three-level page tables,
  environments (kernel/env.c) and a round-robin scheduler (kernel/sched.c); an exception enters
  kernel/exception_handler.c, which maps a page on demand or runs one of the system calls of
  kernel/syscall_all.c. The file server is a user environment that keeps the blocks of the SD card in its
  own memory (fs/fs.c, fs/sd_card.c) and serves the requests that arrive as messages (fs/serv.c). Programs
  share the string, message and output routines of user/.

  \<^bold>\<open>Kernel.\<close>
  \<^item> Prelude: word types, \<open>ROUND\<close>, the result type \<open>outcome\<close> of code that returns, leaves through an
    exception return, panics or hangs, and \<open>obind\<close>.
  \<^item> Queue: include/queue.h, doubly linked lists over an explicit store of links. \<open>repr\<close> relates a list to
    the elements on it; the locale \<open>queue\<close> states what the scheduler needs, interpreted on these links.
  \<^item> Pmap: mm/pmap.c with physical memory as a map from addresses to 64-bit words. AddrSpace: the
    abstraction \<open>vmap\<close> of a page directory to a map from virtual pages to physical pages and permissions,
    the invariant \<open>wf_spaces\<close> (tables are trees, reference counts count, no page is both free and used), and the
    refinement of \<open>page_insert\<close>, \<open>page_remove\<close> and \<open>page_lookup\<close>. FreshPages, Boot, Memory: the allocator,
    the boot page tables (boot/init.c) and the properties of memory.
  \<^item> Bytes, Kmem, Elf: bytes in the words of memory, \<open>bcopy\<close> and \<open>bzero\<close> (kernel/main.c), and the loader
    (kernel/kernel_elfloader.c).
  \<^item> Env, Frames, Release, EnvProps, NewSpace: kernel/env.c; what an operation leaves alone, how \<open>env_free\<close>
    gives an address space back and \<open>env_alloc\<close> makes one.
  \<^item> Sched: kernel/sched.c, its two lists abstracted to one ring of waiting environments.
  \<^item> Syscall, KernelInv, Exceptions: system calls and exceptions, and the invariant \<open>kinv\<close> of the whole
    kernel that every exception keeps.
  \<^item> Counts, Loader, Startup: what \<open>page_insert\<close> does to the reference counts, the pages that loading a program
    leaves alone, and the creation of the first environments by \<open>kernel_main\<close>, which establishes \<open>kinv\<close>.

  \<^bold>\<open>File server.\<close>
  \<^item> Ulib, Umem: user/string.c, \<open>user_bcopy\<close>, \<open>user_bzero\<close>; the memory of a user program and the system calls
    on it. The locale \<open>byte_mem\<close> (Bytes) carries the laws of loads and stores for kernel and user memory.
  \<^item> Sd, Fs, Fsfile: fs/sd_card.c and fs/fs.c. The card is an array of sectors; the structures of
    include/fs.h live in the server's memory at the offsets the compiler gives them.
  \<^item> Fsblocks, Fsprops: the bitmap as a set of free blocks (locale \<open>block_pool\<close>), the block cache, growing and
    truncating a file, and its shape (\<open>file_ok\<close>). Serv, Servprops: fs/serv.c, its table of open files and its message loop.

  \<^bold>\<open>User programs.\<close>
  \<^item> Vm: the memory of several environments as the system calls show it, page frames with a map from virtual
    pages to frames for each environment and the number of mappings of each frame. Fork, Forkprops:
    user/fork.c and user/pgfault.c; \<open>vm_ok\<close> says that a writable page that is not a library page has its frame
    to itself, \<open>forked\<close> relates the memory before and during \<open>fork\<close>.
  \<^item> Fd, Fdprops: user/fd.c, descriptors as pages at fixed addresses, devices as records of functions. Console,
    File: the devices of user/console.c and user/file.c, with the requests of user/fsipc.c; what the file
    server answers is an argument.
  \<^item> Own, Fileprops: a program's own pages behave as a memory (\<open>own_pages\<close>, \<open>refilled\<close>); reading and writing open
    files. Progs, Progprops: the commands (cat, echo, ls, touch, mkdir), init
    and icode, with user/fprintf.c and user/libos.c. Shell: the main program of user/sh.c.
  \<^item> Pipe, Pipeprops: user/pipe.c. Reader and writer are step machines over the shared page, cut at every access
    to what others change; \<open>step\<close> interleaves them with other programs that duplicate and close descriptors.
    The invariants are \<open>stream_ok\<close> (the ring is a queue, the abstraction \<open>fifo\<close>) and \<open>refs_ok\<close> (what a running
    \<open>_pipeisclosed\<close> knows about the reference counts).
  \<^item> Sh, Shprops: user/sh.c, its scanner against a scanner of lists. Spawn, Spawnprops: user/spawn.c, the
    stack, the segments and the shared pages of a new program.
  \<^item> Fsformat, Imageprops: fs/fsformat.c, the host's tool that writes the image of the card; \<open>stored\<close> says that
    the blocks of an entry hold a file.
  \<^item> Vmkernel, Ipckernel: the kernel implements Vm. \<open>vm_shown\<close> relates page tables, reference counts, bitmap and
    environment table to the maps of Vm, the system calls on memory and the sending of a message keep it.
    Stubs: user/syscall_lib.c, from the registers a stub loads through the exception to its result.

  \<^bold>\<open>Devices.\<close> Mmio, Emmc, Emmcprops: lib/sd.c in the state monad of the library. A device is any function from the
  accesses made so far to the value of a register, so the theorems hold for every card and every failure.
  \<open>does\<close> states what a run returns and accesses, \<open>seen\<close> what a card sees of it: sizes, arguments, commands and
  words in their order. Sdcard: what a card does that keeps its data is the hypothesis \<open>plays\<close>; in front of such a
  card the driver is an array of blocks, which is how Sd models the card for the file server.
  Uart, Uartprops: boot/uart.c, drivers/gxconsole/console.c, boot/mailbox.c and lib/delay.c; \<open>lets_go\<close> is what
  a device must promise for waiting to end. Mmioprops holds what both drivers' proofs share.

  \<^bold>\<open>Output.\<close> Printf, Printfprops: lib/print.c, lib/printf.c and the copy in user/writef.c.

  \<^bold>\<open>Loops and bounds.\<close> A loop that may not end is \<open>partial_function (option)\<close> (list walks, strings, path
  walks, digit loops) and a theorem says when it returns; the message loop of the server, which never ends,
  takes the number of rounds. All other loops are total functions.

  \<^bold>\<open>Parameters.\<close> The linker's addresses, the ELF image, the answers of the SD card and of other environments,
  and the pages the kernel has left for a user program are fields of the state or arguments. The places of
  local buffers on the stack are arguments, and so is what a variable holds that the code uses before it is set.

  \<^bold>\<open>Not modelled.\<close> Assembly (boot, exception entry, context switch), the TLB and caches, and the test
  programs.
\<close>

end
